(* ===== verification/Prelude.thy ===== *)
theory Prelude
  imports
    Complex_Main
    "HOL-Library.Word"
    "HOL-Library.AList"
    "HOL-Library.Char_ord"
    "HOL-Library.List_Lexorder"
begin

text \<open>
  Shared vocabulary of the development: the names the C++ code gives to its basic types, its
  error results (\<open>utils/result.h\<close>), decimal text as \<open>std::format\<close> and \<open>std::from_chars\<close> write and
  read it (\<open>utils/helpers.h\<close>), integer division that truncates towards zero, and the generic
  lemmas on association lists and words that the components share.

  \<open>double\<close> is modelled by the real numbers: every arithmetic statement of the development is one
  about exact arithmetic. Rounding, infinities and NaN are not modelled.
\<close>

section \<open>Names and error results\<close>

type_synonym double = real
type_synonym Symbol = string
type_synonym BarPeriod = string
type_synonym AccountId = string
type_synonym StrategyId = string
type_synonym LocalOrderId = string
type_synonym BrokerOrderId = string
type_synonym u64 = "64 word"

text \<open>\<open>Result<T>\<close> is \<open>std::expected<T, Error>\<close>: \<open>Inl\<close> is the unexpected error.\<close>

datatype ErrorType = Error | FailedOrder

record error =
  message :: string
  etype :: ErrorType

type_synonym 'a result = "error + 'a"

definition mk_error :: "string \<Rightarrow> ErrorType \<Rightarrow> error" where
  "mk_error msg t = \<lparr>message = msg, etype = t\<rparr>"

fun is_ok :: "'a result \<Rightarrow> bool" where
  "is_ok (Inl e) = False"
| "is_ok (Inr v) = True"

lemma is_ok_iff: "is_ok r \<longleftrightarrow> (\<exists>v. r = Inr v)"
  by (cases r) auto

text \<open>Fact collections: definitions of the operations, and facts about what they leave alone.\<close>

named_theorems op_defs \<open>definitions of the modelled operations\<close>
named_theorems frame \<open>components of the state an operation leaves unchanged\<close>

section \<open>Integers\<close>

text \<open>C++ integer division truncates towards zero, and \<open>%\<close> takes the sign of the dividend.\<close>

definition cpp_div :: "int \<Rightarrow> int \<Rightarrow> int" where
  "cpp_div a b = sgn a * sgn b * (\<bar>a\<bar> div \<bar>b\<bar>)"

definition cpp_mod :: "int \<Rightarrow> int \<Rightarrow> int" where
  "cpp_mod a b = a - cpp_div a b * b"

lemma cpp_div_nonneg [simp]: "0 \<le> a \<Longrightarrow> 0 < b \<Longrightarrow> cpp_div a b = a div b"
  by (cases "a = 0") (simp_all add: cpp_div_def)

lemma cpp_mod_nonneg [simp]: "0 \<le> a \<Longrightarrow> 0 < b \<Longrightarrow> cpp_mod a b = a mod b"
  by (simp add: cpp_mod_def minus_div_mult_eq_mod)

text \<open>A signed 64-bit value; a computation whose exact result leaves the range wraps.\<close>

definition wrap64 :: "int \<Rightarrow> int" where
  "wrap64 x = sint (word_of_int x :: 64 word)"

definition in_i64 :: "int \<Rightarrow> bool" where
  "in_i64 x \<longleftrightarrow> - (2 ^ 63) \<le> x \<and> x < 2 ^ 63"

lemma wrap64_id: "in_i64 x \<Longrightarrow> wrap64 x = x"
  by (simp add: wrap64_def in_i64_def sint_sbintrunc' signed_take_bit_int_eq_self)

section \<open>Decimal text\<close>

definition digit_char :: "nat \<Rightarrow> char" where
  "digit_char n = char_of (48 + n)"

definition digit_value :: "char \<Rightarrow> nat" where
  "digit_value c = of_char c - 48"

definition is_digit :: "char \<Rightarrow> bool" where
  "is_digit c \<longleftrightarrow> 48 \<le> (of_char c :: nat) \<and> (of_char c :: nat) \<le> 57"

fun decimal :: "nat \<Rightarrow> string" where
  "decimal n = (if n < 10 then [digit_char n] else decimal (n div 10) @ [digit_char (n mod 10)])"

declare decimal.simps [simp del]

lemma decimal_less [simp]: "n < 10 \<Longrightarrow> decimal n = [digit_char n]"
  by (subst decimal.simps) simp

text \<open>To evaluate a closed term: the guard is decided on numerals before the rewrite is used.\<close>

lemma decimal_step: "10 \<le> n \<Longrightarrow> decimal n = decimal (n div 10) @ [digit_char (n mod 10)]"
  by (subst decimal.simps) simp

definition int_decimal :: "int \<Rightarrow> string" where
  "int_decimal i = (if i < 0 then CHR ''-'' # decimal (nat (- i)) else decimal (nat i))"

text \<open>\<open>{:0wd}\<close>: at least \<open>w\<close> characters, zeros after the sign.\<close>

definition pad_decimal :: "nat \<Rightarrow> nat \<Rightarrow> string" where
  "pad_decimal w n = (let ds = decimal n in replicate (w - length ds) (CHR ''0'') @ ds)"

definition pad_int_decimal :: "nat \<Rightarrow> int \<Rightarrow> string" where
  "pad_int_decimal w i =
     (if i < 0 then CHR ''-'' # pad_decimal (w - 1) (nat (- i)) else pad_decimal w (nat i))"

definition digits_value :: "string \<Rightarrow> nat" where
  "digits_value ds = foldl (\<lambda>acc c. 10 * acc + digit_value c) 0 ds"

text \<open>
  \<open>utils::str_to_int\<close>: \<open>std::from_chars\<close> on an \<open>int\<close> reads an optional minus sign and then the
  longest run of digits. It fails with no digit, and when the value is outside \<open>int\<close>; the
  helper also fails when text is left over.
\<close>

definition str_to_int :: "string \<Rightarrow> int option" where
  "str_to_int str =
     (let neg = (case str of c # _ \<Rightarrow> c = CHR ''-'' | [] \<Rightarrow> False);
          ds = (if neg then tl str else str)
      in if ds = [] \<or> \<not> list_all is_digit ds then None
         else let v = (if neg then - int (digits_value ds) else int (digits_value ds))
              in if - (2 ^ 31) \<le> v \<and> v < 2 ^ 31 then Some v else None)"

lemma of_char_digit [simp]: "n < 10 \<Longrightarrow> (of_char (digit_char n) :: nat) = 48 + n"
  by (simp add: digit_char_def)

lemma is_digit_digit_char [simp]: "n < 10 \<Longrightarrow> is_digit (digit_char n)"
  by (simp add: is_digit_def)

lemma digit_value_digit_char [simp]: "n < 10 \<Longrightarrow> digit_value (digit_char n) = n"
  by (simp add: digit_value_def)

lemma decimal_not_Nil [simp]: "decimal n \<noteq> []"
  by (subst decimal.simps) simp

lemma decimal_digits: "list_all is_digit (decimal n)"
proof (induction n rule: decimal.induct)
  case (1 n)
  then show ?case by (subst decimal.simps) simp
qed

lemma digits_value_snoc: "digits_value (ds @ [c]) = 10 * digits_value ds + digit_value c"
  by (simp add: digits_value_def)

lemma digits_value_decimal [simp]: "digits_value (decimal n) = n"
proof (induction n rule: decimal.induct)
  case (1 n)
  show ?case
  proof (cases "n < 10")
    case True
    then show ?thesis by (subst decimal.simps) (simp add: digits_value_def)
  next
    case False
    with 1 show ?thesis by (subst decimal.simps) (simp add: digits_value_snoc)
  qed
qed

lemma decimal_inj: "decimal m = decimal n \<Longrightarrow> m = n"
  by (metis digits_value_decimal)

lemma digits_value_zeros: "digits_value (replicate k (CHR ''0'') @ ds) = digits_value ds"
  by (induction k) (simp_all add: digits_value_def digit_value_def)

lemma digits_value_pad [simp]: "digits_value (pad_decimal w n) = n"
  by (simp add: pad_decimal_def Let_def digits_value_zeros)

lemma pad_decimal_inj: "pad_decimal w m = pad_decimal w n \<Longrightarrow> m = n"
  by (metis digits_value_pad)

lemma is_digit_zero: "is_digit (CHR ''0'')"
  by (simp add: is_digit_def)

lemma pad_decimal_digits: "list_all is_digit (pad_decimal w n)"
  using decimal_digits[of n] is_digit_zero
  by (auto simp: pad_decimal_def Let_def list_all_iff)

text \<open>The separators of the program's identifiers are not digits.\<close>

lemma not_digit_underscore: "\<not> is_digit (CHR ''_'')"
  by (simp add: is_digit_def)

lemma not_digit_minus: "\<not> is_digit (CHR ''-'')"
  by (simp add: is_digit_def)

lemma pad_decimal_no_underscore: "CHR ''_'' \<notin> set (pad_decimal w n)"
  using pad_decimal_digits[of w n] not_digit_underscore by (auto simp: list_all_iff)

lemma str_to_int_decimal:
  assumes "- (2 ^ 31) \<le> i" and "i < 2 ^ 31"
  shows "str_to_int (int_decimal i) = Some i"
proof (cases "i < 0")
  case True
  with assms show ?thesis
    by (simp add: str_to_int_def int_decimal_def decimal_digits Let_def)
next
  case False
  obtain c cs where c: "decimal (nat i) = c # cs"
    by (cases "decimal (nat i)") auto
  have "is_digit c"
    using decimal_digits[of "nat i"] c by simp
  then have "c \<noteq> CHR ''-''"
    using not_digit_minus by auto
  moreover have "digits_value (c # cs) = nat i" and "list_all is_digit (c # cs)"
    using c digits_value_decimal[of "nat i"] decimal_digits[of "nat i"] by simp_all
  ultimately show ?thesis
    using False assms c by (simp add: str_to_int_def int_decimal_def Let_def)
qed

text \<open>Printing an \<open>int\<close> in decimal and reading it back with \<open>str_to_int\<close> gives the same number.\<close>

theorem str_to_int_roundtrip:
  assumes "- (2 ^ 31) \<le> i" and "i < 2 ^ 31"
  shows "str_to_int (int_decimal i) = Some i"
  by (rule str_to_int_decimal [OF assms])

theorem str_to_int_roundtrip_witness:
  "str_to_int (int_decimal (- 2147483648)) = Some (- 2147483648)"
  by (rule str_to_int_roundtrip) simp_all

section \<open>Association lists\<close>

text \<open>
  An \<open>std::unordered_map\<close> the code iterates over is an association list with distinct keys, in
  some iteration order.
\<close>

lemma map_of_update [simp]: "map_of (AList.update k v al) = (map_of al)(k \<mapsto> v)"
  by (rule update_conv')

lemma distinct_keys_update [simp]:
  "distinct (map fst al) \<Longrightarrow> distinct (map fst (AList.update k v al))"
  by (rule distinct_update)

lemma sum_list_update_assoc:
  fixes f :: "'k \<Rightarrow> 'v \<Rightarrow> real"
  assumes "distinct (map fst al)"
  shows "(\<Sum>(k', u)\<leftarrow>AList.update k v al. f k' u)
         = (\<Sum>(k', u)\<leftarrow>al. f k' u)
           + (f k v - (case map_of al k of None \<Rightarrow> 0 | Some u \<Rightarrow> f k u))"
  using assms
proof (induction al)
  case Nil
  then show ?case by simp
next
  case (Cons p al)
  obtain a b where p: "p = (a, b)" by (cases p)
  show ?case
  proof (cases "a = k")
    case True
    with p show ?thesis by simp
  next
    case False
    with Cons p show ?thesis by simp
  qed
qed

section \<open>Words\<close>

lemma unat_plus_one: "unat (c :: u64) + 1 < 2 ^ 64 \<Longrightarrow> unat (c + 1) = unat c + 1"
  by (simp add: unat_word_ariths)

lemma unat_of_int_small:
  assumes "0 \<le> i" and "i < 2 ^ 64"
  shows "unat (word_of_int i :: u64) = nat i"
  using assms by (simp add: unat_eq_nat_uint uint_word_of_int)

end
