(* ===== verification/Protos.thy ===== *)
theory Protos
  imports Prelude
begin

text \<open>
  The protobuf messages of \<open>contracts/\<close> that the engine reads and writes, and the market data
  structs of \<open>i_market_data_feed.h\<close>. A proto3 enum is open: a message may carry a number the enum
  does not name, so every enum whose \<open>switch\<close> has a default branch in the code gets a constructor
  for the rest. A submessage the code tests with \<open>has_\<close> is an option; a repeated field is a list.
\<close>

datatype Side = UNKNOWN_SIDE | BUY | SELL | Side_other int

datatype OrderType = UNKNOWN_TYPE | MARKET | LIMIT | STOP | STOP_LIMIT | OrderType_other int

datatype TimeInForce = DAY | GTC | IOC | FOK | TimeInForce_other int

text \<open>The wire numbers of the enums, as \<open>static_cast<int>\<close> reads them.\<close>

fun side_number :: "Side \<Rightarrow> int" where
  "side_number UNKNOWN_SIDE = 0"
| "side_number BUY = 1"
| "side_number SELL = 2"
| "side_number (Side_other n) = n"

fun order_type_number :: "OrderType \<Rightarrow> int" where
  "order_type_number UNKNOWN_TYPE = 0"
| "order_type_number MARKET = 1"
| "order_type_number LIMIT = 2"
| "order_type_number STOP = 3"
| "order_type_number STOP_LIMIT = 4"
| "order_type_number (OrderType_other n) = n"

fun time_in_force_number :: "TimeInForce \<Rightarrow> int" where
  "time_in_force_number DAY = 0"
| "time_in_force_number GTC = 1"
| "time_in_force_number IOC = 2"
| "time_in_force_number FOK = 3"
| "time_in_force_number (TimeInForce_other n) = n"

text \<open>\<open>v1::OrderStatus\<close>, not to be confused with the store's own \<open>OrderStatus\<close>.\<close>

datatype V1OrderStatus =
  V1_NEW | V1_SUBMITTED | V1_PARTIAL_FILL | V1_FILLED | V1_CANCELLED | V1_REJECTED
| V1_other int

record order =
  ord_id :: string
  ord_symbol :: Symbol
  ord_side :: Side
  ord_quantity :: double
  ord_price :: double
  ord_type :: OrderType
  ord_status :: V1OrderStatus
  ord_time_in_force :: TimeInForce
  ord_account_id :: AccountId
  ord_strategy_id :: StrategyId
  ord_created_at :: string

record execution_report =
  er_broker_order_id :: BrokerOrderId
  er_symbol :: Symbol
  er_side :: Side
  er_filled_quantity :: double
  er_avg_fill_price :: double
  er_fill_time :: string
  er_execution_id :: string
  er_status :: V1OrderStatus

text \<open>A default-constructed report: empty strings, zeros and the first enum values.\<close>

definition empty_report :: execution_report where
  "empty_report = \<lparr>er_broker_order_id = '''', er_symbol = '''', er_side = UNKNOWN_SIDE,
     er_filled_quantity = 0, er_avg_fill_price = 0, er_fill_time = '''', er_execution_id = '''',
     er_status = V1_NEW\<rparr>"

record strategy_signal =
  sig_strategy_id :: StrategyId
  sig_symbol :: Symbol
  sig_side :: Side
  sig_target_quantity :: double
  sig_generated_at :: string

record cancel_signal =
  can_strategy_id :: StrategyId
  can_order_id :: string
  can_generated_at :: string

record replace_signal =
  rep_strategy_id :: StrategyId
  rep_symbol :: Symbol
  rep_side :: Side
  rep_target_quantity :: double
  rep_generated_at :: string
  rep_order_id :: string

text \<open>\<open>v1::Position\<close>.\<close>

record v1_position =
  vp_symbol :: Symbol
  vp_quantity :: double
  vp_avg_price :: double
  vp_unrealized_pnl :: double
  vp_realized_pnl :: double

definition empty_v1_position :: v1_position where
  "empty_v1_position = \<lparr>vp_symbol = '''', vp_quantity = 0, vp_avg_price = 0,
     vp_unrealized_pnl = 0, vp_realized_pnl = 0\<rparr>"

text \<open>Market data: the structs \<open>Bar\<close> and \<open>Tick\<close>; the \<open>int64_t\<close> timestamps are nanoseconds.\<close>

record bar =
  bar_symbol :: Symbol
  bar_period :: BarPeriod
  bar_open :: double
  bar_high :: double
  bar_low :: double
  bar_close :: double
  bar_volume :: double
  bar_vwap :: double
  bar_ts_ns :: int
  bar_ts_recv_ns :: int

record tick =
  tick_symbol :: Symbol
  tick_bid :: double
  tick_ask :: double
  tick_last :: double
  tick_bid_size :: double
  tick_ask_size :: double
  tick_last_size :: double
  tick_ts_ns :: int
  tick_ts_recv_ns :: int

text \<open>The messages of strategy registration, of the kill switch and of the position queries.\<close>

datatype FeedType = Feed_Simulated | Feed_Alpaca | Feed_Adapter | Feed_other int

fun feed_number :: "FeedType \<Rightarrow> int" where
  "feed_number Feed_Simulated = 0"
| "feed_number Feed_Alpaca = 1"
| "feed_number Feed_Adapter = 2"
| "feed_number (Feed_other n) = n"

datatype GatewayType = PaperTradingGW | GrpcAdapterGW | AlpacaGW | Gateway_other int

fun gateway_number :: "GatewayType \<Rightarrow> int" where
  "gateway_number PaperTradingGW = 0"
| "gateway_number GrpcAdapterGW = 1"
| "gateway_number AlpacaGW = 2"
| "gateway_number (Gateway_other n) = n"

datatype HaltMode = STOP_STRATEGY | HALT_ALL | HaltMode_other int

record adapter_config =
  ac_venue :: string
  ac_credentials_path :: string
  ac_port :: int

record market_data_subscription =
  mds_symbol :: Symbol
  mds_period :: "BarPeriod option"

record market_data_config =
  mdc_feed :: FeedType
  mdc_subscriptions :: "market_data_subscription list"

record risk_config =
  rc_max_quantity :: double
  rc_max_open_orders :: u64
  rc_daily_pnl_limit :: double

record register_strategy_request =
  rsr_strategy_id :: StrategyId
  rsr_account_id :: AccountId
  rsr_gateway :: GatewayType
  rsr_adapter :: "adapter_config option"
  rsr_market_data :: "market_data_config option"
  rsr_risk_params :: "risk_config option"

record kill_switch_request =
  ks_reason :: string
  ks_initiated_by :: string
  ks_strategy_id :: StrategyId
  ks_mode :: HaltMode

text \<open>The message of an \<open>optional\<close> submessage that is absent reads as all defaults.\<close>

definition empty_adapter_config :: adapter_config where
  "empty_adapter_config = \<lparr>ac_venue = '''', ac_credentials_path = '''', ac_port = 0\<rparr>"

end
