(* ===== verification/OrderIds.thy ===== *)
theory OrderIds
  imports Prelude
begin

text \<open>
  Order identifiers: \<open>utils/order_id_types.h\<close> (the pair of a local and a broker id, and the two-way
  \<open>OrderIdMapper\<close>) and \<open>utils/order_id_generator.h\<close>. The interface \<open>id_source\<close> states what the order
  manager needs of a generator, that an id is never handed out twice, and is interpreted on the
  generator's own definition.
\<close>

section \<open>OrderId\<close>

record order_id =
  local_id :: LocalOrderId
  broker_id :: "BrokerOrderId option"

definition mk_order_id :: "LocalOrderId \<Rightarrow> order_id" where
  "mk_order_id l = \<lparr>local_id = l, broker_id = None\<rparr>"

definition set_broker_id :: "BrokerOrderId \<Rightarrow> order_id \<Rightarrow> order_id" where
  "set_broker_id b o_id = o_id\<lparr>broker_id := Some b\<rparr>"

text \<open>\<open>Inl\<close> is the text of the \<open>std::runtime_error\<close>.\<close>

definition get_broker_id_or_throw :: "order_id \<Rightarrow> string + BrokerOrderId" where
  "get_broker_id_or_throw o_id =
     (case broker_id o_id of
        None \<Rightarrow> Inl (''Broker ID not yet assigned for local ID: '' @ local_id o_id)
      | Some b \<Rightarrow> Inr b)"

definition order_id_to_string :: "order_id \<Rightarrow> string" where
  "order_id_to_string o_id =
     (case broker_id o_id of
        Some b \<Rightarrow> local_id o_id @ '' [broker: '' @ b @ '']''
      | None \<Rightarrow> local_id o_id @ '' [pending]'')"

section \<open>OrderIdMapper\<close>

record order_id_mapper =
  local_to_broker :: "LocalOrderId \<rightharpoonup> BrokerOrderId"
  broker_to_local :: "BrokerOrderId \<rightharpoonup> LocalOrderId"

definition empty_mapper :: order_id_mapper where
  "empty_mapper = \<lparr>local_to_broker = Map.empty, broker_to_local = Map.empty\<rparr>"

definition add_mapping :: "LocalOrderId \<Rightarrow> BrokerOrderId \<Rightarrow> order_id_mapper \<Rightarrow> order_id_mapper" where
  "add_mapping l b m =
     m\<lparr>local_to_broker := (local_to_broker m)(l \<mapsto> b),
       broker_to_local := (broker_to_local m)(b \<mapsto> l)\<rparr>"

definition get_broker_id :: "order_id_mapper \<Rightarrow> LocalOrderId \<Rightarrow> BrokerOrderId option" where
  "get_broker_id m l = local_to_broker m l"

definition get_local_id :: "order_id_mapper \<Rightarrow> BrokerOrderId \<Rightarrow> LocalOrderId option" where
  "get_local_id m b = broker_to_local m b"

definition remove_mapping :: "LocalOrderId \<Rightarrow> order_id_mapper \<Rightarrow> order_id_mapper" where
  "remove_mapping l m =
     (case local_to_broker m l of
        None \<Rightarrow> m
      | Some b \<Rightarrow> m\<lparr>local_to_broker := (local_to_broker m)(l := None),
                     broker_to_local := (broker_to_local m)(b := None)\<rparr>)"

lemmas mapper_defs [op_defs] =
  empty_mapper_def add_mapping_def get_broker_id_def get_local_id_def remove_mapping_def

text \<open>
  The number of live orders, and the invariant that every broker id leads to a local id that
  leads back to it. The stronger \<open>mapper_bij\<close> needs broker ids to be unique too.
\<close>

definition live_count :: "order_id_mapper \<Rightarrow> nat" where
  "live_count m = card (dom (local_to_broker m))"

definition mapper_inv :: "order_id_mapper \<Rightarrow> bool" where
  "mapper_inv m \<longleftrightarrow> finite (dom (local_to_broker m)) \<and>
     (\<forall>b l. broker_to_local m b = Some l \<longrightarrow> local_to_broker m l = Some b)"

definition mapper_bij :: "order_id_mapper \<Rightarrow> bool" where
  "mapper_bij m \<longleftrightarrow> finite (dom (local_to_broker m)) \<and>
     (\<forall>b l. broker_to_local m b = Some l \<longleftrightarrow> local_to_broker m l = Some b)"

lemma mapper_bij_inv: "mapper_bij m \<Longrightarrow> mapper_inv m"
  by (simp add: mapper_bij_def mapper_inv_def)

lemma mapper_inv_empty [simp]: "mapper_inv empty_mapper"
  by (simp add: mapper_inv_def empty_mapper_def)

lemma mapper_bij_empty [simp]: "mapper_bij empty_mapper"
  by (simp add: mapper_bij_def empty_mapper_def)

lemma live_count_empty [simp]: "live_count empty_mapper = 0"
  by (simp add: live_count_def empty_mapper_def)

lemma mapper_inv_add:
  "mapper_inv m \<Longrightarrow> get_broker_id m l = None \<Longrightarrow> mapper_inv (add_mapping l b m)"
  by (auto simp: mapper_inv_def op_defs split: if_splits)

lemma mapper_inv_remove: "mapper_inv m \<Longrightarrow> mapper_inv (remove_mapping l m)"
  by (auto simp: mapper_inv_def op_defs split: option.splits if_splits)

lemma mapper_bij_add:
  "mapper_bij m \<Longrightarrow> get_broker_id m l = None \<Longrightarrow> get_local_id m b = None
   \<Longrightarrow> mapper_bij (add_mapping l b m)"
  by (auto simp: mapper_bij_def op_defs) (metis option.distinct(1))

lemma mapper_bij_remove: "mapper_bij m \<Longrightarrow> mapper_bij (remove_mapping l m)"
  by (auto simp: mapper_bij_def op_defs split: option.splits) (metis option.inject)

lemma live_count_add:
  "mapper_inv m \<Longrightarrow> get_broker_id m l = None \<Longrightarrow> live_count (add_mapping l b m) = live_count m + 1"
  by (simp add: live_count_def mapper_inv_def op_defs domIff)

lemma live_count_remove:
  assumes "mapper_inv m" and "get_broker_id m l = Some b"
  shows "live_count m = live_count (remove_mapping l m) + 1"
proof -
  have "l \<in> dom (local_to_broker m)" and "finite (dom (local_to_broker m))"
    using assms by (auto simp: mapper_inv_def op_defs)
  then have "card (dom (local_to_broker m)) = card (dom (local_to_broker m) - {l}) + 1"
    using card.remove [of "dom (local_to_broker m)" l] by simp
  with assms show ?thesis
    by (simp add: live_count_def op_defs)
qed

lemma live_count_remove_none: "get_broker_id m l = None \<Longrightarrow> remove_mapping l m = m"
  by (simp add: op_defs)

lemma get_id_empty [simp]:
  "get_broker_id empty_mapper l = None" "get_local_id empty_mapper b = None"
  by (simp_all add: op_defs)

lemma get_broker_id_add [simp]:
  "get_broker_id (add_mapping l b m) l' = (if l' = l then Some b else get_broker_id m l')"
  by (simp add: op_defs)

lemma get_local_id_add [simp]:
  "get_local_id (add_mapping l b m) b' = (if b' = b then Some l else get_local_id m b')"
  by (simp add: op_defs)

lemma get_broker_id_remove [simp]:
  "get_broker_id (remove_mapping l m) l' = (if l' = l then None else get_broker_id m l')"
  by (simp add: op_defs split: option.splits)

lemma get_local_id_remove:
  "get_local_id (remove_mapping l m) b
   = (if get_broker_id m l = Some b then None else get_local_id m b)"
  by (auto simp: op_defs split: option.splits)

lemma get_local_id_live:
  "mapper_inv m \<Longrightarrow> get_local_id m b = Some l \<Longrightarrow> get_broker_id m l = Some b"
  by (simp add: mapper_inv_def op_defs)

text \<open>The two removals of the two-way map agree whichever side the order is named by.\<close>

lemma remove_mapping_local_gone:
  "mapper_inv m \<Longrightarrow> get_local_id m b = Some l \<Longrightarrow> get_local_id (remove_mapping l m) b = None"
  by (simp add: get_local_id_remove get_local_id_live)

section \<open>OrderIdGenerator\<close>

record order_id_generator =
  counter :: u64
  id_specifier :: string

definition mk_generator :: "string \<Rightarrow> order_id_generator" where
  "mk_generator spec = \<lparr>counter = 0, id_specifier = spec\<rparr>"

text \<open>\<open>{}_{}_{:06d}\<close> of the specifier, the milliseconds since the epoch and the counter.\<close>

definition format_order_id :: "string \<Rightarrow> int \<Rightarrow> u64 \<Rightarrow> LocalOrderId" where
  "format_order_id spec ms c =
     spec @ ''_'' @ int_decimal ms @ ''_'' @ pad_decimal 6 (unat c)"

text \<open>The clock reading is in nanoseconds; the counter is fetched and incremented.\<close>

definition generate :: "int \<Rightarrow> order_id_generator \<Rightarrow> LocalOrderId \<times> order_id_generator" where
  "generate now_ns g =
     (format_order_id (id_specifier g) (cpp_div now_ns 1000000) (counter g),
      g\<lparr>counter := counter g + 1\<rparr>)"

lemma suffix_after_last:
  assumes "xs @ c # p = ys @ c # q" and "c \<notin> set p" and "c \<notin> set q"
  shows "p = q"
proof -
  have "takeWhile (\<lambda>x. x \<noteq> c) (rev (xs @ c # p)) = rev p"
    using assms(2) by (auto simp: takeWhile_append)
  moreover have "takeWhile (\<lambda>x. x \<noteq> c) (rev (ys @ c # q)) = rev q"
    using assms(3) by (auto simp: takeWhile_append)
  ultimately show ?thesis using assms(1) by (metis rev_rev_ident)
qed

lemma format_order_id_counter:
  assumes "format_order_id spec ms c = format_order_id spec' ms' c'"
  shows "c = c'"
proof -
  have "(spec @ ''_'' @ int_decimal ms) @ CHR ''_'' # pad_decimal 6 (unat c)
      = (spec' @ ''_'' @ int_decimal ms') @ CHR ''_'' # pad_decimal 6 (unat c')"
    using assms by (simp add: format_order_id_def)
  then have "pad_decimal 6 (unat c) = pad_decimal 6 (unat c')"
    by (rule suffix_after_last) (simp_all add: pad_decimal_no_underscore)
  then have "unat c = unat c'"
    by (rule pad_decimal_inj)
  then show ?thesis
    by (simp add: word_unat_eq_iff)
qed

section \<open>What a client needs of an id source\<close>

text \<open>
  \<open>issued g\<close> holds every id the source may have handed out so far; while it is \<open>ready\<close> (the counter
  has not used up its 64 bits) the next id is a new one.
\<close>

locale id_source =
  fixes gen :: "'t \<Rightarrow> 'g \<Rightarrow> LocalOrderId \<times> 'g"
    and issued :: "'g \<Rightarrow> LocalOrderId set"
    and room :: "'g \<Rightarrow> nat"
  assumes gen_fresh: "0 < room g \<Longrightarrow> fst (gen t g) \<notin> issued g"
    and gen_issued: "0 < room g \<Longrightarrow> insert (fst (gen t g)) (issued g) \<subseteq> issued (snd (gen t g))"
    and gen_room: "0 < room g \<Longrightarrow> room (snd (gen t g)) = room g - 1"
begin

primrec gen_list :: "'t list \<Rightarrow> 'g \<Rightarrow> LocalOrderId list \<times> 'g" where
  "gen_list [] g = ([], g)"
| "gen_list (t # ts) g =
     (let (i, g1) = gen t g; (is, g2) = gen_list ts g1 in (i # is, g2))"

lemma gen_list_fresh:
  "length ts \<le> room g \<Longrightarrow> set (fst (gen_list ts g)) \<inter> issued g = {}"
proof (induction ts arbitrary: g)
  case Nil
  then show ?case by simp
next
  case (Cons t ts)
  let ?g = "snd (gen t g)"
  have pos: "0 < room g" using Cons.prems by auto
  have "set (fst (gen_list ts ?g)) \<inter> issued ?g = {}"
    using Cons.IH[of ?g] Cons.prems gen_room[OF pos] by simp
  then show ?case
    using gen_fresh[OF pos, of t] gen_issued[OF pos, of t]
    by (auto simp: Let_def split_beta)
qed

lemma gen_list_distinct:
  "length ts \<le> room g \<Longrightarrow> distinct (fst (gen_list ts g))"
proof (induction ts arbitrary: g)
  case Nil
  then show ?case by simp
next
  case (Cons t ts)
  let ?g = "snd (gen t g)"
  have pos: "0 < room g" using Cons.prems by auto
  have len: "length ts \<le> room ?g" using Cons.prems gen_room[OF pos] by simp
  have "fst (gen t g) \<notin> set (fst (gen_list ts ?g))"
    using gen_list_fresh[OF len] gen_issued[OF pos, of t] by auto
  with Cons.IH[OF len] show ?case
    by (auto simp: Let_def split_beta)
qed

end

definition issued_ids :: "order_id_generator \<Rightarrow> LocalOrderId set" where
  "issued_ids g = {format_order_id spec ms c | spec ms c. c < counter g}"

definition ids_left :: "order_id_generator \<Rightarrow> nat" where
  "ids_left g = 2 ^ 64 - 1 - unat (counter g)"

lemma counter_lt_next: "0 < ids_left g \<Longrightarrow> c < counter g + 1 \<longleftrightarrow> c \<le> counter g"
proof -
  assume "0 < ids_left g"
  then have "unat (counter g + 1) = unat (counter g) + 1"
    by (intro unat_plus_one) (simp add: ids_left_def)
  then show ?thesis by (simp add: word_less_nat_alt word_le_nat_alt less_Suc_eq_le)
qed

interpretation gid: id_source generate issued_ids ids_left
proof unfold_locales
  fix g :: order_id_generator and t :: int
  assume pos: "0 < ids_left g"
  show "fst (generate t g) \<notin> issued_ids g"
    by (auto simp: generate_def issued_ids_def dest: format_order_id_counter)
  show "insert (fst (generate t g)) (issued_ids g) \<subseteq> issued_ids (snd (generate t g))"
    using counter_lt_next[OF pos]
    by (auto simp: generate_def issued_ids_def intro: less_imp_le)
  have "unat (counter g + 1) = unat (counter g) + 1"
    using pos by (intro unat_plus_one) (simp add: ids_left_def)
  then show "ids_left (snd (generate t g)) = ids_left g - 1"
    by (simp add: generate_def ids_left_def)
qed

text \<open>Handing out one id per clock reading, as successive calls of \<open>generate\<close> do.\<close>

primrec generate_all :: "int list \<Rightarrow> order_id_generator \<Rightarrow> LocalOrderId list \<times> order_id_generator" where
  "generate_all [] g = ([], g)"
| "generate_all (t # ts) g =
     (let (i, g1) = generate t g; (is, g2) = generate_all ts g1 in (i # is, g2))"

lemma generate_all_gen_list: "generate_all ts g = gid.gen_list ts g"
  by (induction ts arbitrary: g) simp_all

text \<open>
  A generator never repeats an id: the ids it hands out for any sequence of clock readings,
  however the clock moves, are pairwise distinct as long as the counter stays within 64 bits.
\<close>

theorem generate_distinct:
  assumes "unat (counter g) + length ts < 2 ^ 64"
  shows "distinct (fst (generate_all ts g))"
  unfolding generate_all_gen_list
  by (rule gid.gen_list_distinct) (use assms in \<open>simp add: ids_left_def\<close>)

theorem generate_distinct_witness:
  "distinct (fst (generate_all [5000000, 5000000, 3000000] (mk_generator ''ORD'')))"
  by (rule generate_distinct) (simp add: mk_generator_def)

text \<open>
  On a mapper that is a bijection, registering a new order and removing it again restores both
  directions of the map; while it is registered, the local and the broker id lead to each other.
\<close>

theorem mapper_add_remove:
  assumes "mapper_bij m" and "get_broker_id m l = None" and "get_local_id m b = None"
  shows "get_broker_id (add_mapping l b m) l = Some b
       \<and> get_local_id (add_mapping l b m) b = Some l
       \<and> remove_mapping l (add_mapping l b m) = m"
  using assms by (auto simp: op_defs fun_upd_idem)

theorem mapper_add_remove_witness:
  "get_broker_id (add_mapping ''L1'' ''B1'' empty_mapper) ''L1'' = Some ''B1''
   \<and> get_local_id (add_mapping ''L1'' ''B1'' empty_mapper) ''B1'' = Some ''L1''
   \<and> remove_mapping ''L1'' (add_mapping ''L1'' ''B1'' empty_mapper) = empty_mapper"
  by (rule mapper_add_remove) simp_all

end
