(* ===== verification/Clock.thy ===== *)
theory Clock
  imports Prelude
begin

text \<open>
  Time: a \<open>std::chrono::system_clock\<close> reading is a signed 64-bit count of nanoseconds since the
  epoch. Modelled are \<open>LogEntry::timestamp_to_string\<close> (\<open>i_journal.h\<close>) and \<open>get_current_time\<close>
  (\<open>order_id_generator.h\<close>), with the proleptic Gregorian calendar of \<open>gmtime_r\<close>. The readings a
  thread sees are a sequence that its state consumes one by one.
\<close>

record clock =
  readings :: "nat \<Rightarrow> int"
  reads :: nat

definition clock_now :: "clock \<Rightarrow> int \<times> clock" where
  "clock_now c = (readings c (reads c), c\<lparr>reads := Suc (reads c)\<rparr>)"

lemma clock_now_readings [simp]: "readings (snd (clock_now c)) = readings c"
  by (simp add: clock_now_def)

text \<open>Year, month and day of a day number counted from 1970-01-01.\<close>

definition civil_from_days :: "int \<Rightarrow> int \<times> nat \<times> nat" where
  "civil_from_days days =
     (let z = days + 719468;
          era = z div 146097;
          doe = z - era * 146097;
          yoe = (doe - doe div 1460 + doe div 36524 - doe div 146096) div 365;
          doy = doe - (365 * yoe + yoe div 4 - yoe div 100);
          mp = (5 * doy + 2) div 153;
          d = doy - (153 * mp + 2) div 5 + 1;
          m = (if mp < 10 then mp + 3 else mp - 9);
          y = yoe + era * 400 + (if m \<le> 2 then 1 else 0)
      in (y, nat m, nat d))"

record tm =
  tm_year :: int
  tm_mon :: nat
  tm_mday :: nat
  tm_hour :: nat
  tm_min :: nat
  tm_sec :: nat

text \<open>
  \<open>gmtime_r\<close> fails when the year does not fit the \<open>int\<close> field \<open>tm_year\<close>. The record holds the
  calendar year and month themselves.
\<close>

definition gmtime_r :: "int \<Rightarrow> tm option" where
  "gmtime_r secs =
     (let (y, m, d) = civil_from_days (secs div 86400); s = secs mod 86400
      in if - (2 ^ 31) \<le> y - 1900 \<and> y - 1900 < 2 ^ 31
         then Some \<lparr>tm_year = y, tm_mon = m, tm_mday = d, tm_hour = nat (s div 3600),
                    tm_min = nat (s div 60 mod 60), tm_sec = nat (s mod 60)\<rparr>
         else None)"

text \<open>\<open>%Y-%m-%d\<close> and \<open>%H:%M:%S\<close>.\<close>

definition format_date :: "tm \<Rightarrow> string" where
  "format_date t = int_decimal (tm_year t) @ ''-'' @ pad_decimal 2 (tm_mon t)
     @ ''-'' @ pad_decimal 2 (tm_mday t)"

definition format_time :: "tm \<Rightarrow> string" where
  "format_time t = pad_decimal 2 (tm_hour t) @ '':'' @ pad_decimal 2 (tm_min t)
     @ '':'' @ pad_decimal 2 (tm_sec t)"

text \<open>
  \<open>to_time_t\<close> and \<open>duration_cast\<close> truncate towards zero. \<open>Inl\<close> is the text of the
  \<open>std::runtime_error\<close>.
\<close>

definition timestamp_to_string :: "int \<Rightarrow> string + string" where
  "timestamp_to_string ts =
     (case gmtime_r (cpp_div ts 1000000000) of
        None \<Rightarrow> Inl ''gmtime_r error''
      | Some t \<Rightarrow>
          Inr (format_date t @ '' '' @ format_time t @ ''.''
               @ pad_int_decimal 3 (cpp_mod (cpp_div ts 1000000) 1000)))"

text \<open>\<open>std::format("{:%FT%TZ}", now)\<close>: the date, then the time with nine fractional digits.\<close>

definition get_current_time :: "int \<Rightarrow> string" where
  "get_current_time now =
     (case gmtime_r (now div 1000000000) of
        None \<Rightarrow> ''''
      | Some t \<Rightarrow> format_date t @ ''T'' @ format_time t @ ''.''
                  @ pad_decimal 9 (nat (now mod 1000000000)) @ ''Z'')"

section \<open>The conversion never fails on a clock reading\<close>

lemma leap_bit: "a + b + (if c then 1 else 0) - (a + b) \<in> {0, 1 :: int}"
  by simp

lemma civil_year_bounds:
  assumes "- 106753 \<le> days" and "days \<le> 106753"
  shows "1500 \<le> fst (civil_from_days days) \<and> fst (civil_from_days days) \<le> 2500"
proof -
  define z where "z = days + 719468"
  define era where "era = z div 146097"
  define doe where "doe = z - era * 146097"
  define yoe where "yoe = (doe - doe div 1460 + doe div 36524 - doe div 146096) div 365"
  have quot: "- 1 \<le> n div 365 \<and> n div 365 \<le> 400" if "- 200 \<le> n" "n \<le> 146200" for n :: int
    using that zdiv_mono1[of "- 365" n 365] zdiv_mono1[of n 146200 365] by simp
  have era: "4 \<le> era" "era \<le> 5"
    using assms by (auto simp: era_def z_def)
  have "doe = z mod 146097"
    by (simp add: doe_def era_def minus_div_mult_eq_mod)
  then have doe: "0 \<le> doe" "doe < 146097" by auto
  then have "- 200 \<le> doe - doe div 1460 + doe div 36524 - doe div 146096"
    and "doe - doe div 1460 + doe div 36524 - doe div 146096 \<le> 146200"
    by auto
  then have "- 1 \<le> yoe" "yoe \<le> 400"
    unfolding yoe_def using quot by blast+
  moreover have "fst (civil_from_days days) - (yoe + era * 400) \<in> {0, 1}"
    unfolding civil_from_days_def Let_def fst_conv yoe_def doe_def era_def z_def
    by (rule leap_bit)
  ultimately show ?thesis
    using era by auto
qed

lemma gmtime_r_in_range:
  assumes "- 9223372037 \<le> secs" and "secs \<le> 9223372037"
  shows "\<exists>t. gmtime_r secs = Some t"
proof -
  have "- 106753 \<le> secs div 86400" "secs div 86400 \<le> 106753"
    using assms by auto
  from civil_year_bounds[OF this] show ?thesis
    by (cases "civil_from_days (secs div 86400)") (auto simp: gmtime_r_def Let_def)
qed

lemma cpp_div_bounds:
  assumes "0 < b" and "- (n * b) \<le> a" and "a \<le> n * b"
  shows "- n \<le> cpp_div a b \<and> cpp_div a b \<le> n"
proof -
  have "\<bar>a\<bar> \<le> n * b"
    using assms by (simp add: abs_le_iff)
  then have "\<bar>a\<bar> div b \<le> n * b div b"
    using assms(1) by (rule zdiv_mono1)
  then have "\<bar>a\<bar> div b \<le> n"
    using assms(1) by simp
  moreover have "0 \<le> \<bar>a\<bar> div b"
    using assms by (simp add: pos_imp_zdiv_nonneg_iff)
  ultimately show ?thesis
    using assms(1) by (cases "a = 0"; cases "a > 0") (auto simp: cpp_div_def)
qed

lemma timestamp_to_string_ok:
  assumes "in_i64 ts"
  shows "\<exists>s. timestamp_to_string ts = Inr s"
proof -
  have "- 9223372037 \<le> cpp_div ts 1000000000 \<and> cpp_div ts 1000000000 \<le> 9223372037"
    using assms by (intro cpp_div_bounds) (auto simp: in_i64_def)
  then show ?thesis
    using gmtime_r_in_range[of "cpp_div ts 1000000000"] by (auto simp: timestamp_to_string_def)
qed

text \<open>
  Formatting a timestamp cannot fail: for every value of the 64-bit nanosecond clock the
  calendar conversion succeeds, so the handlers' "timestamp conversion failure" branches are
  unreachable from a clock reading.
\<close>

theorem timestamp_to_string_total:
  assumes "in_i64 ts"
  shows "(\<exists>s. timestamp_to_string ts = Inr s) \<and> get_current_time ts \<noteq> ''''"
proof -
  have "- 9223372037 \<le> ts div 1000000000" "ts div 1000000000 \<le> 9223372037"
    using assms by (auto simp: in_i64_def)
  then have "get_current_time ts \<noteq> ''''"
    using gmtime_r_in_range[of "ts div 1000000000"] by (auto simp: get_current_time_def)
  with timestamp_to_string_ok[OF assms] show ?thesis by simp
qed

theorem timestamp_to_string_total_witness:
  "(\<exists>s. timestamp_to_string (- 9223372036854775808) = Inr s)
   \<and> get_current_time (- 9223372036854775808) \<noteq> ''''"
  by (rule timestamp_to_string_total) (simp add: in_i64_def)

text \<open>A concrete reading, milliseconds kept and the rest cut off.\<close>

lemma timestamp_example:
  "timestamp_to_string 1714566896123456789 = Inr ''2024-05-01 12:34:56.123''"
  by code_simp

end
