(* ===== verification/EventQueue.thy ===== *)
theory EventQueue
  imports Prelude
begin

text \<open>
  \<open>utils/event_queue.h\<close>: the blocking single-consumer queue between the producer threads and a
  dispatch thread, with its three 64-bit counters. Every method runs under the queue's mutex, so a
  method is one step. The interface \<open>fifo_queue\<close> states the first-in first-out contract the
  dispatch loop relies on; \<open>queue_step\<close> is the interleaving of any producers with the one consumer.
\<close>

section \<open>State and operations\<close>

record 'a event_queue =
  q_items :: "'a list"
  total_pushed :: u64
  total_processed :: u64
  total_dropped :: u64

definition empty_queue :: "'a event_queue" where
  "empty_queue = \<lparr>q_items = [], total_pushed = 0, total_processed = 0, total_dropped = 0\<rparr>"

definition q_push :: "'a \<Rightarrow> 'a event_queue \<Rightarrow> 'a event_queue" where
  "q_push event q = q\<lparr>q_items := q_items q @ [event], total_pushed := total_pushed q + 1\<rparr>"

definition q_try_push :: "'a \<Rightarrow> nat \<Rightarrow> 'a event_queue \<Rightarrow> bool \<times> 'a event_queue" where
  "q_try_push event max_depth q =
     (if length (q_items q) \<ge> max_depth
      then (False, q\<lparr>total_dropped := total_dropped q + 1\<rparr>)
      else (True, q_push event q))"

text \<open>A call of \<open>pop\<close> either waits, or returns an item, or returns false.\<close>

datatype 'a pop_outcome = Waits | Popped 'a "'a event_queue" | Returns_false

definition q_pop :: "bool \<Rightarrow> 'a event_queue \<Rightarrow> 'a pop_outcome" where
  "q_pop stop_requested q =
     (case q_items q of
        [] \<Rightarrow> (if stop_requested then Returns_false else Waits)
      | e # es \<Rightarrow> Popped e (q\<lparr>q_items := es\<rparr>))"

definition q_mark_processed :: "'a event_queue \<Rightarrow> 'a event_queue" where
  "q_mark_processed q = q\<lparr>total_processed := total_processed q + 1\<rparr>"

text \<open>The condition \<open>wait_idle\<close> waits for.\<close>

definition q_idle :: "'a event_queue \<Rightarrow> bool" where
  "q_idle q \<longleftrightarrow> total_processed q = total_pushed q"

definition q_size :: "'a event_queue \<Rightarrow> nat" where
  "q_size q = length (q_items q)"

definition q_dropped_count :: "'a event_queue \<Rightarrow> u64" where
  "q_dropped_count q = total_dropped q"

lemmas queue_defs [op_defs] =
  empty_queue_def q_push_def q_try_push_def q_mark_processed_def q_idle_def q_size_def
  q_dropped_count_def

lemma q_pop_Popped:
  "q_pop st q = Popped e q' \<Longrightarrow>
   q_items q = e # q_items q' \<and> total_pushed q' = total_pushed q
   \<and> total_processed q' = total_processed q \<and> total_dropped q' = total_dropped q"
  by (auto simp: q_pop_def split: list.splits if_splits)

lemma q_pop_false: "q_pop st q = Returns_false \<longleftrightarrow> st \<and> q_items q = []"
  by (auto simp: q_pop_def split: list.splits if_splits)

section \<open>The contract of a queue\<close>

locale fifo_queue =
  fixes put :: "'a \<Rightarrow> 'q \<Rightarrow> 'q"
    and offer :: "'a \<Rightarrow> nat \<Rightarrow> 'q \<Rightarrow> bool \<times> 'q"
    and take_front :: "'q \<Rightarrow> ('a \<times> 'q) option"
    and contents :: "'q \<Rightarrow> 'a list"
  assumes contents_put: "contents (put e q) = contents q @ [e]"
    and offer_accepts: "fst (offer e n q) \<longleftrightarrow> length (contents q) < n"
    and contents_offer:
      "contents (snd (offer e n q)) = (if fst (offer e n q) then contents q @ [e] else contents q)"
    and take_front_None: "take_front q = None \<longleftrightarrow> contents q = []"
    and take_front_Some: "take_front q = Some (e, q') \<Longrightarrow> contents q = e # contents q'"
begin

text \<open>A producer that bounds its own kind of event and leaves the others unbounded.\<close>

definition enqueue_bounded :: "('a \<Rightarrow> bool) \<Rightarrow> nat \<Rightarrow> 'q \<Rightarrow> 'a \<Rightarrow> 'q" where
  "enqueue_bounded droppable n q e =
     (if droppable e then snd (offer e n q) else put e q)"

lemma contents_enqueue_bounded:
  "contents (enqueue_bounded d n q e) =
     (if d e \<and> n \<le> length (contents q) then contents q else contents q @ [e])"
  by (simp add: enqueue_bounded_def contents_put contents_offer offer_accepts)

lemma enqueue_all_keeps:
  "filter (\<lambda>e. \<not> d e) (contents (foldl (enqueue_bounded d n) q es))
   = filter (\<lambda>e. \<not> d e) (contents q) @ filter (\<lambda>e. \<not> d e) es"
  by (induction es arbitrary: q) (simp_all add: contents_enqueue_bounded)

lemma enqueue_all_bounds:
  "length (filter d (contents q)) \<le> n \<Longrightarrow>
   length (filter d (contents (foldl (enqueue_bounded d n) q es))) \<le> n"
proof (induction es arbitrary: q)
  case Nil
  then show ?case by simp
next
  case (Cons e es)
  have "\<not> n \<le> length (contents q) \<Longrightarrow> Suc (length (filter d (contents q))) \<le> n"
    using length_filter_le [of d "contents q"] by linarith
  with Cons.prems have "length (filter d (contents (enqueue_bounded d n q e))) \<le> n"
    by (auto simp: contents_enqueue_bounded)
  with Cons.IH show ?case by simp
qed

text \<open>Taking until the queue is empty yields its contents in order.\<close>

primrec drain :: "nat \<Rightarrow> 'q \<Rightarrow> 'a list \<times> 'q" where
  "drain 0 q = ([], q)"
| "drain (Suc k) q =
     (case take_front q of
        None \<Rightarrow> ([], q)
      | Some (e, q') \<Rightarrow> (let (es, q'') = drain k q' in (e # es, q'')))"

lemma drain_contents:
  "length (contents q) \<le> k \<Longrightarrow> fst (drain k q) = contents q \<and> contents (snd (drain k q)) = []"
proof (induction k arbitrary: q)
  case 0
  then show ?case by simp
next
  case (Suc k)
  show ?case
  proof (cases "take_front q")
    case None
    then have "contents q = []" by (simp only: take_front_None)
    with None show ?thesis by simp
  next
    case (Some p)
    obtain e q' where p: "p = (e, q')" by (cases p)
    with Some have "contents q = e # contents q'" by (simp add: take_front_Some)
    with Suc Some p show ?thesis by (auto simp: Let_def split_beta)
  qed
qed

end

definition q_take :: "'a event_queue \<Rightarrow> ('a \<times> 'a event_queue) option" where
  "q_take q = (case q_pop True q of Popped e q' \<Rightarrow> Some (e, q') | _ \<Rightarrow> None)"

interpretation eq: fifo_queue q_push q_try_push q_take q_items
  by unfold_locales
    (auto simp: op_defs q_take_def q_pop_def split: list.splits pop_outcome.splits if_splits)

section \<open>Producers and the consumer\<close>

text \<open>
  \<open>busy\<close> is the consumer's place in its loop: true between the return of \<open>pop\<close> and the call of
  \<open>mark_processed\<close>. The consumer never pops twice without marking.
\<close>

record 'a queue_sys =
  sys_queue :: "'a event_queue"
  busy :: bool

definition init_queue_sys :: "'a queue_sys" where
  "init_queue_sys = \<lparr>sys_queue = empty_queue, busy = False\<rparr>"

inductive queue_step :: "'a queue_sys \<Rightarrow> 'a queue_sys \<Rightarrow> bool" where
  step_push: "queue_step s (s\<lparr>sys_queue := q_push e (sys_queue s)\<rparr>)"
| step_try_push: "queue_step s (s\<lparr>sys_queue := snd (q_try_push e n (sys_queue s))\<rparr>)"
| step_pop: "\<not> busy s \<Longrightarrow> q_pop st (sys_queue s) = Popped e q' \<Longrightarrow>
     queue_step s (s\<lparr>sys_queue := q', busy := True\<rparr>)"
| step_mark: "busy s \<Longrightarrow>
     queue_step s (s\<lparr>sys_queue := q_mark_processed (sys_queue s), busy := False\<rparr>)"

inductive queue_reachable :: "'a queue_sys \<Rightarrow> bool" where
  reach_init: "queue_reachable init_queue_sys"
| reach_step: "queue_reachable s \<Longrightarrow> queue_step s t \<Longrightarrow> queue_reachable t"

text \<open>Events pushed and not yet marked: those in the queue and the one being handled.\<close>

definition pending_events :: "'a queue_sys \<Rightarrow> nat" where
  "pending_events s = length (q_items (sys_queue s)) + (if busy s then 1 else 0)"

definition counters_agree :: "'a queue_sys \<Rightarrow> bool" where
  "counters_agree s \<longleftrightarrow>
     total_pushed (sys_queue s) = total_processed (sys_queue s) + of_nat (pending_events s)"

lemma counters_agree_step: "queue_step s t \<Longrightarrow> counters_agree s \<Longrightarrow> counters_agree t"
  by (induction rule: queue_step.induct)
    (auto simp: counters_agree_def pending_events_def op_defs algebra_simps dest!: q_pop_Popped)

lemma counters_agree_reachable: "queue_reachable s \<Longrightarrow> counters_agree s"
proof (induction rule: queue_reachable.induct)
  case reach_init
  show ?case by (simp add: counters_agree_def pending_events_def init_queue_sys_def op_defs)
next
  case (reach_step s t)
  then show ?case by (blast intro: counters_agree_step)
qed

section \<open>Properties\<close>

text \<open>
  C33. \<open>wait_idle\<close> is correct under every interleaving of producers and consumer: although the
  counters wrap at 64 bits, its condition holds exactly when no event is queued and none is being
  handled, as long as fewer than \<open>2 ^ 64\<close> events are pending at once.
\<close>

theorem wait_idle_correct:
  assumes "queue_reachable s" and "pending_events s < 2 ^ 64"
  shows "q_idle (sys_queue s) \<longleftrightarrow> q_items (sys_queue s) = [] \<and> \<not> busy s"
proof -
  have "q_idle (sys_queue s) \<longleftrightarrow> (of_nat (pending_events s) :: u64) = 0"
    using counters_agree_reachable[OF assms(1)] by (auto simp: counters_agree_def q_idle_def)
  also have "\<dots> \<longleftrightarrow> pending_events s = 0"
    using assms(2) by (auto simp: word_of_nat_eq_0_iff dest: dvd_imp_le)
  finally show ?thesis
    by (auto simp: pending_events_def)
qed

lemma example_reachable:
  "queue_reachable \<lparr>sys_queue = q_push (7::nat) empty_queue, busy = False\<rparr>"
proof -
  have "queue_step init_queue_sys (init_queue_sys\<lparr>sys_queue := q_push (7::nat) empty_queue\<rparr>)"
    using step_push[of init_queue_sys 7] by (simp add: init_queue_sys_def)
  then show ?thesis
    using reach_step[OF reach_init] by (simp add: init_queue_sys_def)
qed

theorem wait_idle_correct_witness:
  "q_idle (q_push (7::nat) empty_queue) \<longleftrightarrow> q_items (q_push (7::nat) empty_queue) = []"
  using wait_idle_correct[OF example_reachable] by (simp add: pending_events_def op_defs)

text \<open>The consumer's loop after a stop request, for at most \<open>k\<close> items.\<close>

primrec q_drain :: "nat \<Rightarrow> 'a event_queue \<Rightarrow> 'a list \<times> 'a event_queue" where
  "q_drain 0 q = ([], q)"
| "q_drain (Suc k) q =
     (case q_pop True q of
        Popped e q' \<Rightarrow> (let (es, q'') = q_drain k q' in (e # es, q''))
      | _ \<Rightarrow> ([], q))"

lemma q_drain_drain: "q_drain k q = eq.drain k q"
  by (induction k arbitrary: q) (auto simp: q_take_def split: pop_outcome.splits)

text \<open>
  Draining the queue returns its items oldest first and leaves it empty, and a \<open>pop\<close> returns
  false only when a stop was requested and nothing is queued: no queued event is lost at shutdown.
\<close>

theorem queue_drains_in_order:
  "fst (q_drain (q_size q) q) = q_items q
   \<and> q_items (snd (q_drain (q_size q) q)) = []
   \<and> (q_pop st q = Returns_false) = (st \<and> q_items q = [])"
  using eq.drain_contents[of q "q_size q"] q_pop_false[of st q]
  by (simp add: q_size_def q_drain_drain)

end
