(* ===== verification/RiskManager.thy ===== *)
theory RiskManager
  imports Prelude
begin

text \<open>
  \<open>core/risk_manager.h\<close>: the limits of a strategy and the check made before an order goes to the
  gateway. A limit of zero is disabled. \<open>max_open_orders\<close> and the count it is compared with are
  \<open>size_t\<close> values.
\<close>

record risk_limits =
  max_quantity :: double
  max_open_orders :: u64
  daily_pnl_limit :: double

definition no_limits :: risk_limits where
  "no_limits = \<lparr>max_quantity = 0, max_open_orders = 0, daily_pnl_limit = 0\<rparr>"

definition risk_check :: "risk_limits \<Rightarrow> double \<Rightarrow> u64 \<Rightarrow> double \<Rightarrow> unit result" where
  "risk_check limits qty open_order pnl =
     (if max_quantity limits \<noteq> 0 \<and> qty > max_quantity limits
      then Inl (mk_error ''Max quantity limit exceeded'' FailedOrder)
      else if max_open_orders limits \<noteq> 0 \<and> open_order > max_open_orders limits
      then Inl (mk_error ''Max open order amount limit exceeded'' FailedOrder)
      else if daily_pnl_limit limits \<noteq> 0 \<and> pnl < - daily_pnl_limit limits
      then Inl (mk_error ''Daily loss limit exceeded'' FailedOrder)
      else Inr ())"

lemma risk_check_no_limits [simp]: "risk_check no_limits qty n pnl = Inr ()"
  by (simp add: risk_check_def no_limits_def)

lemma risk_check_ok:
  "risk_check l qty n pnl = Inr () \<longleftrightarrow>
     (max_quantity l = 0 \<or> qty \<le> max_quantity l) \<and>
     (max_open_orders l = 0 \<or> n \<le> max_open_orders l) \<and>
     (daily_pnl_limit l = 0 \<or> - daily_pnl_limit l \<le> pnl)"
  by (auto simp: risk_check_def not_less)

lemma risk_check_error_type:
  "risk_check l qty n pnl = Inl e \<Longrightarrow> etype e = FailedOrder"
  by (auto simp: risk_check_def mk_error_def split: if_splits)

text \<open>
  An order passes the risk check exactly when each enabled limit holds, the open-order limit in
  the form "at most \<open>max_open_orders\<close> orders are open before this one"; a failed check is always
  reported as a failed order.
\<close>

theorem risk_check_decides:
  "is_ok (risk_check l qty n pnl) =
     ((max_quantity l = 0 \<or> qty \<le> max_quantity l) \<and>
      (max_open_orders l = 0 \<or> n \<le> max_open_orders l) \<and>
      (daily_pnl_limit l = 0 \<or> - daily_pnl_limit l \<le> pnl))
   \<and> (case risk_check l qty n pnl of Inl e \<Rightarrow> etype e = FailedOrder | Inr u \<Rightarrow> u = ())"
  using risk_check_ok[of l qty n pnl] risk_check_error_type[of l qty n pnl]
  by (cases "risk_check l qty n pnl") auto

end
