(* ===== verification/PositionKeeper.thy ===== *)
theory PositionKeeper
  imports Protos
begin

text \<open>
  \<open>core/position_keeper.{h,cpp}\<close>: the in-memory position of a strategy per symbol, with signed
  quantity, average entry price and realised profit. The \<open>unordered_map\<close> is an association list,
  since \<open>get_all_positions\<close> and \<open>get_total_pnl\<close> iterate over it.

  The lemmas show the accounting identity of a fill on every branch of \<open>on_fill\<close> and lift it to
  any sequence of fills.
\<close>

section \<open>State and operations\<close>

record position =
  pos_symbol :: Symbol
  quantity :: double
  avgPrice :: double
  rPnL :: double

type_synonym position_keeper = "(Symbol \<times> position) list"

definition empty_position :: position where
  "empty_position = \<lparr>pos_symbol = '''', quantity = 0, avgPrice = 0, rPnL = 0\<rparr>"

text \<open>\<open>positions_[symbol]\<close> default-constructs a missing entry.\<close>

definition position_of :: "position_keeper \<Rightarrow> Symbol \<Rightarrow> position" where
  "position_of pk symbol = (case map_of pk symbol of None \<Rightarrow> empty_position | Some p \<Rightarrow> p)"

definition signed_fill :: "double \<Rightarrow> Side \<Rightarrow> double" where
  "signed_fill fill_qty side = (if side = BUY then fill_qty else - fill_qty)"

definition fill_rPnL :: "position \<Rightarrow> double \<Rightarrow> double \<Rightarrow> double" where
  "fill_rPnL pos sgnd fill_price =
     (let old_qty = quantity pos
      in if fill_price > 0 \<and> old_qty \<noteq> 0 \<and> old_qty * sgnd < 0
         then let closed_qty = min \<bar>old_qty\<bar> \<bar>sgnd\<bar>
              in if old_qty > 0
                 then rPnL pos + (fill_price - avgPrice pos) * closed_qty
                 else rPnL pos + (avgPrice pos - fill_price) * closed_qty
         else rPnL pos)"

definition fill_avgPrice :: "position \<Rightarrow> double \<Rightarrow> double \<Rightarrow> double" where
  "fill_avgPrice pos sgnd fill_price =
     (let old_qty = quantity pos; new_qty = old_qty + sgnd
      in if fill_price > 0
         then if new_qty = 0 then 0
              else if old_qty = 0 then fill_price
              else if (old_qty > 0 \<and> new_qty < 0) \<or> (old_qty < 0 \<and> new_qty > 0) then fill_price
              else if (old_qty > 0 \<and> sgnd > 0) \<or> (old_qty < 0 \<and> sgnd < 0)
              then (old_qty * avgPrice pos + sgnd * fill_price) / new_qty
              else avgPrice pos
         else avgPrice pos)"

definition apply_to_position :: "Symbol \<Rightarrow> position \<Rightarrow> double \<Rightarrow> double \<Rightarrow> position" where
  "apply_to_position symbol pos sgnd fill_price =
     \<lparr>pos_symbol = symbol,
      quantity = quantity pos + sgnd,
      avgPrice = fill_avgPrice pos sgnd fill_price,
      rPnL = fill_rPnL pos sgnd fill_price\<rparr>"

definition on_fill ::
  "Symbol \<Rightarrow> double \<Rightarrow> double \<Rightarrow> Side \<Rightarrow> position_keeper \<Rightarrow> position_keeper" where
  "on_fill symbol fill_qty fill_price side pk =
     (if fill_qty \<le> 0 then pk
      else AList.update symbol
             (apply_to_position symbol (position_of pk symbol) (signed_fill fill_qty side) fill_price)
             pk)"

definition to_v1_position :: "position \<Rightarrow> v1_position" where
  "to_v1_position p =
     empty_v1_position\<lparr>vp_symbol := pos_symbol p, vp_quantity := quantity p,
       vp_avg_price := avgPrice p, vp_realized_pnl := rPnL p\<rparr>"

definition pk_get_position :: "Symbol \<Rightarrow> position_keeper \<Rightarrow> v1_position result" where
  "pk_get_position symbol pk =
     (case map_of pk symbol of
        None \<Rightarrow> Inl (mk_error ''Position not found'' Error)
      | Some p \<Rightarrow> Inr (to_v1_position p))"

definition pk_get_all_positions :: "position_keeper \<Rightarrow> v1_position list" where
  "pk_get_all_positions pk = map (\<lambda>(symbol, p). to_v1_position p) pk"

definition get_total_pnl :: "position_keeper \<Rightarrow> double" where
  "get_total_pnl pk = foldl (\<lambda>sum p. sum + rPnL (snd p)) 0 pk"

section \<open>One fill\<close>

text \<open>
  What the position is worth when it is marked at price \<open>p\<close>: realised profit plus the open quantity
  against its average price.
\<close>

definition marked_pnl :: "double \<Rightarrow> position \<Rightarrow> double" where
  "marked_pnl p pos = rPnL pos + quantity pos * (p - avgPrice pos)"

lemma marked_pnl_empty [simp]: "marked_pnl p empty_position = 0"
  by (simp add: marked_pnl_def empty_position_def)

lemma quantity_empty [simp]: "quantity empty_position = 0" "avgPrice empty_position = 0"
  by (simp_all add: empty_position_def)

lemma fill_adds:
  assumes "fill_price > 0" and "quantity pos * sgnd > 0"
  shows "marked_pnl p (apply_to_position s pos sgnd fill_price)
         = marked_pnl p pos + sgnd * (p - fill_price)"
proof -
  let ?q = "quantity pos"
  have same: "(?q > 0 \<and> sgnd > 0) \<or> (?q < 0 \<and> sgnd < 0)"
    using assms(2) by (simp add: zero_less_mult_iff)
  then have nz: "?q + sgnd \<noteq> 0" "?q \<noteq> 0" and
    noflip: "\<not> ((?q > 0 \<and> ?q + sgnd < 0) \<or> (?q < 0 \<and> ?q + sgnd > 0))"
    by auto
  have avg: "fill_avgPrice pos sgnd fill_price
             = (?q * avgPrice pos + sgnd * fill_price) / (?q + sgnd)"
    using assms(1) same nz noflip by (auto simp: fill_avgPrice_def Let_def)
  have pnl: "fill_rPnL pos sgnd fill_price = rPnL pos"
    using assms(2) by (simp add: fill_rPnL_def Let_def)
  have "(?q + sgnd) * ((?q * avgPrice pos + sgnd * fill_price) / (?q + sgnd))
        = ?q * avgPrice pos + sgnd * fill_price"
    using nz by simp
  then show ?thesis
    by (simp add: marked_pnl_def apply_to_position_def avg pnl algebra_simps)
qed

lemma fill_reduces:
  assumes "fill_price > 0" and "quantity pos * sgnd < 0"
  shows "marked_pnl p (apply_to_position s pos sgnd fill_price)
         = marked_pnl p pos + sgnd * (p - fill_price)"
proof -
  have opp: "(quantity pos > 0 \<and> sgnd < 0) \<or> (quantity pos < 0 \<and> sgnd > 0)"
    using assms(2) by (simp add: mult_less_0_iff)
  show ?thesis
  proof (cases "quantity pos > 0")
    case True
    with opp assms show ?thesis
      by (auto simp: marked_pnl_def apply_to_position_def fill_avgPrice_def fill_rPnL_def Let_def
          min_def abs_if algebra_simps add_eq_0_iff split: if_splits)
  next
    case False
    with opp assms show ?thesis
      by (auto simp: marked_pnl_def apply_to_position_def fill_avgPrice_def fill_rPnL_def Let_def
          min_def abs_if algebra_simps add_eq_0_iff split: if_splits)
  qed
qed

lemma fill_opens:
  assumes "fill_price > 0" and "quantity pos = 0"
  shows "marked_pnl p (apply_to_position s pos sgnd fill_price)
         = marked_pnl p pos + sgnd * (p - fill_price)"
  using assms
  by (simp add: marked_pnl_def apply_to_position_def fill_avgPrice_def fill_rPnL_def Let_def)

lemma marked_pnl_fill:
  assumes "fill_price > 0"
  shows "marked_pnl p (apply_to_position s pos sgnd fill_price)
         = marked_pnl p pos + sgnd * (p - fill_price)"
proof (cases "quantity pos = 0 \<or> sgnd = 0")
  case True
  then show ?thesis
  proof
    assume "quantity pos = 0"
    with assms show ?thesis by (rule fill_opens)
  next
    assume "sgnd = 0"
    with assms show ?thesis
      by (cases "quantity pos = 0")
        (auto simp: marked_pnl_def apply_to_position_def fill_avgPrice_def fill_rPnL_def Let_def)
  qed
next
  case False
  then show ?thesis
    using fill_adds[OF assms, of pos sgnd] fill_reduces[OF assms, of pos sgnd]
    by (cases "quantity pos * sgnd > 0") (auto simp: not_less le_less)
qed

text \<open>
  The average price stays within the band of the prices filled so far, and is zero exactly on a
  flat position.
\<close>

definition avg_in_band :: "double \<Rightarrow> double \<Rightarrow> position \<Rightarrow> bool" where
  "avg_in_band lo hi pos \<longleftrightarrow>
     (if quantity pos = 0 then avgPrice pos = 0 else lo \<le> avgPrice pos \<and> avgPrice pos \<le> hi)"

lemma avg_in_band_empty [simp]: "avg_in_band lo hi empty_position"
  by (simp add: avg_in_band_def)

lemma weighted_average_between:
  fixes a b w v :: real
  assumes "lo \<le> a" "a \<le> hi" "lo \<le> b" "b \<le> hi" and "w * v > 0"
  shows "lo \<le> (w * a + v * b) / (w + v) \<and> (w * a + v * b) / (w + v) \<le> hi"
proof (cases "w > 0")
  case True
  with assms(5) have v: "v > 0" by (simp add: zero_less_mult_iff)
  have "w * lo \<le> w * a" "v * lo \<le> v * b" "w * a \<le> w * hi" "v * b \<le> v * hi"
    using True v assms by (simp_all add: mult_left_mono)
  then have "lo * (w + v) \<le> w * a + v * b" "w * a + v * b \<le> hi * (w + v)"
    by (metis add_mono distrib_left mult.commute)+
  with True v show ?thesis
    by (simp add: pos_le_divide_eq pos_divide_le_eq)
next
  case False
  with assms(5) have wv: "w < 0" "v < 0" by (auto simp: zero_less_mult_iff)
  have "w * hi \<le> w * a" "v * hi \<le> v * b" "w * a \<le> w * lo" "v * b \<le> v * lo"
    using wv assms by (simp_all add: mult_left_mono_neg)
  then have "hi * (w + v) \<le> w * a + v * b" "w * a + v * b \<le> lo * (w + v)"
    by (metis add_mono distrib_left mult.commute)+
  with wv show ?thesis
    by (simp add: neg_le_divide_eq neg_divide_le_eq)
qed

lemma avg_in_band_fill:
  assumes "avg_in_band lo hi pos" and "sgnd \<noteq> 0"
    and "0 < fill_price" and "lo \<le> fill_price" and "fill_price \<le> hi"
  shows "avg_in_band lo hi (apply_to_position s pos sgnd fill_price)"
proof (cases "quantity pos * sgnd > 0")
  case True
  then have "quantity pos \<noteq> 0" by auto
  with assms have "lo \<le> avgPrice pos" "avgPrice pos \<le> hi"
    by (simp_all add: avg_in_band_def)
  moreover note \<open>quantity pos \<noteq> 0\<close>
  moreover have "quantity pos + sgnd \<noteq> 0"
    using True by (auto simp: zero_less_mult_iff)
  ultimately show ?thesis
    using weighted_average_between[OF _ _ assms(4,5) True] assms
    by (auto simp: avg_in_band_def apply_to_position_def fill_avgPrice_def Let_def)
next
  case False
  with assms show ?thesis
    by (auto simp: avg_in_band_def apply_to_position_def fill_avgPrice_def Let_def
        zero_less_mult_iff split: if_splits)
qed

section \<open>Sequences of fills\<close>

text \<open>One call of \<open>on_fill\<close>: symbol, quantity, price and side.\<close>

type_synonym fill = "Symbol \<times> double \<times> double \<times> Side"

fun fill_step :: "position_keeper \<Rightarrow> fill \<Rightarrow> position_keeper" where
  "fill_step pk (s, qty, price, side) = on_fill s qty price side pk"

definition on_fills :: "fill list \<Rightarrow> position_keeper \<Rightarrow> position_keeper" where
  "on_fills fs pk = foldl fill_step pk fs"

lemma on_fills_simps [simp]:
  "on_fills [] pk = pk"
  "on_fills (f # fs) pk = on_fills fs (fill_step pk f)"
  by (simp_all add: on_fills_def)

text \<open>The signed quantity a call contributes to symbol \<open>s\<close>; a non-positive quantity is ignored.\<close>

fun contributes :: "Symbol \<Rightarrow> fill \<Rightarrow> double" where
  "contributes s (s', qty, price, side) =
     (if s' = s \<and> 0 < qty then signed_fill qty side else 0)"

fun priced :: "fill \<Rightarrow> bool" where
  "priced (s, qty, price, side) \<longleftrightarrow> 0 < price"

fun price_of :: "fill \<Rightarrow> double" where
  "price_of (s, qty, price, side) = price"

lemma position_of_nil [simp]: "position_of [] s = empty_position"
  by (simp add: position_of_def)

lemma position_of_on_fill:
  "position_of (on_fill s' qty price side pk) s =
     (if s' = s \<and> 0 < qty
      then apply_to_position s (position_of pk s) (signed_fill qty side) price
      else position_of pk s)"
  by (simp add: on_fill_def position_of_def)

lemma quantity_fill_step:
  "quantity (position_of (fill_step pk f) s) = quantity (position_of pk s) + contributes s f"
  by (cases f) (simp add: position_of_on_fill apply_to_position_def)

lemma marked_pnl_fill_step:
  "priced f \<Longrightarrow>
   marked_pnl p (position_of (fill_step pk f) s)
   = marked_pnl p (position_of pk s) + contributes s f * (p - price_of f)"
  by (cases f) (simp add: position_of_on_fill marked_pnl_fill)

lemma quantity_on_fills:
  "quantity (position_of (on_fills fs pk) s)
   = quantity (position_of pk s) + (\<Sum>f\<leftarrow>fs. contributes s f)"
  by (induction fs arbitrary: pk) (simp_all add: quantity_fill_step)

lemma marked_pnl_on_fills:
  "list_all priced fs \<Longrightarrow>
   marked_pnl p (position_of (on_fills fs pk) s)
   = marked_pnl p (position_of pk s) + (\<Sum>f\<leftarrow>fs. contributes s f * (p - price_of f))"
  by (induction fs arbitrary: pk) (simp_all add: marked_pnl_fill_step)

lemma signed_fill_nonzero: "0 < qty \<Longrightarrow> signed_fill qty side \<noteq> 0"
  by (simp add: signed_fill_def)

lemma avg_in_band_on_fills:
  assumes "list_all (\<lambda>f. 0 < price_of f \<and> lo \<le> price_of f \<and> price_of f \<le> hi) fs"
    and "avg_in_band lo hi (position_of pk s)"
  shows "avg_in_band lo hi (position_of (on_fills fs pk) s)"
  using assms
proof (induction fs arbitrary: pk)
  case Nil
  then show ?case by simp
next
  case (Cons f fs)
  obtain s' qty price side where f: "f = (s', qty, price, side)" by (cases f)
  have "avg_in_band lo hi (position_of (fill_step pk f) s)"
    using Cons.prems f
    by (auto simp: position_of_on_fill intro!: avg_in_band_fill signed_fill_nonzero)
  with Cons show ?case by simp
qed

lemma distinct_on_fill: "distinct (map fst pk) \<Longrightarrow> distinct (map fst (on_fill s q p side pk))"
  by (simp add: on_fill_def)

text \<open>The table has one entry per symbol, and each entry carries its symbol.\<close>

definition pk_ok :: "position_keeper \<Rightarrow> bool" where
  "pk_ok pk \<longleftrightarrow> distinct (map fst pk) \<and> list_all (\<lambda>(s, p). pos_symbol p = s) pk"

lemma pk_ok_Nil [simp]: "pk_ok []"
  by (simp add: pk_ok_def)

lemma list_all_update:
  "list_all Q al \<Longrightarrow> Q (k, v) \<Longrightarrow> list_all Q (AList.update k v al)"
  by (induction al) auto

lemma pk_ok_on_fills: "pk_ok pk \<Longrightarrow> pk_ok (on_fills fs pk)"
proof (induction fs arbitrary: pk)
  case Nil
  then show ?case by simp
next
  case (Cons f fs)
  obtain s q p side where f: "f = (s, q, p, side)" by (cases f)
  have "pk_ok (fill_step pk f)"
    using Cons.prems by (simp add: f pk_ok_def distinct_on_fill)
      (simp add: on_fill_def list_all_update apply_to_position_def)
  with Cons.IH show ?case by simp
qed

text \<open>Over all symbols: the total realised profit and the open quantities marked by \<open>mark\<close>.\<close>

definition book_value :: "(Symbol \<Rightarrow> double) \<Rightarrow> position_keeper \<Rightarrow> double" where
  "book_value mark pk =
     get_total_pnl pk + (\<Sum>(s, p)\<leftarrow>pk. quantity p * (mark s - avgPrice p))"

lemma get_total_pnl_sum: "get_total_pnl pk = (\<Sum>sp\<leftarrow>pk. rPnL (snd sp))"
proof -
  have "foldl (\<lambda>sum sp. sum + rPnL (snd sp)) a pk = a + (\<Sum>sp\<leftarrow>pk. rPnL (snd sp))" for a
    by (induction pk arbitrary: a) simp_all
  then show ?thesis by (simp add: get_total_pnl_def)
qed

lemma book_value_sum: "book_value mark pk = (\<Sum>(s, p)\<leftarrow>pk. marked_pnl (mark s) p)"
  unfolding book_value_def get_total_pnl_sum marked_pnl_def
  by (induction pk) auto

lemma book_value_on_fill:
  assumes "distinct (map fst pk)" and "0 < price"
  shows "book_value mark (on_fill s qty price side pk)
         = book_value mark pk
           + (if 0 < qty then signed_fill qty side * (mark s - price) else 0)"
  using assms
  by (auto simp: book_value_sum on_fill_def position_of_def marked_pnl_fill
      sum_list_update_assoc [where f = "\<lambda>s p. marked_pnl (mark s) p"] split: option.splits)

lemma book_value_on_fills:
  assumes "distinct (map fst pk)" and "list_all priced fs"
  shows "book_value mark (on_fills fs pk)
         = book_value mark pk + (\<Sum>f\<leftarrow>fs. contributes (fst f) f * (mark (fst f) - price_of f))"
  using assms
proof (induction fs arbitrary: pk)
  case Nil
  then show ?case by simp
next
  case (Cons f fs)
  obtain s qty price side where f: "f = (s, qty, price, side)" by (cases f)
  have d: "distinct (map fst (fill_step pk f))"
    using Cons.prems(1) f by (simp add: distinct_on_fill)
  have "book_value mark (on_fills fs (fill_step pk f))
        = book_value mark (fill_step pk f)
          + (\<Sum>f\<leftarrow>fs. contributes (fst f) f * (mark (fst f) - price_of f))"
    using Cons.IH[OF d] Cons.prems(2) by simp
  then show ?case
    using Cons.prems f by (simp add: book_value_on_fill)
qed

section \<open>Properties\<close>

text \<open>
  The position's quantity is the sum of the signed quantities of all fills of its symbol,
  whatever their prices and order; fills of other symbols and non-positive quantities do not count.
\<close>

theorem position_quantity_is_fill_sum:
  "quantity (position_of (on_fills fs []) s) = (\<Sum>f\<leftarrow>fs. contributes s f)"
  by (simp add: quantity_on_fills)

text \<open>
  Accounting identity: for any sequence of priced fills, and through opening, adding, reducing,
  closing and flipping, realised profit plus the open quantity marked at any price \<open>p\<close> equals what
  the individual trades have gained at that price.
\<close>

theorem position_accounting_identity:
  assumes "list_all priced fs"
  shows "marked_pnl p (position_of (on_fills fs []) s)
         = (\<Sum>f\<leftarrow>fs. contributes s f * (p - price_of f))"
  using marked_pnl_on_fills[OF assms, of p "[]"] by simp

theorem position_accounting_identity_witness:
  "marked_pnl 130 (position_of
      (on_fills [(''AAPL'', 5, 100, BUY), (''AAPL'', 10, 120, SELL), (''AAPL'', 2, 110, BUY)] [])
      ''AAPL'') = 90"
  by (subst position_accounting_identity) (simp_all add: signed_fill_def)

text \<open>
  After priced fills within a price band, the average price is zero exactly on a flat position
  and otherwise lies within the band: no branch of the update produces a cost basis outside the
  prices that were traded.
\<close>

theorem position_average_price_band:
  assumes "list_all (\<lambda>f. 0 < price_of f \<and> lo \<le> price_of f \<and> price_of f \<le> hi) fs"
  shows "avg_in_band lo hi (position_of (on_fills fs []) s)"
  using avg_in_band_on_fills[OF assms, of "[]"] by simp

theorem position_average_price_band_witness:
  "avg_in_band 100 120 (position_of
      (on_fills [(''AAPL'', 5, 100, BUY), (''AAPL'', 10, 120, SELL)] []) ''AAPL'')"
  by (rule position_average_price_band) simp

text \<open>
  The total realised profit the risk check reads, plus every open position marked at the given
  prices, is the sum over all trades of what each has gained: no profit is lost or counted twice
  across symbols.
\<close>

theorem total_pnl_accounts_for_trades:
  assumes "list_all priced fs"
  shows "get_total_pnl (on_fills fs [])
         = (\<Sum>f\<leftarrow>fs. contributes (fst f) f * (mark (fst f) - price_of f))
           - (\<Sum>(s, p)\<leftarrow>on_fills fs []. quantity p * (mark s - avgPrice p))"
  using book_value_on_fills[OF _ assms, of "[]" mark]
  by (simp add: book_value_def get_total_pnl_def)

theorem total_pnl_accounts_for_trades_witness:
  "get_total_pnl (on_fills [(''A'', 5, 100, BUY), (''A'', 5, 120, SELL)] [])
   = (\<Sum>f\<leftarrow>[(''A'', 5, 100, BUY), (''A'', 5, 120, SELL)].
        contributes (fst f) f * (7 - price_of f))
     - (\<Sum>(s, p)\<leftarrow>on_fills [(''A'', 5, 100, BUY), (''A'', 5, 120, SELL)] [].
          quantity p * (7 - avgPrice p))"
  by (rule total_pnl_accounts_for_trades) simp

end
