(* ===== verification/OrderStore.thy ===== *)
theory OrderStore
  imports Protos
begin

text \<open>
  \<open>interfaces/i_order_store.h\<close>: the order statuses with their text forms, the stored order, and the
  virtual interface \<open>IOrderStore\<close> as a record of its methods. The locale \<open>order_store\<close> states what
  a caller may rely on, for every method and for its error results as well.
\<close>

section \<open>Order statuses\<close>

datatype OrderStatus =
  PENDING_SUBMISSION | SUBMITTED | ACCEPTED | PARTIALLY_FILLED | FILLED | CANCELLED | REPLACED
| REJECTED | EXPIRED

text \<open>The argument is a \<open>const char *\<close>, which may be null.\<close>

definition order_status_from_string :: "string option \<Rightarrow> OrderStatus" where
  "order_status_from_string s =
     (case s of
        None \<Rightarrow> PENDING_SUBMISSION
      | Some sv \<Rightarrow>
          if sv = ''SUBMITTED'' then SUBMITTED
          else if sv = ''ACCEPTED'' then ACCEPTED
          else if sv = ''PARTIALLY_FILLED'' then PARTIALLY_FILLED
          else if sv = ''FILLED'' then FILLED
          else if sv = ''CANCELLED'' then CANCELLED
          else if sv = ''REPLACED'' then REPLACED
          else if sv = ''REJECTED'' then REJECTED
          else if sv = ''EXPIRED'' then EXPIRED
          else PENDING_SUBMISSION)"

fun order_status_to_string :: "OrderStatus \<Rightarrow> string" where
  "order_status_to_string PENDING_SUBMISSION = ''PENDING_SUBMISSION''"
| "order_status_to_string SUBMITTED = ''SUBMITTED''"
| "order_status_to_string ACCEPTED = ''ACCEPTED''"
| "order_status_to_string PARTIALLY_FILLED = ''PARTIALLY_FILLED''"
| "order_status_to_string FILLED = ''FILLED''"
| "order_status_to_string CANCELLED = ''CANCELLED''"
| "order_status_to_string REPLACED = ''REPLACED''"
| "order_status_to_string REJECTED = ''REJECTED''"
| "order_status_to_string EXPIRED = ''EXPIRED''"

lemma order_status_text [simp]:
  "order_status_from_string (Some (order_status_to_string st)) = st"
  by (cases st) (simp_all add: order_status_from_string_def)

lemma order_status_to_string_inj [simp]:
  "order_status_to_string a = order_status_to_string b \<longleftrightarrow> a = b"
  by (metis order_status_text)

section \<open>Stored orders\<close>

record stored_order =
  so_order :: order
  so_status :: OrderStatus
  so_local_id :: string
  so_broker_id :: "string option"
  so_created_at :: string
  so_updated_at :: "string option"
  so_filled_quantity :: double
  so_avg_fill_price :: double

text \<open>The four statuses of an order that is still open, as \<open>get_open_orders\<close> lists them.\<close>

definition open_statuses :: "OrderStatus list" where
  "open_statuses = [PENDING_SUBMISSION, SUBMITTED, ACCEPTED, PARTIALLY_FILLED]"

section \<open>The interface\<close>

record 's store_ops =
  st_store_order :: "stored_order \<Rightarrow> 's \<Rightarrow> unit result \<times> 's"
  st_update_order_status :: "string \<Rightarrow> OrderStatus \<Rightarrow> 's \<Rightarrow> unit result \<times> 's"
  st_update_broker_id :: "string \<Rightarrow> string \<Rightarrow> 's \<Rightarrow> unit result \<times> 's"
  st_apply_fill :: "string \<Rightarrow> double \<Rightarrow> double \<Rightarrow> OrderStatus \<Rightarrow> 's \<Rightarrow> unit result \<times> 's"
  st_get_order :: "string \<Rightarrow> 's \<Rightarrow> stored_order result \<times> 's"
  st_get_open_orders :: "'s \<Rightarrow> stored_order list \<times> 's"
  st_get_orders_by_status :: "OrderStatus \<Rightarrow> 's \<Rightarrow> stored_order list \<times> 's"

text \<open>
  What the interface promises is stated on a view of the store: for each local id the stored
  message, status, broker id and fill totals (the two text timestamps are left out).
\<close>

record order_view =
  ov_order :: order
  ov_status :: OrderStatus
  ov_broker_id :: "string option"
  ov_filled :: double
  ov_avg_price :: double

definition view_of :: "stored_order \<Rightarrow> order_view" where
  "view_of so = \<lparr>ov_order = so_order so, ov_status = so_status so, ov_broker_id = so_broker_id so,
     ov_filled = so_filled_quantity so, ov_avg_price = so_avg_fill_price so\<rparr>"

text \<open>
  A fill moves the average to the quantity-weighted one. A total of zero keeps no meaningful
  average: the store then reads back zero.
\<close>

definition fill_view :: "double \<Rightarrow> double \<Rightarrow> OrderStatus \<Rightarrow> order_view \<Rightarrow> order_view" where
  "fill_view q p st v =
     v\<lparr>ov_filled := ov_filled v + q,
       ov_avg_price :=
         (if ov_filled v = 0 then p
          else if ov_filled v + q = 0 then 0
          else (ov_avg_price v * ov_filled v + p * q) / (ov_filled v + q)),
       ov_status := st\<rparr>"

definition on_key :: "('v \<Rightarrow> 'v) \<Rightarrow> 'k \<Rightarrow> ('k \<rightharpoonup> 'v) \<Rightarrow> ('k \<rightharpoonup> 'v)" where
  "on_key f k m = m(k := map_option f (m k))"

lemma on_key_apply [simp]: "on_key f k m k' = (if k' = k then map_option f (m k) else m k')"
  by (simp add: on_key_def)

lemma on_key_None [simp]: "m k = None \<Longrightarrow> on_key f k m = m"
  by (auto simp: on_key_def fun_upd_idem)

text \<open>
  The commands of the interface as values, and what a run of them does to the implementation and to
  the view. A command that failed has no effect on the view; storing under an id in use cannot
  succeed.
\<close>

datatype store_cmd =
  Store stored_order | Set_status string OrderStatus | Set_broker string string
| Fill string double double OrderStatus | Get string | List_open

fun store_step :: "'s store_ops \<Rightarrow> store_cmd \<Rightarrow> 's \<Rightarrow> bool \<times> 's" where
  "store_step ops (Store so) s = map_prod is_ok id (st_store_order ops so s)"
| "store_step ops (Set_status l st) s = map_prod is_ok id (st_update_order_status ops l st s)"
| "store_step ops (Set_broker l b) s = map_prod is_ok id (st_update_broker_id ops l b s)"
| "store_step ops (Fill l q p st) s = map_prod is_ok id (st_apply_fill ops l q p st s)"
| "store_step ops (Get l) s = map_prod is_ok id (st_get_order ops l s)"
| "store_step ops List_open s = map_prod (\<lambda>_. True) id (st_get_open_orders ops s)"

fun view_step :: "store_cmd \<Rightarrow> (string \<rightharpoonup> order_view) \<Rightarrow> (string \<rightharpoonup> order_view)" where
  "view_step (Store so) m = m(so_local_id so \<mapsto> view_of so)"
| "view_step (Set_status l st) m = on_key (\<lambda>v. v\<lparr>ov_status := st\<rparr>) l m"
| "view_step (Set_broker l b) m = on_key (\<lambda>v. v\<lparr>ov_broker_id := Some b\<rparr>) l m"
| "view_step (Fill l q p st) m = on_key (fill_view q p st) l m"
| "view_step _ m = m"

primrec run_store :: "'s store_ops \<Rightarrow> store_cmd list \<Rightarrow> 's \<Rightarrow> bool list \<times> 's" where
  "run_store ops [] s = ([], s)"
| "run_store ops (c # cs) s =
     (let (b, s') = store_step ops c s; (bs, s'') = run_store ops cs s' in (b # bs, s''))"

definition run_view ::
  "store_cmd list \<Rightarrow> bool list \<Rightarrow> (string \<rightharpoonup> order_view) \<Rightarrow> (string \<rightharpoonup> order_view)" where
  "run_view cs bs m = foldl (\<lambda>m (c, b). if b then view_step c m else m) m (zip cs bs)"

lemma run_view_simps [simp]:
  "run_view [] bs m = m"
  "run_view (c # cs) (b # bs) m = run_view cs bs (if b then view_step c m else m)"
  by (simp_all add: run_view_def)

locale order_store =
  fixes ops :: "'s store_ops"
    and look :: "'s \<Rightarrow> string \<Rightarrow> order_view option"
    and store_inv :: "'s \<Rightarrow> bool"
  assumes store_ok:
      "store_inv s \<Longrightarrow> st_store_order ops so s = (Inr u, s') \<Longrightarrow>
       look s (so_local_id so) = None \<and> look s' = (look s)(so_local_id so \<mapsto> view_of so)"
    and store_err: "st_store_order ops so s = (Inl e, s') \<Longrightarrow> look s' = look s"
    and store_keeps: "store_inv s \<Longrightarrow> store_inv (snd (st_store_order ops so s))"
    and status_ok:
      "st_update_order_status ops l st s = (Inr u, s') \<Longrightarrow>
       look s' = on_key (\<lambda>v. v\<lparr>ov_status := st\<rparr>) l (look s)"
    and status_err: "st_update_order_status ops l st s = (Inl e, s') \<Longrightarrow> look s' = look s"
    and status_keeps: "store_inv s \<Longrightarrow> store_inv (snd (st_update_order_status ops l st s))"
    and broker_ok:
      "st_update_broker_id ops l b s = (Inr u, s') \<Longrightarrow>
       look s' = on_key (\<lambda>v. v\<lparr>ov_broker_id := Some b\<rparr>) l (look s)"
    and broker_err: "st_update_broker_id ops l b s = (Inl e, s') \<Longrightarrow> look s' = look s"
    and broker_keeps: "store_inv s \<Longrightarrow> store_inv (snd (st_update_broker_id ops l b s))"
    and fill_ok:
      "store_inv s \<Longrightarrow> st_apply_fill ops l q p st s = (Inr u, s') \<Longrightarrow>
       look s' = on_key (fill_view q p st) l (look s)"
    and fill_err: "st_apply_fill ops l q p st s = (Inl e, s') \<Longrightarrow> look s' = look s"
    and fill_keeps: "store_inv s \<Longrightarrow> store_inv (snd (st_apply_fill ops l q p st s))"
    and get_ok:
      "st_get_order ops l s = (Inr so, s') \<Longrightarrow> look s l = Some (view_of so) \<and> so_local_id so = l"
    and get_frame: "look (snd (st_get_order ops l s)) = look s"
    and get_keeps: "store_inv s \<Longrightarrow> store_inv (snd (st_get_order ops l s))"
    and open_ok:
      "store_inv s \<Longrightarrow> so \<in> set (fst (st_get_open_orders ops s)) \<Longrightarrow>
       look s (so_local_id so) = Some (view_of so) \<and> so_status so \<in> set open_statuses"
    and open_frame: "look (snd (st_get_open_orders ops s)) = look s"
    and open_keeps: "store_inv s \<Longrightarrow> store_inv (snd (st_get_open_orders ops s))"
begin

lemma status_look:
  "look (snd (st_update_order_status ops l st s)) l' =
     (if l' = l \<and> is_ok (fst (st_update_order_status ops l st s))
      then map_option (\<lambda>v. v\<lparr>ov_status := st\<rparr>) (look s l) else look s l')"
  by (cases "st_update_order_status ops l st s"; cases "fst (st_update_order_status ops l st s)")
    (auto simp: status_ok status_err)

lemma fill_look:
  "store_inv s \<Longrightarrow>
   look (snd (st_apply_fill ops l q p st s)) l' =
     (if l' = l \<and> is_ok (fst (st_apply_fill ops l q p st s))
      then map_option (fill_view q p st) (look s l) else look s l')"
  by (cases "st_apply_fill ops l q p st s"; cases "fst (st_apply_fill ops l q p st s)")
    (auto dest: fill_ok simp: fill_err)

lemma broker_look:
  "look (snd (st_update_broker_id ops l b s)) l' =
     (if l' = l \<and> is_ok (fst (st_update_broker_id ops l b s))
      then map_option (\<lambda>v. v\<lparr>ov_broker_id := Some b\<rparr>) (look s l) else look s l')"
  by (cases "st_update_broker_id ops l b s"; cases "fst (st_update_broker_id ops l b s)")
    (auto simp: broker_ok broker_err)

lemma store_look:
  "store_inv s \<Longrightarrow>
   look (snd (st_store_order ops so s)) l' =
     (if l' = so_local_id so \<and> is_ok (fst (st_store_order ops so s))
      then Some (view_of so) else look s l')"
  by (cases "st_store_order ops so s"; cases "fst (st_store_order ops so s)")
    (auto dest: store_ok store_err)

lemmas looks = status_look fill_look broker_look store_look get_frame open_frame
lemmas keeps = store_keeps status_keeps broker_keeps fill_keeps get_keeps open_keeps

lemma step_refines:
  assumes "store_inv s"
  shows "store_inv (snd (store_step ops c s))
       \<and> look (snd (store_step ops c s))
         = (if fst (store_step ops c s) then view_step c (look s) else look s)"
  using assms by (cases c) (simp_all add: keeps looks fun_eq_iff)

lemma run_refines:
  "store_inv s \<Longrightarrow>
   store_inv (snd (run_store ops cs s))
   \<and> look (snd (run_store ops cs s)) = run_view cs (fst (run_store ops cs s)) (look s)"
proof (induction cs arbitrary: s)
  case Nil
  then show ?case by simp
next
  case (Cons c cs)
  then show ?case
    using step_refines [OF Cons.prems, of c] Cons.IH [of "snd (store_step ops c s)"]
    by (simp add: Let_def split_beta)
qed

end

text \<open>
  A store in a state where its statements do not fail: updates succeed, stay in such a state, and
  the open orders are listed completely.
\<close>

locale reliable_store = order_store ops look store_inv
  for ops :: "'s store_ops" and look and store_inv +
  fixes healthy :: "'s \<Rightarrow> bool"
  assumes healthy_status_ok: "healthy s \<Longrightarrow> is_ok (fst (st_update_order_status ops l st s))"
    and healthy_status: "healthy s \<Longrightarrow> healthy (snd (st_update_order_status ops l st s))"
    and healthy_open: "healthy s \<Longrightarrow> healthy (snd (st_get_open_orders ops s))"
    and healthy_store: "healthy s \<Longrightarrow> healthy (snd (st_store_order ops so s))"
    and healthy_broker: "healthy s \<Longrightarrow> healthy (snd (st_update_broker_id ops l b s))"
    and healthy_fill: "healthy s \<Longrightarrow> healthy (snd (st_apply_fill ops l q p st s))"
    and healthy_get: "healthy s \<Longrightarrow> healthy (snd (st_get_order ops l s))"
    and open_complete:
      "store_inv s \<Longrightarrow> healthy s \<Longrightarrow> look s l = Some v \<Longrightarrow> ov_status v \<in> set open_statuses \<Longrightarrow>
       \<exists>so \<in> set (fst (st_get_open_orders ops s)). so_local_id so = l"
    and open_distinct:
      "store_inv s \<Longrightarrow> distinct (map so_local_id (fst (st_get_open_orders ops s)))"

text \<open>
  The status written to the database as text reads back as the same status, for all nine of
  them; a null or unknown text reads as \<open>PENDING_SUBMISSION\<close>.
\<close>

theorem order_status_roundtrip:
  "order_status_from_string (Some (order_status_to_string st)) = st
   \<and> order_status_from_string None = PENDING_SUBMISSION
   \<and> (order_status_from_string (Some s) = PENDING_SUBMISSION
      \<or> order_status_to_string (order_status_from_string (Some s)) = s)"
  by (intro conjI order_status_text) (simp_all add: order_status_from_string_def)

end
