(* ===== verification/SqliteOrderStore.thy ===== *)
theory SqliteOrderStore
  imports OrderStore
begin

text \<open>
  \<open>persistence/sqlite_order_store.cpp\<close>: the order store on an SQLite table. The state is the
  table's rows in insertion order; each operation is the SQL statement the source prepares, binds
  and steps, translated clause by clause. The database engine is not part of the repository: that a
  statement can fail is an oracle (\<open>faults\<close>, per statement, with the error text), and the clock of
  \<open>datetime('now')\<close> is a second one. The serialised protobuf column holds the message itself.
  The theory interprets \<open>order_store\<close> on these operations.
\<close>

section \<open>The table\<close>

record order_row =
  row_local_id :: string
  row_broker_id :: "string option"
  row_symbol :: string
  row_side :: int
  row_quantity :: double
  row_price :: double
  row_order_type :: int
  row_status :: string
  row_time_in_force :: int
  row_account_id :: string
  row_strategy_id :: string
  row_created_at :: string
  row_updated_at :: "string option"
  row_filled_quantity :: double
  row_avg_fill_price :: "double option"
  row_order_proto :: order

text \<open>
  A statement fails when it is prepared, or when it is stepped, after a number of result rows.
\<close>

datatype db_fault = Prepare_fails string | Step_fails nat string

record sqlite_store =
  rows :: "order_row list"
  faults :: "nat \<Rightarrow> db_fault option"
  sql_now :: "nat \<Rightarrow> string"
  stmts :: nat

definition next_stmt :: "sqlite_store \<Rightarrow> sqlite_store" where
  "next_stmt db = db\<lparr>stmts := Suc (stmts db)\<rparr>"

definition fault_now :: "sqlite_store \<Rightarrow> db_fault option" where
  "fault_now db = faults db (stmts db)"

text \<open>A freshly created schema: \<open>CREATE TABLE IF NOT EXISTS\<close> on an empty database.\<close>

definition open_store :: "(nat \<Rightarrow> db_fault option) \<Rightarrow> (nat \<Rightarrow> string) \<Rightarrow> sqlite_store" where
  "open_store fs now = \<lparr>rows = [], faults = fs, sql_now = now, stmts = 0\<rparr>"

section \<open>The operations\<close>

definition row_of :: "stored_order \<Rightarrow> order_row" where
  "row_of so =
     (let ord = so_order so
      in \<lparr>row_local_id = so_local_id so,
          row_broker_id = so_broker_id so,
          row_symbol = ord_symbol ord,
          row_side = side_number (ord_side ord),
          row_quantity = ord_quantity ord,
          row_price = ord_price ord,
          row_order_type = order_type_number (ord_type ord),
          row_status = order_status_to_string (so_status so),
          row_time_in_force = time_in_force_number (ord_time_in_force ord),
          row_account_id = ord_account_id ord,
          row_strategy_id = ord_strategy_id ord,
          row_created_at = so_created_at so,
          row_updated_at = None,
          row_filled_quantity = so_filled_quantity so,
          row_avg_fill_price = Some (so_avg_fill_price so),
          row_order_proto = ord\<rparr>)"

text \<open>The \<open>UNIQUE\<close> constraint of the broker id column; nulls are distinct from each other.\<close>

definition broker_taken :: "string option \<Rightarrow> order_row list \<Rightarrow> bool" where
  "broker_taken b rs \<longleftrightarrow> b \<noteq> None \<and> b \<in> set (map row_broker_id rs)"

definition sq_store_order :: "stored_order \<Rightarrow> sqlite_store \<Rightarrow> unit result \<times> sqlite_store" where
  "sq_store_order so db =
     (case fault_now db of
        Some (Prepare_fails msg) \<Rightarrow>
          (Inl (mk_error (''Failed to prepare insert statement: '' @ msg) Error), next_stmt db)
      | Some (Step_fails n msg) \<Rightarrow>
          (Inl (mk_error (''Failed to insert order: '' @ msg) Error), next_stmt db)
      | None \<Rightarrow>
          if so_local_id so \<in> set (map row_local_id (rows db))
          then (Inl (mk_error
                  ''Failed to insert order: UNIQUE constraint failed: orders.local_id'' Error),
                next_stmt db)
          else if broker_taken (so_broker_id so) (rows db)
          then (Inl (mk_error
                  ''Failed to insert order: UNIQUE constraint failed: orders.broker_id'' Error),
                next_stmt db)
          else (Inr (), next_stmt (db\<lparr>rows := rows db @ [row_of so]\<rparr>)))"

text \<open>\<open>UPDATE ... WHERE local_id = ?\<close> on the rows.\<close>

definition update_rows :: "string \<Rightarrow> (order_row \<Rightarrow> order_row) \<Rightarrow> order_row list \<Rightarrow> order_row list" where
  "update_rows l f rs = map (\<lambda>r. if row_local_id r = l then f r else r) rs"

definition sq_update_order_status ::
  "string \<Rightarrow> OrderStatus \<Rightarrow> sqlite_store \<Rightarrow> unit result \<times> sqlite_store" where
  "sq_update_order_status l new_status db =
     (case fault_now db of
        Some (Prepare_fails msg) \<Rightarrow>
          (Inl (mk_error (''Failed to prepare update statement: '' @ msg) Error), next_stmt db)
      | Some (Step_fails n msg) \<Rightarrow>
          (Inl (mk_error (''Failed to update order status: '' @ msg) Error), next_stmt db)
      | None \<Rightarrow>
          (Inr (), next_stmt (db\<lparr>rows := update_rows l
             (\<lambda>r. r\<lparr>row_status := order_status_to_string new_status,
                    row_updated_at := Some (sql_now db (stmts db))\<rparr>) (rows db)\<rparr>)))"

definition sq_update_broker_id ::
  "string \<Rightarrow> string \<Rightarrow> sqlite_store \<Rightarrow> unit result \<times> sqlite_store" where
  "sq_update_broker_id l b db =
     (case fault_now db of
        Some (Prepare_fails msg) \<Rightarrow>
          (Inl (mk_error (''Failed to prepare update statement: '' @ msg) Error), next_stmt db)
      | Some (Step_fails n msg) \<Rightarrow>
          (Inl (mk_error (''Failed to update broker ID: '' @ msg) Error), next_stmt db)
      | None \<Rightarrow>
          if l \<in> set (map row_local_id (rows db))
             \<and> broker_taken (Some b) (filter (\<lambda>r. row_local_id r \<noteq> l) (rows db))
          then (Inl (mk_error
                  ''Failed to update broker ID: UNIQUE constraint failed: orders.broker_id'' Error),
                next_stmt db)
          else (Inr (), next_stmt (db\<lparr>rows := update_rows l
                  (\<lambda>r. r\<lparr>row_broker_id := Some b,
                         row_updated_at := Some (sql_now db (stmts db))\<rparr>) (rows db)\<rparr>)))"

text \<open>
  The average of \<open>apply_fill\<close>: in SQL an expression with a null operand is null, and so is a
  division by zero. All right-hand sides read the old row.
\<close>

definition sql_avg :: "order_row \<Rightarrow> double \<Rightarrow> double \<Rightarrow> double option" where
  "sql_avg r q p =
     (if row_filled_quantity r = 0 then Some p
      else case row_avg_fill_price r of
             None \<Rightarrow> None
           | Some avg \<Rightarrow>
               if row_filled_quantity r + q = 0 then None
               else Some ((avg * row_filled_quantity r + p * q) / (row_filled_quantity r + q)))"

definition sq_apply_fill ::
  "string \<Rightarrow> double \<Rightarrow> double \<Rightarrow> OrderStatus \<Rightarrow> sqlite_store \<Rightarrow> unit result \<times> sqlite_store" where
  "sq_apply_fill l q p new_status db =
     (case fault_now db of
        Some (Prepare_fails msg) \<Rightarrow>
          (Inl (mk_error (''Failed to prepare apply_fill statement: '' @ msg) Error), next_stmt db)
      | Some (Step_fails n msg) \<Rightarrow>
          (Inl (mk_error (''Failed to apply fill: '' @ msg) Error), next_stmt db)
      | None \<Rightarrow>
          (Inr (), next_stmt (db\<lparr>rows := update_rows l
             (\<lambda>r. r\<lparr>row_avg_fill_price := sql_avg r q p,
                    row_filled_quantity := row_filled_quantity r + q,
                    row_status := order_status_to_string new_status,
                    row_updated_at := Some (sql_now db (stmts db))\<rparr>) (rows db)\<rparr>)))"

text \<open>\<open>sqlite3_column_double\<close> of a null is zero.\<close>

definition parse_order :: "order_row \<Rightarrow> stored_order" where
  "parse_order r =
     \<lparr>so_order = row_order_proto r,
      so_status = order_status_from_string (Some (row_status r)),
      so_local_id = row_local_id r,
      so_broker_id = row_broker_id r,
      so_created_at = row_created_at r,
      so_updated_at = row_updated_at r,
      so_filled_quantity = row_filled_quantity r,
      so_avg_fill_price = (case row_avg_fill_price r of None \<Rightarrow> 0 | Some a \<Rightarrow> a)\<rparr>"

definition sq_get_order :: "string \<Rightarrow> sqlite_store \<Rightarrow> stored_order result \<times> sqlite_store" where
  "sq_get_order l db =
     (case fault_now db of
        Some (Prepare_fails msg) \<Rightarrow>
          (Inl (mk_error (''Failed to prepare select statement: '' @ msg) Error), next_stmt db)
      | Some (Step_fails 0 msg) \<Rightarrow>
          (Inl (mk_error (''Order not found: '' @ l) Error), next_stmt db)
      | _ \<Rightarrow>
          (case find (\<lambda>r. row_local_id r = l) (rows db) of
             Some r \<Rightarrow> (Inr (parse_order r), next_stmt db)
           | None \<Rightarrow> (Inl (mk_error (''Order not found: '' @ l) Error), next_stmt db)))"

text \<open>
  The two queries step until the statement is done or fails, collecting what was returned so far.
  \<open>ORDER BY created_at ASC\<close> compares the text bytewise; equal times keep the insertion order.
\<close>

definition sq_query :: "(order_row \<Rightarrow> bool) \<Rightarrow> sqlite_store \<Rightarrow> stored_order list \<times> sqlite_store" where
  "sq_query cond db =
     (let result = map parse_order (sort_key row_created_at (filter cond (rows db)))
      in case fault_now db of
           Some (Prepare_fails msg) \<Rightarrow> ([], next_stmt db)
         | Some (Step_fails n msg) \<Rightarrow> (take n result, next_stmt db)
         | None \<Rightarrow> (result, next_stmt db))"

definition sq_get_open_orders :: "sqlite_store \<Rightarrow> stored_order list \<times> sqlite_store" where
  "sq_get_open_orders =
     sq_query (\<lambda>r. row_status r \<in> set (map order_status_to_string open_statuses))"

definition sq_get_orders_by_status ::
  "OrderStatus \<Rightarrow> sqlite_store \<Rightarrow> stored_order list \<times> sqlite_store" where
  "sq_get_orders_by_status status = sq_query (\<lambda>r. row_status r = order_status_to_string status)"

definition sqlite_store_ops :: "sqlite_store store_ops" where
  "sqlite_store_ops =
     \<lparr>st_store_order = sq_store_order,
      st_update_order_status = sq_update_order_status,
      st_update_broker_id = sq_update_broker_id,
      st_apply_fill = sq_apply_fill,
      st_get_order = sq_get_order,
      st_get_open_orders = sq_get_open_orders,
      st_get_orders_by_status = sq_get_orders_by_status\<rparr>"

lemma sqlite_store_ops_simps [simp]:
  "st_store_order sqlite_store_ops = sq_store_order"
  "st_update_order_status sqlite_store_ops = sq_update_order_status"
  "st_update_broker_id sqlite_store_ops = sq_update_broker_id"
  "st_apply_fill sqlite_store_ops = sq_apply_fill"
  "st_get_order sqlite_store_ops = sq_get_order"
  "st_get_open_orders sqlite_store_ops = sq_get_open_orders"
  "st_get_orders_by_status sqlite_store_ops = sq_get_orders_by_status"
  by (simp_all add: sqlite_store_ops_def)

lemmas sq_defs [op_defs] =
  sq_store_order_def sq_update_order_status_def sq_update_broker_id_def sq_apply_fill_def
  sq_get_order_def sq_get_open_orders_def sq_get_orders_by_status_def sq_query_def
  next_stmt_def fault_now_def

section \<open>The store's invariant and view\<close>

text \<open>
  Local ids are unique, a broker id belongs to one local id, the status text is one of the nine, and
  the average is null only on a row with no fills.
\<close>

definition id_pairs :: "order_row list \<Rightarrow> (string \<times> string option) list" where
  "id_pairs rs = map (\<lambda>r. (row_local_id r, row_broker_id r)) rs"

definition brokers_ok :: "(string \<times> string option) list \<Rightarrow> bool" where
  "brokers_ok ps \<longleftrightarrow>
     (\<forall>l l' b. (l, Some b) \<in> set ps \<and> (l', Some b) \<in> set ps \<longrightarrow> l = l')"

definition row_ok :: "order_row \<Rightarrow> bool" where
  "row_ok r \<longleftrightarrow>
     order_status_to_string (order_status_from_string (Some (row_status r))) = row_status r \<and>
     (row_filled_quantity r = 0 \<or> row_avg_fill_price r \<noteq> None)"

definition sq_inv :: "sqlite_store \<Rightarrow> bool" where
  "sq_inv db \<longleftrightarrow>
     distinct (map row_local_id (rows db)) \<and> brokers_ok (id_pairs (rows db)) \<and>
     list_all row_ok (rows db)"

definition sq_row :: "sqlite_store \<Rightarrow> string \<Rightarrow> order_row option" where
  "sq_row db l = find (\<lambda>r. row_local_id r = l) (rows db)"

definition sq_look :: "sqlite_store \<Rightarrow> string \<Rightarrow> order_view option" where
  "sq_look db l = map_option (\<lambda>r. view_of (parse_order r)) (sq_row db l)"

lemma find_append: "find P (xs @ ys) = (case find P xs of None \<Rightarrow> find P ys | Some x \<Rightarrow> Some x)"
  by (induction xs) auto

lemma find_update_rows:
  assumes "\<And>r. row_local_id (f r) = row_local_id r"
  shows "find (\<lambda>r. row_local_id r = l') (update_rows l f rs)
       = (if l' = l then map_option f (find (\<lambda>r. row_local_id r = l) rs)
          else find (\<lambda>r. row_local_id r = l') rs)"
  by (induction rs) (auto simp: update_rows_def assms)

lemma find_None_ids: "find (\<lambda>r. row_local_id r = l) rs = None \<longleftrightarrow> l \<notin> set (map row_local_id rs)"
  by (auto simp: find_None_iff)

lemma find_ids_Some:
  "distinct (map row_local_id rs) \<Longrightarrow> r \<in> set rs \<Longrightarrow>
   find (\<lambda>r'. row_local_id r' = row_local_id r) rs = Some r"
  by (induction rs) auto

lemma map_update_rows:
  assumes "\<And>r. g (f r) = g r"
  shows "map g (update_rows l f rs) = map g rs"
  by (simp add: update_rows_def assms)

lemma set_update_rows:
  "set (update_rows l f rs) = (\<lambda>r. if row_local_id r = l then f r else r) ` set rs"
  by (simp add: update_rows_def)

lemma sq_look_update:
  assumes "\<And>r. row_local_id (f r) = row_local_id r"
    and "\<And>r. r \<in> set (rows db) \<Longrightarrow> view_of (parse_order (f r)) = g (view_of (parse_order r))"
    and "rows db' = update_rows l f (rows db)"
  shows "sq_look db' = on_key g l (sq_look db)"
proof
  fix l'
  have "view_of (parse_order (f r)) = g (view_of (parse_order r))"
    if "find (\<lambda>r. row_local_id r = l) (rows db) = Some r" for r
    using that assms(2) by (auto simp: find_Some_iff)
  then show "sq_look db' l' = on_key g l (sq_look db) l'"
    by (cases "find (\<lambda>r. row_local_id r = l) (rows db)")
      (auto simp: sq_look_def sq_row_def assms(3) find_update_rows [OF assms(1)])
qed

lemma sq_look_same: "rows db' = rows db \<Longrightarrow> sq_look db' = sq_look db"
  by (simp add: sq_look_def sq_row_def fun_eq_iff)

lemma sq_inv_same: "rows db' = rows db \<Longrightarrow> sq_inv db' = sq_inv db"
  by (simp add: sq_inv_def)

lemma sq_stmts [simp]:
  "sq_inv (db\<lparr>stmts := n\<rparr>) = sq_inv db" "sq_look (db\<lparr>stmts := n\<rparr>) = sq_look db"
  by (simp_all add: sq_inv_def sq_look_def sq_row_def fun_eq_iff)

lemma sq_look_store:
  assumes "so_local_id so \<notin> set (map row_local_id (rows db))"
    and "rows db' = rows db @ [row_of so]"
  shows "sq_look db (so_local_id so) = None
       \<and> sq_look db' = (sq_look db)(so_local_id so \<mapsto> view_of so)"
proof -
  have "find (\<lambda>r. row_local_id r = so_local_id so) (rows db) = None"
    using assms(1) by (simp only: find_None_ids) simp
  moreover have "row_local_id (row_of so) = so_local_id so"
    "view_of (parse_order (row_of so)) = view_of so"
    by (simp_all add: row_of_def Let_def parse_order_def view_of_def)
  ultimately show ?thesis
    by (auto simp: sq_look_def sq_row_def assms(2) find_append fun_eq_iff split: option.split)
qed

lemma id_pairs_ids: "map row_local_id rs = map fst (id_pairs rs)"
  by (simp add: id_pairs_def)

lemma brokers_ok_snoc:
  assumes "brokers_ok ps" and "b \<notin> set (map snd ps) \<or> b = None"
  shows "brokers_ok (ps @ [(l, b)])"
  unfolding brokers_ok_def
proof (intro allI impI)
  fix l1 l2 c
  assume h: "(l1, Some c) \<in> set (ps @ [(l, b)]) \<and> (l2, Some c) \<in> set (ps @ [(l, b)])"
  have "(l', Some c) \<notin> set ps" if "b = Some c" for l'
    using assms(2) that by force
  with h assms(1) show "l1 = l2"
    unfolding brokers_ok_def by auto
qed

lemma row_ok_row_of: "row_ok (row_of so)"
  by (simp add: row_ok_def row_of_def Let_def)

lemma sq_inv_store:
  assumes "sq_inv db" and "so_local_id so \<notin> set (map row_local_id (rows db))"
    and "\<not> broker_taken (so_broker_id so) (rows db)"
    and "rows db' = rows db @ [row_of so]"
  shows "sq_inv db'"
proof -
  have "id_pairs (rows db') = id_pairs (rows db) @ [(so_local_id so, so_broker_id so)]"
    by (simp add: assms(4) id_pairs_def row_of_def Let_def)
  moreover have "map row_local_id (rows db') = map row_local_id (rows db) @ [so_local_id so]"
    by (simp add: assms(4) row_of_def Let_def)
  moreover have "so_broker_id so \<notin> set (map snd (id_pairs (rows db))) \<or> so_broker_id so = None"
    using assms(3) by (auto simp: broker_taken_def id_pairs_def)
  ultimately show ?thesis
    using assms(1,2) row_ok_row_of
    by (simp add: sq_inv_def brokers_ok_snoc assms(4))
qed

lemma sq_view_fill:
  assumes "row_filled_quantity r = 0 \<or> row_avg_fill_price r \<noteq> None"
  shows "view_of (parse_order (r\<lparr>row_avg_fill_price := sql_avg r q p,
           row_filled_quantity := row_filled_quantity r + q,
           row_status := order_status_to_string st, row_updated_at := t\<rparr>))
         = fill_view q p st (view_of (parse_order r))"
  using assms
  by (auto simp: view_of_def parse_order_def fill_view_def sql_avg_def split: option.splits)

lemma row_ok_update_rows:
  "list_all row_ok rs \<Longrightarrow> (\<And>r. row_ok r \<Longrightarrow> row_ok (f r)) \<Longrightarrow> list_all row_ok (update_rows l f rs)"
  by (induction rs) (simp_all add: update_rows_def)

lemma sq_update_inv:
  assumes "sq_inv db" and "rows db' = update_rows l f (rows db)"
    and "\<And>r. row_local_id (f r) = row_local_id r" and "\<And>r. row_broker_id (f r) = row_broker_id r"
    and "\<And>r. row_ok r \<Longrightarrow> row_ok (f r)"
  shows "sq_inv db'"
proof -
  have "id_pairs (rows db') = id_pairs (rows db)"
    unfolding id_pairs_def assms(2) by (rule map_update_rows) (simp add: assms(3,4))
  with assms(1) row_ok_update_rows [OF _ assms(5)] show ?thesis
    by (simp add: sq_inv_def id_pairs_ids assms(2))
qed

lemma sq_broker_inv:
  assumes "sq_inv db" and "\<not> broker_taken (Some b) (filter (\<lambda>r. row_local_id r \<noteq> l) (rows db))"
    and "rows db' = update_rows l (\<lambda>r. r\<lparr>row_broker_id := Some b, row_updated_at := t\<rparr>) (rows db)"
  shows "sq_inv db'"
proof -
  have ids: "map row_local_id (rows db') = map row_local_id (rows db)"
    unfolding assms(3) by (rule map_update_rows) simp
  have pairs: "id_pairs (rows db')
      = map (\<lambda>(l', b'). if l' = l then (l', Some b) else (l', b')) (id_pairs (rows db))"
    by (simp add: id_pairs_def assms(3) update_rows_def)
  have fresh: "(l', Some b) \<notin> set (id_pairs (rows db))" if "l' \<noteq> l" for l'
    using assms(2) that by (force simp: broker_taken_def id_pairs_def)
  have old: "brokers_ok (id_pairs (rows db))"
    using assms(1) by (simp add: sq_inv_def)
  have "brokers_ok (id_pairs (rows db'))"
    unfolding brokers_ok_def
  proof (intro allI impI)
    fix l1 l2 c
    assume "(l1, Some c) \<in> set (id_pairs (rows db')) \<and> (l2, Some c) \<in> set (id_pairs (rows db'))"
    then have "l1 = l \<and> c = b \<or> l1 \<noteq> l \<and> (l1, Some c) \<in> set (id_pairs (rows db))"
      and "l2 = l \<and> c = b \<or> l2 \<noteq> l \<and> (l2, Some c) \<in> set (id_pairs (rows db))"
      by (auto simp: pairs split: if_splits)
    with fresh old show "l1 = l2"
      unfolding brokers_ok_def by blast
  qed
  moreover have "list_all row_ok (rows db')"
    using assms(1) unfolding assms(3) sq_inv_def
    by (auto intro!: row_ok_update_rows simp: row_ok_def)
  ultimately show ?thesis
    using assms(1) by (simp add: sq_inv_def ids)
qed

lemma update_absent: "l \<notin> set (map row_local_id rs) \<Longrightarrow> update_rows l f rs = rs"
  by (induction rs) (auto simp: update_rows_def)

lemma row_ok_status:
  "row_ok r \<Longrightarrow> row_ok (r\<lparr>row_status := order_status_to_string st, row_updated_at := t\<rparr>)"
  by (simp add: row_ok_def)

lemma row_ok_fill:
  "row_ok r \<Longrightarrow>
   row_ok (r\<lparr>row_avg_fill_price := sql_avg r q p, row_filled_quantity := row_filled_quantity r + q,
            row_status := order_status_to_string st, row_updated_at := t\<rparr>)"
  by (auto simp: row_ok_def sql_avg_def)

lemma sq_query_rows: "rows (snd (sq_query c db)) = rows db"
  by (simp add: sq_query_def next_stmt_def Let_def split: option.split db_fault.split)

lemma sq_query_sub: "so \<in> set (fst (sq_query c db)) \<Longrightarrow>
   \<exists>r \<in> set (rows db). c r \<and> so = parse_order r"
  by (auto simp: sq_query_def Let_def split: option.splits db_fault.splits dest!: in_set_takeD)

section \<open>The interface is implemented\<close>

interpretation sq: order_store sqlite_store_ops sq_look sq_inv
proof (unfold_locales, goal_cases)
  case (1 s so u s')
  then show ?case
    by (auto simp: op_defs intro!: sq_look_store split: option.splits db_fault.splits if_splits)
next
  case (2 so s e s')
  then show ?case
    by (auto simp: op_defs split: option.splits db_fault.splits if_splits)
next
  case (3 s so)
  then show ?case
    by (auto simp: op_defs intro!: sq_inv_store [OF 3]
        split: option.splits db_fault.splits)
next
  case (4 l st s u s')
  then have "rows s' = update_rows l (\<lambda>r. r\<lparr>row_status := order_status_to_string st,
      row_updated_at := Some (sql_now s (stmts s))\<rparr>) (rows s)"
    by (auto simp: op_defs split: option.splits db_fault.splits)
  then show ?case
    by (rule sq_look_update [rotated 2]) (simp_all add: view_of_def parse_order_def)
next
  case (5 l st s e s')
  then show ?case
    by (auto simp: op_defs split: option.splits db_fault.splits)
next
  case (6 s l st)
  then show ?case
    by (auto simp: op_defs intro!: sq_update_inv [OF 6] row_ok_status
        split: option.splits db_fault.splits)
next
  case (7 l b s u s')
  then have "rows s' = update_rows l (\<lambda>r. r\<lparr>row_broker_id := Some b,
      row_updated_at := Some (sql_now s (stmts s))\<rparr>) (rows s)"
    by (auto simp: op_defs split: option.splits db_fault.splits if_splits)
  then show ?case
    by (rule sq_look_update [rotated 2]) (simp_all add: view_of_def parse_order_def)
next
  case (8 l b s e s')
  then show ?case
    by (auto simp: op_defs split: option.splits db_fault.splits if_splits)
next
  case (9 s l b)
  show ?case
  proof (cases "l \<in> set (map row_local_id (rows s))")
    case True
    then show ?thesis using 9
      by (auto simp: op_defs intro!: sq_broker_inv [OF 9] split: option.splits db_fault.splits)
  next
    case False
    then have "sq_inv (s\<lparr>rows := update_rows l f (rows s)\<rparr>)" for f
      using 9 by (simp add: update_absent sq_inv_def)
    with False 9 show ?thesis
      by (auto simp: op_defs split: option.splits db_fault.splits)
  qed
next
  case (10 s l q p st u s')
  then have eq: "rows s' = update_rows l (\<lambda>r. r\<lparr>row_avg_fill_price := sql_avg r q p,
      row_filled_quantity := row_filled_quantity r + q,
      row_status := order_status_to_string st,
      row_updated_at := Some (sql_now s (stmts s))\<rparr>) (rows s)"
    by (auto simp: op_defs split: option.splits db_fault.splits)
  have ok: "row_filled_quantity r = 0 \<or> row_avg_fill_price r \<noteq> None" if "r \<in> set (rows s)" for r
    using 10(1) that by (simp add: sq_inv_def row_ok_def list_all_iff)
  show ?case
    by (rule sq_look_update [OF _ _ eq]) (simp, rule sq_view_fill [OF ok])
next
  case (11 l q p st s e s')
  then show ?case
    by (auto simp: op_defs split: option.splits db_fault.splits)
next
  case (12 s l q p st)
  then show ?case
    by (auto simp: op_defs intro!: sq_update_inv [OF 12] row_ok_fill
        split: option.splits db_fault.splits)
next
  case (13 l s so s')
  then show ?case
    by (auto simp: op_defs sq_look_def sq_row_def parse_order_def find_Some_iff
        split: option.splits db_fault.splits nat.splits)
next
  case (14 l s)
  then show ?case
    by (auto simp: op_defs split: option.splits db_fault.splits nat.splits)
next
  case (15 s l)
  then show ?case
    by (auto simp: op_defs split: option.splits db_fault.splits nat.splits)
next
  case (16 s so)
  then obtain r where r: "r \<in> set (rows s)" "so = parse_order r"
    "row_status r \<in> set (map order_status_to_string open_statuses)"
    by (auto simp: sq_get_open_orders_def dest!: sq_query_sub)
  with 16 have "find (\<lambda>r'. row_local_id r' = row_local_id r) (rows s) = Some r"
    by (auto simp: sq_inv_def intro: find_ids_Some)
  with 16 r show ?case
    by (auto simp: sq_look_def sq_row_def parse_order_def)
next
  case (17 s)
  show ?case by (rule sq_look_same) (simp add: sq_get_open_orders_def sq_query_rows)
next
  case (18 s)
  have "rows (snd (sq_get_open_orders s)) = rows s"
    by (simp add: sq_get_open_orders_def sq_query_rows)
  from sq_inv_same [OF this] 18 show ?case by simp
qed

section \<open>Properties\<close>

lemma sq_inv_open [simp]: "sq_inv (open_store fs now)"
  by (simp add: sq_inv_def open_store_def brokers_ok_def id_pairs_def)

lemma sq_look_open [simp]: "sq_look (open_store fs now) = Map.empty"
  by (simp add: sq_look_def sq_row_def open_store_def fun_eq_iff)

text \<open>
  C14. The SQLite store refines the abstract map of orders: from a freshly opened database, any
  sequence of the interface's calls, with any of its statements failing, leaves exactly the orders
  the calls that reported success describe, and keeps the table's invariant (unique local ids, a
  broker id owned by one order, valid status texts).
\<close>

theorem sqlite_store_refines_view:
  "sq_inv (snd (run_store sqlite_store_ops cs (open_store fs now)))
   \<and> sq_look (snd (run_store sqlite_store_ops cs (open_store fs now)))
     = run_view cs (fst (run_store sqlite_store_ops cs (open_store fs now))) Map.empty"
  using sq.run_refines [of "open_store fs now" cs] by simp

definition sample_order :: "string \<Rightarrow> stored_order" where
  "sample_order l =
     \<lparr>so_order = \<lparr>ord_id = l, ord_symbol = ''AAPL'', ord_side = BUY, ord_quantity = 10,
        ord_price = 0, ord_type = MARKET, ord_status = V1_NEW, ord_time_in_force = DAY,
        ord_account_id = ''ACC'', ord_strategy_id = ''S1'', ord_created_at = ''''\<rparr>,
      so_status = PENDING_SUBMISSION, so_local_id = l, so_broker_id = None,
      so_created_at = ''2024-01-01 00:00:00.000'', so_updated_at = None,
      so_filled_quantity = 0, so_avg_fill_price = 0\<rparr>"

text \<open>
  An order that was stored is read back field by field as it was stored, the serialised message
  included; only its update time is empty, since the insert does not write it.
\<close>

theorem stored_order_reads_back:
  assumes "faults db (stmts db) = None" and "faults db (Suc (stmts db)) = None"
    and "so_local_id so \<notin> set (map row_local_id (rows db))"
    and "\<not> broker_taken (so_broker_id so) (rows db)"
  shows "fst (sq_store_order so db) = Inr ()
       \<and> fst (sq_get_order (so_local_id so) (snd (sq_store_order so db)))
         = Inr (so\<lparr>so_updated_at := None\<rparr>)"
proof -
  have "find (\<lambda>r. row_local_id r = so_local_id so) (rows db) = None"
    using assms(3) by (simp only: find_None_ids) simp
  with assms show ?thesis
    by (simp add: op_defs find_append row_of_def parse_order_def Let_def)
qed

theorem stored_order_reads_back_witness:
  "fst (sq_get_order ''ORD_1''
     (snd (sq_store_order (sample_order ''ORD_1'') (open_store (\<lambda>_. None) (\<lambda>_. '''')))))
   = Inr (sample_order ''ORD_1'')"
  using stored_order_reads_back [of "open_store (\<lambda>_. None) (\<lambda>_. '''')" "sample_order ''ORD_1''"]
  by (simp add: open_store_def broker_taken_def sample_order_def)

lemma set_sq_query: "faults db (stmts db) = None \<Longrightarrow>
    set (fst (sq_query c db)) = parse_order ` {r \<in> set (rows db). c r}"
  by (auto simp: sq_query_def fault_now_def Let_def)

lemma status_text_open:
  "row_ok r \<Longrightarrow>
   row_status r \<in> set (map order_status_to_string open_statuses)
   \<longleftrightarrow> so_status (parse_order r) \<in> set open_statuses"
  by (simp add: row_ok_def parse_order_def image_iff) (metis order_status_text)

lemma sq_look_row:
  assumes "sq_inv db"
  shows "sq_look db l = Some v \<longleftrightarrow>
    (\<exists>r \<in> set (rows db). row_local_id r = l \<and> v = view_of (parse_order r))"
proof
  assume "sq_look db l = Some v"
  then show "\<exists>r \<in> set (rows db). row_local_id r = l \<and> v = view_of (parse_order r)"
    by (auto simp: sq_look_def sq_row_def find_Some_iff)
next
  assume "\<exists>r \<in> set (rows db). row_local_id r = l \<and> v = view_of (parse_order r)"
  then show "sq_look db l = Some v"
    using assms by (auto simp: sq_look_def sq_row_def sq_inv_def find_ids_Some)
qed

definition sq_healthy :: "sqlite_store \<Rightarrow> bool" where
  "sq_healthy db \<longleftrightarrow> (\<forall>n \<ge> stmts db. faults db n = None)"

lemma distinct_sq_query:
  assumes "sq_inv db"
  shows "distinct (map so_local_id (fst (sq_query c db)))"
proof -
  have "distinct (map row_local_id (filter c (rows db)))"
    using assms by (simp add: sq_inv_def distinct_map_filter)
  then have "distinct (map (\<lambda>r. so_local_id (parse_order r))
      (sort_key row_created_at (filter c (rows db))))"
    by (simp add: distinct_map parse_order_def)
  then show ?thesis
    by (auto simp: sq_query_def Let_def o_def distinct_take simp flip: take_map
        split: option.split db_fault.split)
qed

interpretation sqh: reliable_store sqlite_store_ops sq_look sq_inv sq_healthy
proof (unfold_locales, goal_cases)
  case (1 s l st)
  then show ?case by (simp add: sq_healthy_def op_defs)
next
  case (2 s l st)
  then show ?case by (simp add: sq_healthy_def op_defs)
next
  case (3 s)
  then show ?case by (simp add: sq_healthy_def op_defs Let_def)
next
  case (4 s so)
  then show ?case by (simp add: sq_healthy_def op_defs)
next
  case (5 s l b)
  then show ?case by (simp add: sq_healthy_def op_defs)
next
  case (6 s l q p st)
  then show ?case by (simp add: sq_healthy_def op_defs)
next
  case (7 s l)
  then show ?case by (simp add: sq_healthy_def op_defs split: option.split)
next
  case (8 s l v)
  then obtain r where r: "r \<in> set (rows s)" "row_local_id r = l" "v = view_of (parse_order r)"
    by (auto simp: sq_look_row)
  then have "row_status r \<in> set (map order_status_to_string open_statuses)"
    using 8 status_text_open [of r] by (auto simp: sq_inv_def list_all_iff view_of_def)
  with r 8 show ?case
    by (force simp: sq_get_open_orders_def set_sq_query sq_healthy_def parse_order_def)
next
  case (9 s)
  then show ?case by (simp add: sq_get_open_orders_def distinct_sq_query)
qed

text \<open>
  \<open>get_open_orders\<close> is sound and complete: when its statement does not fail it returns the
  orders whose status is pending, submitted, accepted or partially filled, each of them once and no
  other, oldest first.
\<close>

theorem open_orders_exact:
  assumes "sq_inv db" and "faults db (stmts db) = None"
  shows "set (map so_local_id (fst (sq_get_open_orders db)))
           = {l. \<exists>v. sq_look db l = Some v \<and> ov_status v \<in> set open_statuses}
       \<and> distinct (map so_local_id (fst (sq_get_open_orders db)))
       \<and> sorted (map so_created_at (fst (sq_get_open_orders db)))"
proof -
  let ?c = "\<lambda>r. row_status r \<in> set (map order_status_to_string open_statuses)"
  let ?rs = "sort_key row_created_at (filter ?c (rows db))"
  have res: "fst (sq_get_open_orders db) = map parse_order ?rs"
    using assms(2) by (simp add: sq_get_open_orders_def sq_query_def fault_now_def Let_def)
  have ids: "map so_local_id (map parse_order ?rs) = map row_local_id ?rs"
    and times: "map so_created_at (map parse_order ?rs) = map row_created_at ?rs"
    by (simp_all add: parse_order_def)
  have ok: "row_ok r" if "r \<in> set (rows db)" for r
    using assms(1) that by (simp add: sq_inv_def list_all_iff)
  have "?c r \<longleftrightarrow> ov_status (view_of (parse_order r)) \<in> set open_statuses" if "r \<in> set (rows db)" for r
    using status_text_open [OF ok [OF that]] by (simp add: view_of_def)
  then have "set (map row_local_id ?rs)
      = {l. \<exists>v. sq_look db l = Some v \<and> ov_status v \<in> set open_statuses}"
    by (auto simp: sq_look_row [OF assms(1)])
  moreover have "distinct (map row_local_id (filter ?c (rows db)))"
    using assms(1) by (simp add: sq_inv_def distinct_map_filter)
  then have "distinct (map row_local_id ?rs)"
    by (simp add: distinct_map)
  ultimately show ?thesis
    unfolding res ids times by simp
qed

theorem open_orders_exact_witness:
  "\<exists>db. rows db \<noteq> [] \<and>
     set (map so_local_id (fst (sq_get_open_orders db)))
       = {l. \<exists>v. sq_look db l = Some v \<and> ov_status v \<in> set open_statuses}
     \<and> distinct (map so_local_id (fst (sq_get_open_orders db)))
     \<and> sorted (map so_created_at (fst (sq_get_open_orders db)))"
proof -
  let ?db = "snd (sq_store_order (sample_order ''ORD_1'') (open_store (\<lambda>_. None) (\<lambda>_. '''')))"
  have "rows ?db \<noteq> []" "faults ?db (stmts ?db) = None"
    by (simp_all add: op_defs open_store_def broker_taken_def sample_order_def)
  moreover have "sq_inv ?db"
    using sq.store_keeps [of "open_store (\<lambda>_. None) (\<lambda>_. '''')"] by simp
  ultimately show ?thesis
    using open_orders_exact [of ?db] by blast
qed

text \<open>Applying fills one after another, each with the status the caller chose for it.\<close>

primrec sq_apply_fills ::
  "string \<Rightarrow> (double \<times> double \<times> OrderStatus) list \<Rightarrow> sqlite_store \<Rightarrow> sqlite_store" where
  "sq_apply_fills l [] db = db"
| "sq_apply_fills l (f # fs) db =
     (case f of (q, p, st) \<Rightarrow> sq_apply_fills l fs (snd (sq_apply_fill l q p st db)))"

primrec sum_filled :: "(double \<times> double \<times> OrderStatus) list \<Rightarrow> double" where
  "sum_filled [] = 0"
| "sum_filled (f # fs) = (case f of (q, p, st) \<Rightarrow> q + sum_filled fs)"

primrec sum_traded :: "(double \<times> double \<times> OrderStatus) list \<Rightarrow> double" where
  "sum_traded [] = 0"
| "sum_traded (f # fs) = (case f of (q, p, st) \<Rightarrow> q * p + sum_traded fs)"

primrec last_status :: "OrderStatus \<Rightarrow> (double \<times> double \<times> OrderStatus) list \<Rightarrow> OrderStatus" where
  "last_status st [] = st"
| "last_status st (f # fs) = (case f of (q, p, st') \<Rightarrow> last_status st' fs)"

lemma sq_apply_fill_no_fault:
  assumes "\<forall>n. faults db n = None"
  shows "fst (sq_apply_fill l q p st db) = Inr ()
       \<and> (\<forall>n. faults (snd (sq_apply_fill l q p st db)) n = None)"
  using assms by (simp add: op_defs)

lemma fills_invariant:
  assumes "\<forall>n. faults db n = None" and "sq_inv db" and "\<forall>(q, p, st) \<in> set fs. 0 < q"
    and "sq_look db l = Some v" and "0 \<le> ov_filled v"
  shows "\<exists>v'. sq_look (sq_apply_fills l fs db) l = Some v'
     \<and> ov_filled v' = ov_filled v + sum_filled fs
     \<and> ov_avg_price v' * ov_filled v'
       = ov_avg_price v * ov_filled v + sum_traded fs
     \<and> ov_status v' = last_status (ov_status v) fs"
  using assms
proof (induction fs arbitrary: db v)
  case Nil
  then show ?case by simp
next
  case (Cons f fs)
  obtain q p st where f: "f = (q, p, st)" by (cases f)
  let ?db = "snd (sq_apply_fill l q p st db)" and ?v = "fill_view q p st v"
  have q: "0 < q" using Cons.prems(3) f by simp
  have look: "sq_look ?db l = Some ?v"
    using sq.fill_look [OF Cons.prems(2), of l q p st l] sq_apply_fill_no_fault [OF Cons.prems(1)]
      Cons.prems(4) by simp
  have filled: "ov_filled ?v = ov_filled v + q" and status: "ov_status ?v = st"
    by (simp_all add: fill_view_def)
  have avg: "ov_avg_price ?v * ov_filled ?v = ov_avg_price v * ov_filled v + q * p"
    using q Cons.prems(5) by (simp add: fill_view_def)
  have nofault: "\<forall>n. faults ?db n = None"
    using sq_apply_fill_no_fault [OF Cons.prems(1)] by blast
  have inv: "sq_inv ?db"
    using sq.fill_keeps [OF Cons.prems(2)] by simp
  have rest: "\<forall>(q, p, st) \<in> set fs. 0 < q" and pos: "0 \<le> ov_filled ?v"
    using Cons.prems(3,5) q filled by auto
  from Cons.IH [OF nofault inv rest look pos]
  obtain v' where "sq_look (sq_apply_fills l fs ?db) l = Some v'"
    "ov_filled v' = ov_filled ?v + sum_filled fs"
    "ov_avg_price v' * ov_filled v' = ov_avg_price ?v * ov_filled ?v + sum_traded fs"
    "ov_status v' = last_status (ov_status ?v) fs"
    by blast
  with filled avg status show ?case
    by (simp add: f)
qed

text \<open>
  Fill accounting in the database: after the fills of an order with positive quantities have
  been applied one by one, the row's filled quantity is their sum, its average price times that
  quantity is the total value traded, and its status is the one given with the last fill.
\<close>

theorem store_fill_accounting:
  assumes "\<forall>n. faults db n = None" and "sq_inv db" and "\<forall>(q, p, st) \<in> set fs. 0 < q"
    and "sq_look db l = Some v" and "ov_filled v = 0"
  shows "\<exists>v'. sq_look (sq_apply_fills l fs db) l = Some v'
     \<and> ov_filled v' = sum_filled fs
     \<and> ov_avg_price v' * ov_filled v' = sum_traded fs
     \<and> ov_status v' = last_status (ov_status v) fs"
  using fills_invariant [OF assms(1-4)] assms(5) by simp

theorem store_fill_accounting_witness:
  "\<exists>v'. sq_look (sq_apply_fills ''ORD_1'' [(4, 10, PARTIALLY_FILLED), (6, 20, FILLED)]
            (snd (sq_store_order (sample_order ''ORD_1'') (open_store (\<lambda>_. None) (\<lambda>_. '''')))))
          ''ORD_1'' = Some v'
     \<and> ov_filled v' = 10 \<and> ov_avg_price v' = 16 \<and> ov_status v' = FILLED"
proof -
  let ?db = "snd (sq_store_order (sample_order ''ORD_1'') (open_store (\<lambda>_. None) (\<lambda>_. '''')))"
  have "\<forall>n. faults ?db n = None"
    by (simp add: op_defs open_store_def)
  moreover have "sq_look ?db ''ORD_1'' = Some (view_of (sample_order ''ORD_1''))"
    by (simp add: op_defs open_store_def sq_look_def sq_row_def sample_order_def row_of_def
        parse_order_def view_of_def broker_taken_def order_status_from_string_def Let_def)
  moreover have "sq_inv ?db"
    using sq.store_keeps [of "open_store (\<lambda>_. None) (\<lambda>_. '''')"] by simp
  moreover have "ov_filled (view_of (sample_order ''ORD_1'')) = 0"
    by (simp add: view_of_def sample_order_def)
  ultimately show ?thesis
    using store_fill_accounting [of ?db "[(4, 10, PARTIALLY_FILLED), (6, 20, FILLED)]" "''ORD_1''"]
    by auto
qed

end
