(* ===== verification/Journal.thy ===== *)
theory Journal
  imports Prelude
begin

text \<open>
  \<open>interfaces/i_journal.h\<close>: the journal's events with their text forms, and the virtual method
  \<open>log\<close> of \<open>IJournal\<close> as a record field, through which every other component writes.
\<close>

datatype Event =
  ORDER_CREATED | ORDER_VALIDATED | ORDER_REJECTED | ORDER_SUBMITTED | ORDER_ACCEPTED
| ORDER_CANCELLED | ORDER_REPLACED | ORDER_EXPIRED | KILL_SWITCH_ACTIVATED | SYSTEM_STARTED
| SYSTEM_STOPPED | GATEWAY_CONNECTED | GATEWAY_DISCONNECTED | ERROR_OCCURRED | SIGNAL_RECEIVED
| SIGNAL_PROCESSED | SIGNAL_IGNORED | ORDER_FILLED | ORDER_PARTIALLY_FILLED

text \<open>The argument is a \<open>const char *\<close>, which may be null.\<close>

definition event_from_string :: "string option \<Rightarrow> Event" where
  "event_from_string s =
     (case s of
        None \<Rightarrow> ERROR_OCCURRED
      | Some sv \<Rightarrow>
          if sv = ''ORDER_CREATED'' then ORDER_CREATED
          else if sv = ''ORDER_VALIDATED'' then ORDER_VALIDATED
          else if sv = ''ORDER_REJECTED'' then ORDER_REJECTED
          else if sv = ''ORDER_SUBMITTED'' then ORDER_SUBMITTED
          else if sv = ''ORDER_ACCEPTED'' then ORDER_ACCEPTED
          else if sv = ''ORDER_CANCELLED'' then ORDER_CANCELLED
          else if sv = ''ORDER_REPLACED'' then ORDER_REPLACED
          else if sv = ''ORDER_EXPIRED'' then ORDER_EXPIRED
          else if sv = ''KILL_SWITCH_ACTIVATED'' then KILL_SWITCH_ACTIVATED
          else if sv = ''SYSTEM_STARTED'' then SYSTEM_STARTED
          else if sv = ''SYSTEM_STOPPED'' then SYSTEM_STOPPED
          else if sv = ''GATEWAY_CONNECTED'' then GATEWAY_CONNECTED
          else if sv = ''GATEWAY_DISCONNECTED'' then GATEWAY_DISCONNECTED
          else if sv = ''SIGNAL_RECEIVED'' then SIGNAL_RECEIVED
          else if sv = ''SIGNAL_PROCESSED'' then SIGNAL_PROCESSED
          else if sv = ''SIGNAL_IGNORED'' then SIGNAL_IGNORED
          else if sv = ''ORDER_FILLED'' then ORDER_FILLED
          else if sv = ''ORDER_PARTIALLY_FILLED'' then ORDER_PARTIALLY_FILLED
          else ERROR_OCCURRED)"

fun event_to_string :: "Event \<Rightarrow> string" where
  "event_to_string ORDER_CREATED = ''ORDER_CREATED''"
| "event_to_string ORDER_VALIDATED = ''ORDER_VALIDATED''"
| "event_to_string ORDER_REJECTED = ''ORDER_REJECTED''"
| "event_to_string ORDER_SUBMITTED = ''ORDER_SUBMITTED''"
| "event_to_string ORDER_ACCEPTED = ''ORDER_ACCEPTED''"
| "event_to_string ORDER_CANCELLED = ''ORDER_CANCELLED''"
| "event_to_string ORDER_REPLACED = ''ORDER_REPLACED''"
| "event_to_string ORDER_EXPIRED = ''ORDER_EXPIRED''"
| "event_to_string KILL_SWITCH_ACTIVATED = ''KILL_SWITCH_ACTIVATED''"
| "event_to_string SYSTEM_STARTED = ''SYSTEM_STARTED''"
| "event_to_string SYSTEM_STOPPED = ''SYSTEM_STOPPED''"
| "event_to_string GATEWAY_CONNECTED = ''GATEWAY_CONNECTED''"
| "event_to_string GATEWAY_DISCONNECTED = ''GATEWAY_DISCONNECTED''"
| "event_to_string ERROR_OCCURRED = ''ERROR_OCCURRED''"
| "event_to_string SIGNAL_RECEIVED = ''SIGNAL_RECEIVED''"
| "event_to_string SIGNAL_PROCESSED = ''SIGNAL_PROCESSED''"
| "event_to_string SIGNAL_IGNORED = ''SIGNAL_IGNORED''"
| "event_to_string ORDER_FILLED = ''ORDER_FILLED''"
| "event_to_string ORDER_PARTIALLY_FILLED = ''ORDER_PARTIALLY_FILLED''"

lemma event_text [simp]: "event_from_string (Some (event_to_string ev)) = ev"
  by (cases ev) (simp_all add: event_from_string_def)

lemma event_to_string_inj [simp]: "event_to_string a = event_to_string b \<longleftrightarrow> a = b"
  by (metis event_text)

text \<open>The interface: \<open>log(event, data, correlation_id)\<close>; the default correlation id is empty.\<close>

record 'j journal_ops =
  jn_log :: "Event \<Rightarrow> string \<Rightarrow> string \<Rightarrow> 'j \<Rightarrow> 'j"

text \<open>
  An event written to the database as text reads back as the same event, for all nineteen of
  them; a null or unknown text reads as \<open>ERROR_OCCURRED\<close>.
\<close>

theorem event_roundtrip:
  "event_from_string (Some (event_to_string ev)) = ev
   \<and> event_from_string None = ERROR_OCCURRED
   \<and> (event_from_string (Some s) = ERROR_OCCURRED
      \<or> event_to_string (event_from_string (Some s)) = s)"
  by (intro conjI event_text) (simp_all add: event_from_string_def)

end
