(* ===== verification/SqliteJournal.thy ===== *)
theory SqliteJournal
  imports Journal Clock "HOL-Library.Sublist"
begin

text \<open>
  \<open>persistence/sqlite_journal.cpp\<close>: the asynchronous journal. Callers append to a bounded queue; one
  writer thread takes batches, inserts them into the table, and counts them as committed; \<open>flush\<close>
  waits until the two counters agree. The steps of the three locked regions of the writer loop
  interleave with \<open>log\<close> in the relation \<open>journal_reach\<close>, in which an idle journal may also be closed
  and opened again over its rows.

  Statement failures are oracles (a failing prepare of a batch, a failing insert of a row). The row
  ids of the table, which only order the rows, are its insertion order.
\<close>

section \<open>State\<close>

record pending_entry =
  pe_timestamp :: string
  pe_event :: Event
  pe_data :: string
  pe_correlation_id :: string

record journal_row =
  jr_timestamp :: string
  jr_event_type :: string
  jr_data :: string
  jr_correlation_id :: "string option"

text \<open>Where the writer thread is in its loop, with its local \<open>batch\<close>.\<close>

datatype writer_place =
  Waiting | Has_batch "pending_entry list" | Committed_batch "pending_entry list"

record sqlite_journal =
  write_queue :: "pending_entry list"
  pushed :: u64
  committed :: u64
  journal_rows :: "journal_row list"
  writer :: writer_place
  journal_clock :: clock
  prepare_fails :: "nat \<Rightarrow> bool"
  insert_fails :: "nat \<Rightarrow> bool"
  batches :: nat
  inserts :: nat

definition MAX_QUEUE_DEPTH :: nat where "MAX_QUEUE_DEPTH = 4096"
definition BATCH_SIZE :: nat where "BATCH_SIZE = 64"

definition open_journal :: "clock \<Rightarrow> (nat \<Rightarrow> bool) \<Rightarrow> (nat \<Rightarrow> bool) \<Rightarrow> sqlite_journal" where
  "open_journal clk pf rf =
     \<lparr>write_queue = [], pushed = 0, committed = 0, journal_rows = [], writer = Waiting,
      journal_clock = clk, prepare_fails = pf, insert_fails = rf, batches = 0, inserts = 0\<rparr>"

section \<open>Operations\<close>

definition pending_of :: "Event \<Rightarrow> string \<Rightarrow> string \<Rightarrow> sqlite_journal \<Rightarrow> pending_entry" where
  "pending_of ev data corr j =
     \<lparr>pe_timestamp =
        (case timestamp_to_string (fst (clock_now (journal_clock j))) of
           Inl err \<Rightarrow> ''UNKNOWN'' | Inr s \<Rightarrow> s),
      pe_event = ev, pe_data = data, pe_correlation_id = corr\<rparr>"

definition sj_log :: "Event \<Rightarrow> string \<Rightarrow> string \<Rightarrow> sqlite_journal \<Rightarrow> sqlite_journal" where
  "sj_log ev data corr j =
     (let entry = pending_of ev data corr j;
          j1 = j\<lparr>journal_clock := snd (clock_now (journal_clock j))\<rparr>
      in if length (write_queue j1) \<ge> MAX_QUEUE_DEPTH then j1
         else j1\<lparr>write_queue := write_queue j1 @ [entry], pushed := pushed j1 + 1\<rparr>)"

definition sqlite_journal_ops :: "sqlite_journal journal_ops" where
  "sqlite_journal_ops = \<lparr>jn_log = sj_log\<rparr>"

definition row_of_entry :: "pending_entry \<Rightarrow> journal_row" where
  "row_of_entry e =
     \<lparr>jr_timestamp = pe_timestamp e, jr_event_type = event_to_string (pe_event e),
      jr_data = pe_data e,
      jr_correlation_id = (if pe_correlation_id e \<noteq> '''' then Some (pe_correlation_id e) else None)\<rparr>"

text \<open>
  \<open>INSERT OR IGNORE\<close> under \<open>UNIQUE(timestamp, correlation_id, event_type)\<close>: a null correlation id
  is distinct from every other.
\<close>

definition journal_key :: "journal_row \<Rightarrow> string \<times> string option \<times> string" where
  "journal_key r = (jr_timestamp r, jr_correlation_id r, jr_event_type r)"

definition insert_or_ignore :: "journal_row list \<Rightarrow> journal_row \<Rightarrow> journal_row list" where
  "insert_or_ignore rs r =
     (if jr_correlation_id r \<noteq> None \<and> journal_key r \<in> set (map journal_key rs) then rs
      else rs @ [r])"

text \<open>The loop of \<open>commit_batch\<close>: a failing insert is logged and the loop goes on.\<close>

primrec insert_entries :: "pending_entry list \<Rightarrow> sqlite_journal \<Rightarrow> sqlite_journal" where
  "insert_entries [] j = j"
| "insert_entries (e # es) j =
     insert_entries es
       (j\<lparr>journal_rows :=
            (if insert_fails j (inserts j) then journal_rows j
             else insert_or_ignore (journal_rows j) (row_of_entry e)),
          inserts := Suc (inserts j)\<rparr>)"

definition commit_batch :: "pending_entry list \<Rightarrow> sqlite_journal \<Rightarrow> sqlite_journal" where
  "commit_batch batch j =
     (if batch = [] then j
      else let j1 = j\<lparr>batches := Suc (batches j)\<rparr>
           in if prepare_fails j (batches j) then j1 else insert_entries batch j1)"

text \<open>The three locked regions of one round of \<open>writer_loop\<close>.\<close>

definition writer_take :: "sqlite_journal \<Rightarrow> sqlite_journal" where
  "writer_take j =
     (if write_queue j = [] then j
      else j\<lparr>writer := Has_batch (take BATCH_SIZE (write_queue j)),
             write_queue := drop BATCH_SIZE (write_queue j)\<rparr>)"

definition writer_commit :: "pending_entry list \<Rightarrow> sqlite_journal \<Rightarrow> sqlite_journal" where
  "writer_commit batch j = (commit_batch batch j)\<lparr>writer := Committed_batch batch\<rparr>"

definition writer_count :: "pending_entry list \<Rightarrow> sqlite_journal \<Rightarrow> sqlite_journal" where
  "writer_count batch j =
     j\<lparr>committed := committed j + of_nat (length batch), writer := Waiting\<rparr>"

text \<open>The condition \<open>flush\<close> waits for.\<close>

definition flush_ready :: "sqlite_journal \<Rightarrow> bool" where
  "flush_ready j \<longleftrightarrow> committed j \<ge> pushed j"

text \<open>
  A journal object constructed on a table that has rows: the clock and the database, with what will
  fail in it, are those of an earlier object.
\<close>

definition reopen_journal :: "journal_row list \<Rightarrow> sqlite_journal \<Rightarrow> sqlite_journal" where
  "reopen_journal rs j =
     j\<lparr>write_queue := [], pushed := 0, committed := 0, journal_rows := rs, writer := Waiting\<rparr>"

text \<open>
  Callers and the writer, in any order, over any number of journal objects one after the other on
  one table: a new one may be constructed when the writer of the last one has ended. The first
  argument is the history of the entries \<open>log\<close> accepted.
\<close>

inductive journal_reach :: "pending_entry list \<Rightarrow> sqlite_journal \<Rightarrow> bool" where
  jr_open: "journal_reach [] (open_journal clk pf rf)"
| jr_reopen: "journal_reach acc j \<Longrightarrow> writer j = Waiting \<Longrightarrow> write_queue j = [] \<Longrightarrow>
     journal_reach acc (reopen_journal (journal_rows j) j)"
| jr_log: "journal_reach acc j \<Longrightarrow>
     journal_reach
       (if length (write_queue j) \<ge> MAX_QUEUE_DEPTH then acc else acc @ [pending_of ev data corr j])
       (sj_log ev data corr j)"
| jr_take: "journal_reach acc j \<Longrightarrow> writer j = Waiting \<Longrightarrow> journal_reach acc (writer_take j)"
| jr_commit: "journal_reach acc j \<Longrightarrow> writer j = Has_batch b \<Longrightarrow>
     journal_reach acc (writer_commit b j)"
| jr_count: "journal_reach acc j \<Longrightarrow> writer j = Committed_batch b \<Longrightarrow>
     journal_reach acc (writer_count b j)"

lemmas journal_defs [op_defs] =
  sj_log_def writer_take_def writer_commit_def writer_count_def commit_batch_def open_journal_def

section \<open>What the table holds\<close>

lemma insert_entries_frame [frame]:
  "write_queue (insert_entries es j) = write_queue j" "pushed (insert_entries es j) = pushed j"
  "committed (insert_entries es j) = committed j" "writer (insert_entries es j) = writer j"
  "prepare_fails (insert_entries es j) = prepare_fails j"
  "insert_fails (insert_entries es j) = insert_fails j"
  by (induction es arbitrary: j) simp_all

lemma commit_batch_frame [frame]:
  "write_queue (commit_batch b j) = write_queue j" "pushed (commit_batch b j) = pushed j"
  "committed (commit_batch b j) = committed j" "writer (commit_batch b j) = writer j"
  "prepare_fails (commit_batch b j) = prepare_fails j"
  "insert_fails (commit_batch b j) = insert_fails j"
  by (simp_all add: commit_batch_def frame Let_def)

definition recorded :: "pending_entry list \<Rightarrow> journal_row list" where
  "recorded es = foldl insert_or_ignore [] (map row_of_entry es)"

definition no_journal_faults :: "sqlite_journal \<Rightarrow> bool" where
  "no_journal_faults j \<longleftrightarrow> (\<forall>n. \<not> prepare_fails j n) \<and> (\<forall>n. \<not> insert_fails j n)"

lemma insert_entries_rows:
  "\<forall>n. \<not> insert_fails j n \<Longrightarrow>
   journal_rows (insert_entries es j)
   = foldl insert_or_ignore (journal_rows j) (map row_of_entry es)"
  by (induction es arbitrary: j) simp_all

lemma commit_batch_rows:
  "no_journal_faults j \<Longrightarrow>
   journal_rows (commit_batch b j) = foldl insert_or_ignore (journal_rows j) (map row_of_entry b)"
  by (simp add: commit_batch_def no_journal_faults_def insert_entries_rows Let_def)

text \<open>The entries the writer holds, and those of them already in the table.\<close>

fun in_flight :: "writer_place \<Rightarrow> pending_entry list" where
  "in_flight Waiting = []"
| "in_flight (Has_batch b) = b"
| "in_flight (Committed_batch b) = b"

fun in_table :: "writer_place \<Rightarrow> pending_entry list" where
  "in_table Waiting = []"
| "in_table (Has_batch b) = []"
| "in_table (Committed_batch b) = b"

definition journal_inv :: "pending_entry list \<Rightarrow> sqlite_journal \<Rightarrow> bool" where
  "journal_inv acc j \<longleftrightarrow>
     (\<exists>earlier written. acc = earlier @ written @ in_flight (writer j) @ write_queue j
        \<and> pushed j = of_nat (length (written @ in_flight (writer j) @ write_queue j))
        \<and> committed j = of_nat (length written)
        \<and> (no_journal_faults j \<longrightarrow>
            journal_rows j = recorded (earlier @ written @ in_table (writer j))))"

lemma recorded_append:
  "recorded (xs @ ys) = foldl insert_or_ignore (recorded xs) (map row_of_entry ys)"
  by (simp add: recorded_def)

lemma journal_invI:
  "acc = earlier @ written @ in_flight (writer j) @ write_queue j \<Longrightarrow>
   pushed j = of_nat (length (written @ in_flight (writer j) @ write_queue j)) \<Longrightarrow>
   committed j = of_nat (length written) \<Longrightarrow>
   (no_journal_faults j \<Longrightarrow> journal_rows j = recorded (earlier @ written @ in_table (writer j))) \<Longrightarrow>
   journal_inv acc j"
  unfolding journal_inv_def by blast

lemma journal_invE:
  assumes "journal_inv acc j"
  obtains earlier written where "acc = earlier @ written @ in_flight (writer j) @ write_queue j"
    and "pushed j = of_nat (length (written @ in_flight (writer j) @ write_queue j))"
    and "committed j = of_nat (length written)"
    and "no_journal_faults j \<Longrightarrow> journal_rows j = recorded (earlier @ written @ in_table (writer j))"
  using assms unfolding journal_inv_def by blast

lemma journal_inv_reach: "journal_reach acc j \<Longrightarrow> journal_inv acc j"
proof (induction rule: journal_reach.induct)
  case (jr_open clk pf rf)
  show ?case by (simp add: journal_inv_def op_defs recorded_def)
next
  case (jr_reopen acc j)
  then have "no_journal_faults j \<Longrightarrow> journal_rows j = recorded acc"
    by (auto elim: journal_invE)
  then show ?case
    by (intro journal_invI [of _ acc "[]"]) (simp_all add: reopen_journal_def no_journal_faults_def)
next
  case (jr_log acc j ev data corr)
  from jr_log.IH show ?case
  proof (rule journal_invE)
    fix earlier written
    assume "acc = earlier @ written @ in_flight (writer j) @ write_queue j"
      "pushed j = of_nat (length (written @ in_flight (writer j) @ write_queue j))"
      "committed j = of_nat (length written)"
      "no_journal_faults j \<Longrightarrow> journal_rows j = recorded (earlier @ written @ in_table (writer j))"
    then show ?thesis
      by (cases "length (write_queue j) \<ge> MAX_QUEUE_DEPTH"; intro journal_invI [of _ earlier written])
        (simp_all add: sj_log_def no_journal_faults_def)
  qed
next
  case (jr_take acc j)
  from jr_take.IH show ?case
  proof (rule journal_invE)
    fix earlier written
    assume "acc = earlier @ written @ in_flight (writer j) @ write_queue j"
      "pushed j = of_nat (length (written @ in_flight (writer j) @ write_queue j))"
      "committed j = of_nat (length written)"
      "no_journal_faults j \<Longrightarrow> journal_rows j = recorded (earlier @ written @ in_table (writer j))"
    with jr_take.hyps(2) show ?thesis
      by (cases "write_queue j = []"; intro journal_invI [of _ earlier written])
        (simp_all add: writer_take_def no_journal_faults_def del: length_append)
  qed
next
  case (jr_commit acc j b)
  from jr_commit.IH show ?case
  proof (rule journal_invE)
    fix earlier written
    assume w: "acc = earlier @ written @ in_flight (writer j) @ write_queue j"
      "pushed j = of_nat (length (written @ in_flight (writer j) @ write_queue j))"
      "committed j = of_nat (length written)"
      "no_journal_faults j \<Longrightarrow> journal_rows j = recorded (earlier @ written @ in_table (writer j))"
    have "journal_rows (writer_commit b j) = recorded (earlier @ written @ b)" if "no_journal_faults j"
      using w(4) [OF that] commit_batch_rows [OF that] jr_commit.hyps(2)
      by (simp add: writer_commit_def recorded_append)
    moreover have "no_journal_faults (writer_commit b j) = no_journal_faults j"
      by (simp add: writer_commit_def frame no_journal_faults_def)
    ultimately show ?thesis
      using w(1-3) jr_commit.hyps(2)
      by (intro journal_invI [of _ earlier written]) (simp_all add: writer_commit_def frame)
  qed
next
  case (jr_count acc j b)
  from jr_count.IH show ?case
  proof (rule journal_invE)
    fix earlier written
    assume "acc = earlier @ written @ in_flight (writer j) @ write_queue j"
      "pushed j = of_nat (length (written @ in_flight (writer j) @ write_queue j))"
      "committed j = of_nat (length written)"
      "no_journal_faults j \<Longrightarrow> journal_rows j = recorded (earlier @ written @ in_table (writer j))"
    with jr_count.hyps(2) show ?thesis
      by (intro journal_invI [of _ earlier "written @ b"])
        (simp_all add: writer_count_def no_journal_faults_def)
  qed
qed

lemma recorded_distinct:
  assumes "\<forall>e \<in> set es. pe_correlation_id e = '''' \<or>
    length (filter (\<lambda>e'. journal_key (row_of_entry e') = journal_key (row_of_entry e)) es) = 1"
  shows "recorded es = map row_of_entry es"
  using assms
proof (induction es rule: rev_induct)
  case Nil
  then show ?case by (simp add: recorded_def)
next
  case (snoc e es)
  let ?same = "\<lambda>e e'. journal_key (row_of_entry e') = journal_key (row_of_entry e)"
  have "\<forall>x \<in> set es. pe_correlation_id x = '''' \<or> length (filter (?same x) es) = 1"
  proof
    fix x assume x: "x \<in> set es"
    then have "0 < length (filter (?same x) es)"
      by (auto simp: filter_empty_conv)
    moreover have "pe_correlation_id x = '''' \<or> length (filter (?same x) (es @ [e])) = 1"
      using snoc.prems x by simp
    ultimately show "pe_correlation_id x = '''' \<or> length (filter (?same x) es) = 1"
      by (auto split: if_splits)
  qed
  with snoc.IH have IH: "recorded es = map row_of_entry es" .
  have "pe_correlation_id e = '''' \<or> filter (?same e) es = []"
    using snoc.prems by auto
  then have "jr_correlation_id (row_of_entry e) = None
      \<or> journal_key (row_of_entry e) \<notin> set (map journal_key (map row_of_entry es))"
    by (auto simp: row_of_entry_def filter_empty_conv)
  then show ?case
    by (auto simp: recorded_append IH insert_or_ignore_def)
qed

lemma flushed_idle:
  assumes "journal_reach acc j" and "flush_ready j" and "length acc < 2 ^ 64"
  shows "write_queue j = []" and "in_flight (writer j) = []"
proof -
  obtain earlier written where w: "acc = earlier @ written @ in_flight (writer j) @ write_queue j"
    "pushed j = of_nat (length (written @ in_flight (writer j) @ write_queue j))" "committed j = of_nat (length written)"
    using journal_inv_reach [OF assms(1)] by (auto simp: journal_inv_def)
  have "length written < 2 ^ 64" "length (written @ in_flight (writer j) @ write_queue j) < 2 ^ 64"
    using w(1) assms(3) by simp_all
  then have "length (written @ in_flight (writer j) @ write_queue j) \<le> length written"
    using assms(2) unfolding flush_ready_def word_le_nat_alt w(2,3) unat_of_nat by simp
  then show "write_queue j = []" "in_flight (writer j) = []" by simp_all
qed

section \<open>What failing statements lose\<close>

text \<open>
  No statement the writer has executed so far has failed. The entries not yet handed to the database
  are those of a batch that is taken and of the queue. The table holds the rows of some of the entries
  handed over, in their order; entries get lost only by a failing statement.
\<close>

definition no_failure_yet :: "sqlite_journal \<Rightarrow> bool" where
  "no_failure_yet j \<longleftrightarrow>
     (\<forall>n < batches j. \<not> prepare_fails j n) \<and> (\<forall>n < inserts j. \<not> insert_fails j n)"

fun taken :: "writer_place \<Rightarrow> pending_entry list" where
  "taken Waiting = []"
| "taken (Has_batch b) = b"
| "taken (Committed_batch b) = []"

definition journal_kept :: "pending_entry list \<Rightarrow> sqlite_journal \<Rightarrow> bool" where
  "journal_kept acc j \<longleftrightarrow>
     (\<exists>past kept. acc = past @ taken (writer j) @ write_queue j \<and> subseq kept past
        \<and> journal_rows j = recorded kept \<and> (no_failure_yet j \<longrightarrow> kept = past))"

lemma journal_keptI:
  "acc = past @ taken (writer j) @ write_queue j \<Longrightarrow> subseq kept past \<Longrightarrow>
   journal_rows j = recorded kept \<Longrightarrow> (no_failure_yet j \<Longrightarrow> kept = past) \<Longrightarrow> journal_kept acc j"
  unfolding journal_kept_def by blast

lemma insert_entries_kept:
  "\<exists>kept. subseq kept es
     \<and> journal_rows (insert_entries es j) = foldl insert_or_ignore (journal_rows j) (map row_of_entry kept)
     \<and> inserts j \<le> inserts (insert_entries es j) \<and> batches (insert_entries es j) = batches j
     \<and> ((\<forall>n < inserts (insert_entries es j). \<not> insert_fails j n) \<longrightarrow> kept = es)"
proof (induction es arbitrary: j)
  case Nil
  show ?case by (intro exI [of _ "[]"]) simp
next
  case (Cons e es)
  let ?j = "j\<lparr>journal_rows := (if insert_fails j (inserts j) then journal_rows j
      else insert_or_ignore (journal_rows j) (row_of_entry e)), inserts := Suc (inserts j)\<rparr>"
  obtain kept where k: "subseq kept es"
    "journal_rows (insert_entries es ?j) = foldl insert_or_ignore (journal_rows ?j) (map row_of_entry kept)"
    "Suc (inserts j) \<le> inserts (insert_entries es ?j)" "batches (insert_entries es ?j) = batches j"
    "(\<forall>n < inserts (insert_entries es ?j). \<not> insert_fails j n) \<longrightarrow> kept = es"
    using Cons.IH [of ?j] by auto
  show ?case
  proof (cases "insert_fails j (inserts j)")
    case True
    then have "\<not> (\<forall>n < inserts (insert_entries es ?j). \<not> insert_fails j n)"
      using k(3) by (meson Suc_le_lessD)
    then show ?thesis using k(1-4) True by (intro exI [of _ kept]) (auto simp: list_emb_Cons)
  next
    case False
    then show ?thesis using k by (intro exI [of _ "e # kept"]) auto
  qed
qed

lemma commit_batch_kept:
  "\<exists>kept. subseq kept b
     \<and> journal_rows (commit_batch b j) = foldl insert_or_ignore (journal_rows j) (map row_of_entry kept)
     \<and> (no_failure_yet (commit_batch b j) \<longrightarrow> no_failure_yet j \<and> kept = b)"
proof (cases "b = []")
  case True
  then show ?thesis by (auto simp: commit_batch_def)
next
  case False
  let ?j = "j\<lparr>batches := Suc (batches j)\<rparr>"
  show ?thesis
  proof (cases "prepare_fails j (batches j)")
    case True
    then have "commit_batch b j = ?j" using False by (simp add: commit_batch_def Let_def)
    moreover have "\<not> no_failure_yet ?j" using True by (auto simp: no_failure_yet_def)
    ultimately show ?thesis by (intro exI [of _ "[]"]) simp
  next
    case ok: False
    then have c: "commit_batch b j = insert_entries b ?j" using False by (simp add: commit_batch_def Let_def)
    obtain kept where k: "subseq kept b"
      "journal_rows (insert_entries b ?j) = foldl insert_or_ignore (journal_rows j) (map row_of_entry kept)"
      "inserts j \<le> inserts (insert_entries b ?j)" "batches (insert_entries b ?j) = Suc (batches j)"
      "(\<forall>n < inserts (insert_entries b ?j). \<not> insert_fails j n) \<longrightarrow> kept = b"
      using insert_entries_kept [of b ?j] by auto
    have "no_failure_yet j \<and> kept = b" if "no_failure_yet (insert_entries b ?j)"
      using that k(3-5) by (auto simp: no_failure_yet_def frame)
    with k(1,2) c show ?thesis by auto
  qed
qed

lemma journal_kept_reach: "journal_reach acc j \<Longrightarrow> journal_kept acc j"
proof (induction rule: journal_reach.induct)
  case (jr_open clk pf rf)
  show ?case by (rule journal_keptI [of _ "[]" _ "[]"]) (simp_all add: open_journal_def recorded_def)
next
  case (jr_reopen acc j)
  then show ?case by (simp add: journal_kept_def reopen_journal_def no_failure_yet_def)
next
  case (jr_log acc j ev data corr)
  then obtain past kept where p: "acc = past @ taken (writer j) @ write_queue j" "subseq kept past"
    "journal_rows j = recorded kept" "no_failure_yet j \<longrightarrow> kept = past"
    by (auto simp: journal_kept_def)
  then show ?case
    by (cases "length (write_queue j) \<ge> MAX_QUEUE_DEPTH"; intro journal_keptI [of _ past _ kept])
      (simp_all add: sj_log_def no_failure_yet_def Let_def)
next
  case (jr_take acc j)
  then show ?case
    by (auto simp: journal_kept_def writer_take_def no_failure_yet_def)
next
  case (jr_commit acc j b)
  then obtain past kept where p: "acc = past @ b @ write_queue j" "subseq kept past"
    "journal_rows j = recorded kept" "no_failure_yet j \<longrightarrow> kept = past"
    by (auto simp: journal_kept_def)
  obtain more where m: "subseq more b"
    "journal_rows (commit_batch b j) = foldl insert_or_ignore (journal_rows j) (map row_of_entry more)"
    "no_failure_yet (commit_batch b j) \<longrightarrow> no_failure_yet j \<and> more = b"
    using commit_batch_kept by blast
  show ?case
  proof (rule journal_keptI)
    show "acc = (past @ b) @ taken (writer (writer_commit b j)) @ write_queue (writer_commit b j)"
      using p(1) by (simp add: writer_commit_def frame)
    show "subseq (kept @ more) (past @ b)" using p(2) m(1) by (rule list_emb_append_mono)
    show "journal_rows (writer_commit b j) = recorded (kept @ more)"
      using p(3) m(2) by (simp add: writer_commit_def recorded_append)
    show "kept @ more = past @ b" if "no_failure_yet (writer_commit b j)"
      using that p(4) m(3) by (simp add: writer_commit_def no_failure_yet_def)
  qed
next
  case (jr_count acc j b)
  then show ?case by (simp add: journal_kept_def writer_count_def no_failure_yet_def)
qed

lemma flushed_kept:
  assumes "journal_reach acc j" and "flush_ready j" and "length acc < 2 ^ 64"
  shows "\<exists>kept. subseq kept acc \<and> journal_rows j = recorded kept \<and> (no_failure_yet j \<longrightarrow> kept = acc)"
proof -
  note idle = flushed_idle [OF assms]
  have "taken (writer j) = []" using idle(2) by (cases "writer j") simp_all
  with idle(1) journal_kept_reach [OF assms(1)] show ?thesis by (auto simp: journal_kept_def)
qed

lemma flushed_rows:
  assumes "journal_reach acc j" and "flush_ready j" and "length acc < 2 ^ 64"
    and "no_journal_faults j"
  shows "write_queue j = []" and "in_flight (writer j) = []" and "journal_rows j = recorded acc"
  using flushed_idle [OF assms(1-3)] flushed_kept [OF assms(1-3)] assms(4)
  by (auto simp: no_failure_yet_def no_journal_faults_def)

section \<open>Properties\<close>

text \<open>
  C21. When \<open>flush\<close> returns, everything \<open>log\<close> accepted has been handed to the database. Under any
  interleaving of callers and writer and with any statement failing, the condition of \<open>flush\<close> holds
  only when the queue is empty and the writer holds nothing. The table is then the result of inserting,
  in the order they were logged, the accepted entries less those a failing statement lost: all of them
  if no statement has failed so far. An insert is ignored when a row has the same time, correlation id
  and event; without failures and such pairs the table is exactly the rows of the accepted entries.
\<close>

theorem journal_flush_complete:
  assumes "journal_reach acc j" and "flush_ready j" and "length acc < 2 ^ 64"
  shows "write_queue j = [] \<and> in_flight (writer j) = []
       \<and> (\<exists>kept. subseq kept acc \<and> journal_rows j = foldl insert_or_ignore [] (map row_of_entry kept)
            \<and> (no_failure_yet j \<longrightarrow> kept = acc))
       \<and> (no_failure_yet j
          \<and> (\<forall>e \<in> set acc. pe_correlation_id e = '''' \<or>
               length (filter (\<lambda>e'. journal_key (row_of_entry e') = journal_key (row_of_entry e)) acc) = 1)
          \<longrightarrow> journal_rows j = map row_of_entry acc)"
  using flushed_idle [OF assms] flushed_kept [OF assms] recorded_distinct [of acc]
  by (auto simp: recorded_def)

lemma journal_example:
  "\<exists>j e. journal_reach [e] j \<and> flush_ready j \<and> no_journal_faults j"
proof -
  define clk :: clock where "clk = \<lparr>readings = (\<lambda>_. 0), reads = 0\<rparr>"
  define j0 where "j0 = open_journal clk (\<lambda>_. False) (\<lambda>_. False)"
  define e where "e = pending_of ORDER_CREATED ''x'' ''ORD_1'' j0"
  define j1 where "j1 = sj_log ORDER_CREATED ''x'' ''ORD_1'' j0"
  have r1: "journal_reach [e] j1"
    using jr_log [OF jr_open, of clk "\<lambda>_. False" "\<lambda>_. False" ORDER_CREATED "''x''" "''ORD_1''"]
    by (simp add: j1_def e_def j0_def MAX_QUEUE_DEPTH_def open_journal_def)
  have j1: "writer j1 = Waiting" "write_queue j1 = [e]" "pushed j1 = 1" "committed j1 = 0"
    "no_journal_faults j1"
    by (simp_all add: j1_def e_def j0_def op_defs MAX_QUEUE_DEPTH_def no_journal_faults_def Let_def)
  define j2 where "j2 = writer_take j1"
  have j2: "writer j2 = Has_batch [e]" "pushed j2 = 1" "committed j2 = 0" "no_journal_faults j2"
    using j1 by (simp_all add: j2_def writer_take_def BATCH_SIZE_def no_journal_faults_def)
  define j3 where "j3 = writer_commit [e] j2"
  have j3: "writer j3 = Committed_batch [e]" "pushed j3 = 1" "committed j3 = 0"
    "no_journal_faults j3"
    using j2 by (simp_all add: j3_def writer_commit_def frame no_journal_faults_def)
  define j4 where "j4 = writer_count [e] j3"
  have "journal_reach [e] j4"
    unfolding j4_def j3_def j2_def
    by (intro jr_count jr_commit jr_take r1 j1)
      (use j2 j3 in \<open>simp_all add: j2_def j3_def\<close>)
  moreover have "flush_ready j4" "no_journal_faults j4"
    using j3 by (simp_all add: j4_def writer_count_def flush_ready_def no_journal_faults_def)
  ultimately show ?thesis by blast
qed

theorem journal_flush_complete_witness:
  "\<exists>j e. journal_reach [e] j \<and> flush_ready j \<and> write_queue j = []
     \<and> journal_rows j = [row_of_entry e]"
proof -
  obtain j e where "journal_reach [e] j" "flush_ready j" "no_journal_faults j"
    using journal_example by blast
  then show ?thesis
    using journal_flush_complete [of "[e]" j] by (auto simp: no_journal_faults_def no_failure_yet_def)
qed

text \<open>
  Two events of one order with the same kind and the same millisecond leave one row: the second
  is ignored by the database, whatever its data.
\<close>

theorem journal_same_key_ignored:
  assumes "pe_correlation_id e \<noteq> ''''"
    and "journal_key (row_of_entry e') = journal_key (row_of_entry e)"
    and "no_journal_faults j"
  shows "journal_rows (commit_batch [e, e'] j) = journal_rows (commit_batch [e] j)"
  using assms
  by (auto simp: commit_batch_rows insert_or_ignore_def journal_key_def row_of_entry_def)

theorem journal_same_key_ignored_witness:
  "journal_rows (commit_batch
     [\<lparr>pe_timestamp = ''t'', pe_event = ERROR_OCCURRED, pe_data = ''first'',
       pe_correlation_id = ''ORD_1''\<rparr>,
      \<lparr>pe_timestamp = ''t'', pe_event = ERROR_OCCURRED, pe_data = ''second'',
       pe_correlation_id = ''ORD_1''\<rparr>]
     (open_journal \<lparr>readings = (\<lambda>_. 0), reads = 0\<rparr> (\<lambda>_. False) (\<lambda>_. False)))
   = journal_rows (commit_batch
     [\<lparr>pe_timestamp = ''t'', pe_event = ERROR_OCCURRED, pe_data = ''first'',
       pe_correlation_id = ''ORD_1''\<rparr>]
     (open_journal \<lparr>readings = (\<lambda>_. 0), reads = 0\<rparr> (\<lambda>_. False) (\<lambda>_. False)))"
  by (rule journal_same_key_ignored)
    (simp_all add: journal_key_def row_of_entry_def no_journal_faults_def open_journal_def)

end
