(* ===== verification/Gateway.thy ===== *)
theory Gateway
  imports Protos
begin

text \<open>
  \<open>interfaces/i_execution_gateway.h\<close>: the virtual interface \<open>IExecutionGateway\<close> as a record of its
  methods over the gateway's state (stopping also yields the reports it still hands over), and the
  report queue of \<open>GatewayDispatchBase\<close>, which hands the
  execution reports of a gateway to its fill handler one at a time.
\<close>

record 'g gateway_ops =
  gw_submit_order :: "order \<Rightarrow> 'g \<Rightarrow> BrokerOrderId result \<times> 'g"
  gw_cancel_order :: "BrokerOrderId \<Rightarrow> 'g \<Rightarrow> unit result \<times> 'g"
  gw_replace_order :: "BrokerOrderId \<Rightarrow> order \<Rightarrow> 'g \<Rightarrow> BrokerOrderId result \<times> 'g"
  gw_start :: "'g \<Rightarrow> 'g"
  gw_stop :: "'g \<Rightarrow> execution_report list \<times> 'g"

section \<open>GatewayDispatchBase\<close>

record dispatch_base =
  reports_queue :: "execution_report list"
  fill_handler_set :: bool
  dispatcher_running :: bool

definition new_dispatch_base :: dispatch_base where
  "new_dispatch_base =
     \<lparr>reports_queue = [], fill_handler_set = False, dispatcher_running = False\<rparr>"

definition set_fill_handler :: "dispatch_base \<Rightarrow> dispatch_base" where
  "set_fill_handler d = d\<lparr>fill_handler_set := True\<rparr>"

definition enqueue_report :: "execution_report \<Rightarrow> dispatch_base \<Rightarrow> dispatch_base" where
  "enqueue_report r d = d\<lparr>reports_queue := reports_queue d @ [r]\<rparr>"

definition start_dispatcher :: "dispatch_base \<Rightarrow> dispatch_base" where
  "start_dispatcher d = d\<lparr>dispatcher_running := True\<rparr>"

text \<open>
  One round of the dispatcher's loop: it takes the oldest report, and calls the fill handler with it
  when one is set. The result is the report the handler is called with.
\<close>

definition dispatch_one :: "dispatch_base \<Rightarrow> execution_report option \<times> dispatch_base" where
  "dispatch_one d =
     (case reports_queue d of
        [] \<Rightarrow> (None, d)
      | r # rs \<Rightarrow> (if fill_handler_set d then Some r else None, d\<lparr>reports_queue := rs\<rparr>))"

text \<open>
  \<open>stop_dispatcher\<close>: the loop ends when a stop was requested and the queue is empty, so it first
  hands over every report that is left; the first argument bounds the rounds.
\<close>

primrec drain_reports :: "nat \<Rightarrow> dispatch_base \<Rightarrow> execution_report list \<times> dispatch_base" where
  "drain_reports 0 d = ([], d)"
| "drain_reports (Suc k) d =
     (if reports_queue d = [] then ([], d)
      else let (r, d1) = dispatch_one d; (rs, d2) = drain_reports k d1
           in ((case r of None \<Rightarrow> rs | Some x \<Rightarrow> x # rs), d2))"

definition stop_dispatcher :: "dispatch_base \<Rightarrow> execution_report list \<times> dispatch_base" where
  "stop_dispatcher d =
     (if dispatcher_running d
      then let (rs, d1) = drain_reports (length (reports_queue d)) d
           in (rs, d1\<lparr>dispatcher_running := False\<rparr>)
      else ([], d))"

lemma drain_reports_all:
  "fst (drain_reports (length (reports_queue d)) d)
     = (if fill_handler_set d then reports_queue d else [])
   \<and> reports_queue (snd (drain_reports (length (reports_queue d)) d)) = []
   \<and> fill_handler_set (snd (drain_reports (length (reports_queue d)) d)) = fill_handler_set d"
proof (induction "reports_queue d" arbitrary: d)
  case Nil
  then show ?case by (simp flip: Nil)
next
  case (Cons r rs)
  then have "rs = reports_queue (d\<lparr>reports_queue := rs\<rparr>)"
    by simp
  from Cons(1) [OF this] show ?case
    by (simp add: dispatch_one_def split_beta Let_def flip: Cons(2))
qed

text \<open>
  Stopping the dispatcher of a gateway loses no report: with the fill handler set, every report
  still queued is handed to it, in the order the gateway produced them, before the thread ends.
\<close>

theorem stop_dispatcher_delivers_all:
  assumes "dispatcher_running d" and "fill_handler_set d"
  shows "fst (stop_dispatcher (foldl (\<lambda>d r. enqueue_report r d) d rs)) = reports_queue d @ rs
       \<and> reports_queue (snd (stop_dispatcher (foldl (\<lambda>d r. enqueue_report r d) d rs))) = []"
proof -
  let ?d = "foldl (\<lambda>d r. enqueue_report r d) d rs"
  have "reports_queue ?d = reports_queue d @ rs \<and> fill_handler_set ?d \<and> dispatcher_running ?d"
    using assms by (induction rs rule: rev_induct) (simp_all add: enqueue_report_def)
  then show ?thesis
    using drain_reports_all [of ?d] by (auto simp: stop_dispatcher_def Let_def split_beta)
qed

theorem stop_dispatcher_delivers_all_witness:
  "fst (stop_dispatcher (foldl (\<lambda>d r. enqueue_report r d)
      (start_dispatcher (set_fill_handler new_dispatch_base))
      [empty_report, empty_report\<lparr>er_symbol := ''AAPL''\<rparr>]))
   = [empty_report, empty_report\<lparr>er_symbol := ''AAPL''\<rparr>]"
  using stop_dispatcher_delivers_all [of "start_dispatcher (set_fill_handler new_dispatch_base)"
      "[empty_report, empty_report\<lparr>er_symbol := ''AAPL''\<rparr>]"]
  by (simp add: start_dispatcher_def set_fill_handler_def new_dispatch_base_def)

end
