(* ===== verification/OrderManager.thy ===== *)
theory OrderManager
  imports OrderIds Clock EventQueue RiskManager PositionKeeper OrderStore Journal Gateway
begin

text \<open>
  \<open>core/order_manager.cpp\<close>: one strategy's order manager. Its dispatch thread is the only writer of
  the order store, the id mapper and the open order count; every other thread talks to it through
  the event queue. A handler is a function on the whole state that makes the same calls in the same
  order, with every early return as a branch. The gateway, store and journal are reached through
  their interfaces' records of methods (\<open>deps\<close>), so the handlers hold for any implementation.

  A promise is named by a number, and the list of replies records every \<open>set_value\<close>. A sink is named
  by a number too, and the deliveries record every call of it.
\<close>

section \<open>State\<close>

datatype om_event =
  Bar_event bar
| Tick_event tick
| Fill_event execution_report
| Submit_command strategy_signal nat
| Cancel_command cancel_signal nat
| Replace_command replace_signal nat
| Cancel_all_command string string nat

datatype om_reply = Order_reply "LocalOrderId result" | Unit_reply "unit result" | Done_reply

text \<open>
  \<open>debug_string\<close> is protobuf's \<open>DebugString\<close>, and \<open>fmt_double\<close> the \<open>{}\<close> format of a \<open>double\<close>; both
  are only written to the journal.
\<close>

record ('g, 's, 'j) deps =
  gateway_of :: "'g gateway_ops"
  store_of :: "'s store_ops"
  journal_of :: "'j journal_ops"
  debug_string :: "order \<Rightarrow> string"
  fmt_double :: "double \<Rightarrow> string"

record ('g, 's, 'j) order_manager =
  om_account_id :: AccountId
  position_keeper :: position_keeper
  gateway :: 'g
  journal :: 'j
  order_store :: 's
  risk_manager :: risk_limits
  id_generator :: order_id_generator
  id_mapper :: order_id_mapper
  tick_sink :: "nat option"
  bar_sink :: "nat option"
  fill_sink :: "nat option"
  open_order_count :: int
  queue :: "om_event event_queue"
  om_clock :: clock
  replies :: "(nat \<times> om_reply) list"
  tick_deliveries :: "(nat \<times> tick) list"
  bar_deliveries :: "(nat \<times> bar) list"
  fill_deliveries :: "(nat \<times> execution_report) list"

definition MAX_MARKETDATA_QUEUE_DEPTH :: nat where
  "MAX_MARKETDATA_QUEUE_DEPTH = 8192"

text \<open>The constructor starts the gateway once its fill handler is set.\<close>

definition create_order_manager ::
  "('g, 's, 'j) deps \<Rightarrow> AccountId \<Rightarrow> position_keeper \<Rightarrow> 'g \<Rightarrow> 'j \<Rightarrow> 's \<Rightarrow> risk_limits \<Rightarrow> clock
   \<Rightarrow> ('g, 's, 'j) order_manager" where
  "create_order_manager deps account_id pk gw lj os rm clk =
     \<lparr>om_account_id = account_id, position_keeper = pk, gateway = gw_start (gateway_of deps) gw,
      journal = lj, order_store = os, risk_manager = rm, id_generator = mk_generator ''ORD'',
      id_mapper = empty_mapper, tick_sink = None, bar_sink = None, fill_sink = None,
      open_order_count = 0, queue = empty_queue, om_clock = clk, replies = [],
      tick_deliveries = [], bar_deliveries = [], fill_deliveries = []\<rparr>"

section \<open>Calls of the components\<close>

type_synonym ('g, 's, 'j, 'a) om_call =
  "('g, 's, 'j) order_manager \<Rightarrow> 'a \<times> ('g, 's, 'j) order_manager"

definition om_now :: "('g, 's, 'j, int) om_call" where
  "om_now om = (let (t, c) = clock_now (om_clock om) in (t, om\<lparr>om_clock := c\<rparr>))"

definition om_generate :: "('g, 's, 'j, LocalOrderId) om_call" where
  "om_generate om =
     (let (t, om) = om_now om; (i, g) = generate t (id_generator om)
      in (i, om\<lparr>id_generator := g\<rparr>))"

definition om_log ::
  "('g, 's, 'j) deps \<Rightarrow> Event \<Rightarrow> string \<Rightarrow> string
   \<Rightarrow> ('g, 's, 'j) order_manager \<Rightarrow> ('g, 's, 'j) order_manager" where
  "om_log deps ev data corr om = om\<lparr>journal := jn_log (journal_of deps) ev data corr (journal om)\<rparr>"

definition on_store :: "('s \<Rightarrow> 'a \<times> 's) \<Rightarrow> ('g, 's, 'j, 'a) om_call" where
  "on_store f om = (let (r, s) = f (order_store om) in (r, om\<lparr>order_store := s\<rparr>))"

definition on_gateway :: "('g \<Rightarrow> 'a \<times> 'g) \<Rightarrow> ('g, 's, 'j, 'a) om_call" where
  "on_gateway f om = (let (r, g) = f (gateway om) in (r, om\<lparr>gateway := g\<rparr>))"

definition set_mapper ::
  "(order_id_mapper \<Rightarrow> order_id_mapper) \<Rightarrow> ('g, 's, 'j) order_manager \<Rightarrow> ('g, 's, 'j) order_manager"
  where "set_mapper f om = om\<lparr>id_mapper := f (id_mapper om)\<rparr>"

definition count_orders ::
  "int \<Rightarrow> ('g, 's, 'j) order_manager \<Rightarrow> ('g, 's, 'j) order_manager" where
  "count_orders d om = om\<lparr>open_order_count := open_order_count om + d\<rparr>"

definition set_value ::
  "nat \<Rightarrow> om_reply \<Rightarrow> ('g, 's, 'j) order_manager \<Rightarrow> ('g, 's, 'j) order_manager" where
  "set_value p r om = om\<lparr>replies := replies om @ [(p, r)]\<rparr>"

text \<open>\<open>if (auto r = f(); !r) journal_->log(ERROR_OCCURRED, r.error().message_, local_id);\<close>\<close>

definition log_failure ::
  "('g, 's, 'j) deps \<Rightarrow> string \<Rightarrow> unit result \<times> ('g, 's, 'j) order_manager
   \<Rightarrow> ('g, 's, 'j) order_manager" where
  "log_failure deps l ro =
     (case ro of (Inl e, om) \<Rightarrow> om_log deps ERROR_OCCURRED (message e) l om | (Inr _, om) \<Rightarrow> om)"

text \<open>\<open>create_order_from_signal\<close>, for the two signal types by their common fields.\<close>

definition create_order_from_signal ::
  "Symbol \<Rightarrow> Side \<Rightarrow> double \<Rightarrow> StrategyId \<Rightarrow> AccountId \<Rightarrow> int \<Rightarrow> order" where
  "create_order_from_signal symbol side target_quantity strategy_id account_id now =
     \<lparr>ord_id = '''', ord_symbol = symbol, ord_side = side, ord_quantity = target_quantity,
      ord_price = 0, ord_type = MARKET, ord_status = V1_NEW, ord_time_in_force = DAY,
      ord_account_id = account_id, ord_strategy_id = strategy_id,
      ord_created_at = get_current_time now\<rparr>"

lemmas call_defs =
  om_now_def om_generate_def om_log_def on_store_def on_gateway_def set_mapper_def
  count_orders_def set_value_def log_failure_def

section \<open>Submit\<close>

definition new_stored_order :: "order \<Rightarrow> string \<Rightarrow> string option \<Rightarrow> OrderStatus \<Rightarrow> string \<Rightarrow> stored_order"
  where
  "new_stored_order ord l b st created_at =
     \<lparr>so_order = ord, so_status = st, so_local_id = l, so_broker_id = b,
      so_created_at = created_at, so_updated_at = None, so_filled_quantity = 0,
      so_avg_fill_price = 0\<rparr>"

text \<open>From the gateway's acceptance on: steps 5 to 9 of the source's list.\<close>

definition submit_accepted ::
  "('g, 's, 'j) deps \<Rightarrow> LocalOrderId \<Rightarrow> BrokerOrderId \<Rightarrow> nat
   \<Rightarrow> ('g, 's, 'j) order_manager \<Rightarrow> ('g, 's, 'j) order_manager" where
  "submit_accepted deps l b p om =
     (let (r, om) = on_store (st_update_order_status (store_of deps) l SUBMITTED) om
      in case r of
           Inl e \<Rightarrow>
             set_value p (Order_reply (Inl e)) (om_log deps ERROR_OCCURRED (message e) l om)
         | Inr _ \<Rightarrow>
             let om = set_mapper (add_mapping l b) om;
                 om = count_orders 1 om;
                 om = log_failure deps l (on_store (st_update_broker_id (store_of deps) l b) om);
                 om = om_log deps ORDER_SUBMITTED (''Local: '' @ l @ '', Broker: '' @ b) l om
             in set_value p (Order_reply (Inr l)) om)"

text \<open>The common end of a risk rejection and of a gateway rejection.\<close>

definition submit_rejected ::
  "('g, 's, 'j) deps \<Rightarrow> LocalOrderId \<Rightarrow> error \<Rightarrow> nat
   \<Rightarrow> ('g, 's, 'j) order_manager \<Rightarrow> ('g, 's, 'j) order_manager" where
  "submit_rejected deps l e p om =
     (let om = om_log deps ORDER_REJECTED (message e) l om;
          om = log_failure deps l
                 (on_store (st_update_order_status (store_of deps) l REJECTED) om)
      in set_value p (Order_reply (Inl e)) om)"

text \<open>Steps 3 and 4: the risk check, with the count converted to \<open>size_t\<close>, and the gateway.\<close>

definition submit_stored ::
  "('g, 's, 'j) deps \<Rightarrow> LocalOrderId \<Rightarrow> order \<Rightarrow> nat
   \<Rightarrow> ('g, 's, 'j) order_manager \<Rightarrow> ('g, 's, 'j) order_manager" where
  "submit_stored deps l ord p om =
     (case risk_check (risk_manager om) (ord_quantity ord) (word_of_int (open_order_count om))
             (get_total_pnl (position_keeper om)) of
        Inl e \<Rightarrow> submit_rejected deps l e p om
      | Inr _ \<Rightarrow>
          let (r, om) = on_gateway (gw_submit_order (gateway_of deps) ord) om
          in case r of
               Inl e \<Rightarrow> submit_rejected deps l e p om
             | Inr b \<Rightarrow> submit_accepted deps l b p om)"

definition handle_submit_command ::
  "('g, 's, 'j) deps \<Rightarrow> strategy_signal \<Rightarrow> nat
   \<Rightarrow> ('g, 's, 'j) order_manager \<Rightarrow> ('g, 's, 'j) order_manager" where
  "handle_submit_command deps sig p om =
     (let (l, om) = om_generate om;
          (t, om) = om_now om;
          ord = (create_order_from_signal (sig_symbol sig) (sig_side sig)
                   (sig_target_quantity sig) (sig_strategy_id sig) (om_account_id om) t)
                \<lparr>ord_id := l\<rparr>;
          om = om_log deps ORDER_CREATED (debug_string deps ord) (ord_id ord) om;
          (now, om) = om_now om
      in case timestamp_to_string now of
           Inl err \<Rightarrow>
             set_value p
               (Order_reply (Inl (mk_error
                  (err @ '' (timestamp conversion failure in submit command)'') FailedOrder))) om
         | Inr created_at \<Rightarrow>
             let stored = new_stored_order ord l None PENDING_SUBMISSION created_at;
                 (r, om) = on_store (st_store_order (store_of deps) stored) om
             in case r of
                  Inl e \<Rightarrow>
                    set_value p (Order_reply (Inl e))
                      (om_log deps ERROR_OCCURRED (message e) l om)
                | Inr _ \<Rightarrow> submit_stored deps l ord p om)"

section \<open>Cancel\<close>

definition handle_cancel_command ::
  "('g, 's, 'j) deps \<Rightarrow> cancel_signal \<Rightarrow> nat
   \<Rightarrow> ('g, 's, 'j) order_manager \<Rightarrow> ('g, 's, 'j) order_manager" where
  "handle_cancel_command deps sig p om =
     (let l = can_order_id sig
      in case get_broker_id (id_mapper om) l of
           None \<Rightarrow>
             set_value p
               (Unit_reply (Inl (mk_error (''Cannot find broker ID for order: '' @ l) Error))) om
         | Some b \<Rightarrow>
             let (result, om) = on_gateway (gw_cancel_order (gateway_of deps) b) om
             in case result of
                  Inl e \<Rightarrow> set_value p (Unit_reply (Inl e)) om
                | Inr u \<Rightarrow>
                    let om = om_log deps ORDER_CANCELLED ''Cancelled'' l om;
                        om = set_mapper (remove_mapping l) om;
                        (r, om) = on_store
                          (st_update_order_status (store_of deps) l OrderStatus.CANCELLED) om
                    in case r of
                         Inl e \<Rightarrow>
                           set_value p (Unit_reply (Inl e))
                             (om_log deps ERROR_OCCURRED (message e) l om)
                       | Inr _ \<Rightarrow> set_value p (Unit_reply (Inr u)) (count_orders (- 1) om))"

section \<open>Replace\<close>

definition replace_accepted ::
  "('g, 's, 'j) deps \<Rightarrow> LocalOrderId \<Rightarrow> LocalOrderId \<Rightarrow> BrokerOrderId \<Rightarrow> order \<Rightarrow> nat
   \<Rightarrow> ('g, 's, 'j) order_manager \<Rightarrow> ('g, 's, 'j) order_manager" where
  "replace_accepted deps old_l new_l new_b new_ord p om =
     (let om = set_mapper (remove_mapping old_l) om;
          (r, om) = on_store (st_update_order_status (store_of deps) old_l REPLACED) om
      in case r of
           Inl e \<Rightarrow>
             set_value p (Order_reply (Inl e)) (om_log deps ERROR_OCCURRED (message e) old_l om)
         | Inr _ \<Rightarrow>
             let (now, om) = om_now om
             in case timestamp_to_string now of
                  Inl err \<Rightarrow>
                    set_value p
                      (Order_reply (Inl (mk_error
                        (err @ '' (timestamp conversion failure in replace command)'')
                        FailedOrder))) om
                | Inr created_at \<Rightarrow>
                    let stored = new_stored_order new_ord new_l (Some new_b) SUBMITTED created_at;
                        (r, om) = on_store (st_store_order (store_of deps) stored) om
                    in case r of
                         Inl e \<Rightarrow>
                           set_value p (Order_reply (Inl e))
                             (om_log deps ERROR_OCCURRED (message e) new_l om)
                       | Inr _ \<Rightarrow>
                           let om = set_mapper (add_mapping new_l new_b) om;
                               om = om_log deps ORDER_SUBMITTED
                                 (''Old: '' @ old_l @ '' -> New: '' @ new_l @ '' (Broker: '' @ new_b
                                  @ '')'') new_l om
                           in set_value p (Order_reply (Inr new_l)) om)"

definition handle_replace_command ::
  "('g, 's, 'j) deps \<Rightarrow> replace_signal \<Rightarrow> nat
   \<Rightarrow> ('g, 's, 'j) order_manager \<Rightarrow> ('g, 's, 'j) order_manager" where
  "handle_replace_command deps sig p om =
     (let old_l = rep_order_id sig
      in case get_broker_id (id_mapper om) old_l of
           None \<Rightarrow>
             set_value p
               (Order_reply (Inl (mk_error (''Cannot find broker ID for order: '' @ old_l) Error)))
               om
         | Some old_b \<Rightarrow>
             let (new_l, om) = om_generate om;
                 (t, om) = om_now om;
                 new_ord = (create_order_from_signal (rep_symbol sig) (rep_side sig)
                     (rep_target_quantity sig) (rep_strategy_id sig) (om_account_id om) t)
                   \<lparr>ord_id := new_l\<rparr>;
                 om = om_log deps ORDER_REPLACED
                        (''Replacing '' @ old_l @ '' with '' @ new_l) new_l om;
                 (result, om) =
                   on_gateway (gw_replace_order (gateway_of deps) old_b new_ord) om
             in case result of
                  Inl e \<Rightarrow>
                    set_value p (Order_reply (Inl e))
                      (om_log deps ORDER_REJECTED (message e) new_l om)
                | Inr new_b \<Rightarrow> replace_accepted deps old_l new_l new_b new_ord p om)"

section \<open>Cancel all\<close>

text \<open>One round of the kill switch's loop.\<close>

definition cancel_one ::
  "('g, 's, 'j) deps \<Rightarrow> stored_order
   \<Rightarrow> ('g, 's, 'j) order_manager \<Rightarrow> ('g, 's, 'j) order_manager" where
  "cancel_one deps stored om =
     (case so_broker_id stored of
        None \<Rightarrow> om
      | Some b \<Rightarrow>
          let l = so_local_id stored;
              (r, om) = on_gateway (gw_cancel_order (gateway_of deps) b) om
          in case r of
               Inr _ \<Rightarrow>
                 (let (r, om) = on_store
                    (st_update_order_status (store_of deps) l OrderStatus.CANCELLED) om
                  in case r of
                       Inl e \<Rightarrow> om_log deps ERROR_OCCURRED (message e) l om
                     | Inr _ \<Rightarrow>
                         om_log deps ORDER_CANCELLED ''Cancelled by kill switch'' l
                           (set_mapper (remove_mapping l) om))
             | Inl e \<Rightarrow>
                 om_log deps ERROR_OCCURRED
                   (''Failed to cancel during kill switch: '' @ message e) l om)"

definition handle_cancel_all_command ::
  "('g, 's, 'j) deps \<Rightarrow> string \<Rightarrow> string \<Rightarrow> nat
   \<Rightarrow> ('g, 's, 'j) order_manager \<Rightarrow> ('g, 's, 'j) order_manager" where
  "handle_cancel_all_command deps reason initiated_by p om =
     (let om = om_log deps KILL_SWITCH_ACTIVATED
            (''Kill switch activated by: '' @ initiated_by @ ''. Reason: '' @ reason) '''' om;
          (open_orders, om) = on_store (st_get_open_orders (store_of deps)) om;
          om = foldl (\<lambda>om stored. cancel_one deps stored om) om open_orders
      in set_value p Done_reply om)"

section \<open>Fills and market data\<close>

definition deliver_fill ::
  "execution_report \<Rightarrow> ('g, 's, 'j) order_manager \<Rightarrow> ('g, 's, 'j) order_manager" where
  "deliver_fill r om =
     (case fill_sink om of
        None \<Rightarrow> om
      | Some k \<Rightarrow> om\<lparr>fill_deliveries := fill_deliveries om @ [(k, r)]\<rparr>)"

text \<open>Steps 2 (the terminal statuses) and 3 to 8 (a fill of a stored order).\<close>

definition handle_terminal_report ::
  "('g, 's, 'j) deps \<Rightarrow> execution_report \<Rightarrow> LocalOrderId
   \<Rightarrow> ('g, 's, 'j) order_manager \<Rightarrow> ('g, 's, 'j) order_manager" where
  "handle_terminal_report deps fill l om =
     (let new_status = (if er_status fill = V1_REJECTED then REJECTED else OrderStatus.CANCELLED);
          om = log_failure deps l
                 (on_store (st_update_order_status (store_of deps) l new_status) om);
          om = set_mapper (remove_mapping l) om
      in deliver_fill fill om)"

definition apply_fill_report ::
  "('g, 's, 'j) deps \<Rightarrow> execution_report \<Rightarrow> LocalOrderId \<Rightarrow> stored_order
   \<Rightarrow> ('g, 's, 'j) order_manager \<Rightarrow> ('g, 's, 'j) order_manager" where
  "apply_fill_report deps fill l stored om =
     (let filled_qty = er_filled_quantity fill;
          original_qty = ord_quantity (so_order stored);
          fully_filled = (so_filled_quantity stored + filled_qty \<ge> original_qty);
          new_status = (if fully_filled then OrderStatus.FILLED else PARTIALLY_FILLED);
          om = log_failure deps l
                 (on_store (st_apply_fill (store_of deps) l filled_qty (er_avg_fill_price fill)
                              new_status) om);
          om = om\<lparr>position_keeper := on_fill (er_symbol fill) filled_qty (er_avg_fill_price fill)
                    (er_side fill) (position_keeper om)\<rparr>;
          om = om_log deps (if fully_filled then ORDER_FILLED else ORDER_PARTIALLY_FILLED)
                 (''Filled: '' @ fmt_double deps filled_qty @ '' / '' @ fmt_double deps original_qty
                  @ '' @ avg='' @ fmt_double deps (er_avg_fill_price fill)) l om;
          om = (if fully_filled then count_orders (- 1) (set_mapper (remove_mapping l) om) else om)
      in deliver_fill fill om)"

definition handle_fill ::
  "('g, 's, 'j) deps \<Rightarrow> execution_report
   \<Rightarrow> ('g, 's, 'j) order_manager \<Rightarrow> ('g, 's, 'j) order_manager" where
  "handle_fill deps fill om =
     (case get_local_id (id_mapper om) (er_broker_order_id fill) of
        None \<Rightarrow> om
      | Some l \<Rightarrow>
          if er_status fill = V1_REJECTED \<or> er_status fill = V1_CANCELLED
          then handle_terminal_report deps fill l om
          else let (stored, om) = on_store (st_get_order (store_of deps) l) om
               in case stored of
                    Inl e \<Rightarrow>
                      om_log deps ERROR_OCCURRED
                        (''Cannot find stored order for local_id: '' @ l) l om
                  | Inr so \<Rightarrow> apply_fill_report deps fill l so om)"

definition handle_bar :: "bar \<Rightarrow> ('g, 's, 'j) order_manager \<Rightarrow> ('g, 's, 'j) order_manager" where
  "handle_bar b om =
     (case bar_sink om of
        None \<Rightarrow> om | Some k \<Rightarrow> om\<lparr>bar_deliveries := bar_deliveries om @ [(k, b)]\<rparr>)"

definition handle_tick :: "tick \<Rightarrow> ('g, 's, 'j) order_manager \<Rightarrow> ('g, 's, 'j) order_manager" where
  "handle_tick t om =
     (case tick_sink om of
        None \<Rightarrow> om | Some k \<Rightarrow> om\<lparr>tick_deliveries := tick_deliveries om @ [(k, t)]\<rparr>)"

definition set_market_data_sinks ::
  "nat \<Rightarrow> nat \<Rightarrow> ('g, 's, 'j) order_manager \<Rightarrow> ('g, 's, 'j) order_manager" where
  "set_market_data_sinks ts bs om = om\<lparr>tick_sink := Some ts, bar_sink := Some bs\<rparr>"

definition clear_market_data_sinks ::
  "('g, 's, 'j) order_manager \<Rightarrow> ('g, 's, 'j) order_manager" where
  "clear_market_data_sinks om = om\<lparr>tick_sink := None, bar_sink := None\<rparr>"

definition set_fill_sink ::
  "nat \<Rightarrow> ('g, 's, 'j) order_manager \<Rightarrow> ('g, 's, 'j) order_manager" where
  "set_fill_sink k om = om\<lparr>fill_sink := Some k\<rparr>"

definition clear_fill_sink :: "('g, 's, 'j) order_manager \<Rightarrow> ('g, 's, 'j) order_manager" where
  "clear_fill_sink om = om\<lparr>fill_sink := None\<rparr>"

definition om_get_position :: "Symbol \<Rightarrow> ('g, 's, 'j) order_manager \<Rightarrow> v1_position result" where
  "om_get_position symbol om = pk_get_position symbol (position_keeper om)"

definition om_get_all_positions :: "('g, 's, 'j) order_manager \<Rightarrow> v1_position list" where
  "om_get_all_positions om = pk_get_all_positions (position_keeper om)"

section \<open>The queue and the dispatch loop\<close>

fun is_market_data :: "om_event \<Rightarrow> bool" where
  "is_market_data (Bar_event b) = True"
| "is_market_data (Tick_event t) = True"
| "is_market_data _ = False"

definition om_enqueue ::
  "om_event \<Rightarrow> ('g, 's, 'j) order_manager \<Rightarrow> ('g, 's, 'j) order_manager" where
  "om_enqueue ev om =
     (if is_market_data ev
      then om\<lparr>queue := snd (q_try_push ev MAX_MARKETDATA_QUEUE_DEPTH (queue om))\<rparr>
      else om\<lparr>queue := q_push ev (queue om)\<rparr>)"

fun handle_event ::
  "('g, 's, 'j) deps \<Rightarrow> om_event
   \<Rightarrow> ('g, 's, 'j) order_manager \<Rightarrow> ('g, 's, 'j) order_manager" where
  "handle_event deps (Fill_event r) om = handle_fill deps r om"
| "handle_event deps (Bar_event b) om = handle_bar b om"
| "handle_event deps (Tick_event t) om = handle_tick t om"
| "handle_event deps (Submit_command sig p) om = handle_submit_command deps sig p om"
| "handle_event deps (Cancel_command sig p) om = handle_cancel_command deps sig p om"
| "handle_event deps (Replace_command sig p) om = handle_replace_command deps sig p om"
| "handle_event deps (Cancel_all_command reason by p) om =
     handle_cancel_all_command deps reason by p om"

text \<open>
  \<open>run_dispatch_loop\<close> once a stop was requested, for at most the given number of rounds: \<open>pop\<close>
  returns false when the queue is empty.
\<close>

primrec run_dispatch_loop ::
  "nat \<Rightarrow> ('g, 's, 'j) deps \<Rightarrow> ('g, 's, 'j) order_manager \<Rightarrow> ('g, 's, 'j) order_manager" where
  "run_dispatch_loop 0 deps om = om"
| "run_dispatch_loop (Suc k) deps om =
     (case q_pop True (queue om) of
        Popped ev q \<Rightarrow>
          (let om = handle_event deps ev (om\<lparr>queue := q\<rparr>);
               om = om\<lparr>queue := q_mark_processed (queue om)\<rparr>
           in run_dispatch_loop k deps om)
      | _ \<Rightarrow> om)"

text \<open>
  What the loop has done once it has handled everything that was queued. While the queue is not
  empty \<open>pop\<close> returns its front whether or not a stop was requested.
\<close>

definition dispatch_queued ::
  "('g, 's, 'j) deps \<Rightarrow> ('g, 's, 'j) order_manager \<Rightarrow> ('g, 's, 'j) order_manager" where
  "dispatch_queued deps om = run_dispatch_loop (q_size (queue om)) deps om"

section \<open>Callers\<close>

text \<open>
  \<open>process_signal\<close> enqueues a command with a new promise and waits for the value. The command is the
  last event queued, so by the time it is answered the dispatch thread has handled the whole queue.
  A promise that was never set is \<open>None\<close>.
\<close>

definition order_answer :: "nat \<Rightarrow> ('g, 's, 'j) order_manager \<Rightarrow> LocalOrderId result option" where
  "order_answer p om = (case map_of (replies om) p of Some (Order_reply r) \<Rightarrow> Some r | _ \<Rightarrow> None)"

definition unit_answer :: "nat \<Rightarrow> ('g, 's, 'j) order_manager \<Rightarrow> unit result option" where
  "unit_answer p om = (case map_of (replies om) p of Some (Unit_reply r) \<Rightarrow> Some r | _ \<Rightarrow> None)"

definition process_submit ::
  "('g, 's, 'j) deps \<Rightarrow> strategy_signal \<Rightarrow> nat \<Rightarrow> ('g, 's, 'j, LocalOrderId result option) om_call"
  where
  "process_submit deps sig p om =
     (let om = dispatch_queued deps (om_enqueue (Submit_command sig p) om)
      in (order_answer p om, om))"

definition process_cancel ::
  "('g, 's, 'j) deps \<Rightarrow> cancel_signal \<Rightarrow> nat \<Rightarrow> ('g, 's, 'j, unit result option) om_call" where
  "process_cancel deps sig p om =
     (let om = dispatch_queued deps (om_enqueue (Cancel_command sig p) om)
      in (unit_answer p om, om))"

definition process_replace ::
  "('g, 's, 'j) deps \<Rightarrow> replace_signal \<Rightarrow> nat \<Rightarrow> ('g, 's, 'j, LocalOrderId result option) om_call"
  where
  "process_replace deps sig p om =
     (let om = dispatch_queued deps (om_enqueue (Replace_command sig p) om)
      in (order_answer p om, om))"

definition om_cancel_all ::
  "('g, 's, 'j) deps \<Rightarrow> string \<Rightarrow> string \<Rightarrow> nat
   \<Rightarrow> ('g, 's, 'j) order_manager \<Rightarrow> ('g, 's, 'j) order_manager" where
  "om_cancel_all deps reason initiated_by p om =
     dispatch_queued deps (om_enqueue (Cancel_all_command reason initiated_by p) om)"

text \<open>
  The destructor: the gateway stops and hands its remaining reports to the fill handler, which
  enqueues them; then the dispatch thread is told to stop and handles the rest of the queue.
\<close>

definition destroy_order_manager ::
  "('g, 's, 'j) deps \<Rightarrow> ('g, 's, 'j) order_manager \<Rightarrow> ('g, 's, 'j) order_manager" where
  "destroy_order_manager deps om =
     (let (rs, om) = on_gateway (gw_stop (gateway_of deps)) om;
          om = foldl (\<lambda>om r. om_enqueue (Fill_event r) om) om rs
      in dispatch_queued deps om)"

end
