(* ===== verification/OrderManagerFacts.thy ===== *)
theory OrderManagerFacts
  imports OrderManager SqliteOrderStore
begin

text \<open>
  What every handler of the order manager keeps, for any gateway, journal and clock and for any
  store that keeps the contract \<open>order_store\<close>: the invariant \<open>om_inv\<close>, one reply per command, and
  the parts of the state a handler leaves alone.
\<close>

section \<open>What the calls leave alone\<close>

lemma log_frame [simp]:
  "order_store (om_log d ev s c om) = order_store om"
  "id_mapper (om_log d ev s c om) = id_mapper om"
  "open_order_count (om_log d ev s c om) = open_order_count om"
  "gateway (om_log d ev s c om) = gateway om"
  "replies (om_log d ev s c om) = replies om"
  "queue (om_log d ev s c om) = queue om"
  "position_keeper (om_log d ev s c om) = position_keeper om"
  "fill_sink (om_log d ev s c om) = fill_sink om"
  "fill_deliveries (om_log d ev s c om) = fill_deliveries om"
  "risk_manager (om_log d ev s c om) = risk_manager om"
  by (simp_all add: call_defs)

lemma set_value_frame [simp]:
  "order_store (set_value p r om) = order_store om"
  "id_mapper (set_value p r om) = id_mapper om"
  "open_order_count (set_value p r om) = open_order_count om"
  "gateway (set_value p r om) = gateway om"
  "replies (set_value p r om) = replies om @ [(p, r)]"
  "queue (set_value p r om) = queue om"
  "position_keeper (set_value p r om) = position_keeper om"
  "fill_sink (set_value p r om) = fill_sink om"
  "fill_deliveries (set_value p r om) = fill_deliveries om"
  "risk_manager (set_value p r om) = risk_manager om"
  by (simp_all add: call_defs)

lemma set_mapper_frame [simp]:
  "order_store (set_mapper f om) = order_store om"
  "id_mapper (set_mapper f om) = f (id_mapper om)"
  "open_order_count (set_mapper f om) = open_order_count om"
  "gateway (set_mapper f om) = gateway om"
  "replies (set_mapper f om) = replies om"
  "queue (set_mapper f om) = queue om"
  "position_keeper (set_mapper f om) = position_keeper om"
  "fill_sink (set_mapper f om) = fill_sink om"
  "fill_deliveries (set_mapper f om) = fill_deliveries om"
  "risk_manager (set_mapper f om) = risk_manager om"
  by (simp_all add: call_defs)

lemma count_orders_frame [simp]:
  "order_store (count_orders n om) = order_store om"
  "id_mapper (count_orders n om) = id_mapper om"
  "open_order_count (count_orders n om) = open_order_count om + n"
  "gateway (count_orders n om) = gateway om"
  "replies (count_orders n om) = replies om"
  "queue (count_orders n om) = queue om"
  "position_keeper (count_orders n om) = position_keeper om"
  "fill_sink (count_orders n om) = fill_sink om"
  "fill_deliveries (count_orders n om) = fill_deliveries om"
  "risk_manager (count_orders n om) = risk_manager om"
  by (simp_all add: call_defs)

lemma on_store_frame [simp]:
  "fst (on_store f om) = fst (f (order_store om))"
  "order_store (snd (on_store f om)) = snd (f (order_store om))"
  "id_mapper (snd (on_store f om)) = id_mapper om"
  "open_order_count (snd (on_store f om)) = open_order_count om"
  "gateway (snd (on_store f om)) = gateway om"
  "replies (snd (on_store f om)) = replies om"
  "queue (snd (on_store f om)) = queue om"
  "position_keeper (snd (on_store f om)) = position_keeper om"
  "fill_sink (snd (on_store f om)) = fill_sink om"
  "fill_deliveries (snd (on_store f om)) = fill_deliveries om"
  "risk_manager (snd (on_store f om)) = risk_manager om"
  by (simp_all add: call_defs split_beta Let_def)

lemma on_gateway_frame [simp]:
  "fst (on_gateway f om) = fst (f (gateway om))"
  "gateway (snd (on_gateway f om)) = snd (f (gateway om))"
  "order_store (snd (on_gateway f om)) = order_store om"
  "id_mapper (snd (on_gateway f om)) = id_mapper om"
  "open_order_count (snd (on_gateway f om)) = open_order_count om"
  "replies (snd (on_gateway f om)) = replies om"
  "queue (snd (on_gateway f om)) = queue om"
  "position_keeper (snd (on_gateway f om)) = position_keeper om"
  "fill_sink (snd (on_gateway f om)) = fill_sink om"
  "fill_deliveries (snd (on_gateway f om)) = fill_deliveries om"
  "risk_manager (snd (on_gateway f om)) = risk_manager om"
  by (simp_all add: call_defs split_beta Let_def)

lemma om_now_frame [simp]:
  "order_store (snd (om_now om)) = order_store om"
  "id_mapper (snd (om_now om)) = id_mapper om"
  "open_order_count (snd (om_now om)) = open_order_count om"
  "gateway (snd (om_now om)) = gateway om"
  "replies (snd (om_now om)) = replies om"
  "queue (snd (om_now om)) = queue om"
  "position_keeper (snd (om_now om)) = position_keeper om"
  "fill_sink (snd (om_now om)) = fill_sink om"
  "fill_deliveries (snd (om_now om)) = fill_deliveries om"
  "risk_manager (snd (om_now om)) = risk_manager om"
  by (simp_all add: call_defs split_beta Let_def)

lemma om_generate_frame [simp]:
  "order_store (snd (om_generate om)) = order_store om"
  "id_mapper (snd (om_generate om)) = id_mapper om"
  "open_order_count (snd (om_generate om)) = open_order_count om"
  "gateway (snd (om_generate om)) = gateway om"
  "replies (snd (om_generate om)) = replies om"
  "queue (snd (om_generate om)) = queue om"
  "position_keeper (snd (om_generate om)) = position_keeper om"
  "fill_sink (snd (om_generate om)) = fill_sink om"
  "fill_deliveries (snd (om_generate om)) = fill_deliveries om"
  "risk_manager (snd (om_generate om)) = risk_manager om"
  by (simp_all add: call_defs split_beta Let_def)

lemma log_failure_frame [simp]:
  "order_store (log_failure d l ro) = order_store (snd ro)"
  "id_mapper (log_failure d l ro) = id_mapper (snd ro)"
  "open_order_count (log_failure d l ro) = open_order_count (snd ro)"
  "gateway (log_failure d l ro) = gateway (snd ro)"
  "replies (log_failure d l ro) = replies (snd ro)"
  "queue (log_failure d l ro) = queue (snd ro)"
  "position_keeper (log_failure d l ro) = position_keeper (snd ro)"
  "fill_sink (log_failure d l ro) = fill_sink (snd ro)"
  "fill_deliveries (log_failure d l ro) = fill_deliveries (snd ro)"
  "risk_manager (log_failure d l ro) = risk_manager (snd ro)"
  by (simp_all add: log_failure_def split_beta split: sum.split)

lemma deliver_fill_frame [simp]:
  "order_store (deliver_fill r om) = order_store om"
  "id_mapper (deliver_fill r om) = id_mapper om"
  "open_order_count (deliver_fill r om) = open_order_count om"
  "gateway (deliver_fill r om) = gateway om"
  "replies (deliver_fill r om) = replies om"
  "queue (deliver_fill r om) = queue om"
  "position_keeper (deliver_fill r om) = position_keeper om"
  "fill_sink (deliver_fill r om) = fill_sink om"
  "risk_manager (deliver_fill r om) = risk_manager om"
  by (simp_all add: deliver_fill_def split: option.split)

lemma fst_case_bind: "(case x of (a, b) \<Rightarrow> f a b) = f (fst x) (snd x)"
  by (simp add: split_beta)

lemma new_stored_order_simps [simp]:
  "so_local_id (new_stored_order ord l b st c) = l"
  "so_filled_quantity (new_stored_order ord l b st c) = 0"
  "so_status (new_stored_order ord l b st c) = st"
  "so_broker_id (new_stored_order ord l b st c) = b"
  "so_order (new_stored_order ord l b st c) = ord"
  by (simp_all add: new_stored_order_def)

lemmas submit_defs =
  handle_submit_command_def submit_stored_def submit_accepted_def submit_rejected_def Let_def
  split_beta
lemmas cancel_defs = handle_cancel_command_def Let_def split_beta
lemmas replace_defs = handle_replace_command_def replace_accepted_def Let_def split_beta
lemmas cancel_all_defs = handle_cancel_all_command_def Let_def split_beta
lemmas fill_defs =
  handle_fill_def handle_terminal_report_def apply_fill_report_def Let_def split_beta
lemmas market_data_defs = handle_bar_def handle_tick_def

section \<open>The queue and the replies\<close>

lemma cancel_one_frame [simp]:
  "replies (cancel_one d so om) = replies om" "queue (cancel_one d so om) = queue om"
  "position_keeper (cancel_one d so om) = position_keeper om"
  "open_order_count (cancel_one d so om) = open_order_count om"
  by (simp_all add: cancel_one_def Let_def split_beta split: option.split sum.split)

lemma cancel_ones_frame [simp]:
  "replies (foldl (\<lambda>om so. cancel_one d so om) om sos) = replies om"
  "queue (foldl (\<lambda>om so. cancel_one d so om) om sos) = queue om"
  "position_keeper (foldl (\<lambda>om so. cancel_one d so om) om sos) = position_keeper om"
  "open_order_count (foldl (\<lambda>om so. cancel_one d so om) om sos) = open_order_count om"
  by (induction sos arbitrary: om) simp_all

text \<open>The promise an event carries.\<close>

fun promise_of :: "om_event \<Rightarrow> nat option" where
  "promise_of (Submit_command sig p) = Some p"
| "promise_of (Cancel_command sig p) = Some p"
| "promise_of (Replace_command sig p) = Some p"
| "promise_of (Cancel_all_command reason by p) = Some p"
| "promise_of _ = None"

lemma handle_event_replies:
  "map fst (replies (handle_event d ev om))
   = map fst (replies om) @ (case promise_of ev of None \<Rightarrow> [] | Some p \<Rightarrow> [p])"
proof (cases ev)
  case (Submit_command sig p)
  then show ?thesis by (simp add: submit_defs split: sum.split)
next
  case (Cancel_command sig p)
  then show ?thesis by (simp add: cancel_defs split: sum.split option.split)
next
  case (Replace_command sig p)
  then show ?thesis by (simp add: replace_defs split: sum.split option.split)
next
  case (Cancel_all_command reason who p)
  then show ?thesis by (simp add: cancel_all_defs)
next
  case (Fill_event r)
  then show ?thesis by (simp add: fill_defs split: sum.split option.split)
qed (simp_all add: market_data_defs split: option.split)

lemma handle_event_queue [simp]: "queue (handle_event d ev om) = queue om"
proof (cases ev)
  case (Submit_command sig p)
  then show ?thesis by (simp add: submit_defs split: sum.split)
next
  case (Cancel_command sig p)
  then show ?thesis by (simp add: cancel_defs split: sum.split option.split)
next
  case (Replace_command sig p)
  then show ?thesis by (simp add: replace_defs split: sum.split option.split)
next
  case (Cancel_all_command reason who p)
  then show ?thesis by (simp add: cancel_all_defs)
next
  case (Fill_event r)
  then show ?thesis by (simp add: fill_defs split: sum.split option.split)
qed (simp_all add: market_data_defs split: option.split)

section \<open>The invariant\<close>

text \<open>
  Every order of the mapper is stored, and either submitted with nothing filled, or partially filled
  with less than its quantity.
\<close>

definition live_view :: "order_view \<Rightarrow> bool" where
  "live_view v \<longleftrightarrow>
     ov_status v = SUBMITTED \<and> ov_filled v = 0
     \<or> ov_status v = PARTIALLY_FILLED \<and> ov_filled v < ord_quantity (ov_order v)"

definition live_ok :: "(string \<rightharpoonup> order_view) \<Rightarrow> order_id_mapper \<Rightarrow> bool" where
  "live_ok view m \<longleftrightarrow>
     (\<forall>l b. get_broker_id m l = Some b \<longrightarrow> (\<exists>v. view l = Some v \<and> live_view v))"

definition om_inv ::
  "('s \<Rightarrow> string \<Rightarrow> order_view option) \<Rightarrow> ('s \<Rightarrow> bool) \<Rightarrow> ('g, 's, 'j) order_manager \<Rightarrow> bool" where
  "om_inv look store_inv om \<longleftrightarrow>
     store_inv (order_store om) \<and> mapper_inv (id_mapper om)
     \<and> live_ok (look (order_store om)) (id_mapper om)
     \<and> int (live_count (id_mapper om)) \<le> open_order_count om"

lemma om_inv_frame:
  "order_store om' = order_store om \<Longrightarrow> id_mapper om' = id_mapper om \<Longrightarrow>
   open_order_count om' = open_order_count om \<Longrightarrow> om_inv look sinv om' = om_inv look sinv om"
  by (simp add: om_inv_def)

lemma live_ok_unmapped: "live_ok view m \<Longrightarrow> view l = None \<Longrightarrow> get_broker_id m l = None"
  by (auto simp: live_ok_def)

lemma live_ok_add:
  "live_ok view m \<Longrightarrow> view l = Some v \<Longrightarrow> live_view v \<Longrightarrow> live_ok view (add_mapping l b m)"
  by (simp add: live_ok_def)

lemma live_ok_other:
  "live_ok view m \<Longrightarrow> get_broker_id m l = None \<Longrightarrow> (\<And>l'. l' \<noteq> l \<Longrightarrow> view' l' = view l') \<Longrightarrow>
   live_ok view' m"
  unfolding live_ok_def by (metis option.distinct(1))

lemma live_ok_remove: "live_ok view m \<Longrightarrow> live_ok view (remove_mapping l m)"
  by (simp add: live_ok_def)

lemma live_ok_remove_other:
  "live_ok view m \<Longrightarrow> (\<And>l'. l' \<noteq> l \<Longrightarrow> view' l' = view l') \<Longrightarrow>
   live_ok view' (remove_mapping l m)"
  by (rule live_ok_other [OF live_ok_remove, of view m l l]) simp_all

lemma live_count_remove_le: "mapper_inv m \<Longrightarrow> live_count (remove_mapping l m) \<le> live_count m"
  by (cases "get_broker_id m l") (simp_all add: live_count_remove_none live_count_remove)

text \<open>Removing a mapping keeps the count an upper bound; removing one that exists makes room.\<close>

lemma removed_count:
  "mapper_inv m \<Longrightarrow> int (live_count m) \<le> n \<Longrightarrow> int (live_count (remove_mapping l m)) \<le> n"
  using live_count_remove_le [of m l] by linarith

lemma removed_count_mapped:
  "mapper_inv m \<Longrightarrow> get_broker_id m l = Some b \<Longrightarrow> int (live_count m) \<le> n \<Longrightarrow>
   int (live_count (remove_mapping l m)) \<le> n - 1"
  using live_count_remove [of m l b] by linarith

context order_store begin

abbreviation ok :: "('g, 's, 'j) order_manager \<Rightarrow> bool" where
  "ok \<equiv> om_inv look store_inv"

lemma ok_calls [simp]:
  "ok (om_log d ev s c om) = ok om" "ok (set_value p r om) = ok om"
  "ok (snd (om_now om)) = ok om" "ok (snd (om_generate om)) = ok om"
  "ok (snd (on_gateway f om)) = ok om" "ok (deliver_fill rep om) = ok om"
  "ok (log_failure d l ro) = ok (snd ro)" "ok (om\<lparr>position_keeper := pk\<rparr>) = ok om"
  by (simp_all add: om_inv_def)

lemma ok_insert:
  assumes "ok om"
  shows "ok (snd (on_store (st_store_order ops so) om))"
proof (cases "fst (st_store_order ops so (order_store om))")
  case (Inl e)
  then have "look (snd (st_store_order ops so (order_store om))) = look (order_store om)"
    by (metis prod.collapse store_err)
  with assms show ?thesis by (simp add: om_inv_def keeps)
next
  case (Inr u)
  then have "look (order_store om) (so_local_id so) = None"
    "look (snd (st_store_order ops so (order_store om)))
     = (look (order_store om))(so_local_id so \<mapsto> view_of so)"
    using assms store_ok [of "order_store om" so u] by (metis om_inv_def prod.collapse)+
  then show ?thesis
    using assms
    by (auto simp: om_inv_def keeps
        intro: live_ok_other [where l = "so_local_id so"] live_ok_unmapped)
qed

lemma insert_new:
  assumes "ok om" and "fst (st_store_order ops so (order_store om)) = Inr u"
  shows "get_broker_id (id_mapper om) (so_local_id so) = None"
    and "look (snd (st_store_order ops so (order_store om))) (so_local_id so) = Some (view_of so)"
proof -
  have "look (order_store om) (so_local_id so) = None"
    "look (snd (st_store_order ops so (order_store om)))
     = (look (order_store om))(so_local_id so \<mapsto> view_of so)"
    using assms store_ok [of "order_store om" so u] by (metis om_inv_def prod.collapse)+
  then show "get_broker_id (id_mapper om) (so_local_id so) = None"
    and "look (snd (st_store_order ops so (order_store om))) (so_local_id so) = Some (view_of so)"
    using assms(1) live_ok_unmapped by (auto simp: om_inv_def)
qed

lemma ok_submit_rejected:
  assumes "store_of deps = ops" and "ok om" and "get_broker_id (id_mapper om) l = None"
  shows "ok (submit_rejected deps l e p om)"
proof -
  have "live_ok (look (snd (st_update_order_status ops l REJECTED (order_store om)))) (id_mapper om)"
    using assms(2,3) by (auto simp: om_inv_def looks intro: live_ok_other [where l = l])
  with assms(2) show ?thesis
    by (simp add: submit_rejected_def Let_def om_inv_def keeps assms(1))
qed

lemma ok_submit_accepted:
  assumes "store_of deps = ops" and "ok om" and "get_broker_id (id_mapper om) l = None"
    and "look (order_store om) l = Some v" and "ov_filled v = 0"
  shows "ok (submit_accepted deps l b p om)"
proof -
  let ?s1 = "snd (st_update_order_status ops l SUBMITTED (order_store om))"
  let ?s2 = "snd (st_update_broker_id ops l b ?s1)"
  have live1: "live_ok (look ?s1) (id_mapper om)"
    using assms(2,3) by (auto simp: om_inv_def looks intro: live_ok_other [where l = l])
  have live2: "live_ok (look ?s2) (add_mapping l b (id_mapper om))"
    if "is_ok (fst (st_update_order_status ops l SUBMITTED (order_store om)))"
  proof -
    have "live_ok (look ?s2) (id_mapper om)"
      using live1 assms(3) by (rule live_ok_other) (simp add: looks)
    moreover have "\<exists>v'. look ?s2 l = Some v' \<and> live_view v'"
      using assms(4,5) that by (auto simp: looks live_view_def)
    ultimately show ?thesis by (auto intro: live_ok_add)
  qed
  show ?thesis
    using assms(2,3) live1 live2
    by (auto simp: submit_accepted_def Let_def split_beta om_inv_def keeps mapper_inv_add
        live_count_add assms(1) split: sum.split)
qed

lemma ok_submit_stored:
  assumes "store_of deps = ops" and "ok om" and "get_broker_id (id_mapper om) l = None"
    and "look (order_store om) l = Some v" and "ov_filled v = 0"
  shows "ok (submit_stored deps l ord p om)"
  using assms
  by (auto simp: submit_stored_def Let_def split_beta
      intro!: ok_submit_rejected ok_submit_accepted split: sum.split)

lemma ok_submit:
  assumes "store_of deps = ops" and "ok om"
  shows "ok (handle_submit_command deps sig p om)"
proof -
  have step: "ok (submit_stored deps l ord p (snd (on_store (st_store_order ops so) om')))"
    if "ok om'" and "fst (st_store_order ops so (order_store om')) = Inr u"
      and "so_filled_quantity so = 0" and "so_local_id so = l" for om' so l ord u
    using ok_submit_stored [OF assms(1) ok_insert [OF that(1)], where
        l = "so_local_id so" and v = "view_of so"]
      insert_new [OF that(1,2)] that(3,4)
    by (simp add: view_of_def)
  show ?thesis
    using assms(2)
    by (auto simp: handle_submit_command_def Let_def split_beta assms(1)
        intro!: step ok_insert split: sum.split)
qed

lemma ok_set_status_removed:
  assumes "ok om"
  shows "ok (snd (on_store (st_update_order_status ops l st) (set_mapper (remove_mapping l) om)))"
  using assms
  by (auto simp: om_inv_def keeps looks mapper_inv_remove removed_count
      intro: live_ok_remove_other)

lemma ok_removed_count:
  assumes "ok om" and "get_broker_id (id_mapper om) l = Some b"
  shows "ok (count_orders (- 1)
          (snd (on_store (st_update_order_status ops l st) (set_mapper (remove_mapping l) om))))"
  using assms removed_count_mapped [of "id_mapper om" l b]
  by (auto simp: om_inv_def keeps looks mapper_inv_remove intro: live_ok_remove_other)

lemma ok_cancel:
  assumes "store_of deps = ops" and "ok om"
  shows "ok (handle_cancel_command deps sig p om)"
  using assms(2)
  by (auto simp: handle_cancel_command_def Let_def split_beta assms(1)
      intro!: ok_set_status_removed ok_removed_count split: sum.split option.split)

lemma ok_add:
  assumes "ok (count_orders (- 1) om)" and "get_broker_id (id_mapper om) l = None"
    and "look (order_store om) l = Some v" and "live_view v"
  shows "ok (set_mapper (add_mapping l b) om)"
  using assms by (auto simp: om_inv_def mapper_inv_add live_count_add intro: live_ok_add)

lemma count_orders_commute:
  "ok (count_orders n (snd (on_store f om))) = ok (snd (on_store f (count_orders n om)))"
  "ok (count_orders n (snd (om_now om))) = ok (count_orders n om)"
  by (simp_all add: om_inv_def)

lemma ok_replace_accepted:
  assumes "store_of deps = ops" and "ok om" and "get_broker_id (id_mapper om) old_l = Some b"
  shows "ok (replace_accepted deps old_l new_l new_b new_ord p om)"
proof -
  let ?om1 = "snd (on_store (st_update_order_status ops old_l REPLACED)
      (set_mapper (remove_mapping old_l) om))"
  let ?om2 = "snd (om_now ?om1)"
  have om1: "ok ?om1"
    using assms(2) by (rule ok_set_status_removed)
  have om2: "ok ?om2" "ok (count_orders (- 1) ?om2)"
    using om1 ok_removed_count [OF assms(2,3), of REPLACED] by (simp_all add: count_orders_commute)
  have added: "ok (set_mapper (add_mapping new_l new_b) (snd (on_store (st_store_order ops so) ?om2)))"
    if "fst (st_store_order ops so (order_store ?om2)) = Inr u" and "so_local_id so = new_l"
      and "so_status so = SUBMITTED" and "so_filled_quantity so = 0" for so u
  proof (rule ok_add)
    show "ok (count_orders (- 1) (snd (on_store (st_store_order ops so) ?om2)))"
      using ok_insert [OF om2(2)] by (simp add: count_orders_commute)
    show "get_broker_id (id_mapper (snd (on_store (st_store_order ops so) ?om2))) new_l = None"
      using insert_new(1) [OF om2(1) that(1)] that(2) by simp
    show "look (order_store (snd (on_store (st_store_order ops so) ?om2))) new_l = Some (view_of so)"
      using insert_new(2) [OF om2(1) that(1)] that(2) by simp
    show "live_view (view_of so)"
      using that(3,4) by (simp add: live_view_def view_of_def)
  qed
  show ?thesis
    using om1 om2(1) ok_insert [OF om2(1)]
    by (auto simp: replace_accepted_def Let_def split_beta assms(1) intro!: added
        split: sum.split)
qed

lemma ok_replace:
  assumes "store_of deps = ops" and "ok om"
  shows "ok (handle_replace_command deps sig p om)"
  using assms(2)
  by (auto simp: handle_replace_command_def Let_def split_beta
      intro!: ok_replace_accepted [OF assms(1)] split: sum.split option.split)

lemma ok_cancel_one:
  assumes "store_of deps = ops" and "ok om"
  shows "ok (cancel_one deps so om)"
proof -
  let ?l = "so_local_id so"
  have fail: "ok (snd (on_store (st_update_order_status ops l st) om'))"
    if "ok om'" "fst (st_update_order_status ops l st (order_store om')) = Inl e" for om' l st e
    using that by (auto simp: om_inv_def keeps looks live_ok_def)
  have gone: "ok (set_mapper (remove_mapping l) (snd (on_store (st_update_order_status ops l st) om')))"
    if "ok om'" for om' l st
    using that
    by (auto simp: om_inv_def keeps looks mapper_inv_remove removed_count
        intro: live_ok_remove_other)
  show ?thesis
    using assms(2)
    by (auto simp: cancel_one_def Let_def split_beta assms(1) intro!: gone intro: fail
        split: sum.split option.split)
qed

lemma ok_open_orders: "ok om \<Longrightarrow> ok (snd (on_store (st_get_open_orders ops) om))"
  by (simp add: om_inv_def keeps looks)

lemma ok_cancel_all:
  assumes "store_of deps = ops" and "ok om"
  shows "ok (handle_cancel_all_command deps reason who p om)"
proof -
  have loop: "ok (foldl (\<lambda>om so. cancel_one deps so om) om' sos)" if "ok om'" for om' sos
    using that by (induction sos arbitrary: om') (simp_all add: ok_cancel_one [OF assms(1)])
  show ?thesis
    using assms(2)
    by (simp add: handle_cancel_all_command_def Let_def split_beta assms(1) loop ok_open_orders)
qed

lemma ok_terminal:
  assumes "store_of deps = ops" and "ok om"
  shows "ok (handle_terminal_report deps fill l om)"
  using assms(2)
  by (auto simp: handle_terminal_report_def Let_def assms(1) om_inv_def keeps looks
      mapper_inv_remove removed_count intro: live_ok_remove_other)

lemma ok_apply_fill:
  assumes "store_of deps = ops" and "ok om" and "get_broker_id (id_mapper om) l = Some b"
    and "look (order_store om) l = Some (view_of so)"
  shows "ok (apply_fill_report deps fill l so om)"
proof (cases "ord_quantity (so_order so) \<le> so_filled_quantity so + er_filled_quantity fill")
  case True
  with assms(2) removed_count_mapped [of "id_mapper om" l b] assms(3) show ?thesis
    by (auto simp: apply_fill_report_def Let_def assms(1) om_inv_def keeps looks
        mapper_inv_remove intro: live_ok_remove_other)
next
  case False
  let ?s = "snd (st_apply_fill ops l (er_filled_quantity fill) (er_avg_fill_price fill)
      PARTIALLY_FILLED (order_store om))"
  have "live_ok (look ?s) (id_mapper om)"
    using assms(2,4) False
    by (auto simp: live_ok_def om_inv_def looks live_view_def fill_view_def view_of_def)
  with assms(2) False show ?thesis
    by (simp add: apply_fill_report_def Let_def assms(1) om_inv_def keeps)
qed

lemma ok_fill:
  assumes "store_of deps = ops" and "ok om"
  shows "ok (handle_fill deps fill om)"
proof -
  have get: "ok (snd (on_store (st_get_order ops l) om))" for l
    using assms(2) by (simp add: om_inv_def keeps looks)
  have found: "look (snd (st_get_order ops l (order_store om))) l = Some (view_of so)"
    if "fst (st_get_order ops l (order_store om)) = Inr so" for l so
    using that get_ok [of l "order_store om" so] get_frame [of l "order_store om"]
    by (metis prod.collapse)
  have mapped: "get_broker_id (id_mapper om) l = Some (er_broker_order_id fill)"
    if "get_local_id (id_mapper om) (er_broker_order_id fill) = Some l" for l
    using assms(2) that by (simp add: om_inv_def get_local_id_live)
  show ?thesis
    using assms(2) get
    by (auto simp: handle_fill_def Let_def split_beta assms(1) found mapped
        intro!: ok_terminal ok_apply_fill [where b = "er_broker_order_id fill"]
        split: sum.split option.split)
qed

theorem ok_handle_event:
  assumes "store_of deps = ops" and "ok om"
  shows "ok (handle_event deps ev om)"
proof (cases ev)
  case (Bar_event b)
  with assms(2) show ?thesis by (simp add: handle_bar_def om_inv_def split: option.split)
next
  case (Tick_event t)
  with assms(2) show ?thesis by (simp add: handle_tick_def om_inv_def split: option.split)
qed (simp_all add: assms ok_submit ok_cancel ok_replace ok_cancel_all ok_fill)

end

section \<open>What each command achieves\<close>

text \<open>The order a signal is turned into, under its new id and at the clock's next reading.\<close>

definition submitted_order ::
  "strategy_signal \<Rightarrow> ('g, 's, 'j) order_manager \<Rightarrow> order" where
  "submitted_order sig om =
     (create_order_from_signal (sig_symbol sig) (sig_side sig) (sig_target_quantity sig)
        (sig_strategy_id sig) (om_account_id om) (fst (om_now (snd (om_generate om)))))
       \<lparr>ord_id := fst (om_generate om)\<rparr>"

lemma submitted_order_simps [simp]:
  "ord_id (submitted_order sig om) = fst (om_generate om)"
  "ord_symbol (submitted_order sig om) = sig_symbol sig"
  "ord_side (submitted_order sig om) = sig_side sig"
  "ord_quantity (submitted_order sig om) = sig_target_quantity sig"
  by (simp_all add: submitted_order_def create_order_from_signal_def)

lemma om_account_id_frame [simp]:
  "om_account_id (snd (om_now om)) = om_account_id om"
  "om_account_id (snd (om_generate om)) = om_account_id om"
  by (simp_all add: call_defs split_beta Let_def)

lemma handle_submit_alt:
  "handle_submit_command deps sig p om =
     (let l = fst (om_generate om); ord = submitted_order sig om;
          om1 = om_log deps ORDER_CREATED (debug_string deps ord) l
                  (snd (om_now (snd (om_generate om))));
          om2 = snd (om_now om1)
      in case timestamp_to_string (fst (om_now om1)) of
           Inl err \<Rightarrow>
             set_value p
               (Order_reply (Inl (mk_error
                  (err @ '' (timestamp conversion failure in submit command)'') FailedOrder))) om2
         | Inr created_at \<Rightarrow>
             let stored = new_stored_order ord l None PENDING_SUBMISSION created_at;
                 om3 = snd (on_store (st_store_order (store_of deps) stored) om2)
             in case fst (st_store_order (store_of deps) stored (order_store om)) of
                  Inl e \<Rightarrow>
                    set_value p (Order_reply (Inl e))
                      (om_log deps ERROR_OCCURRED (message e) l om3)
                | Inr _ \<Rightarrow> submit_stored deps l ord p om3)"
  by (simp add: handle_submit_command_def Let_def split_beta submitted_order_def
      create_order_from_signal_def split: sum.split)

context order_store begin

lemma submit_stored_outcome:
  assumes "store_of deps = ops" and "ok om" and "get_broker_id (id_mapper om) l = None"
    and "look (order_store om) l = Some v" and "ov_filled v = 0"
  shows "(\<exists>e. replies (submit_stored deps l ord p om) = replies om @ [(p, Order_reply (Inl e))]
            \<and> id_mapper (submit_stored deps l ord p om) = id_mapper om
            \<and> open_order_count (submit_stored deps l ord p om) = open_order_count om)
       \<or> (\<exists>b v'. replies (submit_stored deps l ord p om) = replies om @ [(p, Order_reply (Inr l))]
            \<and> fst (gw_submit_order (gateway_of deps) ord (gateway om)) = Inr b
            \<and> risk_check (risk_manager om) (ord_quantity ord) (word_of_int (open_order_count om))
                (get_total_pnl (position_keeper om)) = Inr ()
            \<and> id_mapper (submit_stored deps l ord p om) = add_mapping l b (id_mapper om)
            \<and> open_order_count (submit_stored deps l ord p om) = open_order_count om + 1
            \<and> look (order_store (submit_stored deps l ord p om)) l = Some v'
            \<and> ov_order v' = ov_order v \<and> ov_status v' = SUBMITTED \<and> ov_filled v' = 0)"
  using assms(4,5)
  by (auto simp: submit_stored_def submit_rejected_def submit_accepted_def Let_def split_beta
      assms(1) looks split: sum.split)

lemma submit_outcome:
  fixes om :: "('g, 's, 'j) order_manager" and sig :: strategy_signal and p :: nat
  assumes "store_of deps = ops" and "ok om"
  defines "om' \<equiv> handle_submit_command deps sig p om"
  shows "(\<exists>e. replies om' = replies om @ [(p, Order_reply (Inl e))]
            \<and> id_mapper om' = id_mapper om \<and> open_order_count om' = open_order_count om)
       \<or> (\<exists>b v. replies om' = replies om @ [(p, Order_reply (Inr (fst (om_generate om))))]
            \<and> fst (gw_submit_order (gateway_of deps) (submitted_order sig om) (gateway om)) = Inr b
            \<and> risk_check (risk_manager om) (sig_target_quantity sig)
                (word_of_int (open_order_count om)) (get_total_pnl (position_keeper om)) = Inr ()
            \<and> get_broker_id (id_mapper om) (fst (om_generate om)) = None
            \<and> id_mapper om' = add_mapping (fst (om_generate om)) b (id_mapper om)
            \<and> open_order_count om' = open_order_count om + 1
            \<and> look (order_store om') (fst (om_generate om)) = Some v
            \<and> ov_order v = submitted_order sig om \<and> ov_status v = SUBMITTED \<and> ov_filled v = 0)"
proof -
  let ?l = "fst (om_generate om)" and ?ord = "submitted_order sig om"
  define om1 where "om1 = om_log deps ORDER_CREATED (debug_string deps ?ord) ?l
                  (snd (om_now (snd (om_generate om))))"
  define om2 where "om2 = snd (om_now om1)"
  have om2: "ok om2" "replies om2 = replies om" "id_mapper om2 = id_mapper om"
    "open_order_count om2 = open_order_count om" "gateway om2 = gateway om"
    "risk_manager om2 = risk_manager om" "position_keeper om2 = position_keeper om"
    "order_store om2 = order_store om"
    using assms(2) by (simp_all add: om2_def om1_def)
  show ?thesis
  proof (cases "timestamp_to_string (fst (om_now om1))")
    case (Inl err)
    then show ?thesis
      using om2 by (simp add: om'_def handle_submit_alt Let_def flip: om1_def om2_def)
  next
    case (Inr t)
    let ?so = "new_stored_order ?ord ?l None PENDING_SUBMISSION t"
    let ?om3 = "snd (on_store (st_store_order ops ?so) om2)"
    show ?thesis
    proof (cases "fst (st_store_order ops ?so (order_store om2))")
      case (Inl e)
      with Inr om2 show ?thesis
        by (simp add: om'_def handle_submit_alt Let_def assms(1) flip: om1_def om2_def)
    next
      case (Inr u)
      have "om' = submit_stored deps ?l ?ord p ?om3"
        using \<open>timestamp_to_string (fst (om_now om1)) = Inr t\<close> Inr om2
        by (simp add: om'_def handle_submit_alt Let_def assms(1) flip: om1_def om2_def)
      moreover have "ok ?om3" using om2(1) by (rule ok_insert)
      moreover have "get_broker_id (id_mapper ?om3) ?l = None"
        "look (order_store ?om3) ?l = Some (view_of ?so)"
        using insert_new [OF om2(1) Inr] by simp_all
      moreover have "ov_filled (view_of ?so) = 0" "ov_order (view_of ?so) = ?ord"
        by (simp_all add: view_of_def)
      ultimately show ?thesis
        using submit_stored_outcome [OF assms(1), of ?om3 ?l "view_of ?so" ?ord p] om2
        by auto
    qed
  qed
qed

lemma cancel_outcome:
  fixes om :: "('g, 's, 'j) order_manager" and sig :: cancel_signal and p :: nat
  assumes "store_of deps = ops" and "get_broker_id (id_mapper om) (can_order_id sig) = Some b"
  defines "om' \<equiv> handle_cancel_command deps sig p om"
    and "l \<equiv> can_order_id sig"
  shows "(\<exists>e. fst (gw_cancel_order (gateway_of deps) b (gateway om)) = Inl e
            \<and> replies om' = replies om @ [(p, Unit_reply (Inl e))]
            \<and> id_mapper om' = id_mapper om \<and> open_order_count om' = open_order_count om
            \<and> order_store om' = order_store om)
       \<or> (id_mapper om' = remove_mapping l (id_mapper om)
            \<and> look (order_store om') l
              = map_option (\<lambda>v. v\<lparr>ov_status := OrderStatus.CANCELLED\<rparr>) (look (order_store om) l)
            \<and> replies om' = replies om @ [(p, Unit_reply (Inr ()))]
            \<and> open_order_count om' = open_order_count om - 1)
       \<or> (\<exists>e. id_mapper om' = remove_mapping l (id_mapper om)
            \<and> look (order_store om') = look (order_store om)
            \<and> replies om' = replies om @ [(p, Unit_reply (Inl e))]
            \<and> open_order_count om' = open_order_count om)"
  using assms(2)
  by (auto simp: om'_def l_def handle_cancel_command_def Let_def split_beta assms(1) looks
      fun_eq_iff split: sum.split)

lemma deliver_fill_deliveries [simp]:
  "fill_deliveries (deliver_fill r om)
   = fill_deliveries om @ (case fill_sink om of None \<Rightarrow> [] | Some k \<Rightarrow> [(k, r)])"
  by (simp add: deliver_fill_def split: option.split)

text \<open>A report on a mapped order: one that ends it, one whose order cannot be read, and a fill.\<close>

lemma terminal_outcome:
  assumes "store_of deps = ops"
    and "st = (if er_status r = V1_REJECTED then REJECTED else OrderStatus.CANCELLED)"
    and "om' = handle_terminal_report deps r l om"
  shows "look (order_store om')
      = (if is_ok (fst (st_update_order_status ops l st (order_store om)))
         then on_key (\<lambda>v. v\<lparr>ov_status := st\<rparr>) l (look (order_store om)) else look (order_store om))
    \<and> id_mapper om' = remove_mapping l (id_mapper om)
    \<and> position_keeper om' = position_keeper om \<and> open_order_count om' = open_order_count om
    \<and> fill_deliveries om' = fill_deliveries om @ (case fill_sink om of None \<Rightarrow> [] | Some k \<Rightarrow> [(k, r)])"
  by (auto simp: assms handle_terminal_report_def Let_def looks fun_eq_iff)

lemma fill_outcome:
  assumes "store_of deps = ops" and "store_inv (order_store om)" and "look (order_store om) l = Some (view_of so)"
    and "full \<longleftrightarrow> ord_quantity (so_order so) \<le> so_filled_quantity so + er_filled_quantity r"
    and "st = (if full then OrderStatus.FILLED else PARTIALLY_FILLED)"
    and "om' = apply_fill_report deps r l so om"
  shows "look (order_store om')
      = (if is_ok (fst (st_apply_fill ops l (er_filled_quantity r) (er_avg_fill_price r) st (order_store om)))
         then (look (order_store om))(l \<mapsto> fill_view (er_filled_quantity r) (er_avg_fill_price r) st (view_of so))
         else look (order_store om))
    \<and> position_keeper om' = on_fill (er_symbol r) (er_filled_quantity r) (er_avg_fill_price r) (er_side r)
        (position_keeper om)
    \<and> id_mapper om' = (if full then remove_mapping l (id_mapper om) else id_mapper om)
    \<and> open_order_count om' = open_order_count om - (if full then 1 else 0)
    \<and> fill_deliveries om' = fill_deliveries om @ (case fill_sink om of None \<Rightarrow> [] | Some k \<Rightarrow> [(k, r)])"
  using assms(1-5)
  by (cases full) (simp_all add: assms(6) apply_fill_report_def Let_def looks fun_eq_iff)

text \<open>
  A replacement has four outcomes: unknown order or refusal by the gateway (nothing registered
  changes), success, and a failure after the gateway has accepted.
\<close>

lemma fill_touches:
  assumes "store_of deps = ops" and "ok om"
    and "get_local_id (id_mapper om) (er_broker_order_id r) = Some l"
    and "look (order_store (handle_fill deps r om)) l' = Some v'"
  shows "\<exists>v. look (order_store om) l' = Some v \<and> ov_broker_id v' = ov_broker_id v \<and> (l' = l \<or> v' = v)"
  using assms(4,3) assms(2)
  by (auto simp: fill_defs assms(1) looks keeps om_inv_def fill_view_def
      split: sum.splits if_splits)

lemma replace_outcome:
  fixes om :: "('g, 's, 'j) order_manager" and new_l new_b :: string and new_ord :: order
    and p :: nat
  assumes "store_of deps = ops" and "ok om" and "get_broker_id (id_mapper om) old_l = Some b"
  defines "om' \<equiv> replace_accepted deps old_l new_l new_b new_ord p om"
  shows "(replies om' = replies om @ [(p, Order_reply (Inr new_l))]
            \<and> get_broker_id (remove_mapping old_l (id_mapper om)) new_l = None
            \<and> id_mapper om' = add_mapping new_l new_b (remove_mapping old_l (id_mapper om))
            \<and> (\<exists>v. look (order_store om') new_l = Some v \<and> ov_order v = new_ord
                 \<and> ov_status v = SUBMITTED \<and> ov_broker_id v = Some new_b)
            \<and> (old_l \<noteq> new_l \<longrightarrow> look (order_store om') old_l
                = map_option (\<lambda>v. v\<lparr>ov_status := REPLACED\<rparr>) (look (order_store om) old_l)))
       \<or> (\<exists>e. replies om' = replies om @ [(p, Order_reply (Inl e))]
            \<and> id_mapper om' = remove_mapping old_l (id_mapper om))"
proof -
  let ?m = "remove_mapping old_l (id_mapper om)"
  define om1 where "om1 = snd (on_store (st_update_order_status ops old_l REPLACED)
      (set_mapper (remove_mapping old_l) om))"
  define om2 where "om2 = snd (om_now om1)"
  have om2: "ok om2" "replies om2 = replies om" "id_mapper om2 = ?m"
    "order_store om2 = snd (st_update_order_status ops old_l REPLACED (order_store om))"
    using ok_set_status_removed [OF assms(2)] by (simp_all add: om2_def om1_def)
  show ?thesis
  proof (cases "fst (st_update_order_status ops old_l REPLACED (order_store om))")
    case (Inl e)
    then show ?thesis
      by (simp add: om'_def replace_accepted_def Let_def split_beta assms(1))
  next
    case (Inr u)
    note updated = Inr
    show ?thesis
    proof (cases "timestamp_to_string (fst (om_now om1))")
      case (Inl err)
      with updated om2(2,3) show ?thesis
        by (simp add: om'_def replace_accepted_def Let_def split_beta assms(1)
            flip: om1_def om2_def)
    next
      case (Inr t)
      let ?so = "new_stored_order new_ord new_l (Some new_b) SUBMITTED t"
      show ?thesis
      proof (cases "fst (st_store_order ops ?so (order_store om2))")
        case (Inl e)
        with updated Inr om2(2,3) show ?thesis
          by (simp add: om'_def replace_accepted_def Let_def split_beta assms(1)
              flip: om1_def om2_def)
      next
        case (Inr w)
        have "look (order_store om2) old_l
            = map_option (\<lambda>v. v\<lparr>ov_status := REPLACED\<rparr>) (look (order_store om) old_l)"
          using updated by (simp add: om2(4) looks)
        with updated \<open>timestamp_to_string (fst (om_now om1)) = Inr t\<close> Inr
          insert_new [OF om2(1) Inr] om2(1-3)
        show ?thesis
          by (simp add: om'_def replace_accepted_def Let_def split_beta assms(1) looks view_of_def
              om_inv_def flip: om1_def om2_def)
      qed
    qed
  qed
qed

end

section \<open>The kill switch on a store that does not fail\<close>

text \<open>What the kill switch does to a stored order: one that is open at the broker is cancelled.\<close>

definition at_broker :: "order_view \<Rightarrow> bool" where
  "at_broker v \<longleftrightarrow> ov_status v \<in> set open_statuses \<and> ov_broker_id v \<noteq> None"

definition switched_off :: "order_view \<Rightarrow> order_view" where
  "switched_off v = (if at_broker v then v\<lparr>ov_status := OrderStatus.CANCELLED\<rparr> else v)"

definition cancels_succeed :: "'g gateway_ops \<Rightarrow> bool" where
  "cancels_succeed gops \<longleftrightarrow> (\<forall>b g. is_ok (fst (gw_cancel_order gops b g)))"

text \<open>States of the gateway, closed under its calls, in which every cancel succeeds.\<close>

definition cancels_from :: "('g \<Rightarrow> bool) \<Rightarrow> 'g gateway_ops \<Rightarrow> bool" where
  "cancels_from G gops \<longleftrightarrow>
     (\<forall>b g. G g \<longrightarrow> is_ok (fst (gw_cancel_order gops b g)) \<and> G (snd (gw_cancel_order gops b g)))
   \<and> (\<forall>ord g. G g \<longrightarrow> G (snd (gw_submit_order gops ord g)))
   \<and> (\<forall>b ord g. G g \<longrightarrow> G (snd (gw_replace_order gops b ord g)))"

lemma cancels_from_all: "cancels_succeed gops \<Longrightarrow> cancels_from (\<lambda>_. True) gops"
  by (simp add: cancels_succeed_def cancels_from_def)

definition with_broker :: "stored_order list \<Rightarrow> string set" where
  "with_broker sos = {so_local_id so | so. so \<in> set sos \<and> so_broker_id so \<noteq> None}"

lemma with_broker_simps:
  "with_broker [] = {}"
  "with_broker (so # sos)
   = (if so_broker_id so \<noteq> None then insert (so_local_id so) (with_broker sos) else with_broker sos)"
  by (auto simp: with_broker_def)

text \<open>
  What the loop asks of the gateway: one cancel for each open order that has a broker id, whether the
  calls before it succeeded or not.
\<close>

definition cancel_calls :: "('g, 's, 'j) deps \<Rightarrow> BrokerOrderId list \<Rightarrow> 'g \<Rightarrow> 'g" where
  "cancel_calls d bs g = foldl (\<lambda>g b. snd (gw_cancel_order (gateway_of d) b g)) g bs"

definition broker_ids :: "stored_order list \<Rightarrow> BrokerOrderId list" where
  "broker_ids sos = concat (map (\<lambda>so. case so_broker_id so of None \<Rightarrow> [] | Some b \<Rightarrow> [b]) sos)"

lemma cancel_calls_simps [simp]:
  "cancel_calls d [] g = g"
  "cancel_calls d (b # bs) g = cancel_calls d bs (snd (gw_cancel_order (gateway_of d) b g))"
  by (simp_all add: cancel_calls_def)

lemma broker_ids_simps [simp]:
  "broker_ids [] = []"
  "so_broker_id so = None \<Longrightarrow> broker_ids (so # sos) = broker_ids sos"
  "so_broker_id so = Some b \<Longrightarrow> broker_ids (so # sos) = b # broker_ids sos"
  by (simp_all add: broker_ids_def)

lemma set_broker_ids: "b \<in> set (broker_ids sos) \<longleftrightarrow> (\<exists>so \<in> set sos. so_broker_id so = Some b)"
proof
  assume "\<exists>so \<in> set sos. so_broker_id so = Some b"
  then obtain so where "so \<in> set sos" "so_broker_id so = Some b" by blast
  then show "b \<in> set (broker_ids sos)" by (force simp: broker_ids_def)
qed (auto simp: broker_ids_def split: option.splits)

lemma cancel_ones_calls:
  "gateway (foldl (\<lambda>om so. cancel_one d so om) om sos) = cancel_calls d (broker_ids sos) (gateway om)"
proof (induction sos arbitrary: om)
  case Nil
  then show ?case by simp
next
  case (Cons so sos)
  have "gateway (cancel_one d so om) = (case so_broker_id so of None \<Rightarrow> gateway om
      | Some b \<Rightarrow> snd (gw_cancel_order (gateway_of d) b (gateway om)))"
    by (simp add: cancel_one_def Let_def split_beta split: option.split sum.split)
  with Cons.IH show ?case by (cases "so_broker_id so") simp_all
qed

lemma cancel_all_calls:
  "gateway (handle_cancel_all_command d reason who p om)
   = cancel_calls d (broker_ids (fst (st_get_open_orders (store_of d) (order_store om)))) (gateway om)"
  by (simp add: handle_cancel_all_command_def Let_def split_beta cancel_ones_calls)

context reliable_store begin

lemma cancel_one_effect:
  assumes "store_of deps = ops" and "cancels_from G (gateway_of deps)"
    and "healthy (order_store om)" and "G (gateway om)"
  shows "G (gateway (cancel_one deps so om)) \<and> healthy (order_store (cancel_one deps so om))
    \<and> look (order_store (cancel_one deps so om)) l
      = (if l \<in> with_broker [so]
         then map_option (\<lambda>v. v\<lparr>ov_status := OrderStatus.CANCELLED\<rparr>) (look (order_store om) l)
         else look (order_store om) l)
    \<and> get_broker_id (id_mapper (cancel_one deps so om)) l
      = (if l \<in> with_broker [so] then None else get_broker_id (id_mapper om) l)"
proof (cases "so_broker_id so")
  case None
  with assms(3,4) show ?thesis by (simp add: cancel_one_def with_broker_simps)
next
  case (Some b)
  obtain u where g: "fst (gw_cancel_order (gateway_of deps) b (gateway om)) = Inr u"
    using assms(2,4) by (fastforce simp: cancels_from_def is_ok_iff)
  have keep: "G (snd (gw_cancel_order (gateway_of deps) b (gateway om)))"
    using assms(2,4) by (auto simp: cancels_from_def)
  obtain w where s: "fst (st_update_order_status ops (so_local_id so) OrderStatus.CANCELLED
      (order_store om)) = Inr w"
    using healthy_status_ok [OF assms(3)] by (auto simp: is_ok_iff)
  show ?thesis
    using assms(3) healthy_status [OF assms(3)] g s keep
    by (simp add: cancel_one_def Some Let_def split_beta assms(1) looks with_broker_simps)
qed

lemma cancel_ones_effect:
  assumes "store_of deps = ops" and "cancels_from G (gateway_of deps)"
  shows "healthy (order_store om) \<Longrightarrow> G (gateway om) \<Longrightarrow>
    G (gateway (foldl (\<lambda>om so. cancel_one deps so om) om sos))
    \<and> healthy (order_store (foldl (\<lambda>om so. cancel_one deps so om) om sos))
    \<and> look (order_store (foldl (\<lambda>om so. cancel_one deps so om) om sos)) l
      = (if l \<in> with_broker sos
         then map_option (\<lambda>v. v\<lparr>ov_status := OrderStatus.CANCELLED\<rparr>) (look (order_store om) l)
         else look (order_store om) l)
    \<and> get_broker_id (id_mapper (foldl (\<lambda>om so. cancel_one deps so om) om sos)) l
      = (if l \<in> with_broker sos then None else get_broker_id (id_mapper om) l)"
proof (induction sos arbitrary: om)
  case Nil
  then show ?case by (simp add: with_broker_simps)
next
  case (Cons so sos)
  note one = cancel_one_effect [OF assms Cons.prems, of so l]
  show ?case
    using one Cons.IH [of "cancel_one deps so om"]
    by (cases "look (order_store om) l") (auto simp: with_broker_simps)
qed

lemma open_with_broker:
  assumes "store_inv s" and "healthy s"
  shows "l \<in> with_broker (fst (st_get_open_orders ops s))
    \<longleftrightarrow> (\<exists>v. look s l = Some v \<and> at_broker v)"
proof
  assume "l \<in> with_broker (fst (st_get_open_orders ops s))"
  then obtain so where "so \<in> set (fst (st_get_open_orders ops s))" "so_local_id so = l"
    "so_broker_id so \<noteq> None"
    by (auto simp: with_broker_def)
  with open_ok [OF assms(1), of so] show "\<exists>v. look s l = Some v \<and> at_broker v"
    by (auto simp: at_broker_def view_of_def)
next
  assume "\<exists>v. look s l = Some v \<and> at_broker v"
  then obtain v where v: "look s l = Some v" "at_broker v" by blast
  with open_complete [OF assms] obtain so where "so \<in> set (fst (st_get_open_orders ops s))"
    "so_local_id so = l"
    by (auto simp: at_broker_def)
  with open_ok [OF assms(1), of so] v show "l \<in> with_broker (fst (st_get_open_orders ops s))"
    by (auto simp: with_broker_def at_broker_def view_of_def)
qed

lemma cancel_all_effect:
  assumes "store_of deps = ops" and "cancels_from G (gateway_of deps)"
    and "store_inv (order_store om)" and "healthy (order_store om)" and "G (gateway om)"
  shows "look (order_store (handle_cancel_all_command deps reason who p om)) l
      = map_option switched_off (look (order_store om) l)"
    and "get_broker_id (id_mapper (handle_cancel_all_command deps reason who p om)) l
      = (if (\<exists>v. look (order_store om) l = Some v \<and> at_broker v) then None
         else get_broker_id (id_mapper om) l)"
    and "G (gateway (handle_cancel_all_command deps reason who p om))
       \<and> healthy (order_store (handle_cancel_all_command deps reason who p om))"
proof -
  define om1 where "om1 = snd (on_store (st_get_open_orders ops) (om_log deps KILL_SWITCH_ACTIVATED
      (''Kill switch activated by: '' @ who @ ''. Reason: '' @ reason) '''' om))"
  let ?sos = "fst (st_get_open_orders ops (order_store om))"
  have h: "healthy (order_store om1)" "G (gateway om1)"
    using healthy_open [OF assms(4)] assms(5) by (simp_all add: om1_def)
  have same: "look (order_store om1) = look (order_store om)" "id_mapper om1 = id_mapper om"
    by (simp_all add: om1_def looks)
  have final: "handle_cancel_all_command deps reason who p om
      = set_value p Done_reply (foldl (\<lambda>om so. cancel_one deps so om) om1 ?sos)"
    by (simp add: handle_cancel_all_command_def Let_def split_beta assms(1) om1_def)
  note loop = cancel_ones_effect [OF assms(1,2) h, of ?sos l] open_with_broker [OF assms(3,4), of l]
  show "look (order_store (handle_cancel_all_command deps reason who p om)) l
      = map_option switched_off (look (order_store om) l)"
    unfolding final using loop
    by (cases "look (order_store om) l") (auto simp: same switched_off_def)
  show "get_broker_id (id_mapper (handle_cancel_all_command deps reason who p om)) l
      = (if (\<exists>v. look (order_store om) l = Some v \<and> at_broker v) then None
         else get_broker_id (id_mapper om) l)"
    unfolding final using loop by (auto simp: same)
  show "G (gateway (handle_cancel_all_command deps reason who p om))
       \<and> healthy (order_store (handle_cancel_all_command deps reason who p om))"
    unfolding final using loop by simp
qed

text \<open>Every handler keeps the store and the gateway in such states.\<close>

lemmas healthys =
  healthy_status healthy_open healthy_store healthy_broker healthy_fill healthy_get

lemma steady_handle_event:
  assumes "store_of deps = ops" and "cancels_from G (gateway_of deps)"
    and "healthy (order_store om)" and "G (gateway om)"
  shows "healthy (order_store (handle_event deps ev om)) \<and> G (gateway (handle_event deps ev om))"
proof (cases ev)
  case (Submit_command sig p)
  then show ?thesis
    using assms by (simp add: submit_defs healthys cancels_from_def split: sum.split)
next
  case (Cancel_command sig p)
  then show ?thesis
    using assms by (simp add: cancel_defs healthys cancels_from_def split: sum.split option.split)
next
  case (Replace_command sig p)
  then show ?thesis
    using assms by (simp add: replace_defs healthys cancels_from_def split: sum.split option.split)
next
  case (Cancel_all_command reason who p)
  have "healthy (order_store (snd (on_store (st_get_open_orders ops)
      (om_log deps KILL_SWITCH_ACTIVATED c '''' om))))" for c
    using assms(3) by (simp add: healthys)
  from cancel_ones_effect [OF assms(1,2) this] Cancel_all_command assms(1,4) show ?thesis
    by (simp add: handle_cancel_all_command_def Let_def split_beta)
next
  case (Fill_event r)
  then show ?thesis
    using assms by (simp add: fill_defs healthys split: sum.split option.split)
qed (use assms in \<open>simp_all add: market_data_defs split: option.split\<close>)

end

end
