(* ===== verification/OrderManagerProps.thy ===== *)
theory OrderManagerProps
  imports OrderManagerFacts SqliteJournal
begin

text \<open>
  The properties of the order manager. The first group holds for any gateway, store and journal. The
  second is about an order manager on the SQLite store: the lemmas proved in the locale
  \<open>order_store\<close> are used through its interpretation \<open>sq\<close>.
\<close>

section \<open>The queue in front of the dispatch thread\<close>

lemma queue_enqueue:
  "queue (om_enqueue ev om)
   = eq.enqueue_bounded is_market_data MAX_MARKETDATA_QUEUE_DEPTH (queue om) ev"
  by (simp add: om_enqueue_def eq.enqueue_bounded_def)

lemma queue_enqueue_all:
  "queue (foldl (\<lambda>om ev. om_enqueue ev om) om evs)
   = foldl (eq.enqueue_bounded is_market_data MAX_MARKETDATA_QUEUE_DEPTH) (queue om) evs"
  by (induction evs arbitrary: om) (simp_all add: queue_enqueue)

text \<open>
  C36. Whatever producers enqueue, no execution report and no command is ever dropped or reordered,
  while the market data waiting in the queue never exceeds 8192 events.
\<close>

theorem enqueue_never_drops_orders:
  assumes "length (filter is_market_data (q_items (queue om))) \<le> 8192"
  shows "filter (\<lambda>ev. \<not> is_market_data ev)
           (q_items (queue (foldl (\<lambda>om ev. om_enqueue ev om) om evs)))
         = filter (\<lambda>ev. \<not> is_market_data ev) (q_items (queue om) @ evs)
       \<and> length (filter is_market_data
           (q_items (queue (foldl (\<lambda>om ev. om_enqueue ev om) om evs)))) \<le> 8192"
  using eq.enqueue_all_keeps [of is_market_data MAX_MARKETDATA_QUEUE_DEPTH "queue om" evs]
    eq.enqueue_all_bounds [of is_market_data "queue om" MAX_MARKETDATA_QUEUE_DEPTH evs] assms
  by (simp add: queue_enqueue_all MAX_MARKETDATA_QUEUE_DEPTH_def)

text \<open>A small gateway and journal to run the handlers on: it accepts with a running number.\<close>

definition counting_gateway :: "nat gateway_ops" where
  "counting_gateway =
     \<lparr>gw_submit_order = (\<lambda>ord g. (Inr (''B'' @ decimal g), g + 1)),
      gw_cancel_order = (\<lambda>b g. (Inr (), g)),
      gw_replace_order = (\<lambda>b ord g. (Inr (''B'' @ decimal g), g + 1)),
      gw_start = id, gw_stop = (\<lambda>g. ([], g))\<rparr>"

definition sample_deps :: "(nat, sqlite_store, sqlite_journal) deps" where
  "sample_deps =
     \<lparr>gateway_of = counting_gateway, store_of = sqlite_store_ops, journal_of = sqlite_journal_ops,
      debug_string = (\<lambda>ord. ''''), fmt_double = (\<lambda>x. '''')\<rparr>"

definition sample_clock :: clock where
  "sample_clock = \<lparr>readings = (\<lambda>_. 0), reads = 0\<rparr>"

definition sample_om :: "(nat, sqlite_store, sqlite_journal) order_manager" where
  "sample_om =
     create_order_manager sample_deps ''ACC'' [] 0
       (open_journal sample_clock (\<lambda>_. False) (\<lambda>_. False))
       (open_store (\<lambda>_. None) (\<lambda>_. '''')) no_limits sample_clock"

lemma sample_deps_simps [simp]:
  "gateway_of sample_deps = counting_gateway" "store_of sample_deps = sqlite_store_ops"
  "journal_of sample_deps = sqlite_journal_ops" "fmt_double sample_deps x = ''''"
  by (simp_all add: sample_deps_def)

lemma counting_gateway_simps [simp]:
  "gw_submit_order counting_gateway ord g = (Inr (''B'' @ decimal g), g + 1)"
  "gw_cancel_order counting_gateway b g = (Inr (), g)"
  "gw_replace_order counting_gateway b ord g = (Inr (''B'' @ decimal g), g + 1)"
  "gw_start counting_gateway g = g"
  by (simp_all add: counting_gateway_def)

lemma sample_om_simps [simp]:
  "queue sample_om = empty_queue" "id_mapper sample_om = empty_mapper"
  "open_order_count sample_om = 0" "position_keeper sample_om = []"
  "order_store sample_om = open_store (\<lambda>_. None) (\<lambda>_. '''')" "gateway sample_om = 0"
  "replies sample_om = []" "risk_manager sample_om = no_limits"
  by (simp_all add: sample_om_def create_order_manager_def)

theorem enqueue_never_drops_orders_witness:
  "filter (\<lambda>ev. \<not> is_market_data ev)
     (q_items (queue (foldl (\<lambda>om ev. om_enqueue ev om) sample_om [Fill_event empty_report])))
   = [Fill_event empty_report]"
  using enqueue_never_drops_orders [of sample_om "[Fill_event empty_report]"]
  by (simp add: empty_queue_def)

section \<open>The dispatch loop\<close>

lemma q_pop_Cons:
  "q_items q = e # es \<Longrightarrow> q_pop st q = Popped e (q\<lparr>q_items := es\<rparr>)"
  by (simp add: q_pop_def)

lemma loop_replies:
  "q_items (queue om) = evs \<Longrightarrow>
   q_items (queue (run_dispatch_loop (length evs) d om)) = []
   \<and> map fst (replies (run_dispatch_loop (length evs) d om))
     = map fst (replies om) @ concat (map (\<lambda>ev. case promise_of ev of None \<Rightarrow> [] | Some p \<Rightarrow> [p]) evs)
   \<and> total_processed (queue (run_dispatch_loop (length evs) d om))
     = total_processed (queue om) + of_nat (length evs)
   \<and> total_pushed (queue (run_dispatch_loop (length evs) d om)) = total_pushed (queue om)"
proof (induction evs arbitrary: om)
  case Nil
  then show ?case by simp
next
  case (Cons ev evs)
  let ?om = "handle_event d ev (om\<lparr>queue := (queue om)\<lparr>q_items := evs\<rparr>\<rparr>)"
  let ?om' = "?om\<lparr>queue := q_mark_processed (queue ?om)\<rparr>"
  have "q_items (queue ?om') = evs"
    by (simp add: q_mark_processed_def)
  note IH = Cons.IH [OF this]
  have "run_dispatch_loop (length (ev # evs)) d om = run_dispatch_loop (length evs) d ?om'"
    using Cons.prems by (simp add: q_pop_Cons Let_def)
  with IH show ?case
    by (simp add: q_mark_processed_def handle_event_replies)
qed

text \<open>
  C12. At shutdown the dispatch loop empties the queue: every queued command gets exactly one reply,
  in the order the commands were queued, no promise is left broken, and the loop counts every event
  as processed.
\<close>

theorem dispatch_loop_answers_all:
  "q_items (queue (run_dispatch_loop (q_size (queue om)) d om)) = []
   \<and> map fst (replies (run_dispatch_loop (q_size (queue om)) d om))
     = map fst (replies om)
       @ concat (map (\<lambda>ev. case promise_of ev of None \<Rightarrow> [] | Some p \<Rightarrow> [p]) (q_items (queue om)))
   \<and> total_processed (queue (run_dispatch_loop (q_size (queue om)) d om))
     = total_processed (queue om) + of_nat (q_size (queue om))"
  using loop_replies [OF refl, of om d] by (simp add: q_size_def)

section \<open>Risk rejections\<close>

text \<open>
  A signal that fails the risk check never reaches the broker: whatever the store and the journal
  do, the gateway is not called, the order is not registered as open, and the caller gets an error.
\<close>

theorem risk_rejection_stops_order:
  assumes "risk_check (risk_manager om) (sig_target_quantity sig)
             (word_of_int (open_order_count om)) (get_total_pnl (position_keeper om)) = Inl e"
  shows "gateway (handle_submit_command d sig p om) = gateway om
       \<and> id_mapper (handle_submit_command d sig p om) = id_mapper om
       \<and> open_order_count (handle_submit_command d sig p om) = open_order_count om
       \<and> (\<exists>e'. replies (handle_submit_command d sig p om)
               = replies om @ [(p, Order_reply (Inl e'))])"
  using assms
  by (simp add: submit_defs create_order_from_signal_def split: sum.split)

theorem risk_rejection_stops_order_witness:
  "gateway (handle_submit_command sample_deps
      \<lparr>sig_strategy_id = ''S1'', sig_symbol = ''AAPL'', sig_side = BUY,
       sig_target_quantity = 500, sig_generated_at = ''''\<rparr> 7
      (sample_om\<lparr>risk_manager := \<lparr>max_quantity = 100, max_open_orders = 0, daily_pnl_limit = 0\<rparr>\<rparr>))
   = 0"
  using risk_rejection_stops_order
    [of "sample_om\<lparr>risk_manager := \<lparr>max_quantity = 100, max_open_orders = 0, daily_pnl_limit = 0\<rparr>\<rparr>"
        "\<lparr>sig_strategy_id = ''S1'', sig_symbol = ''AAPL'', sig_side = BUY,
          sig_target_quantity = 500, sig_generated_at = ''''\<rparr>" _ sample_deps 7]
  by (auto simp: risk_check_def)

section \<open>Positions\<close>

text \<open>
  The fill a report books, when it does: the broker id is known, the status is not one of the two
  terminal ones, and the order is found in the store.
\<close>

fun booked_fill ::
  "('g, 's, 'j) deps \<Rightarrow> om_event \<Rightarrow> ('g, 's, 'j) order_manager \<Rightarrow> fill list" where
  "booked_fill d (Fill_event r) om =
     (case get_local_id (id_mapper om) (er_broker_order_id r) of
        None \<Rightarrow> []
      | Some l \<Rightarrow>
          if er_status r = V1_REJECTED \<or> er_status r = V1_CANCELLED then []
          else (case fst (st_get_order (store_of d) l (order_store om)) of
                  Inl e \<Rightarrow> []
                | Inr so \<Rightarrow>
                    [(er_symbol r, er_filled_quantity r, er_avg_fill_price r, er_side r)]))"
| "booked_fill d _ om = []"

primrec run_events ::
  "('g, 's, 'j) deps \<Rightarrow> om_event list \<Rightarrow> ('g, 's, 'j) order_manager
   \<Rightarrow> fill list \<times> ('g, 's, 'j) order_manager" where
  "run_events d [] om = ([], om)"
| "run_events d (ev # evs) om =
     (let (fs, om') = run_events d evs (handle_event d ev om) in (booked_fill d ev om @ fs, om'))"

lemma handle_event_positions:
  "position_keeper (handle_event d ev om) = on_fills (booked_fill d ev om) (position_keeper om)"
proof (cases ev)
  case (Submit_command sig p)
  then show ?thesis by (simp add: submit_defs split: sum.split)
next
  case (Cancel_command sig p)
  then show ?thesis by (simp add: cancel_defs split: sum.split option.split)
next
  case (Replace_command sig p)
  then show ?thesis by (simp add: replace_defs split: sum.split option.split)
next
  case (Cancel_all_command reason who p)
  then show ?thesis by (simp add: cancel_all_defs)
next
  case (Fill_event r)
  then show ?thesis by (simp add: fill_defs split: sum.split option.split)
qed (simp_all add: market_data_defs split: option.split)

lemma on_fills_append: "on_fills (fs @ gs) pk = on_fills gs (on_fills fs pk)"
  by (simp add: on_fills_def)

lemma run_events_positions:
  "position_keeper (snd (run_events d evs om))
   = on_fills (fst (run_events d evs om)) (position_keeper om)"
  by (induction evs arbitrary: om)
    (simp_all add: Let_def split_beta handle_event_positions on_fills_append)

text \<open>
  C13. The position of a symbol is exactly what was filled: after any sequence of events it has
  changed by the signed sum of the booked fills, and an event that books none leaves it alone.
\<close>

theorem position_follows_booked_fills:
  "quantity (position_of (position_keeper (snd (run_events d evs om))) s)
   = quantity (position_of (position_keeper om) s)
     + (\<Sum>f\<leftarrow>fst (run_events d evs om). contributes s f)"
  by (simp add: run_events_positions quantity_on_fills)

text \<open>
  A report for a broker id that is not live (an external order, or a second copy of the last fill
  of an order) changes nothing at all.
\<close>

theorem duplicate_final_fill_ignored:
  assumes "mapper_inv (id_mapper om)"
    and "get_local_id (id_mapper om) (er_broker_order_id r) = Some l"
    and "er_status r \<noteq> V1_REJECTED" and "er_status r \<noteq> V1_CANCELLED"
    and "fst (st_get_order (store_of d) l (order_store om)) = Inr so"
    and "ord_quantity (so_order so) \<le> so_filled_quantity so + er_filled_quantity r"
  shows "handle_fill d r (handle_fill d r om) = handle_fill d r om"
proof -
  have "get_local_id (id_mapper (handle_fill d r om)) (er_broker_order_id r) = None"
    using assms by (simp add: fill_defs remove_mapping_local_gone)
  then show ?thesis
    by (simp add: handle_fill_def)
qed

section \<open>An order manager with one live order\<close>

definition live_store :: sqlite_store where
  "live_store =
     open_store (\<lambda>_. None) (\<lambda>_. '''')
       \<lparr>rows := [row_of ((sample_order ''ORD_1'')
                  \<lparr>so_status := SUBMITTED, so_broker_id := Some ''B1''\<rparr>)]\<rparr>"

definition live_om :: "(nat, sqlite_store, sqlite_journal) order_manager" where
  "live_om =
     sample_om\<lparr>id_mapper := add_mapping ''ORD_1'' ''B1'' empty_mapper, order_store := live_store,
               open_order_count := 1\<rparr>"

definition live_order_view :: order_view where
  "live_order_view = view_of ((sample_order ''ORD_1'')
     \<lparr>so_status := SUBMITTED, so_broker_id := Some ''B1''\<rparr>)"

lemma live_order_view_simps [simp]:
  "ov_status live_order_view = SUBMITTED" "ov_filled live_order_view = 0"
  "ov_broker_id live_order_view = Some ''B1''" "ord_quantity (ov_order live_order_view) = 10"
  by (simp_all add: live_order_view_def view_of_def sample_order_def)

lemma live_store_look [simp]:
  "sq_look live_store l = (if l = ''ORD_1'' then Some live_order_view else None)"
  by (simp add: live_store_def sq_look_def sq_row_def live_order_view_def row_of_def sample_order_def
      parse_order_def view_of_def open_store_def order_status_from_string_def Let_def)

lemma live_store_inv [simp]: "sq_inv live_store" "sq_healthy live_store"
  by (simp_all add: live_store_def sq_inv_def sq_healthy_def brokers_ok_def id_pairs_def
      open_store_def row_ok_row_of)

lemma live_om_simps [simp]:
  "order_store live_om = live_store" "open_order_count live_om = 1" "replies live_om = []"
  "id_mapper live_om = add_mapping ''ORD_1'' ''B1'' empty_mapper" "gateway live_om = 0"
  "position_keeper live_om = []" "queue live_om = empty_queue"
  by (simp_all add: live_om_def)

lemma om_inv_examples [simp]:
  "om_inv sq_look sq_inv sample_om" "om_inv sq_look sq_inv live_om"
  by (simp_all add: om_inv_def live_ok_def mapper_inv_add live_count_add live_view_def)

definition final_fill :: execution_report where
  "final_fill = empty_report\<lparr>er_broker_order_id := ''B1'', er_symbol := ''AAPL'', er_side := BUY,
     er_filled_quantity := 10, er_avg_fill_price := 50\<rparr>"

lemma final_fill_simps [simp]:
  "er_broker_order_id final_fill = ''B1''" "er_filled_quantity final_fill = 10"
  "er_status final_fill = V1_NEW" "er_avg_fill_price final_fill = 50"
  "er_symbol final_fill = ''AAPL''" "er_side final_fill = BUY"
  by (simp_all add: final_fill_def empty_report_def)

lemma live_store_get:
  "fst (sq_get_order ''ORD_1'' live_store)
   = Inr ((sample_order ''ORD_1'')\<lparr>so_status := SUBMITTED, so_broker_id := Some ''B1''\<rparr>)"
  by (simp add: op_defs live_store_def open_store_def row_of_def sample_order_def parse_order_def
      order_status_from_string_def Let_def)

theorem duplicate_final_fill_ignored_witness:
  "handle_fill sample_deps final_fill (handle_fill sample_deps final_fill live_om)
   = handle_fill sample_deps final_fill live_om"
  by (rule duplicate_final_fill_ignored [where l = "''ORD_1''" and so = "(sample_order ''ORD_1'')
        \<lparr>so_status := SUBMITTED, so_broker_id := Some ''B1''\<rparr>"])
    (simp_all add: mapper_inv_add live_store_get, simp add: sample_order_def)

section \<open>Reachable states\<close>

text \<open>
  The dispatch thread handles one event at a time; any thread may enqueue at any time, and the
  gateway's and the journal's own threads may change their states in any way.
\<close>

inductive om_reach ::
  "('g, 's, 'j) deps \<Rightarrow> ('g, 's, 'j) order_manager \<Rightarrow> ('g, 's, 'j) order_manager \<Rightarrow> bool"
  for d :: "('g, 's, 'j) deps" and om0 :: "('g, 's, 'j) order_manager" where
  om_start: "om_reach d om0 om0"
| om_enqueues: "om_reach d om0 om \<Longrightarrow> om_reach d om0 (om_enqueue ev om)"
| om_dispatches: "om_reach d om0 om \<Longrightarrow> q_pop st (queue om) = Popped ev q \<Longrightarrow>
     om_reach d om0 ((handle_event d ev (om\<lparr>queue := q\<rparr>))\<lparr>queue := q_mark_processed q\<rparr>)"
| om_gateway_moves: "om_reach d om0 om \<Longrightarrow> om_reach d om0 (om\<lparr>gateway := g\<rparr>)"
| om_journal_moves: "om_reach d om0 om \<Longrightarrow> om_reach d om0 (om\<lparr>journal := j\<rparr>)"
| om_md_sinks: "om_reach d om0 om \<Longrightarrow> om_reach d om0 (set_market_data_sinks k k' om)"
| om_md_clear: "om_reach d om0 om \<Longrightarrow> om_reach d om0 (clear_market_data_sinks om)"
| om_fill_sinks: "om_reach d om0 om \<Longrightarrow> om_reach d om0 (set_fill_sink k om)"
| om_fill_clear: "om_reach d om0 om \<Longrightarrow> om_reach d om0 (clear_fill_sink om)"

lemma om_inv_queue [simp]: "om_inv look sinv (om\<lparr>queue := q\<rparr>) = om_inv look sinv om"
  by (simp add: om_inv_def)

lemma om_inv_reach:
  assumes "om_reach d om0 om" and "store_of d = sqlite_store_ops" and "om_inv sq_look sq_inv om0"
  shows "om_inv sq_look sq_inv om"
  using assms(1)
proof (induction rule: om_reach.induct)
  case om_start
  show ?case by (rule assms(3))
next
  case (om_dispatches om st ev q)
  have "om_inv sq_look sq_inv (handle_event d ev (om\<lparr>queue := q\<rparr>))"
    by (rule sq.ok_handle_event [OF assms(2)]) (simp add: om_dispatches.IH)
  then show ?case by simp
qed (simp_all add: om_inv_def om_enqueue_def set_market_data_sinks_def clear_market_data_sinks_def
      set_fill_sink_def clear_fill_sink_def)

lemma om_inv_create:
  "om_inv sq_look sq_inv (create_order_manager d a pk g j (open_store fs now) limits clk)"
  by (simp add: om_inv_def create_order_manager_def live_ok_def)

text \<open>
  C3. Main invariant of the order manager on the SQLite store, in every state it can reach from its
  creation, with any gateway, any failing statements and any interleaving of producers: every order
  registered as live is stored, and is either submitted with nothing filled or partially filled with
  less than its quantity; its broker id leads back to it or has been taken over; and the open order
  count is never below the number of live orders (nor negative), so the risk check never sees fewer
  open orders than there are.
\<close>

theorem live_orders_consistent:
  assumes "om_reach d (create_order_manager d a pk g j (open_store fs now) limits clk) om"
    and "store_of d = sqlite_store_ops"
  shows "(\<forall>l b. get_broker_id (id_mapper om) l = Some b \<longrightarrow>
            (\<exists>v. sq_look (order_store om) l = Some v
               \<and> (ov_status v = SUBMITTED \<and> ov_filled v = 0
                  \<or> ov_status v = PARTIALLY_FILLED \<and> ov_filled v < ord_quantity (ov_order v))))
       \<and> (\<forall>b l. get_local_id (id_mapper om) b = Some l \<longrightarrow> get_broker_id (id_mapper om) l = Some b)
       \<and> 0 \<le> int (live_count (id_mapper om))
       \<and> int (live_count (id_mapper om)) \<le> open_order_count om"
  using om_inv_reach [OF assms om_inv_create] get_local_id_live
  by (auto simp: om_inv_def live_ok_def live_view_def)

definition sample_signal :: strategy_signal where
  "sample_signal = \<lparr>sig_strategy_id = ''S1'', sig_symbol = ''AAPL'', sig_side = BUY,
     sig_target_quantity = 10, sig_generated_at = ''''\<rparr>"

lemma sample_clock_now [simp]: "readings (om_clock om) = (\<lambda>_. 0) \<Longrightarrow> fst (om_now om) = 0"
  by (simp add: om_now_def clock_now_def)

lemma readings_frame [simp]:
  "readings (om_clock (snd (om_now om))) = readings (om_clock om)"
  "readings (om_clock (snd (om_generate om))) = readings (om_clock om)"
  "om_clock (om_log d ev s c om) = om_clock om"
  by (simp_all add: call_defs split_beta Let_def)

lemma sample_submit:
  assumes "order_store om = open_store (\<lambda>_. None) (\<lambda>_. '''')" and "readings (om_clock om) = (\<lambda>_. 0)"
    and "risk_manager om = no_limits"
  shows "get_broker_id (id_mapper (handle_submit_command sample_deps sig p om))
           (fst (om_generate om)) = Some (''B'' @ decimal (gateway om))"
proof -
  obtain s where s: "timestamp_to_string 0 = Inr s"
    using timestamp_to_string_ok [of 0] by (auto simp: in_i64_def)
  show ?thesis
    using assms
    by (simp add: handle_submit_alt Let_def s submit_stored_def submit_accepted_def split_beta
        op_defs open_store_def broker_taken_def)
qed

theorem live_orders_consistent_witness:
  "\<exists>(om :: (nat, sqlite_store, sqlite_journal) order_manager) l b v.
     get_broker_id (id_mapper om) l = Some b \<and> sq_look (order_store om) l = Some v
     \<and> ov_status v \<in> {SUBMITTED, PARTIALLY_FILLED} \<and> int (live_count (id_mapper om)) \<le> open_order_count om"
proof -
  let ?q = "\<lparr>q_items = [], total_pushed = 1, total_processed = 0, total_dropped = 0\<rparr>"
  let ?ev = "Submit_command sample_signal 7"
  have r: "om_reach sample_deps sample_om (om_enqueue ?ev sample_om)"
    by (intro om_enqueues om_start)
  have pop: "q_pop False (queue (om_enqueue ?ev sample_om)) = Popped ?ev ?q"
    by (simp add: om_enqueue_def q_pop_def q_push_def empty_queue_def)
  have same: "(om_enqueue ?ev sample_om)\<lparr>queue := ?q\<rparr> = sample_om\<lparr>queue := ?q\<rparr>"
    by (simp add: om_enqueue_def)
  let ?om = "(handle_event sample_deps ?ev (sample_om\<lparr>queue := ?q\<rparr>))\<lparr>queue := q_mark_processed ?q\<rparr>"
  have reach: "om_reach sample_deps sample_om ?om"
    using om_dispatches [OF r pop] unfolding same .
  have "get_broker_id (id_mapper ?om) (fst (om_generate (sample_om\<lparr>queue := ?q\<rparr>)))
      = Some (''B'' @ decimal 0)"
    using sample_submit [of "sample_om\<lparr>queue := ?q\<rparr>" sample_signal 7]
    by (simp add: sample_om_def create_order_manager_def sample_clock_def)
  with reach obtain om l b where om: "om_reach sample_deps sample_om om"
    "get_broker_id (id_mapper om) l = Some b"
    by blast
  have "\<exists>v. sq_look (order_store om) l = Some v
      \<and> (ov_status v = SUBMITTED \<and> ov_filled v = 0
         \<or> ov_status v = PARTIALLY_FILLED \<and> ov_filled v < ord_quantity (ov_order v))"
    and "int (live_count (id_mapper om)) \<le> open_order_count om"
    using live_orders_consistent [OF om(1) [unfolded sample_om_def]] om(2) by simp_all
  with om(2) show ?thesis by fast
qed

section \<open>The open order count as a 32-bit integer\<close>

text \<open>
  The code declares \<open>open_order_count_\<close> as \<open>int\<close>. The model keeps an unbounded integer, and the events
  handled bound it: one step of the dispatch thread raises it by at most one.
\<close>

definition other_threads ::
  "('g, 's, 'j) order_manager \<Rightarrow> ('g, 's, 'j) order_manager \<Rightarrow> bool" where
  "other_threads om om' \<longleftrightarrow>
     (\<exists>ev. om' = om_enqueue ev om) \<or> (\<exists>g. om' = om\<lparr>gateway := g\<rparr>) \<or> (\<exists>j. om' = om\<lparr>journal := j\<rparr>)
   \<or> (\<exists>k k'. om' = set_market_data_sinks k k' om) \<or> om' = clear_market_data_sinks om
   \<or> (\<exists>k. om' = set_fill_sink k om) \<or> om' = clear_fill_sink om"

inductive om_handled ::
  "('g, 's, 'j) deps \<Rightarrow> ('g, 's, 'j) order_manager \<Rightarrow> nat \<Rightarrow> ('g, 's, 'j) order_manager \<Rightarrow> bool"
  for d :: "('g, 's, 'j) deps" and om0 :: "('g, 's, 'j) order_manager" where
  oh_start: "om_handled d om0 0 om0"
| oh_others: "om_handled d om0 n om \<Longrightarrow> other_threads om om' \<Longrightarrow> om_handled d om0 n om'"
| oh_event: "om_handled d om0 n om \<Longrightarrow> q_pop st (queue om) = Popped ev q \<Longrightarrow>
     om_handled d om0 (Suc n) ((handle_event d ev (om\<lparr>queue := q\<rparr>))\<lparr>queue := q_mark_processed q\<rparr>)"

lemma om_handled_reach: "om_handled d om0 n om \<Longrightarrow> om_reach d om0 om"
proof (induction rule: om_handled.induct)
  case (oh_others n om om')
  then show ?case by (auto simp: other_threads_def intro: om_reach.intros)
qed (auto intro: om_reach.intros)

lemma count_event: "open_order_count (handle_event d ev om) \<le> open_order_count om + 1"
  by (cases ev)
    (auto simp: submit_defs cancel_defs replace_defs cancel_all_defs fill_defs market_data_defs
      split: sum.split option.split)

lemma count_handled: "om_handled d om0 n om \<Longrightarrow> open_order_count om \<le> open_order_count om0 + int n"
proof (induction rule: om_handled.induct)
  case (oh_others n om om')
  then show ?case
    by (auto simp: other_threads_def om_enqueue_def set_market_data_sinks_def
        clear_market_data_sinks_def set_fill_sink_def clear_fill_sink_def)
next
  case (oh_event n om st ev q)
  with count_event [of d ev "om\<lparr>queue := q\<rparr>"] show ?case by simp
qed simp

text \<open>
  C31. The open order count never leaves the range of the 32-bit integer it is declared as before two to
  the power of 31 events have been handled: it is at least the number of live orders and at most the
  number of events the dispatch thread has handled, so the risk check reads the count itself.
\<close>

theorem open_count_fits:
  assumes "om_handled d (create_order_manager d a pk g j (open_store fs now) limits clk) n om"
    and "store_of d = sqlite_store_ops" and "n < 2 ^ 31"
  shows "int (live_count (id_mapper om)) \<le> open_order_count om \<and> open_order_count om \<le> int n
       \<and> sint (word_of_int (open_order_count om) :: 32 word) = open_order_count om"
proof -
  have "int (live_count (id_mapper om)) \<le> open_order_count om"
    using om_inv_reach [OF om_handled_reach [OF assms(1)] assms(2) om_inv_create] by (simp add: om_inv_def)
  moreover have "open_order_count om \<le> int n"
    using count_handled [OF assms(1)] by (simp add: create_order_manager_def)
  moreover have "int n < 2 ^ 31" using assms(3) by simp
  ultimately show ?thesis by (simp add: signed_of_int signed_take_bit_int_eq_self)
qed

theorem open_count_fits_witness:
  "sint (word_of_int (open_order_count (om_enqueue (Submit_command sample_signal 7) sample_om)) :: 32 word)
   = open_order_count (om_enqueue (Submit_command sample_signal 7) sample_om)"
proof -
  have "other_threads sample_om (om_enqueue (Submit_command sample_signal 7) sample_om)"
    by (auto simp: other_threads_def)
  from open_count_fits [OF oh_others [OF oh_start [of sample_deps sample_om] this, unfolded sample_om_def]]
  show ?thesis by (simp add: sample_om_def)
qed

section \<open>Commands\<close>

text \<open>
  C9. A submit has two outcomes. Either the caller gets an error and no order is registered as open;
  or the caller gets the new local id, which was not in use, and then the risk check had passed, the
  gateway accepted the order the signal describes, its ids are mapped to each other, one more order
  counts as open, and the store holds it as submitted with nothing filled.
\<close>

theorem submit_command_outcome:
  assumes "store_of d = sqlite_store_ops" and "om_inv sq_look sq_inv om"
  shows "(\<exists>e. replies (handle_submit_command d sig p om) = replies om @ [(p, Order_reply (Inl e))]
            \<and> id_mapper (handle_submit_command d sig p om) = id_mapper om
            \<and> open_order_count (handle_submit_command d sig p om) = open_order_count om)
       \<or> (\<exists>b v. replies (handle_submit_command d sig p om)
                = replies om @ [(p, Order_reply (Inr (fst (om_generate om))))]
            \<and> fst (gw_submit_order (gateway_of d) (submitted_order sig om) (gateway om)) = Inr b
            \<and> risk_check (risk_manager om) (sig_target_quantity sig)
                (word_of_int (open_order_count om)) (get_total_pnl (position_keeper om)) = Inr ()
            \<and> get_broker_id (id_mapper om) (fst (om_generate om)) = None
            \<and> id_mapper (handle_submit_command d sig p om)
              = add_mapping (fst (om_generate om)) b (id_mapper om)
            \<and> open_order_count (handle_submit_command d sig p om) = open_order_count om + 1
            \<and> sq_look (order_store (handle_submit_command d sig p om)) (fst (om_generate om)) = Some v
            \<and> ov_order v = submitted_order sig om \<and> ov_status v = SUBMITTED \<and> ov_filled v = 0)"
  by (rule sq.submit_outcome [OF assms])

theorem submit_command_outcome_witness:
  "\<exists>v. sq_look (order_store (handle_submit_command sample_deps sample_signal 7 sample_om))
         (fst (om_generate sample_om)) = Some v \<and> ov_status v = SUBMITTED"
proof -
  have "get_broker_id (id_mapper (handle_submit_command sample_deps sample_signal 7 sample_om))
      (fst (om_generate sample_om)) = Some (''B'' @ decimal 0)"
    using sample_submit [of sample_om sample_signal 7]
    by (simp add: sample_om_def create_order_manager_def sample_clock_def)
  then show ?thesis
    using submit_command_outcome [of sample_deps sample_om sample_signal 7] by auto
qed

text \<open>
  A cancel of a live order has three outcomes: the gateway refuses and nothing registered
  changes; or the order is no longer live and the store has it as cancelled, with one open order
  fewer; or the store failed, and then the caller gets that error, the order is no longer live, and
  the open order count still includes it.
\<close>

theorem cancel_command_outcome:
  assumes "store_of d = sqlite_store_ops"
    and "get_broker_id (id_mapper om) (can_order_id sig) = Some b"
  shows "(\<exists>e. fst (gw_cancel_order (gateway_of d) b (gateway om)) = Inl e
            \<and> replies (handle_cancel_command d sig p om) = replies om @ [(p, Unit_reply (Inl e))]
            \<and> id_mapper (handle_cancel_command d sig p om) = id_mapper om
            \<and> open_order_count (handle_cancel_command d sig p om) = open_order_count om
            \<and> order_store (handle_cancel_command d sig p om) = order_store om)
       \<or> (id_mapper (handle_cancel_command d sig p om)
            = remove_mapping (can_order_id sig) (id_mapper om)
            \<and> sq_look (order_store (handle_cancel_command d sig p om)) (can_order_id sig)
              = map_option (\<lambda>v. v\<lparr>ov_status := OrderStatus.CANCELLED\<rparr>)
                  (sq_look (order_store om) (can_order_id sig))
            \<and> replies (handle_cancel_command d sig p om) = replies om @ [(p, Unit_reply (Inr ()))]
            \<and> open_order_count (handle_cancel_command d sig p om) = open_order_count om - 1)
       \<or> (\<exists>e. id_mapper (handle_cancel_command d sig p om)
            = remove_mapping (can_order_id sig) (id_mapper om)
            \<and> sq_look (order_store (handle_cancel_command d sig p om)) = sq_look (order_store om)
            \<and> replies (handle_cancel_command d sig p om) = replies om @ [(p, Unit_reply (Inl e))]
            \<and> open_order_count (handle_cancel_command d sig p om) = open_order_count om)"
  by (rule sq.cancel_outcome [OF assms])

theorem cancel_command_outcome_witness:
  "get_broker_id (id_mapper (handle_cancel_command sample_deps
     \<lparr>can_strategy_id = ''S1'', can_order_id = ''ORD_1'', can_generated_at = ''''\<rparr> 7 live_om)) ''ORD_1''
   = None"
  using cancel_command_outcome [of sample_deps live_om
      "\<lparr>can_strategy_id = ''S1'', can_order_id = ''ORD_1'', can_generated_at = ''''\<rparr>" "''B1''" 7]
  by auto

text \<open>
  Once the gateway has accepted a replacement, either the caller gets the new local id, and then
  the new order is live under it, stored as submitted with its broker id, and the old order is no
  longer live and stored as replaced; or a later step failed, and then the caller gets the error and
  neither the old nor the new order is live. A fill for the old broker id is never booked again.
\<close>

theorem replace_accepted_outcome:
  assumes "store_of d = sqlite_store_ops" and "om_inv sq_look sq_inv om"
    and "get_broker_id (id_mapper om) old_l = Some b"
  shows "(replies (replace_accepted d old_l new_l new_b new_ord p om)
            = replies om @ [(p, Order_reply (Inr new_l))]
            \<and> get_broker_id (remove_mapping old_l (id_mapper om)) new_l = None
            \<and> id_mapper (replace_accepted d old_l new_l new_b new_ord p om)
              = add_mapping new_l new_b (remove_mapping old_l (id_mapper om))
            \<and> (\<exists>v. sq_look (order_store (replace_accepted d old_l new_l new_b new_ord p om)) new_l
                   = Some v
                 \<and> ov_order v = new_ord \<and> ov_status v = SUBMITTED \<and> ov_broker_id v = Some new_b)
            \<and> (old_l \<noteq> new_l \<longrightarrow>
                 sq_look (order_store (replace_accepted d old_l new_l new_b new_ord p om)) old_l
                 = map_option (\<lambda>v. v\<lparr>ov_status := REPLACED\<rparr>) (sq_look (order_store om) old_l)))
       \<or> (\<exists>e. replies (replace_accepted d old_l new_l new_b new_ord p om)
                = replies om @ [(p, Order_reply (Inl e))]
            \<and> id_mapper (replace_accepted d old_l new_l new_b new_ord p om)
              = remove_mapping old_l (id_mapper om))"
  by (rule sq.replace_outcome [OF assms])

theorem replace_accepted_outcome_witness:
  "get_local_id (id_mapper (replace_accepted sample_deps ''ORD_1'' ''ORD_2'' ''B2''
     (so_order (sample_order ''ORD_2'')) 7 live_om)) ''B1'' = None"
  using replace_accepted_outcome [of sample_deps live_om "''ORD_1''" "''B1''" "''ORD_2''" "''B2''"
      "so_order (sample_order ''ORD_2'')" 7]
  by (auto simp: get_local_id_remove)

text \<open>
  C11. What a report of the broker does, on every branch and with any statement of the order store
  failing. A report on an unknown broker id changes nothing. A rejection or cancellation takes the
  order out of the live ones and stores that status if the update succeeds. A fill whose order cannot
  be read changes nothing but the journal. Any other fill moves the position by it, goes to the sink
  once, and takes the order out of the live ones and off the open order count exactly if it is then
  filled; the stored quantity, average price and status of the order move by it if the update
  succeeds, and otherwise the store stays behind the position. No other stored order changes.
\<close>

theorem fill_booked_everywhere:
  assumes "store_of d = sqlite_store_ops" and "om_inv sq_look sq_inv om"
  shows "let om' = handle_fill d r om; s = order_store om; q = er_filled_quantity r;
       price = er_avg_fill_price r;
       handed = fill_deliveries om @ (case fill_sink om of None \<Rightarrow> [] | Some k \<Rightarrow> [(k, r)])
     in case get_local_id (id_mapper om) (er_broker_order_id r) of
          None \<Rightarrow> om' = om
        | Some l \<Rightarrow>
            if er_status r = V1_REJECTED \<or> er_status r = V1_CANCELLED
            then let st = (if er_status r = V1_REJECTED then REJECTED else OrderStatus.CANCELLED)
                 in sq_look (order_store om') = (if is_ok (fst (sq_update_order_status l st s))
                      then on_key (\<lambda>v. v\<lparr>ov_status := st\<rparr>) l (sq_look s) else sq_look s)
                  \<and> id_mapper om' = remove_mapping l (id_mapper om)
                  \<and> position_keeper om' = position_keeper om \<and> open_order_count om' = open_order_count om
                  \<and> fill_deliveries om' = handed
            else case sq_get_order l s of
                (Inl e, _) \<Rightarrow> sq_look (order_store om') = sq_look s \<and> id_mapper om' = id_mapper om
                  \<and> position_keeper om' = position_keeper om \<and> open_order_count om' = open_order_count om
                  \<and> fill_deliveries om' = fill_deliveries om
              | (Inr so, s1) \<Rightarrow>
                  let full = (ord_quantity (so_order so) \<le> so_filled_quantity so + q);
                    st = (if full then OrderStatus.FILLED else PARTIALLY_FILLED)
                  in sq_look (order_store om') = (if is_ok (fst (sq_apply_fill l q price st s1))
                       then (sq_look s)(l \<mapsto> fill_view q price st (view_of so)) else sq_look s)
                   \<and> position_keeper om' = on_fill (er_symbol r) q price (er_side r) (position_keeper om)
                   \<and> id_mapper om' = (if full then remove_mapping l (id_mapper om) else id_mapper om)
                   \<and> open_order_count om' = open_order_count om - (if full then 1 else 0)
                   \<and> fill_deliveries om' = handed"
proof (cases "get_local_id (id_mapper om) (er_broker_order_id r)")
  case None
  then show ?thesis by (simp add: handle_fill_def)
next
  case (Some l)
  show ?thesis
  proof (cases "er_status r = V1_REJECTED \<or> er_status r = V1_CANCELLED")
    case True
    with Some have "handle_fill d r om = handle_terminal_report d r l om" by (auto simp: handle_fill_def)
    from sq.terminal_outcome [OF assms(1) refl this] Some True show ?thesis by (simp add: Let_def)
  next
    case False
    obtain res s1 where get: "sq_get_order l (order_store om) = (res, s1)"
      by (cases "sq_get_order l (order_store om)")
    have s1: "sq_look s1 = sq_look (order_store om)" "sq_inv s1"
      using sq.get_frame [of l "order_store om"] sq.get_keeps [of "order_store om" l] get assms(2)
      by (simp_all add: om_inv_def)
    show ?thesis
    proof (cases res)
      case (Inl e)
      with Some False get s1 show ?thesis
        by (simp add: handle_fill_def Let_def assms(1) on_store_def)
    next
      case (Inr so)
      let ?om = "om\<lparr>order_store := s1\<rparr>"
      have "handle_fill d r om = apply_fill_report d r l so ?om"
        using Some False get Inr by (simp add: handle_fill_def Let_def assms(1) on_store_def)
      moreover have "sq_look s1 l = Some (view_of so)"
        using sq.get_ok [of l "order_store om" so s1] get Inr s1 by simp
      ultimately show ?thesis
        using sq.fill_outcome [OF assms(1), of ?om l so _ r, OF _ _ refl refl] Some False get Inr s1
        by (simp add: Let_def)
    qed
  qed
qed

theorem fill_booked_everywhere_witness:
  "sq_look (order_store (handle_fill sample_deps final_fill live_om)) ''ORD_1''
     = Some (fill_view 10 50 OrderStatus.FILLED live_order_view)
   \<and> open_order_count (handle_fill sample_deps final_fill live_om) = 0"
proof -
  have "is_ok (fst (sq_apply_fill ''ORD_1'' 10 50 OrderStatus.FILLED
      (snd (sq_get_order ''ORD_1'' live_store))))"
    by (simp add: op_defs live_store_def open_store_def row_of_def sample_order_def Let_def)
  moreover obtain s1 where "sq_get_order ''ORD_1'' live_store
      = (Inr ((sample_order ''ORD_1'')\<lparr>so_status := SUBMITTED, so_broker_id := Some ''B1''\<rparr>), s1)"
    using live_store_get by (metis prod.collapse)
  ultimately show ?thesis
    using fill_booked_everywhere [of sample_deps live_om final_fill]
    by (simp add: live_order_view_def sample_order_def Let_def)
qed

section \<open>The kill switch\<close>

text \<open>
  The broker ids of the orders recorded as open at the broker. The kill switch asks the gateway to
  cancel exactly these, each once, and nothing else.
\<close>

definition open_at_broker :: "('g, sqlite_store, 'j) order_manager \<Rightarrow> BrokerOrderId set" where
  "open_at_broker om =
     {b. \<exists>l v. sq_look (order_store om) l = Some v \<and> at_broker v \<and> ov_broker_id v = Some b}"

lemma sq_broker_unique:
  assumes "sq_inv s" and "sq_look s l = Some v" and "sq_look s l' = Some v'"
    and "ov_broker_id v = Some b" and "ov_broker_id v' = Some b"
  shows "l = l'"
proof -
  have "(k, Some b) \<in> set (id_pairs (rows s))" if "sq_look s k = Some w" "ov_broker_id w = Some b" for k w
  proof -
    from that obtain r where r: "find (\<lambda>r. row_local_id r = k) (rows s) = Some r" "row_broker_id r = Some b"
      by (auto simp: sq_look_def sq_row_def view_of_def parse_order_def)
    then have "r \<in> set (rows s)" "row_local_id r = k" by (auto simp: find_Some_iff)
    with r(2) show ?thesis unfolding id_pairs_def by force
  qed
  with assms have "(l, Some b) \<in> set (id_pairs (rows s))" "(l', Some b) \<in> set (id_pairs (rows s))"
    by blast+
  with assms(1) show ?thesis unfolding sq_inv_def brokers_ok_def by blast
qed

lemma distinct_broker_ids:
  assumes "distinct (map so_local_id sos)"
    and "\<And>so so' b. so \<in> set sos \<Longrightarrow> so' \<in> set sos \<Longrightarrow> so_broker_id so = Some b \<Longrightarrow>
      so_broker_id so' = Some b \<Longrightarrow> so_local_id so = so_local_id so'"
  shows "distinct (broker_ids sos)"
  using assms
proof (induction sos)
  case Nil
  then show ?case by simp
next
  case (Cons so sos)
  have same: "so1 \<in> set (so # sos) \<Longrightarrow> so2 \<in> set (so # sos) \<Longrightarrow> so_broker_id so1 = Some b \<Longrightarrow>
      so_broker_id so2 = Some b \<Longrightarrow> so_local_id so1 = so_local_id so2" for so1 so2 b
    by (rule Cons.prems(2))
  have IH: "distinct (broker_ids sos)"
  proof (rule Cons.IH)
    show "distinct (map so_local_id sos)" using Cons.prems(1) by simp
  qed (rule same; simp)
  show ?case
  proof (cases "so_broker_id so")
    case None
    with IH show ?thesis by simp
  next
    case (Some b)
    have "b \<notin> set (broker_ids sos)"
    proof
      assume "b \<in> set (broker_ids sos)"
      then obtain so' where "so' \<in> set sos" "so_broker_id so' = Some b" by (auto simp: set_broker_ids)
      with same [of so so' b] Some have "so_local_id so = so_local_id so'" by simp
      with \<open>so' \<in> set sos\<close> Cons.prems(1) show False by simp
    qed
    with IH Some show ?thesis by simp
  qed
qed

lemma kill_switch_calls:
  assumes "store_of d = sqlite_store_ops" and "sq_inv (order_store om)" and "sq_healthy (order_store om)"
  shows "\<exists>bs. distinct bs \<and> set bs = open_at_broker om
    \<and> gateway (handle_cancel_all_command d reason who p om) = cancel_calls d bs (gateway om)"
proof -
  let ?sos = "fst (st_get_open_orders sqlite_store_ops (order_store om))"
  have sound: "sq_look (order_store om) (so_local_id so) = Some (view_of so) \<and> at_broker (view_of so)"
    if "so \<in> set ?sos" "so_broker_id so = Some b" for so b
    using sq.open_ok [OF assms(2) that(1)] that(2) by (auto simp: at_broker_def view_of_def)
  have "\<exists>so \<in> set ?sos. so_broker_id so = Some b"
    if "sq_look (order_store om) l = Some v" "at_broker v" "ov_broker_id v = Some b" for l v b
  proof -
    have "ov_status v \<in> set open_statuses" using that(2) by (simp add: at_broker_def)
    from sqh.open_complete [OF assms(2,3) that(1) this]
    obtain so where so: "so \<in> set ?sos" "so_local_id so = l" by blast
    with sq.open_ok [OF assms(2) so(1)] that(1) have "v = view_of so" by simp
    with that(3) have "so_broker_id so = Some b" by (simp add: view_of_def)
    with so(1) show ?thesis by blast
  qed
  then have "open_at_broker om \<subseteq> set (broker_ids ?sos)"
    by (auto simp: open_at_broker_def set_broker_ids)
  moreover have "set (broker_ids ?sos) \<subseteq> open_at_broker om"
  proof
    fix b assume "b \<in> set (broker_ids ?sos)"
    then obtain so where so: "so \<in> set ?sos" "so_broker_id so = Some b" by (auto simp: set_broker_ids)
    then have "ov_broker_id (view_of so) = Some b" by (simp add: view_of_def)
    with sound [OF so] show "b \<in> open_at_broker om" unfolding open_at_broker_def by blast
  qed
  moreover have "distinct (broker_ids ?sos)"
  proof (rule distinct_broker_ids)
    fix so so' b
    assume "so \<in> set ?sos" "so' \<in> set ?sos" "so_broker_id so = Some b" "so_broker_id so' = Some b"
    with sound show "so_local_id so = so_local_id so'"
      by (intro sq_broker_unique [OF assms(2), where v = "view_of so" and v' = "view_of so'" and b = b])
        (auto simp: view_of_def)
  qed (rule sqh.open_distinct [OF assms(2)])
  moreover have "gateway (handle_cancel_all_command d reason who p om)
      = cancel_calls d (broker_ids ?sos) (gateway om)"
    by (simp add: cancel_all_calls assms(1))
  ultimately show ?thesis by blast
qed

text \<open>
  C6. The kill switch cancels at the broker exactly the orders that are recorded as open with a broker
  id, each once and no other, and closes them in the store: when the gateway accepts the cancels and
  the store's statements do not fail, each of them is stored as cancelled and is no longer live, every
  other order is untouched, and no stored order is open with a broker id any more. An order whose
  broker id was never stored is not covered.
\<close>

theorem kill_switch_closes_all:
  assumes "store_of d = sqlite_store_ops" and "cancels_succeed (gateway_of d)"
    and "sq_inv (order_store om)" and "sq_healthy (order_store om)"
  shows "(\<exists>bs. distinct bs
           \<and> set bs = {b. \<exists>l v. sq_look (order_store om) l = Some v \<and> at_broker v \<and> ov_broker_id v = Some b}
           \<and> gateway (handle_cancel_all_command d reason who p om)
             = foldl (\<lambda>g b. snd (gw_cancel_order (gateway_of d) b g)) (gateway om) bs)
       \<and> sq_look (order_store (handle_cancel_all_command d reason who p om)) l
           = map_option switched_off (sq_look (order_store om) l)
       \<and> get_broker_id (id_mapper (handle_cancel_all_command d reason who p om)) l
           = (case sq_look (order_store om) l of
                Some v \<Rightarrow> if at_broker v then None else get_broker_id (id_mapper om) l
              | None \<Rightarrow> get_broker_id (id_mapper om) l)
       \<and> (case sq_look (order_store (handle_cancel_all_command d reason who p om)) l of
            Some v \<Rightarrow> \<not> at_broker v | None \<Rightarrow> True)"
  using sqh.cancel_all_effect(1,2) [OF assms(1) cancels_from_all [OF assms(2)] assms(3,4) TrueI,
      of reason who p l]
    kill_switch_calls [OF assms(1,3,4), of reason who p]
  by (auto simp: switched_off_def at_broker_def open_statuses_def open_at_broker_def cancel_calls_def
      split: option.split)

theorem kill_switch_closes_all_witness:
  "sq_look (order_store (handle_cancel_all_command sample_deps ''test'' ''ops'' 7 live_om)) ''ORD_1''
     = Some (live_order_view\<lparr>ov_status := OrderStatus.CANCELLED\<rparr>)"
  using kill_switch_closes_all [of sample_deps live_om "''test''" "''ops''" 7 "''ORD_1''"]
  by (simp add: cancels_succeed_def switched_off_def at_broker_def open_statuses_def)

text \<open>
  The open order count is not lowered for the orders the kill switch cancels, nor for an order
  the broker reports as rejected or cancelled: the risk check goes on counting them as open.
\<close>

theorem closed_orders_still_counted:
  assumes "er_status r = V1_REJECTED \<or> er_status r = V1_CANCELLED"
  shows "open_order_count (handle_cancel_all_command d reason who p om) = open_order_count om
       \<and> open_order_count (handle_fill d r om) = open_order_count om
       \<and> get_local_id (id_mapper (handle_fill d r om)) (er_broker_order_id r)
         = (case get_local_id (id_mapper om) (er_broker_order_id r) of
              None \<Rightarrow> None
            | Some l \<Rightarrow> get_local_id (remove_mapping l (id_mapper om)) (er_broker_order_id r))"
  using assms by (auto simp: cancel_all_defs fill_defs split: option.split)

theorem closed_orders_still_counted_witness:
  "open_order_count (handle_fill sample_deps (final_fill\<lparr>er_status := V1_CANCELLED\<rparr>) live_om) = 1
   \<and> get_local_id (id_mapper (handle_fill sample_deps (final_fill\<lparr>er_status := V1_CANCELLED\<rparr>) live_om))
       ''B1'' = None"
  using closed_orders_still_counted [of "final_fill\<lparr>er_status := V1_CANCELLED\<rparr>" sample_deps
      _ _ _ live_om]
  by (simp add: get_local_id_remove)

end
