(* ===== verification/OrderManagerLife.thy ===== *)
theory OrderManagerLife
  imports OrderManagerProps
begin

text \<open>
  Callers of the order manager and its destruction. The queue and the dispatch loop are related to a
  plain fold of the handlers over the queued events: the handlers neither read nor change the queue.
\<close>

section \<open>The handlers and the queue\<close>

lemma calls_queue_commute:
  "om_log d ev s c (om\<lparr>queue := q\<rparr>) = (om_log d ev s c om)\<lparr>queue := q\<rparr>"
  "set_value p r (om\<lparr>queue := q\<rparr>) = (set_value p r om)\<lparr>queue := q\<rparr>"
  "set_mapper f (om\<lparr>queue := q\<rparr>) = (set_mapper f om)\<lparr>queue := q\<rparr>"
  "count_orders n (om\<lparr>queue := q\<rparr>) = (count_orders n om)\<lparr>queue := q\<rparr>"
  "deliver_fill rep (om\<lparr>queue := q\<rparr>) = (deliver_fill rep om)\<lparr>queue := q\<rparr>"
  "fst (om_now (om\<lparr>queue := q\<rparr>)) = fst (om_now om)"
  "snd (om_now (om\<lparr>queue := q\<rparr>)) = (snd (om_now om))\<lparr>queue := q\<rparr>"
  "fst (om_generate (om\<lparr>queue := q\<rparr>)) = fst (om_generate om)"
  "snd (om_generate (om\<lparr>queue := q\<rparr>)) = (snd (om_generate om))\<lparr>queue := q\<rparr>"
  "snd (on_store g (om\<lparr>queue := q\<rparr>)) = (snd (on_store g om))\<lparr>queue := q\<rparr>"
  "snd (on_gateway h (om\<lparr>queue := q\<rparr>)) = (snd (on_gateway h om))\<lparr>queue := q\<rparr>"
  by (simp_all add: call_defs deliver_fill_def Let_def split_beta split: option.split)

lemma log_failure_queue_commute:
  "log_failure d l (on_store f (om\<lparr>queue := q\<rparr>)) = (log_failure d l (on_store f om))\<lparr>queue := q\<rparr>"
  by (simp add: log_failure_def split_beta calls_queue_commute split: sum.split)

lemmas queue_commute = calls_queue_commute log_failure_queue_commute

lemma cancel_one_queue_commute:
  "cancel_one d so (om\<lparr>queue := q\<rparr>) = (cancel_one d so om)\<lparr>queue := q\<rparr>"
  by (simp add: cancel_one_def Let_def split_beta queue_commute split: option.split sum.split)

lemma cancel_ones_queue_commute:
  "foldl (\<lambda>om so. cancel_one d so om) (om\<lparr>queue := q\<rparr>) sos
   = (foldl (\<lambda>om so. cancel_one d so om) om sos)\<lparr>queue := q\<rparr>"
  by (induction sos arbitrary: om) (simp_all add: cancel_one_queue_commute)

lemma submit_queue_commute:
  "submit_stored d l ord p (om\<lparr>queue := q\<rparr>) = (submit_stored d l ord p om)\<lparr>queue := q\<rparr>"
  by (simp add: submit_stored_def submit_accepted_def submit_rejected_def Let_def split_beta
      queue_commute split: sum.split)

lemma position_queue_swap:
  "(om :: ('g, 's, 'j) order_manager)\<lparr>queue := q, position_keeper := pk\<rparr>
   = om\<lparr>position_keeper := pk, queue := q\<rparr>"
  by simp

lemma fill_queue_commute:
  "handle_terminal_report d r l (om\<lparr>queue := q\<rparr>) = (handle_terminal_report d r l om)\<lparr>queue := q\<rparr>"
  "apply_fill_report d r l so (om\<lparr>queue := q\<rparr>) = (apply_fill_report d r l so om)\<lparr>queue := q\<rparr>"
  by (simp_all add: handle_terminal_report_def apply_fill_report_def Let_def queue_commute
      position_queue_swap)

lemma handle_event_queue_commute:
  "handle_event d ev (om\<lparr>queue := q\<rparr>) = (handle_event d ev om)\<lparr>queue := q\<rparr>"
proof (cases ev)
  case (Submit_command sig p)
  then show ?thesis
    by (simp add: handle_submit_command_def Let_def split_beta queue_commute submit_queue_commute
        split: sum.split)
next
  case (Cancel_command sig p)
  then show ?thesis
    by (simp add: handle_cancel_command_def Let_def split_beta queue_commute
        split: sum.split option.split)
next
  case (Replace_command sig p)
  then show ?thesis
    by (simp add: handle_replace_command_def replace_accepted_def Let_def split_beta queue_commute
        split: sum.split option.split)
next
  case (Cancel_all_command reason who p)
  then show ?thesis
    by (simp add: handle_cancel_all_command_def Let_def split_beta queue_commute
        cancel_ones_queue_commute)
next
  case (Fill_event r)
  then show ?thesis
    by (simp add: handle_fill_def Let_def split_beta queue_commute fill_queue_commute
        split: sum.split option.split)
qed (simp_all add: market_data_defs split: option.split)

section \<open>The dispatch loop is a fold of the handlers\<close>

definition handle_events ::
  "('g, 's, 'j) deps \<Rightarrow> om_event list \<Rightarrow> ('g, 's, 'j) order_manager \<Rightarrow> ('g, 's, 'j) order_manager"
  where "handle_events d evs om = foldl (\<lambda>om ev. handle_event d ev om) om evs"

lemma handle_events_simps [simp]:
  "handle_events d [] om = om"
  "handle_events d (ev # evs) om = handle_events d evs (handle_event d ev om)"
  "handle_events d (evs @ evs') om = handle_events d evs' (handle_events d evs om)"
  by (simp_all add: handle_events_def)

lemma handle_events_queue_commute:
  "handle_events d evs (om\<lparr>queue := q\<rparr>) = (handle_events d evs om)\<lparr>queue := q\<rparr>"
  by (induction evs arbitrary: om) (simp_all add: handle_event_queue_commute)

lemma handle_events_queue [simp]: "queue (handle_events d evs om) = queue om"
  by (induction evs arbitrary: om) simp_all

lemma loop_is_fold:
  "q_items (queue om) = evs \<Longrightarrow>
   (run_dispatch_loop (length evs) d om)\<lparr>queue := q\<rparr> = (handle_events d evs om)\<lparr>queue := q\<rparr>"
proof (induction evs arbitrary: om)
  case Nil
  then show ?case by simp
next
  case (Cons ev evs)
  let ?q = "q_mark_processed ((queue om)\<lparr>q_items := evs\<rparr>)"
  have "run_dispatch_loop (length (ev # evs)) d om
      = run_dispatch_loop (length evs) d ((handle_event d ev om)\<lparr>queue := ?q\<rparr>)"
    using Cons.prems by (simp add: q_pop_Cons Let_def handle_event_queue_commute)
  moreover have "q_items (queue ((handle_event d ev om)\<lparr>queue := ?q\<rparr>)) = evs"
    by (simp add: q_mark_processed_def)
  ultimately show ?case
    using Cons.IH by (simp add: handle_events_queue_commute)
qed

text \<open>Everything but the queue after the queued events were handled.\<close>

lemma dispatch_queued_fold:
  "(dispatch_queued d om)\<lparr>queue := q\<rparr> = (handle_events d (q_items (queue om)) om)\<lparr>queue := q\<rparr>"
  using loop_is_fold [OF refl, where om = om and d = d and q = q] by (simp add: dispatch_queued_def q_size_def)

lemma dispatch_queued_frame:
  "replies (dispatch_queued d om) = replies (handle_events d (q_items (queue om)) om)"
  "position_keeper (dispatch_queued d om) = position_keeper (handle_events d (q_items (queue om)) om)"
  "id_mapper (dispatch_queued d om) = id_mapper (handle_events d (q_items (queue om)) om)"
  "gateway (dispatch_queued d om) = gateway (handle_events d (q_items (queue om)) om)"
  "order_store (dispatch_queued d om) = order_store (handle_events d (q_items (queue om)) om)"
  "fill_sink (dispatch_queued d om) = fill_sink (handle_events d (q_items (queue om)) om)"
  "open_order_count (dispatch_queued d om)
   = open_order_count (handle_events d (q_items (queue om)) om)"
  using dispatch_queued_fold [where d = d and om = om, THEN arg_cong [where f = replies]]
    dispatch_queued_fold [where d = d and om = om, THEN arg_cong [where f = position_keeper]]
    dispatch_queued_fold [where d = d and om = om, THEN arg_cong [where f = id_mapper]]
    dispatch_queued_fold [where d = d and om = om, THEN arg_cong [where f = gateway]]
    dispatch_queued_fold [where d = d and om = om, THEN arg_cong [where f = order_store]]
    dispatch_queued_fold [where d = d and om = om, THEN arg_cong [where f = fill_sink]]
    dispatch_queued_fold [where d = d and om = om, THEN arg_cong [where f = open_order_count]]
  by simp_all

lemma dispatch_queued_empty [simp]: "q_items (queue (dispatch_queued d om)) = []"
  and dispatch_queued_promises:
    "map fst (replies (dispatch_queued d om))
     = map fst (replies om)
       @ concat (map (\<lambda>ev. case promise_of ev of None \<Rightarrow> [] | Some p \<Rightarrow> [p]) (q_items (queue om)))"
  using loop_replies [OF refl, of om d] by (simp_all add: dispatch_queued_def q_size_def)

section \<open>Callers get the answer to their own command\<close>

lemma submit_reply:
  "\<exists>r. replies (handle_submit_command d sig p om) = replies om @ [(p, Order_reply r)]"
  by (auto simp: submit_defs split: sum.split)

lemma cancel_reply:
  "\<exists>r. replies (handle_cancel_command d sig p om) = replies om @ [(p, Unit_reply r)]"
  by (auto simp: cancel_defs split: sum.split option.split)

lemma replace_reply:
  "\<exists>r. replies (handle_replace_command d sig p om) = replies om @ [(p, Order_reply r)]"
  by (auto simp: replace_defs split: sum.split option.split)

text \<open>A promise nobody else uses: it is neither set nor carried by a queued command.\<close>

definition fresh_promise :: "nat \<Rightarrow> ('g, 's, 'j) order_manager \<Rightarrow> bool" where
  "fresh_promise p om \<longleftrightarrow>
     p \<notin> set (map fst (replies om)) \<and> list_all (\<lambda>ev. promise_of ev \<noteq> Some p) (q_items (queue om))"

lemma handle_events_fresh:
  "p \<notin> set (map fst (replies om)) \<Longrightarrow> list_all (\<lambda>ev. promise_of ev \<noteq> Some p) evs \<Longrightarrow>
   p \<notin> set (map fst (replies (handle_events d evs om)))"
proof (induction evs arbitrary: om)
  case Nil
  then show ?case by simp
next
  case (Cons ev evs)
  then have "p \<notin> set (map fst (replies (handle_event d ev om)))"
    unfolding handle_event_replies by (auto split: option.splits)
  with Cons show ?case by simp
qed

lemma map_of_fresh_snoc:
  "p \<notin> set (map fst al) \<Longrightarrow> map_of (al @ [(p, r)]) p = Some r"
  by (induction al) auto

lemma enqueue_command:
  "\<not> is_market_data ev \<Longrightarrow>
   om_enqueue ev om = om\<lparr>queue := (queue om)\<lparr>q_items := q_items (queue om) @ [ev],
     total_pushed := total_pushed (queue om) + 1\<rparr>\<rparr>"
  by (simp add: om_enqueue_def q_push_def)

lemma replies_dispatch_command:
  assumes "\<not> is_market_data ev"
  shows "replies (dispatch_queued d (om_enqueue ev om))
    = replies (handle_event d ev (handle_events d (q_items (queue om)) om))"
  using assms
  by (simp add: dispatch_queued_frame enqueue_command handle_events_queue_commute
      handle_event_queue_commute)

lemma command_answer:
  assumes "fresh_promise p om" and "\<not> is_market_data ev"
    and "replies (handle_event d ev (handle_events d (q_items (queue om)) om))
      = replies (handle_events d (q_items (queue om)) om) @ [(p, r)]"
  shows "map_of (replies (dispatch_queued d (om_enqueue ev om))) p = Some r"
proof -
  have "p \<notin> set (map fst (replies (handle_events d (q_items (queue om)) om)))"
    using assms(1) by (intro handle_events_fresh) (simp_all add: fresh_promise_def)
  with assms(2,3) show ?thesis
    by (simp add: replies_dispatch_command map_of_fresh_snoc del: map_of_append)
qed

lemma process_answered:
  assumes "fresh_promise p om"
  shows "(\<exists>r. fst (process_submit d sig p om) = Some r
           \<and> replies (handle_submit_command d sig p (handle_events d (q_items (queue om)) om))
             = replies (handle_events d (q_items (queue om)) om) @ [(p, Order_reply r)])
       \<and> (\<exists>r. fst (process_cancel d can p om) = Some r
           \<and> replies (handle_cancel_command d can p (handle_events d (q_items (queue om)) om))
             = replies (handle_events d (q_items (queue om)) om) @ [(p, Unit_reply r)])
       \<and> (\<exists>r. fst (process_replace d rep p om) = Some r
           \<and> replies (handle_replace_command d rep p (handle_events d (q_items (queue om)) om))
             = replies (handle_events d (q_items (queue om)) om) @ [(p, Order_reply r)])"
proof -
  let ?om = "handle_events d (q_items (queue om)) om"
  obtain r1 where r1: "replies (handle_submit_command d sig p ?om)
      = replies ?om @ [(p, Order_reply r1)]"
    using submit_reply by blast
  obtain r2 where r2: "replies (handle_cancel_command d can p ?om)
      = replies ?om @ [(p, Unit_reply r2)]"
    using cancel_reply by blast
  obtain r3 where r3: "replies (handle_replace_command d rep p ?om)
      = replies ?om @ [(p, Order_reply r3)]"
    using replace_reply by blast
  have "map_of (replies (dispatch_queued d (om_enqueue (Submit_command sig p) om))) p
      = Some (Order_reply r1)"
    "map_of (replies (dispatch_queued d (om_enqueue (Cancel_command can p) om))) p
      = Some (Unit_reply r2)"
    "map_of (replies (dispatch_queued d (om_enqueue (Replace_command rep p) om))) p
      = Some (Order_reply r3)"
    using r1 r2 r3 by (simp_all add: command_answer [OF assms])
  with r1 r2 r3 show ?thesis
    by (simp add: process_submit_def process_cancel_def process_replace_def order_answer_def
        unit_answer_def Let_def)
qed

text \<open>
  C1. A caller of \<open>process_signal\<close> never waits for ever and never gets another caller's value: with a
  promise of its own, the answer is the one its command produced after everything queued before it
  was handled, for each of the three kinds of signal.
\<close>

theorem process_signal_answers:
  assumes "fresh_promise p om"
  shows "(\<exists>r. fst (process_submit d sig p om) = Some r
           \<and> replies (handle_submit_command d sig p (handle_events d (q_items (queue om)) om))
             = replies (handle_events d (q_items (queue om)) om) @ [(p, Order_reply r)])
       \<and> (\<exists>r. fst (process_cancel d can p om) = Some r
           \<and> replies (handle_cancel_command d can p (handle_events d (q_items (queue om)) om))
             = replies (handle_events d (q_items (queue om)) om) @ [(p, Unit_reply r)])
       \<and> (\<exists>r. fst (process_replace d rep p om) = Some r
           \<and> replies (handle_replace_command d rep p (handle_events d (q_items (queue om)) om))
             = replies (handle_events d (q_items (queue om)) om) @ [(p, Order_reply r)])"
  by (rule process_answered [OF assms])

theorem process_signal_answers_witness:
  "\<exists>r. fst (process_submit sample_deps sample_signal 9 live_om) = Some r"
  using process_signal_answers [of 9 live_om sample_deps sample_signal]
  by (auto simp: fresh_promise_def empty_queue_def)

section \<open>Shutdown\<close>

lemma enqueue_fills:
  "foldl (\<lambda>om r. om_enqueue (Fill_event r) om) om rs
   = om\<lparr>queue := (queue om)\<lparr>q_items := q_items (queue om) @ map Fill_event rs,
       total_pushed := total_pushed (queue om) + of_nat (length rs)\<rparr>\<rparr>"
  by (induction rs arbitrary: om) (simp_all add: enqueue_command)

lemma destroy_fold:
  "(destroy_order_manager d om)\<lparr>queue := q\<rparr>
   = (handle_events d
        (q_items (queue om) @ map Fill_event (fst (gw_stop (gateway_of d) (gateway om))))
        (om\<lparr>gateway := snd (gw_stop (gateway_of d) (gateway om))\<rparr>))\<lparr>queue := q\<rparr>"
  and destroy_empties: "q_items (queue (destroy_order_manager d om)) = []"
proof -
  let ?rs = "fst (gw_stop (gateway_of d) (gateway om))"
  let ?om = "om\<lparr>gateway := snd (gw_stop (gateway_of d) (gateway om))\<rparr>"
  let ?om2 = "foldl (\<lambda>om r. om_enqueue (Fill_event r) om) ?om ?rs"
  have d: "destroy_order_manager d om = dispatch_queued d ?om2"
    by (simp add: destroy_order_manager_def on_gateway_def Let_def split_beta)
  have "q_items (queue ?om2) = q_items (queue om) @ map Fill_event ?rs"
    and "(handle_events d evs ?om2)\<lparr>queue := q\<rparr> = (handle_events d evs ?om)\<lparr>queue := q\<rparr>" for evs
    by (simp_all add: enqueue_fills handle_events_queue_commute)
  then show "(destroy_order_manager d om)\<lparr>queue := q\<rparr>
     = (handle_events d (q_items (queue om) @ map Fill_event ?rs) ?om)\<lparr>queue := q\<rparr>"
    unfolding d dispatch_queued_fold by (simp del: handle_events_simps)
  show "q_items (queue (destroy_order_manager d om)) = []"
    by (simp add: d)
qed

text \<open>
  Destroying an order manager loses nothing: the gateway hands over its remaining reports, and the
  dispatch thread handles every event still queued and then every one of these reports, in order,
  before it ends with an empty queue. The final state, the queue aside, is the one the handlers give
  for exactly that list of events.
\<close>

theorem shutdown_handles_everything:
  "(destroy_order_manager d om)\<lparr>queue := q\<rparr>
     = (handle_events d
          (q_items (queue om) @ map Fill_event (fst (gw_stop (gateway_of d) (gateway om))))
          (om\<lparr>gateway := snd (gw_stop (gateway_of d) (gateway om))\<rparr>))\<lparr>queue := q\<rparr>
   \<and> q_items (queue (destroy_order_manager d om)) = []"
  by (rule conjI [OF destroy_fold destroy_empties])

section \<open>Fills that arrive behind a cancel\<close>

text \<open>
  A fill the broker made before it accepted a cancel, but whose report is queued behind the cancel
  command, is dropped: the order's broker id is no longer known, so the position, the stored filled
  quantity and the fill sink never see it, although the broker holds the position.
\<close>

theorem fill_behind_cancel_is_lost:
  assumes "get_broker_id (id_mapper om) (can_order_id sig) = Some (er_broker_order_id r)"
    and "is_ok (fst (gw_cancel_order (gateway_of d) (er_broker_order_id r) (gateway om)))"
  shows "handle_events d [Cancel_command sig p, Fill_event r] om
           = handle_events d [Cancel_command sig p] om
       \<and> position_keeper (handle_events d [Cancel_command sig p, Fill_event r] om)
         = position_keeper om"
proof -
  have "get_local_id (id_mapper (handle_cancel_command d sig p om)) (er_broker_order_id r) = None"
    using assms
    by (auto simp: cancel_defs is_ok_iff remove_mapping_def get_local_id_def get_broker_id_def
        split: sum.split)
  then have "handle_fill d r (handle_cancel_command d sig p om) = handle_cancel_command d sig p om"
    by (simp add: handle_fill_def)
  moreover have "position_keeper (handle_cancel_command d sig p om) = position_keeper om"
    by (simp add: cancel_defs split: sum.split option.split)
  ultimately show ?thesis by simp
qed

theorem fill_behind_cancel_is_lost_witness:
  "position_keeper (handle_events sample_deps
     [Cancel_command \<lparr>can_strategy_id = ''S1'', can_order_id = ''ORD_1'', can_generated_at = ''''\<rparr> 7,
      Fill_event final_fill] live_om) = []"
  using conjunct2 [OF fill_behind_cancel_is_lost [of live_om
      "\<lparr>can_strategy_id = ''S1'', can_order_id = ''ORD_1'', can_generated_at = ''''\<rparr>" final_fill
      sample_deps 7]]
  by (simp del: handle_events_simps)

section \<open>A stopped manager\<close>

lemma om_inv_handle_events:
  "store_of d = sqlite_store_ops \<Longrightarrow> om_inv sq_look sq_inv om \<Longrightarrow>
   om_inv sq_look sq_inv (handle_events d evs om)"
  by (induction evs arbitrary: om) (simp_all add: sq.ok_handle_event)

lemma om_inv_dispatch_queued:
  assumes "store_of d = sqlite_store_ops" and "om_inv sq_look sq_inv om"
  shows "om_inv sq_look sq_inv (dispatch_queued d om)"
  using om_inv_handle_events [OF assms, of "q_items (queue om)"]
  by (simp add: om_inv_def dispatch_queued_frame)

lemma om_inv_enqueue [simp]: "om_inv look sinv (om_enqueue ev om) = om_inv look sinv om"
  by (simp add: om_inv_def om_enqueue_def)

lemma steady_handle_events:
  assumes "store_of d = sqlite_store_ops" and "cancels_from G (gateway_of d)"
  shows "sq_healthy (order_store om) \<Longrightarrow> G (gateway om) \<Longrightarrow>
    sq_healthy (order_store (handle_events d evs om)) \<and> G (gateway (handle_events d evs om))"
proof (induction evs arbitrary: om)
  case Nil
  then show ?case by simp
next
  case (Cons ev evs)
  with sqh.steady_handle_event [OF assms Cons.prems, of ev] show ?case by simp
qed

text \<open>
  Nothing is open at the broker any more, and no report can reopen anything: an order that is still
  live has no stored broker id.
\<close>

definition all_off :: "('g, sqlite_store, 'j) order_manager \<Rightarrow> bool" where
  "all_off om \<longleftrightarrow>
     (\<forall>l v. sq_look (order_store om) l = Some v \<longrightarrow>
        \<not> at_broker v \<and> (get_broker_id (id_mapper om) l \<noteq> None \<longrightarrow> ov_broker_id v = None))"

lemma all_off_cong:
  "order_store om = order_store om' \<Longrightarrow> id_mapper om = id_mapper om' \<Longrightarrow> all_off om = all_off om'"
  by (simp add: all_off_def)

lemma all_off_fill:
  assumes "store_of d = sqlite_store_ops" and "om_inv sq_look sq_inv om" and "all_off om"
  shows "all_off (handle_fill d r om)"
proof (cases "get_local_id (id_mapper om) (er_broker_order_id r)")
  case None
  with assms(3) show ?thesis by (simp add: handle_fill_def)
next
  case (Some l)
  have inv: "mapper_inv (id_mapper om)"
    using assms(2) by (simp add: om_inv_def)
  have live: "get_broker_id (id_mapper om) l \<noteq> None"
    using get_local_id_live [OF inv Some] by auto
  have off: "\<not> at_broker v" "get_broker_id (id_mapper om) l' \<noteq> None \<Longrightarrow> ov_broker_id v = None"
    if "sq_look (order_store om) l' = Some v" for l' v
    using assms(3) that by (auto simp: all_off_def)
  have gone: "get_broker_id (id_mapper om) l' \<noteq> None"
    if "get_broker_id (id_mapper (handle_fill d r om)) l' \<noteq> None" for l'
    using that by (auto simp: fill_defs Some split: sum.splits if_splits)
  show ?thesis
    unfolding all_off_def
  proof (intro allI impI conjI)
    fix l' v' assume "sq_look (order_store (handle_fill d r om)) l' = Some v'"
    from sq.fill_touches [OF assms(1,2) Some this] obtain v
      where v: "sq_look (order_store om) l' = Some v" "ov_broker_id v' = ov_broker_id v"
        "l' = l \<or> v' = v" by blast
    show "\<not> at_broker v'"
      using v off live by (auto simp: at_broker_def)
    show "ov_broker_id v' = None"
      if "get_broker_id (id_mapper (handle_fill d r om)) l' \<noteq> None"
      using off(2) [OF v(1) gone [OF that]] v(2) by simp
  qed
qed

lemma all_off_fills:
  "store_of d = sqlite_store_ops \<Longrightarrow> om_inv sq_look sq_inv om \<Longrightarrow> all_off om \<Longrightarrow>
   all_off (handle_events d (map Fill_event rs) om)"
proof (induction rs arbitrary: om)
  case Nil
  then show ?case by simp
next
  case (Cons r rs)
  then show ?case
    using all_off_fill [OF Cons.prems] sq.ok_handle_event [OF Cons.prems(1,2), of "Fill_event r"]
    by simp
qed

lemma all_off_cancel_all:
  assumes "store_of d = sqlite_store_ops" and "cancels_from G (gateway_of d)"
    and "om_inv sq_look sq_inv om" and "sq_healthy (order_store om)" and "G (gateway om)"
  shows "all_off (handle_cancel_all_command d reason who p om)"
proof -
  have "sq_inv (order_store om)" and live: "live_ok (sq_look (order_store om)) (id_mapper om)"
    using assms(3) by (simp_all add: om_inv_def)
  note effect = sqh.cancel_all_effect(1,2) [OF assms(1,2) this(1) assms(4,5), of reason who p]
  have open_live: "ov_status v \<in> set open_statuses"
    if "get_broker_id (id_mapper om) l \<noteq> None" "sq_look (order_store om) l = Some v" for l v
    using live that by (fastforce simp: live_ok_def live_view_def open_statuses_def)
  show ?thesis
    unfolding all_off_def
  proof (intro allI impI conjI)
    fix l v'
    assume "sq_look (order_store (handle_cancel_all_command d reason who p om)) l = Some v'"
    then obtain v where v: "sq_look (order_store om) l = Some v" "v' = switched_off v"
      using effect(1) by auto
    show "\<not> at_broker v'"
      using v(2) by (auto simp: switched_off_def at_broker_def open_statuses_def)
    show "ov_broker_id v' = None"
      if "get_broker_id (id_mapper (handle_cancel_all_command d reason who p om)) l \<noteq> None"
      using that effect(2) [of l] v open_live [of l v]
      by (auto simp: switched_off_def at_broker_def split: if_splits)
  qed
qed

lemma stopped_all_off:
  assumes "store_of d = sqlite_store_ops" and "cancels_from G (gateway_of d)"
    and "om_inv sq_look sq_inv om" and "sq_healthy (order_store om)" and "G (gateway om)"
  shows "all_off (destroy_order_manager d (om_cancel_all d reason who p om))"
proof -
  define om1 where "om1 = handle_events d (q_items (queue om)) om"
  define om2 where "om2 = handle_cancel_all_command d reason who p om1"
  define om3 where "om3 = om_cancel_all d reason who p om"
  let ?rs = "fst (gw_stop (gateway_of d) (gateway om3))"
  have inv1: "om_inv sq_look sq_inv om1" unfolding om1_def by (rule om_inv_handle_events [OF assms(1,3)])
  have "sq_healthy (order_store om1) \<and> G (gateway om1)"
    unfolding om1_def by (rule steady_handle_events [OF assms(1,2,4,5)])
  with all_off_cancel_all [OF assms(1,2) inv1] have off2: "all_off om2" by (simp add: om2_def)
  have inv2: "om_inv sq_look sq_inv om2"
    using sq.ok_handle_event [OF assms(1) inv1, of "Cancel_all_command reason who p"]
    by (simp add: om2_def)
  have om3: "order_store om3 = order_store om2" "id_mapper om3 = id_mapper om2"
    "open_order_count om3 = open_order_count om2" "q_items (queue om3) = []"
    by (simp_all add: om3_def om2_def om1_def om_cancel_all_def dispatch_queued_frame enqueue_command
        handle_events_queue_commute handle_event_queue_commute)
  have off3: "all_off (om3\<lparr>gateway := g\<rparr>)" and inv3: "om_inv sq_look sq_inv (om3\<lparr>gateway := g\<rparr>)" for g
    using off2 inv2 om3 by (simp_all add: all_off_def om_inv_def)
  note fold = destroy_fold [where d = d and om = om3 and q = empty_queue]
  have "order_store (destroy_order_manager d om3)
      = order_store (handle_events d (map Fill_event ?rs)
          (om3\<lparr>gateway := snd (gw_stop (gateway_of d) (gateway om3))\<rparr>))"
    "id_mapper (destroy_order_manager d om3)
      = id_mapper (handle_events d (map Fill_event ?rs)
          (om3\<lparr>gateway := snd (gw_stop (gateway_of d) (gateway om3))\<rparr>))"
    using arg_cong [where f = order_store, OF fold] arg_cong [where f = id_mapper, OF fold] om3(4)
    by simp_all
  with all_off_fills [OF assms(1) inv3 off3] show ?thesis
    by (simp add: all_off_def flip: om3_def)
qed

section \<open>What the broker is asked to cancel\<close>

text \<open>
  A manager that is stopped: what was queued is handled first, then every order that is open at the
  broker is cancelled there, each once, and then the gateway is stopped.
\<close>

definition cancelled_at_broker ::
  "('g, sqlite_store, 'j) deps \<Rightarrow> ('g, sqlite_store, 'j) order_manager
   \<Rightarrow> ('g, sqlite_store, 'j) order_manager \<Rightarrow> bool" where
  "cancelled_at_broker d om om' \<longleftrightarrow>
     (let om1 = handle_events d (q_items (queue om)) om
      in \<exists>bs. distinct bs \<and> set bs = open_at_broker om1
           \<and> gateway om' = snd (gw_stop (gateway_of d) (cancel_calls d bs (gateway om1))))"

lemma fills_gateway [simp]: "gateway (handle_events d (map Fill_event rs) om) = gateway om"
  by (induction rs arbitrary: om) (simp_all add: fill_defs split: sum.split option.split)

lemma destroy_gateway:
  assumes "q_items (queue om) = []"
  shows "gateway (destroy_order_manager d om) = snd (gw_stop (gateway_of d) (gateway om))"
  using arg_cong [where f = gateway, OF destroy_fold [where d = d and om = om and q = empty_queue]] assms
  by simp

lemma stopped_cancelled:
  assumes "store_of d = sqlite_store_ops" and "cancels_from G (gateway_of d)"
    and "om_inv sq_look sq_inv om" and "sq_healthy (order_store om)" and "G (gateway om)"
  shows "cancelled_at_broker d om (destroy_order_manager d (om_cancel_all d reason who p om))"
proof -
  define om1 where "om1 = handle_events d (q_items (queue om)) om"
  have "om_inv sq_look sq_inv om1" unfolding om1_def by (rule om_inv_handle_events [OF assms(1,3)])
  moreover have "sq_healthy (order_store om1)"
    unfolding om1_def using steady_handle_events [OF assms(1,2,4,5)] by simp
  ultimately obtain bs where bs: "distinct bs" "set bs = open_at_broker om1"
    "gateway (handle_cancel_all_command d reason who p om1) = cancel_calls d bs (gateway om1)"
    using kill_switch_calls [OF assms(1), of om1 reason who p] by (auto simp: om_inv_def)
  have "gateway (om_cancel_all d reason who p om) = gateway (handle_cancel_all_command d reason who p om1)"
    and "q_items (queue (om_cancel_all d reason who p om)) = []"
    by (simp_all add: om1_def om_cancel_all_def dispatch_queued_frame enqueue_command
        handle_events_queue_commute handle_event_queue_commute)
  with bs show ?thesis
    by (auto simp: cancelled_at_broker_def destroy_gateway Let_def simp flip: om1_def)
qed

end
