(* ===== verification/PaperGateway.thy ===== *)
theory PaperGateway
  imports Gateway OrderIds Clock
begin

text \<open>
  \<open>gateways/paper_trading_gateway.cpp\<close>: the simulated broker. Its random numbers are two sequences
  the state consumes one by one, the uniform draws of \<open>dist\<close> and \<open>partial_dist\<close> (in \<open>[0, 1)\<close>, scaled
  by the distribution's bounds) and the normal draws of \<open>price_dist_\<close>. Both unordered maps are
  iterated, so they are association lists. Every method holds the mutex for its whole work, so it is
  one step; the reports of one round enter the dispatcher's queue after it.
\<close>

section \<open>State\<close>

record paper_config =
  fill_probability :: double
  partial_fill_min :: double
  partial_fill_max :: double
  rejection_probability :: double
  slippage_bps :: double
  initial_price :: double
  price_volatility :: double

definition default_config :: paper_config where
  "default_config =
     \<lparr>fill_probability = 0.85, partial_fill_min = 0.3, partial_fill_max = 0.9,
      rejection_probability = 0.03, slippage_bps = 5, initial_price = 100,
      price_volatility = 0.001\<rparr>"

record price_state =
  ps_bid :: double
  ps_ask :: double

record simulated_order =
  sim_order :: order
  submitted_at_price :: double
  cumulative_filled :: double

record paper_gateway =
  pending_orders :: "(BrokerOrderId \<times> simulated_order) list"
  id_gen :: order_id_generator
  prices :: "(Symbol \<times> price_state) list"
  uniforms :: "nat \<Rightarrow> double"
  normals :: "nat \<Rightarrow> double"
  uniforms_used :: nat
  normals_used :: nat
  config :: paper_config
  paper_clock :: clock
  dispatcher :: dispatch_base
  running :: bool

definition new_paper_gateway ::
  "(nat \<Rightarrow> double) \<Rightarrow> (nat \<Rightarrow> double) \<Rightarrow> clock \<Rightarrow> paper_gateway" where
  "new_paper_gateway us ns clk =
     \<lparr>pending_orders = [], id_gen = mk_generator ''BROKER'', prices = [], uniforms = us, normals = ns,
      uniforms_used = 0, normals_used = 0, config = default_config, paper_clock = clk,
      dispatcher = new_dispatch_base, running = False\<rparr>"

section \<open>Draws, ids and prices\<close>

definition draw_uniform :: "paper_gateway \<Rightarrow> double \<times> paper_gateway" where
  "draw_uniform pg =
     (uniforms pg (uniforms_used pg), pg\<lparr>uniforms_used := Suc (uniforms_used pg)\<rparr>)"

definition draw_normal :: "paper_gateway \<Rightarrow> double \<times> paper_gateway" where
  "draw_normal pg = (normals pg (normals_used pg), pg\<lparr>normals_used := Suc (normals_used pg)\<rparr>)"

definition pg_generate :: "paper_gateway \<Rightarrow> BrokerOrderId \<times> paper_gateway" where
  "pg_generate pg =
     (let (t, c) = clock_now (paper_clock pg); (i, g) = generate t (id_gen pg)
      in (i, pg\<lparr>paper_clock := c, id_gen := g\<rparr>))"

definition mid_price :: "price_state \<Rightarrow> double" where
  "mid_price ps = (ps_bid ps + ps_ask ps) / 2"

definition get_or_init_price :: "Symbol \<Rightarrow> paper_gateway \<Rightarrow> double \<times> paper_gateway" where
  "get_or_init_price symbol pg =
     (case map_of (prices pg) symbol of
        Some ps \<Rightarrow> (mid_price ps, pg)
      | None \<Rightarrow>
          let mid = initial_price (config pg);
              half_spread = mid * 0.00025;
              ps = \<lparr>ps_bid = mid - half_spread, ps_ask = mid + half_spread\<rparr>
          in (mid_price ps, pg\<lparr>prices := AList.update symbol ps (prices pg)\<rparr>))"

definition update_price :: "Symbol \<Rightarrow> double \<Rightarrow> double \<Rightarrow> paper_gateway \<Rightarrow> paper_gateway" where
  "update_price symbol bid ask pg =
     pg\<lparr>prices := AList.update symbol \<lparr>ps_bid = bid, ps_ask = ask\<rparr> (prices pg)\<rparr>"

text \<open>One symbol's random step: the mid price never falls under one cent.\<close>

definition advance_price :: "double \<Rightarrow> double \<Rightarrow> price_state \<Rightarrow> price_state" where
  "advance_price volatility shock ps =
     (let mid0 = mid_price ps;
          move = mid0 * volatility * shock;
          mid = max (mid0 + move) 0.01;
          half_spread = mid * (5 / 20000)
      in \<lparr>ps_bid = mid - half_spread, ps_ask = mid + half_spread\<rparr>)"

fun advance_all ::
  "(Symbol \<times> price_state) list \<Rightarrow> paper_gateway \<Rightarrow> (Symbol \<times> price_state) list \<times> paper_gateway" where
  "advance_all [] pg = ([], pg)"
| "advance_all ((s, ps) # rest) pg =
     (let (n, pg) = draw_normal pg;
          ps' = advance_price (price_volatility (config pg)) n ps;
          (rest', pg) = advance_all rest pg
      in ((s, ps') # rest', pg))"

definition advance_prices :: "paper_gateway \<Rightarrow> paper_gateway" where
  "advance_prices pg = (let (ps, pg) = advance_all (prices pg) pg in pg\<lparr>prices := ps\<rparr>)"

section \<open>Orders\<close>

definition new_simulated :: "order \<Rightarrow> double \<Rightarrow> simulated_order" where
  "new_simulated ord price =
     \<lparr>sim_order = ord, submitted_at_price = price, cumulative_filled = 0\<rparr>"

definition paper_submit_order :: "order \<Rightarrow> paper_gateway \<Rightarrow> BrokerOrderId result \<times> paper_gateway" where
  "paper_submit_order ord pg =
     (let (u, pg) = draw_uniform pg
      in if u < rejection_probability (config pg)
         then (Inl (mk_error ''Simulated order submittion rejection'' FailedOrder), pg)
         else let (b, pg) = pg_generate pg;
                  (price, pg) = get_or_init_price (ord_symbol ord) pg
              in (Inr b, pg\<lparr>pending_orders :=
                    AList.update b (new_simulated ord price) (pending_orders pg)\<rparr>))"

definition paper_cancel_order :: "BrokerOrderId \<Rightarrow> paper_gateway \<Rightarrow> unit result \<times> paper_gateway" where
  "paper_cancel_order b pg = (Inr (), pg\<lparr>pending_orders := AList.delete b (pending_orders pg)\<rparr>)"

definition paper_replace_order ::
  "BrokerOrderId \<Rightarrow> order \<Rightarrow> paper_gateway \<Rightarrow> BrokerOrderId result \<times> paper_gateway" where
  "paper_replace_order old_b ord pg =
     (let (u, pg) = draw_uniform pg
      in if u < rejection_probability (config pg)
         then (Inl (mk_error ''Simulated order replacement rejection'' FailedOrder), pg)
         else let (b, pg) = pg_generate pg;
                  pg = pg\<lparr>pending_orders := AList.delete old_b (pending_orders pg)\<rparr>;
                  (price, pg) = get_or_init_price (ord_symbol ord) pg
              in (Inr b, pg\<lparr>pending_orders :=
                    AList.update b (new_simulated ord price) (pending_orders pg)\<rparr>))"

section \<open>Fills\<close>

definition limit_blocked :: "order \<Rightarrow> price_state \<Rightarrow> bool" where
  "limit_blocked ord ps \<longleftrightarrow>
     ord_type ord = LIMIT \<and>
     \<not> (ord_side ord = BUY \<and> ps_ask ps \<le> ord_price ord
        \<or> ord_side ord = SELL \<and> ps_bid ps \<ge> ord_price ord)"

text \<open>
  The quantity of a fill: all of the remaining one with probability 0.7, else a rounded-down fraction
  of it, but at least one; never more than what remains.
\<close>

definition fill_quantity :: "double \<Rightarrow> paper_gateway \<Rightarrow> double \<times> paper_gateway" where
  "fill_quantity remaining pg =
     (let (u, pg) = draw_uniform pg
      in if u < 0.7 then (remaining, pg)
         else let (v, pg) = draw_uniform pg;
                  lo = partial_fill_min (config pg); hi = partial_fill_max (config pg);
                  q = of_int \<lfloor>remaining * (lo + v * (hi - lo))\<rfloor>;
                  q = (if q < 1 then 1 else q)
              in (min q remaining, pg))"

definition fill_price :: "order \<Rightarrow> price_state \<Rightarrow> paper_config \<Rightarrow> double" where
  "fill_price ord ps cfg =
     (if ord_type ord = LIMIT then ord_price ord
      else let slippage = mid_price ps * (slippage_bps cfg / 10000)
           in if ord_side ord = BUY then ps_ask ps + slippage else ps_bid ps - slippage)"

text \<open>One order of the loop: its new state, and the report when it is filled.\<close>

definition fill_one ::
  "BrokerOrderId \<Rightarrow> simulated_order \<Rightarrow> paper_gateway
   \<Rightarrow> simulated_order \<times> execution_report option \<times> paper_gateway" where
  "fill_one b sim pg =
     (let ord = sim_order sim;
          (_, pg) = get_or_init_price (ord_symbol ord) pg;
          ps = the (map_of (prices pg) (ord_symbol ord))
      in if limit_blocked ord ps then (sim, None, pg)
         else let fill_prob = (if ord_type ord = LIMIT then 0.95 else fill_probability (config pg));
                  (u, pg) = draw_uniform pg
              in if u > fill_prob then (sim, None, pg)
                 else let (q, pg) = fill_quantity (ord_quantity ord - cumulative_filled sim) pg;
                          (t, c) = clock_now (paper_clock pg);
                          pg = pg\<lparr>paper_clock := c\<rparr>;
                          report = empty_report
                            \<lparr>er_broker_order_id := b, er_symbol := ord_symbol ord,
                             er_side := ord_side ord, er_filled_quantity := q,
                             er_avg_fill_price := fill_price ord ps (config pg),
                             er_fill_time := get_current_time t\<rparr>
                      in (sim\<lparr>cumulative_filled := cumulative_filled sim + q\<rparr>, Some report, pg))"

text \<open>
  The loop over the pending orders. The fully filled ones are erased after it; the result lists the
  orders that stay, with their new state.
\<close>

definition fully_filled :: "simulated_order \<Rightarrow> bool" where
  "fully_filled sim \<longleftrightarrow> cumulative_filled sim \<ge> ord_quantity (sim_order sim)"

fun fill_all ::
  "(BrokerOrderId \<times> simulated_order) list \<Rightarrow> paper_gateway
   \<Rightarrow> (BrokerOrderId \<times> simulated_order) list \<times> execution_report list \<times> paper_gateway" where
  "fill_all [] pg = ([], [], pg)"
| "fill_all ((b, sim) # rest) pg =
     (let (sim', rep, pg) = fill_one b sim pg;
          (rest', reps, pg) = fill_all rest pg
      in (case rep of
            None \<Rightarrow> ((b, sim') # rest', reps, pg)
          | Some r \<Rightarrow> (if fully_filled sim' then rest' else (b, sim') # rest', r # reps, pg)))"

text \<open>The reports of the round are the first result; they are also queued.\<close>

definition simulate_fills :: "paper_gateway \<Rightarrow> execution_report list \<times> paper_gateway" where
  "simulate_fills pg =
     (let pg = advance_prices pg;
          (pending, reps, pg) = fill_all (pending_orders pg) pg;
          pg = pg\<lparr>pending_orders := pending\<rparr>
      in (reps, pg\<lparr>dispatcher := foldl (\<lambda>d r. enqueue_report r d) (dispatcher pg) reps\<rparr>))"

definition paper_start :: "paper_gateway \<Rightarrow> paper_gateway" where
  "paper_start pg = pg\<lparr>running := True, dispatcher := start_dispatcher (dispatcher pg)\<rparr>"

text \<open>Stopping hands the reports that are still queued to the fill handler.\<close>

definition paper_stop :: "paper_gateway \<Rightarrow> execution_report list \<times> paper_gateway" where
  "paper_stop pg =
     (let (rs, d) = stop_dispatcher (dispatcher pg) in (rs, pg\<lparr>running := False, dispatcher := d\<rparr>))"

definition paper_gateway_ops :: "paper_gateway gateway_ops" where
  "paper_gateway_ops =
     \<lparr>gw_submit_order = paper_submit_order, gw_cancel_order = paper_cancel_order,
      gw_replace_order = paper_replace_order, gw_start = paper_start, gw_stop = paper_stop\<rparr>"

lemma paper_gateway_ops_simps [simp]:
  "gw_submit_order paper_gateway_ops = paper_submit_order"
  "gw_cancel_order paper_gateway_ops = paper_cancel_order"
  "gw_replace_order paper_gateway_ops = paper_replace_order"
  "gw_start paper_gateway_ops = paper_start" "gw_stop paper_gateway_ops = paper_stop"
  by (simp_all add: paper_gateway_ops_def)

lemmas paper_defs [op_defs] =
  draw_uniform_def draw_normal_def pg_generate_def get_or_init_price_def advance_prices_def
  new_simulated_def paper_submit_order_def paper_cancel_order_def paper_replace_order_def

section \<open>What the steps leave alone\<close>

lemma get_or_init_price_frame [simp]:
  "pending_orders (snd (get_or_init_price s pg)) = pending_orders pg"
  "id_gen (snd (get_or_init_price s pg)) = id_gen pg"
  "config (snd (get_or_init_price s pg)) = config pg"
  "dispatcher (snd (get_or_init_price s pg)) = dispatcher pg"
  by (simp_all add: get_or_init_price_def Let_def split: option.split)

lemma draw_uniform_frame [simp]:
  "pending_orders (snd (draw_uniform pg)) = pending_orders pg"
  "id_gen (snd (draw_uniform pg)) = id_gen pg" "config (snd (draw_uniform pg)) = config pg"
  "dispatcher (snd (draw_uniform pg)) = dispatcher pg" "prices (snd (draw_uniform pg)) = prices pg"
  by (simp_all add: draw_uniform_def)

lemma draw_normal_frame [simp]:
  "pending_orders (snd (draw_normal pg)) = pending_orders pg"
  "id_gen (snd (draw_normal pg)) = id_gen pg" "config (snd (draw_normal pg)) = config pg"
  "dispatcher (snd (draw_normal pg)) = dispatcher pg"
  by (simp_all add: draw_normal_def)

lemma advance_all_frame [simp]:
  "pending_orders (snd (advance_all ps pg)) = pending_orders pg"
  "id_gen (snd (advance_all ps pg)) = id_gen pg" "config (snd (advance_all ps pg)) = config pg"
  "dispatcher (snd (advance_all ps pg)) = dispatcher pg"
  by (induction ps arbitrary: pg) (auto simp: Let_def split_beta)

lemma advance_prices_frame [simp]:
  "pending_orders (advance_prices pg) = pending_orders pg"
  "id_gen (advance_prices pg) = id_gen pg" "config (advance_prices pg) = config pg"
  "dispatcher (advance_prices pg) = dispatcher pg"
  by (simp_all add: advance_prices_def split_beta)

lemma fill_quantity_frame [simp]:
  "pending_orders (snd (fill_quantity x pg)) = pending_orders pg"
  "id_gen (snd (fill_quantity x pg)) = id_gen pg" "config (snd (fill_quantity x pg)) = config pg"
  "dispatcher (snd (fill_quantity x pg)) = dispatcher pg"
  "prices (snd (fill_quantity x pg)) = prices pg"
  by (simp_all add: fill_quantity_def Let_def split_beta)

lemma fill_one_frame [simp]:
  "pending_orders (snd (snd (fill_one b sim pg))) = pending_orders pg"
  "id_gen (snd (snd (fill_one b sim pg))) = id_gen pg"
  "config (snd (snd (fill_one b sim pg))) = config pg"
  "dispatcher (snd (snd (fill_one b sim pg))) = dispatcher pg"
  by (simp_all add: fill_one_def Let_def split_beta)

lemma fill_all_frame [simp]:
  "pending_orders (snd (snd (fill_all ps pg))) = pending_orders pg"
  "id_gen (snd (snd (fill_all ps pg))) = id_gen pg"
  "config (snd (snd (fill_all ps pg))) = config pg"
  "dispatcher (snd (snd (fill_all ps pg))) = dispatcher pg"
  by (induction ps arbitrary: pg) (auto simp: Let_def split_beta split: option.split)

section \<open>Quantities of the fills\<close>

lemma fill_quantity_bounds:
  "0 < x \<Longrightarrow> 0 < fst (fill_quantity x pg) \<and> fst (fill_quantity x pg) \<le> x"
  by (auto simp: fill_quantity_def Let_def split_beta)

text \<open>An order that is pending: something is left of it.\<close>

definition sim_ok :: "simulated_order \<Rightarrow> bool" where
  "sim_ok sim \<longleftrightarrow> 0 \<le> cumulative_filled sim \<and> cumulative_filled sim < ord_quantity (sim_order sim)"

definition report_for :: "BrokerOrderId \<Rightarrow> order \<Rightarrow> execution_report \<Rightarrow> bool" where
  "report_for b ord r \<longleftrightarrow>
     er_broker_order_id r = b \<and> er_symbol r = ord_symbol ord \<and> er_side r = ord_side ord
     \<and> 0 < er_filled_quantity r \<and> er_status r = V1_NEW"

lemma fill_one_cases:
  assumes "sim_ok sim" and "fill_one b sim pg = (sim', rep, pg')"
  shows "(rep = None \<and> sim' = sim)
       \<or> (\<exists>r. rep = Some r \<and> report_for b (sim_order sim) r
            \<and> sim' = sim\<lparr>cumulative_filled := cumulative_filled sim + er_filled_quantity r\<rparr>
            \<and> cumulative_filled sim + er_filled_quantity r \<le> ord_quantity (sim_order sim))"
proof -
  have "0 < ord_quantity (sim_order sim) - cumulative_filled sim"
    using assms(1) by (simp add: sim_ok_def)
  note q = fill_quantity_bounds [OF this]
  show ?thesis
    using assms(2) q
    by (auto simp: fill_one_def Let_def split_beta report_for_def empty_report_def le_diff_eq add.commute
        split: if_splits)
qed

primrec reported :: "BrokerOrderId \<Rightarrow> execution_report list \<Rightarrow> double" where
  "reported b [] = 0"
| "reported b (r # rs) =
     (if er_broker_order_id r = b then er_filled_quantity r else 0) + reported b rs"

lemma reported_append [simp]: "reported b (rs @ rs') = reported b rs + reported b rs'"
  by (induction rs) simp_all

text \<open>
  What one round does to the pending orders: each report is for one of them; each of them got at most
  what was left of it, and stays with what it got exactly when something is still left.
\<close>

definition moved_on :: "execution_report list \<Rightarrow> BrokerOrderId \<times> simulated_order \<Rightarrow> simulated_order" where
  "moved_on rs e =
     (snd e)\<lparr>cumulative_filled := cumulative_filled (snd e) + reported (fst e) rs\<rparr>"

definition round_ok ::
  "(BrokerOrderId \<times> simulated_order) list \<Rightarrow> (BrokerOrderId \<times> simulated_order) list
   \<Rightarrow> execution_report list \<Rightarrow> bool" where
  "round_ok ps ps' rs \<longleftrightarrow>
     distinct (map fst ps')
     \<and> (\<forall>r \<in> set rs. \<exists>e \<in> set ps. report_for (fst e) (sim_order (snd e)) r)
     \<and> (\<forall>e \<in> set ps. cumulative_filled (moved_on rs e) \<le> ord_quantity (sim_order (snd e)))
     \<and> set ps' = (\<lambda>e. (fst e, moved_on rs e)) ` {e \<in> set ps. sim_ok (moved_on rs e)}"

lemma moved_on_simps [simp]:
  "sim_order (moved_on rs e) = sim_order (snd e)"
  "cumulative_filled (moved_on rs e) = cumulative_filled (snd e) + reported (fst e) rs"
  by (simp_all add: moved_on_def)

lemma reported_other: "\<forall>r \<in> set rs. er_broker_order_id r \<noteq> b \<Longrightarrow> reported b rs = 0"
  by (induction rs) simp_all

lemma round_ok_other:
  assumes "round_ok ps ps' rs" and "b \<notin> set (map fst ps)"
  shows "reported b rs = 0"
proof (rule reported_other, rule ballI)
  fix r assume "r \<in> set rs"
  then obtain e where "e \<in> set ps" "report_for (fst e) (sim_order (snd e)) r"
    using assms(1) by (auto simp: round_ok_def)
  with assms(2) show "er_broker_order_id r \<noteq> b"
    by (auto simp: report_for_def)
qed

lemma round_ok_keys: "round_ok ps ps' rs \<Longrightarrow> set (map fst ps') \<subseteq> set (map fst ps)"
  by (auto simp: round_ok_def intro: rev_image_eqI)

lemma round_ok_Cons:
  assumes "round_ok ps ps' rs" and "b \<notin> set (map fst ps)"
    and "\<forall>r \<in> set rs'. report_for b (sim_order sim) r" and "length rs' \<le> 1"
    and "cumulative_filled sim + reported b rs' \<le> ord_quantity (sim_order sim)"
    and "ps'' = (if sim_ok (moved_on rs' (b, sim)) then (b, moved_on rs' (b, sim)) # ps' else ps')"
  shows "round_ok ((b, sim) # ps) ps'' (rs' @ rs)"
proof -
  have own: "moved_on (rs' @ rs) (b, sim) = moved_on rs' (b, sim)"
    using round_ok_other [OF assms(1,2)] by (simp add: moved_on_def)
  have other: "moved_on (rs' @ rs) e = moved_on rs e" if "e \<in> set ps" for e
  proof -
    have "fst e \<noteq> b" using assms(2) that by auto
    then have "reported (fst e) rs' = 0"
      using assms(3) by (intro reported_other) (auto simp: report_for_def)
    then show ?thesis by (simp add: moved_on_def)
  qed
  have "b \<notin> set (map fst ps')"
    using assms(2) round_ok_keys [OF assms(1)] by auto
  then have distinct: "distinct (map fst ps'')"
    using assms(1,6) by (simp add: round_ok_def)
  have reps: "\<forall>r \<in> set (rs' @ rs). \<exists>e \<in> set ((b, sim) # ps). report_for (fst e) (sim_order (snd e)) r"
    using assms(1,3) by (auto simp: round_ok_def)
  have bound: "\<forall>e \<in> set ((b, sim) # ps).
      cumulative_filled (moved_on (rs' @ rs) e) \<le> ord_quantity (sim_order (snd e))"
    using assms(1,5) own other by (simp add: round_ok_def del: moved_on_simps(2)) simp
  have old: "set ps'
      = (\<lambda>e. (fst e, moved_on (rs' @ rs) e)) ` {e \<in> set ps. sim_ok (moved_on (rs' @ rs) e)}"
  proof -
    have "{e \<in> set ps. sim_ok (moved_on (rs' @ rs) e)} = {e \<in> set ps. sim_ok (moved_on rs e)}"
      using other by auto
    moreover have "(\<lambda>e. (fst e, moved_on (rs' @ rs) e)) ` {e \<in> set ps. sim_ok (moved_on rs e)}
        = (\<lambda>e. (fst e, moved_on rs e)) ` {e \<in> set ps. sim_ok (moved_on rs e)}"
      by (rule image_cong [OF refl]) (simp add: other)
    moreover have "set ps' = (\<lambda>e. (fst e, moved_on rs e)) ` {e \<in> set ps. sim_ok (moved_on rs e)}"
      using assms(1) by (simp only: round_ok_def)
    ultimately show ?thesis by simp
  qed
  have "set ps'' = (\<lambda>e. (fst e, moved_on (rs' @ rs) e)) `
      {e \<in> set ((b, sim) # ps). sim_ok (moved_on (rs' @ rs) e)}"
  proof -
    have "{e \<in> set ((b, sim) # ps). sim_ok (moved_on (rs' @ rs) e)}
        = {e. e = (b, sim) \<and> sim_ok (moved_on rs' (b, sim))}
          \<union> {e \<in> set ps. sim_ok (moved_on (rs' @ rs) e)}"
      using own by auto
    moreover have "set ps'' = (if sim_ok (moved_on rs' (b, sim)) then insert (b, moved_on rs' (b, sim))
        (set ps') else set ps')"
      by (simp add: assms(6))
    ultimately show ?thesis
      using own old by (simp add: image_Un)
  qed
  with distinct reps bound show ?thesis
    by (simp add: round_ok_def del: moved_on_simps(2))
qed

lemma fill_all_round:
  "distinct (map fst ps) \<Longrightarrow> \<forall>(b, sim) \<in> set ps. sim_ok sim \<Longrightarrow>
   fill_all ps pg = (ps', rs, pg') \<Longrightarrow> round_ok ps ps' rs"
proof (induction ps arbitrary: pg ps' rs pg')
  case Nil
  then show ?case by (simp add: round_ok_def)
next
  case (Cons p ps)
  obtain b sim where p: "p = (b, sim)" by (cases p)
  obtain sim1 rep pg1 where one: "fill_one b sim pg = (sim1, rep, pg1)"
    by (cases "fill_one b sim pg")
  obtain ps1 rs1 pg2 where all: "fill_all ps pg1 = (ps1, rs1, pg2)"
    by (cases "fill_all ps pg1")
  have rest: "round_ok ps ps1 rs1"
    using Cons.IH [OF _ _ all] Cons.prems by simp
  have new: "b \<notin> set (map fst ps)" and ok: "sim_ok sim"
    using Cons.prems(1,2) p by simp_all
  from fill_one_cases [OF ok one] show ?case
  proof (elim disjE exE conjE)
    assume "rep = None" "sim1 = sim"
    with Cons.prems(3) p one all ok show ?thesis
      using round_ok_Cons [OF rest new, of "[]" sim "(b, sim) # ps1"]
      by (simp add: moved_on_def sim_ok_def)
  next
    fix r assume r: "rep = Some r" "report_for b (sim_order sim) r"
      "sim1 = sim\<lparr>cumulative_filled := cumulative_filled sim + er_filled_quantity r\<rparr>"
      "cumulative_filled sim + er_filled_quantity r \<le> ord_quantity (sim_order sim)"
    then have m: "moved_on [r] (b, sim) = sim1"
      by (simp add: moved_on_def report_for_def)
    have "sim_ok sim1 \<longleftrightarrow> \<not> fully_filled sim1"
      using ok r(2,3) by (auto simp: sim_ok_def fully_filled_def report_for_def)
    with Cons.prems(3) p one all r m show ?thesis
      using round_ok_Cons [OF rest new, of "[r]" sim ps'] by (auto simp: report_for_def)
  qed
qed

section \<open>Histories\<close>

text \<open>
  What callers and the simulation thread do, in any order. The history is the orders accepted so far
  by their broker id and the reports produced so far. A new id is drawn while the 64-bit counter has
  room; the quantities are positive.
\<close>

inductive paper_reach ::
  "(BrokerOrderId \<rightharpoonup> order) \<Rightarrow> execution_report list \<Rightarrow> paper_gateway \<Rightarrow> bool" where
  pr_new: "paper_reach Map.empty [] (new_paper_gateway us ns clk)"
| pr_submit: "paper_reach os rs pg \<Longrightarrow> 0 < ids_left (id_gen pg) \<Longrightarrow> 0 < ord_quantity ord \<Longrightarrow>
     paper_submit_order ord pg = (Inr b, pg') \<Longrightarrow> paper_reach (os(b \<mapsto> ord)) rs pg'"
| pr_submit_rejected: "paper_reach os rs pg \<Longrightarrow> paper_submit_order ord pg = (Inl e, pg') \<Longrightarrow>
     paper_reach os rs pg'"
| pr_cancel: "paper_reach os rs pg \<Longrightarrow> paper_reach os rs (snd (paper_cancel_order b pg))"
| pr_replace: "paper_reach os rs pg \<Longrightarrow> 0 < ids_left (id_gen pg) \<Longrightarrow> 0 < ord_quantity ord \<Longrightarrow>
     paper_replace_order old_b ord pg = (Inr b, pg') \<Longrightarrow> paper_reach (os(b \<mapsto> ord)) rs pg'"
| pr_replace_rejected: "paper_reach os rs pg \<Longrightarrow> paper_replace_order old_b ord pg = (Inl e, pg') \<Longrightarrow>
     paper_reach os rs pg'"
| pr_round: "paper_reach os rs pg \<Longrightarrow> simulate_fills pg = (new, pg') \<Longrightarrow>
     paper_reach os (rs @ new) pg'"
| pr_dispatch: "paper_reach os rs pg \<Longrightarrow> paper_reach os rs (pg\<lparr>dispatcher := d, running := r\<rparr>)"

definition paper_inv ::
  "(BrokerOrderId \<rightharpoonup> order) \<Rightarrow> execution_report list \<Rightarrow> (BrokerOrderId \<times> simulated_order) list
   \<Rightarrow> order_id_generator \<Rightarrow> bool" where
  "paper_inv os rs ps g \<longleftrightarrow>
     distinct (map fst ps)
     \<and> (\<forall>e \<in> set ps. sim_ok (snd e) \<and> os (fst e) = Some (sim_order (snd e))
          \<and> cumulative_filled (snd e) = reported (fst e) rs)
     \<and> (\<forall>b ord. os b = Some ord \<longrightarrow> reported b rs \<le> ord_quantity ord)
     \<and> dom os \<subseteq> issued_ids g
     \<and> (\<forall>r \<in> set rs. \<exists>ord. os (er_broker_order_id r) = Some ord
          \<and> report_for (er_broker_order_id r) ord r)"

lemma paper_inv_unknown:
  assumes "paper_inv os rs ps g" and "os b = None"
  shows "reported b rs = 0"
  by (rule reported_other) (use assms in \<open>force simp: paper_inv_def\<close>)

lemma update_new_key: "k \<notin> set (map fst al) \<Longrightarrow> AList.update k v al = al @ [(k, v)]"
  by (induction al) auto

lemma paper_inv_delete:
  assumes "paper_inv os rs ps g"
  shows "paper_inv os rs (AList.delete b ps) g"
proof -
  have "set (AList.delete b ps) \<subseteq> set ps"
    by (auto simp: AList.delete_eq)
  moreover have "distinct (map fst (AList.delete b ps))"
    using assms by (simp add: paper_inv_def distinct_delete)
  ultimately show ?thesis
    using assms unfolding paper_inv_def by blast
qed

lemma paper_inv_add:
  assumes "paper_inv os rs ps g" and "0 < ids_left g" and "generate t g = (b, g')"
    and "0 < ord_quantity ord"
  shows "paper_inv (os(b \<mapsto> ord)) rs (AList.update b (new_simulated ord price) ps) g'"
proof -
  have fresh: "os b = None"
    using assms(1,3) gid.gen_fresh [OF assms(2), of t] by (auto simp: paper_inv_def)
  have "b \<notin> set (map fst ps)"
    using assms(1) fresh by (force simp: paper_inv_def)
  then have upd: "AList.update b (new_simulated ord price) ps = ps @ [(b, new_simulated ord price)]"
    and "distinct (map fst (ps @ [(b, new_simulated ord price)]))"
    using assms(1) by (simp_all add: update_new_key paper_inv_def)
  moreover have none: "reported b rs = 0"
    using paper_inv_unknown [OF assms(1) fresh] .
  moreover have "\<forall>e \<in> set (ps @ [(b, new_simulated ord price)]). sim_ok (snd e)
      \<and> (os(b \<mapsto> ord)) (fst e) = Some (sim_order (snd e))
      \<and> cumulative_filled (snd e) = reported (fst e) rs"
    using assms(1,4) none \<open>b \<notin> set (map fst ps)\<close>
    by (auto simp: paper_inv_def new_simulated_def sim_ok_def)
  moreover have "dom (os(b \<mapsto> ord)) \<subseteq> issued_ids g'"
    using assms(1,3) gid.gen_issued [OF assms(2), of t] by (auto simp: paper_inv_def)
  moreover have "\<forall>r \<in> set rs. \<exists>ord'. (os(b \<mapsto> ord)) (er_broker_order_id r) = Some ord'
          \<and> report_for (er_broker_order_id r) ord' r"
    using assms(1) fresh by (force simp: paper_inv_def)
  ultimately show ?thesis
    unfolding paper_inv_def upd using assms(1,4) by (auto simp: paper_inv_def)
qed

lemma paper_inv_round:
  assumes "paper_inv os rs ps g" and "round_ok ps ps' new"
  shows "paper_inv os (rs @ new) ps' g"
proof -
  have pend: "\<forall>e \<in> set ps'. sim_ok (snd e) \<and> os (fst e) = Some (sim_order (snd e))
      \<and> cumulative_filled (snd e) = reported (fst e) (rs @ new)"
    using assms by (auto simp: paper_inv_def round_ok_def)
  have "reported b (rs @ new) \<le> ord_quantity ord" if "os b = Some ord" for b ord
  proof (cases "b \<in> set (map fst ps)")
    case True
    then obtain e where e: "e \<in> set ps" "fst e = b" by auto
    from assms(2) have "\<forall>e \<in> set ps. cumulative_filled (moved_on new e) \<le> ord_quantity (sim_order (snd e))"
      unfolding round_ok_def by blast
    with e(1) have "cumulative_filled (moved_on new e) \<le> ord_quantity (sim_order (snd e))" by blast
    with e assms(1) that show ?thesis
      by (auto simp: paper_inv_def)
  next
    case False
    with assms(1) that round_ok_other [OF assms(2) False] show ?thesis
      by (simp add: paper_inv_def)
  qed
  moreover have "\<exists>ord. os (er_broker_order_id r) = Some ord \<and> report_for (er_broker_order_id r) ord r"
    if "r \<in> set (rs @ new)" for r
  proof (cases "r \<in> set rs")
    case True
    with assms(1) show ?thesis by (simp add: paper_inv_def)
  next
    case False
    with that obtain e where "e \<in> set ps" "report_for (fst e) (sim_order (snd e)) r"
      using assms(2) by (auto simp: round_ok_def)
    moreover from this(2) have "fst e = er_broker_order_id r"
      by (simp add: report_for_def)
    ultimately show ?thesis
      using assms(1) by (auto simp: paper_inv_def)
  qed
  ultimately show ?thesis
    using assms pend by (auto simp: paper_inv_def round_ok_def)
qed

lemma simulate_fills_round:
  assumes "distinct (map fst (pending_orders pg))" and "\<forall>e \<in> set (pending_orders pg). sim_ok (snd e)"
    and "simulate_fills pg = (new, pg')"
  shows "round_ok (pending_orders pg) (pending_orders pg') new \<and> id_gen pg' = id_gen pg"
proof -
  obtain ps' rs pg1 where f: "fill_all (pending_orders pg) (advance_prices pg) = (ps', rs, pg1)"
    by (cases "fill_all (pending_orders pg) (advance_prices pg)")
  with assms(3) have "new = rs" "pending_orders pg' = ps'" "id_gen pg' = id_gen pg1"
    by (auto simp: simulate_fills_def Let_def)
  moreover have "id_gen pg1 = id_gen pg"
    using fill_all_frame(2) [of "pending_orders pg" "advance_prices pg"] f by simp
  moreover have "\<forall>(b, sim) \<in> set (pending_orders pg). sim_ok sim"
    using assms(2) by force
  then have "round_ok (pending_orders pg) ps' rs"
    using fill_all_round [OF assms(1) _ f] by simp
  ultimately show ?thesis by simp
qed

lemma paper_inv_reach:
  "paper_reach os rs pg \<Longrightarrow> paper_inv os rs (pending_orders pg) (id_gen pg)"
proof (induction rule: paper_reach.induct)
  case (pr_new us ns clk)
  show ?case by (simp add: paper_inv_def new_paper_gateway_def)
next
  case (pr_submit os rs pg ord b pg')
  obtain t price where a: "generate t (id_gen pg) = (b, id_gen pg')"
    and p: "pending_orders pg' = AList.update b (new_simulated ord price) (pending_orders pg)"
    using pr_submit.hyps(4)
    by (auto simp: paper_submit_order_def pg_generate_def Let_def split_beta split: if_splits)
  show ?case
    unfolding p by (rule paper_inv_add [OF pr_submit.IH pr_submit.hyps(2) a pr_submit.hyps(3)])
next
  case (pr_submit_rejected os rs pg ord e pg')
  then show ?case
    by (auto simp: paper_submit_order_def Let_def split_beta split: if_splits)
next
  case (pr_cancel os rs pg b)
  then show ?case by (simp add: paper_cancel_order_def paper_inv_delete)
next
  case (pr_replace os rs pg ord old_b b pg')
  obtain t price where a: "generate t (id_gen pg) = (b, id_gen pg')"
    and p: "pending_orders pg'
      = AList.update b (new_simulated ord price) (AList.delete old_b (pending_orders pg))"
    using pr_replace.hyps(4)
    by (auto simp: paper_replace_order_def pg_generate_def Let_def split_beta split: if_splits)
  show ?case
    unfolding p
    by (rule paper_inv_add
        [OF paper_inv_delete [OF pr_replace.IH] pr_replace.hyps(2) a pr_replace.hyps(3)])
next
  case (pr_replace_rejected os rs pg old_b ord e pg')
  then show ?case
    by (auto simp: paper_replace_order_def Let_def split_beta split: if_splits)
next
  case (pr_round os rs pg new pg')
  have "round_ok (pending_orders pg) (pending_orders pg') new \<and> id_gen pg' = id_gen pg"
    using pr_round.IH pr_round.hyps(2) by (intro simulate_fills_round) (auto simp: paper_inv_def)
  with paper_inv_round [OF pr_round.IH] show ?case by simp
next
  case (pr_dispatch os rs pg d r)
  then show ?case by simp
qed

section \<open>Properties\<close>

text \<open>A gateway with one order waiting, used by the examples below.\<close>

definition sure_gateway :: paper_gateway where
  "sure_gateway = new_paper_gateway (\<lambda>_. 1 / 2) (\<lambda>_. 0) \<lparr>readings = (\<lambda>_. 0), reads = 0\<rparr>"

definition sample_market_order :: order where
  "sample_market_order =
     \<lparr>ord_id = ''ORD_1'', ord_symbol = ''AAPL'', ord_side = BUY, ord_quantity = 10, ord_price = 0,
      ord_type = MARKET, ord_status = V1_NEW, ord_time_in_force = DAY, ord_account_id = ''ACC'',
      ord_strategy_id = ''S1'', ord_created_at = ''''\<rparr>"

lemma sure_submit:
  "paper_submit_order sample_market_order sure_gateway
   = (Inr (format_order_id ''BROKER'' 0 0), snd (paper_submit_order sample_market_order sure_gateway))"
  by (simp add: op_defs sure_gateway_def new_paper_gateway_def default_config_def Let_def
      sample_market_order_def clock_now_def generate_def mk_generator_def split_beta)

definition sure_id :: BrokerOrderId where "sure_id = format_order_id ''BROKER'' 0 0"

definition sure_pending :: paper_gateway where
  "sure_pending = snd (paper_submit_order sample_market_order sure_gateway)"

lemma sure_reach: "paper_reach [sure_id \<mapsto> sample_market_order] [] sure_pending"
  unfolding sure_id_def sure_pending_def
  by (rule pr_submit [OF pr_new _ _ sure_submit [unfolded sure_gateway_def],
        folded sure_gateway_def])
    (simp_all add: sure_gateway_def new_paper_gateway_def ids_left_def mk_generator_def
      sample_market_order_def)

lemma sure_fills: "fst (simulate_fills sure_pending) \<noteq> []"
  by (simp add: sure_pending_def simulate_fills_def op_defs sure_gateway_def new_paper_gateway_def
      default_config_def sample_market_order_def clock_now_def generate_def mk_generator_def
      fill_one_def limit_blocked_def fill_quantity_def split_beta Let_def fully_filled_def)

lemma sure_waits: "sure_id \<in> set (map fst (pending_orders sure_pending))"
  by (simp add: sure_pending_def sure_id_def op_defs sure_gateway_def new_paper_gateway_def
      default_config_def sample_market_order_def clock_now_def generate_def mk_generator_def
      split_beta Let_def)

lemma sure_priced: "map_of (prices sure_pending) ''AAPL'' \<noteq> None"
  by (simp add: sure_pending_def op_defs sure_gateway_def new_paper_gateway_def default_config_def
      Let_def sample_market_order_def clock_now_def generate_def mk_generator_def split_beta)

text \<open>
  C37. The simulated broker never overfills: in every history, with any random draws, the quantities
  reported for an order add up to at most its quantity, each single one is positive, and every
  report names an accepted order with that order's symbol and side. An order that is still pending
  has strictly less reported than its quantity.
\<close>

theorem paper_never_overfills:
  assumes "paper_reach os rs pg"
  shows "(\<forall>b ord. os b = Some ord \<longrightarrow> reported b rs \<le> ord_quantity ord)
       \<and> (\<forall>r \<in> set rs. 0 < er_filled_quantity r \<and> (\<exists>ord. os (er_broker_order_id r) = Some ord
            \<and> er_symbol r = ord_symbol ord \<and> er_side r = ord_side ord))
       \<and> (\<forall>b ord. os b = Some ord \<and> b \<in> set (map fst (pending_orders pg)) \<longrightarrow>
            reported b rs < ord_quantity ord)"
  using paper_inv_reach [OF assms]
  by (force simp: paper_inv_def report_for_def sim_ok_def)

text \<open>A gateway whose draws always accept and always fill the rest.\<close>

theorem paper_never_overfills_witness:
  "\<exists>b rs pg. paper_reach [b \<mapsto> sample_market_order] rs pg \<and> rs \<noteq> [] \<and> reported b rs \<le> 10"
proof -
  from pr_round [OF sure_reach] have r: "paper_reach [sure_id \<mapsto> sample_market_order]
      (fst (simulate_fills sure_pending)) (snd (simulate_fills sure_pending))"
    by simp
  have "reported sure_id (fst (simulate_fills sure_pending)) \<le> ord_quantity sample_market_order"
    using paper_never_overfills [OF r] by simp
  then have "reported sure_id (fst (simulate_fills sure_pending)) \<le> 10"
    by (simp add: sample_market_order_def)
  with r sure_fills show ?thesis by blast
qed

text \<open>Rounds of the simulation thread, with the reports of all of them.\<close>

primrec paper_rounds :: "nat \<Rightarrow> paper_gateway \<Rightarrow> execution_report list \<times> paper_gateway" where
  "paper_rounds 0 pg = ([], pg)"
| "paper_rounds (Suc n) pg =
     (let (rs, pg) = simulate_fills pg; (rs', pg) = paper_rounds n pg in (rs @ rs', pg))"

lemma paper_rounds_none:
  "distinct (map fst (pending_orders pg)) \<Longrightarrow> \<forall>e \<in> set (pending_orders pg). sim_ok (snd e) \<Longrightarrow>
   b \<notin> set (map fst (pending_orders pg)) \<Longrightarrow>
   \<forall>r \<in> set (fst (paper_rounds n pg)). er_broker_order_id r \<noteq> b"
proof (induction n arbitrary: pg)
  case 0
  then show ?case by simp
next
  case (Suc n)
  obtain rs pg1 where one: "simulate_fills pg = (rs, pg1)"
    by (cases "simulate_fills pg")
  have round: "round_ok (pending_orders pg) (pending_orders pg1) rs"
    using simulate_fills_round [OF Suc.prems(1,2) one] ..
  have "er_broker_order_id r \<noteq> b" if r: "r \<in> set rs" for r
  proof -
    obtain e where "e \<in> set (pending_orders pg)" "report_for (fst e) (sim_order (snd e)) r"
      using round r unfolding round_ok_def by blast
    with Suc.prems(3) show ?thesis by (auto simp: report_for_def)
  qed
  moreover have "\<forall>r \<in> set (fst (paper_rounds n pg1)). er_broker_order_id r \<noteq> b"
  proof (rule Suc.IH)
    show "distinct (map fst (pending_orders pg1))"
      using round by (simp add: round_ok_def)
    show "\<forall>e \<in> set (pending_orders pg1). sim_ok (snd e)"
      using round by (auto simp: round_ok_def)
    show "b \<notin> set (map fst (pending_orders pg1))"
      using round_ok_keys [OF round] Suc.prems(3) by blast
  qed
  ultimately show ?case
    by (auto simp: one split_beta)
qed

text \<open>
  A cancel is final: after the simulated broker has accepted it, none of the following rounds,
  however many and whatever the draws, reports a fill for that order.
\<close>

theorem paper_cancel_is_final:
  assumes "paper_reach os rs pg"
  shows "fst (paper_cancel_order b pg) = Inr ()
       \<and> (\<forall>r \<in> set (fst (paper_rounds n (snd (paper_cancel_order b pg)))).
            er_broker_order_id r \<noteq> b)"
proof -
  let ?pg = "snd (paper_cancel_order b pg)"
  have inv: "paper_inv os rs (pending_orders ?pg) (id_gen ?pg)"
    by (rule paper_inv_reach [OF pr_cancel [OF assms]])
  have "b \<notin> set (map fst (pending_orders ?pg))"
    by (auto simp: paper_cancel_order_def AList.delete_eq)
  with inv paper_rounds_none [of ?pg b n] show ?thesis
    by (simp add: paper_inv_def paper_cancel_order_def)
qed

theorem paper_cancel_is_final_witness:
  "sure_id \<in> set (map fst (pending_orders sure_pending))
   \<and> fst (simulate_fills sure_pending) \<noteq> []
   \<and> list_all (\<lambda>r. er_broker_order_id r \<noteq> sure_id)
       (fst (paper_rounds 5 (snd (paper_cancel_order sure_id sure_pending))))"
  using paper_cancel_is_final [OF sure_reach, of sure_id 5] sure_waits sure_fills
  by (simp add: list_all_iff)

section \<open>Prices\<close>

definition spread_ok :: "price_state \<Rightarrow> bool" where
  "spread_ok ps \<longleftrightarrow> 0 < ps_bid ps \<and> ps_bid ps < ps_ask ps \<and> ps_ask ps < 2 * ps_bid ps"

definition prices_ok :: "(Symbol \<times> price_state) list \<Rightarrow> bool" where
  "prices_ok al \<longleftrightarrow> (\<forall>p \<in> set al. spread_ok (snd p))"

lemma set_AList_update: "set (AList.update k v al) \<subseteq> insert (k, v) (set al)"
  by (induction al) auto

lemma prices_ok_init:
  assumes "prices_ok (prices pg)" and "0 < initial_price (config pg)"
  shows "prices_ok (prices (snd (get_or_init_price s pg)))"
  using assms set_AList_update [of s _ "prices pg"]
  by (fastforce simp: get_or_init_price_def prices_ok_def spread_ok_def Let_def split: option.split)

lemma advance_price_ok: "spread_ok (advance_price v n ps)"
proof -
  define m where "m = max (mid_price ps + mid_price ps * v * n) 0.01"
  have "0 < m" by (simp add: m_def)
  then show ?thesis
    by (simp add: advance_price_def spread_ok_def Let_def m_def [symmetric])
qed

lemma prices_ok_advance: "prices_ok (fst (advance_all ps pg))"
proof (induction ps arbitrary: pg)
  case Nil
  then show ?case by (simp add: prices_ok_def)
next
  case (Cons p ps)
  then show ?case
    by (cases p) (simp add: prices_ok_def Let_def split_beta advance_price_ok)
qed

lemma prices_ok_fill_one:
  "prices_ok (prices pg) \<Longrightarrow> 0 < initial_price (config pg) \<Longrightarrow>
   prices_ok (prices (snd (snd (fill_one b sim pg))))"
  using prices_ok_init [of pg]
  by (simp add: fill_one_def Let_def split_beta)

lemma prices_ok_fill_all:
  "prices_ok (prices pg) \<Longrightarrow> 0 < initial_price (config pg) \<Longrightarrow>
   prices_ok (prices (snd (snd (fill_all ps pg))))"
proof (induction ps arbitrary: pg)
  case Nil
  then show ?case by simp
next
  case (Cons p ps)
  have "prices_ok (prices (snd (snd (fill_all ps (snd (snd (fill_one (fst p) (snd p) pg)))))))"
    by (rule Cons.IH) (simp_all add: Cons.prems prices_ok_fill_one)
  then show ?case
    by (cases p) (simp add: Let_def split_beta split: option.split)
qed

lemma paper_prices_reach:
  "paper_reach os rs pg \<Longrightarrow> config pg = default_config \<and> prices_ok (prices pg)"
proof (induction rule: paper_reach.induct)
  case (pr_new us ns clk)
  show ?case by (simp add: new_paper_gateway_def prices_ok_def)
next
  case (pr_submit os rs pg ord b pg')
  then show ?case
    by (auto simp: paper_submit_order_def pg_generate_def default_config_def Let_def split_beta
        intro!: prices_ok_init split: if_splits)
next
  case (pr_submit_rejected os rs pg ord e pg')
  then show ?case
    by (auto simp: paper_submit_order_def Let_def split_beta split: if_splits)
next
  case (pr_cancel os rs pg b)
  then show ?case by (simp add: paper_cancel_order_def)
next
  case (pr_replace os rs pg ord old_b b pg')
  then show ?case
    by (auto simp: paper_replace_order_def pg_generate_def default_config_def Let_def split_beta
        intro!: prices_ok_init split: if_splits)
next
  case (pr_replace_rejected os rs pg old_b ord e pg')
  then show ?case
    by (auto simp: paper_replace_order_def Let_def split_beta split: if_splits)
next
  case (pr_round os rs pg new pg')
  have "prices_ok (prices (advance_prices pg))" "config (advance_prices pg) = default_config"
    using pr_round.IH by (simp_all add: advance_prices_def prices_ok_advance split_beta)
  then have "prices_ok (prices (snd (snd (fill_all (pending_orders pg) (advance_prices pg)))))"
    by (intro prices_ok_fill_all) (simp_all add: default_config_def)
  with pr_round show ?case
    by (auto simp: simulate_fills_def Let_def split_beta)
next
  case (pr_dispatch os rs pg d r)
  then show ?case by simp
qed

text \<open>
  Simulated prices stay sane: in every history, whatever the random shocks, each symbol has
  \<open>0 < bid < ask\<close>; a market buy fills above the ask and a market sell below the bid but above zero,
  and a limit order only fills when the market has reached its limit.
\<close>

theorem paper_prices_sane:
  assumes "paper_reach os rs pg" and "map_of (prices pg) s = Some ps"
  shows "0 < ps_bid ps \<and> ps_bid ps < ps_ask ps
       \<and> (ord_type ord \<noteq> LIMIT \<longrightarrow>
            (if ord_side ord = BUY then ps_ask ps < fill_price ord ps (config pg)
             else 0 < fill_price ord ps (config pg) \<and> fill_price ord ps (config pg) < ps_bid ps))
       \<and> (ord_type ord = LIMIT \<and> \<not> limit_blocked ord ps \<longrightarrow>
            (if ord_side ord = BUY then ps_ask ps \<le> fill_price ord ps (config pg)
             else ord_side ord = SELL \<and> fill_price ord ps (config pg) \<le> ps_bid ps))"
proof -
  have cfg: "config pg = default_config" and p: "spread_ok ps"
    using paper_prices_reach [OF assms(1)] map_of_SomeD [OF assms(2)]
    by (force simp: prices_ok_def)+
  have "slippage_bps (config pg) = 5"
    by (simp add: cfg default_config_def)
  with p show ?thesis
    by (auto simp: spread_ok_def fill_price_def mid_price_def limit_blocked_def Let_def field_simps)
qed

theorem paper_prices_sane_witness:
  "\<exists>(pg :: paper_gateway) ps. map_of (prices pg) ''AAPL'' = Some ps \<and> 0 < ps_bid ps \<and> ps_bid ps < ps_ask ps
     \<and> ps_ask ps < fill_price sample_market_order ps (config pg)"
proof -
  from sure_priced obtain ps where ps: "map_of (prices sure_pending) ''AAPL'' = Some ps" by blast
  moreover have "ord_type sample_market_order \<noteq> LIMIT" "ord_side sample_market_order = BUY"
    by (simp_all add: sample_market_order_def)
  ultimately have "0 < ps_bid ps \<and> ps_bid ps < ps_ask ps
      \<and> ps_ask ps < fill_price sample_market_order ps (config sure_pending)"
    using paper_prices_sane [OF sure_reach, of "''AAPL''" ps sample_market_order] by simp
  with ps show ?thesis by blast
qed

end
