(* ===== verification/SimulatedFeed.thy ===== *)
theory SimulatedFeed
  imports
    Protos
    "HOL-Library.Product_Lexorder"
begin

text \<open>
  \<open>gateways/simulated_feed.cpp\<close>: periods of bars, the accumulation of ticks into bars, the
  subscriptions, and one round of the emitting thread. A \<open>std::map\<close> that is iterated is an association
  list kept sorted by its keys. An exception is \<open>Inl\<close> of its text, with the state it leaves behind;
  an integer division by zero, which kills the process, is \<open>None\<close>.
\<close>

section \<open>Periods\<close>

definition seconds_ns :: int where "seconds_ns = 1000000000"

text \<open>
  The conversions to nanoseconds multiply the \<open>int\<close> amount in the 64-bit representation of
  \<open>std::chrono::nanoseconds\<close>.
\<close>

definition unit_ns :: "char \<Rightarrow> int option" where
  "unit_ns c =
     (if c = CHR ''s'' then Some seconds_ns
      else if c = CHR ''m'' then Some (60 * seconds_ns)
      else if c = CHR ''h'' then Some (3600 * seconds_ns)
      else if c = CHR ''d'' then Some (86400 * seconds_ns)
      else None)"

definition period_to_ns :: "BarPeriod \<Rightarrow> string + int" where
  "period_to_ns p =
     (if length p < 2 then Inl ''Invalid BarPeriod''
      else case str_to_int (butlast p) of
             None \<Rightarrow> Inl ''Invalid BarPeriod''
           | Some n \<Rightarrow>
               if n \<le> 0 then Inl ''Invalid BarPeriod''
               else (case unit_ns (last p) of
                       None \<Rightarrow> Inl ''Invalid BarPeriod''
                     | Some u \<Rightarrow> Inr (wrap64 (n * u))))"

definition align_to_period_start :: "int \<Rightarrow> int \<Rightarrow> int option" where
  "align_to_period_start ts period =
     (if period = 0 then None else Some (cpp_div ts period * period))"

section \<open>Accumulating bars\<close>

record bar_accumulator =
  acc_bar :: bar
  bar_start_ns :: int
  vwap_notional :: double
  vwap_volume :: double
  period_ns :: int

definition empty_bar :: bar where
  "empty_bar = \<lparr>bar_symbol = '''', bar_period = '''', bar_open = 0, bar_high = 0, bar_low = 0,
     bar_close = 0, bar_volume = 0, bar_vwap = 0, bar_ts_ns = 0, bar_ts_recv_ns = 0\<rparr>"

definition new_accumulator :: bar_accumulator where
  "new_accumulator = \<lparr>acc_bar = empty_bar, bar_start_ns = 0, vwap_notional = 0, vwap_volume = 0,
     period_ns = 0\<rparr>"

definition start_bar ::
  "bar_accumulator \<Rightarrow> Symbol \<Rightarrow> BarPeriod \<Rightarrow> tick \<Rightarrow> bar_accumulator option" where
  "start_bar acc symbol period t =
     (case align_to_period_start (tick_ts_ns t) (period_ns acc) of
        None \<Rightarrow> None
      | Some start \<Rightarrow>
          Some (acc\<lparr>bar_start_ns := start,
                    vwap_notional := tick_last t * tick_last_size t,
                    vwap_volume := tick_last_size t,
                    acc_bar :=
                      \<lparr>bar_symbol = symbol, bar_period = period, bar_open = tick_last t,
                       bar_high = tick_last t, bar_low = tick_last t, bar_close = tick_last t,
                       bar_volume = tick_last_size t, bar_vwap = tick_last t, bar_ts_ns = start,
                       bar_ts_recv_ns = tick_ts_recv_ns t\<rparr>\<rparr>))"

definition update_bar :: "bar_accumulator \<Rightarrow> tick \<Rightarrow> bar_accumulator" where
  "update_bar acc t =
     (let b = acc_bar acc;
          notional = vwap_notional acc + tick_last t * tick_last_size t;
          vol = vwap_volume acc + tick_last_size t
      in acc\<lparr>vwap_notional := notional, vwap_volume := vol,
             acc_bar := b\<lparr>bar_high := max (bar_high b) (tick_last t),
                         bar_low := min (bar_low b) (tick_last t),
                         bar_close := tick_last t,
                         bar_volume := bar_volume b + tick_last_size t,
                         bar_vwap := (if vol > 0 then notional / vol else bar_vwap b),
                         bar_ts_recv_ns := tick_ts_recv_ns t\<rparr>\<rparr>)"

text \<open>What a tick of its symbol does to an accumulator: the completed bar, if any, comes first.\<close>

definition acc_step ::
  "Symbol \<Rightarrow> BarPeriod \<Rightarrow> bar_accumulator \<Rightarrow> tick \<Rightarrow> (bar list \<times> bar_accumulator) option" where
  "acc_step symbol period acc t =
     (if bar_start_ns acc = 0
      then map_option (\<lambda>a. ([], a)) (start_bar acc symbol period t)
      else if tick_ts_ns t \<ge> bar_start_ns acc + period_ns acc
      then map_option (\<lambda>a. ([acc_bar acc], a)) (start_bar acc symbol period t)
      else Some ([], update_bar acc t))"

section \<open>Subscriptions\<close>

type_synonym bar_key = "Symbol \<times> BarPeriod"

record sim_feed =
  feed_symbols :: "Symbol list"
  tick_subscriptions :: "Symbol \<rightharpoonup> int"
  bar_subscriptions :: "(bar_key \<times> int) list"
  accumulators :: "(bar_key \<times> bar_accumulator) list"

definition new_feed :: sim_feed where
  "new_feed = \<lparr>feed_symbols = [], tick_subscriptions = Map.empty, bar_subscriptions = [],
     accumulators = []\<rparr>"

text \<open>\<open>try_emplace\<close> of a sorted map: the new entry goes to its place; an old one stays.\<close>

fun emplace :: "('k :: linorder) \<Rightarrow> 'v \<Rightarrow> ('k \<times> 'v) list \<Rightarrow> ('k \<times> 'v) list" where
  "emplace k v [] = [(k, v)]"
| "emplace k v ((k', v') # al) =
     (if k = k' then (k', v') # al
      else if k < k' then (k, v) # (k', v') # al
      else (k', v') # emplace k v al)"

definition bump :: "'k \<Rightarrow> ('k \<times> int) list \<Rightarrow> ('k \<times> int) list" where
  "bump k al = AList.update k ((case map_of al k of None \<Rightarrow> 0 | Some n \<Rightarrow> n) + 1) al"

definition subscribe ::
  "Symbol \<Rightarrow> BarPeriod option \<Rightarrow> sim_feed \<Rightarrow> (string + unit) \<times> sim_feed" where
  "subscribe symbol period f =
     (let f = (if symbol \<in> set (feed_symbols f) then f
               else f\<lparr>feed_symbols := feed_symbols f @ [symbol]\<rparr>)
      in case period of
           Some p \<Rightarrow>
             (let key = (symbol, p);
                  f = f\<lparr>bar_subscriptions := bump key (bar_subscriptions f)\<rparr>
              in if map_of (accumulators f) key \<noteq> None then (Inr (), f)
                 else (case period_to_ns p of
                         Inl err \<Rightarrow>
                           (Inl err, f\<lparr>accumulators := emplace key new_accumulator (accumulators f)\<rparr>)
                       | Inr ns \<Rightarrow>
                           (Inr (), f\<lparr>accumulators :=
                              emplace key (new_accumulator\<lparr>period_ns := ns\<rparr>) (accumulators f)\<rparr>)))
         | None \<Rightarrow>
             (Inr (), f\<lparr>tick_subscriptions := (tick_subscriptions f)
                (symbol \<mapsto> (case tick_subscriptions f symbol of None \<Rightarrow> 0 | Some n \<Rightarrow> n) + 1)\<rparr>))"

definition drop_bar_sub :: "bar_key \<Rightarrow> sim_feed \<Rightarrow> sim_feed" where
  "drop_bar_sub key f =
     (case map_of (bar_subscriptions f) key of
        None \<Rightarrow> f
      | Some n \<Rightarrow>
          if n - 1 = 0
          then f\<lparr>bar_subscriptions := AList.delete key (bar_subscriptions f),
                 accumulators := AList.delete key (accumulators f)\<rparr>
          else f\<lparr>bar_subscriptions := AList.update key (n - 1) (bar_subscriptions f)\<rparr>)"

definition drop_tick_sub :: "Symbol \<Rightarrow> sim_feed \<Rightarrow> sim_feed" where
  "drop_tick_sub symbol f =
     (case tick_subscriptions f symbol of
        None \<Rightarrow> f
      | Some n \<Rightarrow>
          if n - 1 = 0 then f\<lparr>tick_subscriptions := (tick_subscriptions f)(symbol := None)\<rparr>
          else f\<lparr>tick_subscriptions := (tick_subscriptions f)(symbol \<mapsto> n - 1)\<rparr>)"

definition unsubscribe :: "Symbol \<Rightarrow> BarPeriod option \<Rightarrow> sim_feed \<Rightarrow> sim_feed" where
  "unsubscribe symbol period f =
     (let f = (case period of Some p \<Rightarrow> drop_bar_sub (symbol, p) f | None \<Rightarrow> drop_tick_sub symbol f);
          still_has_bar_subs = list_ex (\<lambda>e. fst (fst e) = symbol) (bar_subscriptions f);
          still_has_tick_subs = (tick_subscriptions f symbol \<noteq> None)
      in if \<not> still_has_bar_subs \<and> \<not> still_has_tick_subs
         then f\<lparr>feed_symbols := removeAll symbol (feed_symbols f)\<rparr> else f)"

section \<open>The emitting thread\<close>

text \<open>A tick goes through the accumulators in the order of their keys.\<close>

fun step_accumulators ::
  "tick \<Rightarrow> (bar_key \<times> bar_accumulator) list
   \<Rightarrow> (bar list \<times> (bar_key \<times> bar_accumulator) list) option" where
  "step_accumulators t [] = Some ([], [])"
| "step_accumulators t ((key, acc) # rest) =
     (if fst key \<noteq> tick_symbol t
      then map_option (\<lambda>(bs, rest'). (bs, (key, acc) # rest')) (step_accumulators t rest)
      else case acc_step (fst key) (snd key) acc t of
             None \<Rightarrow> None
           | Some (bs, acc') \<Rightarrow>
               map_option (\<lambda>(bs', rest'). (bs @ bs', (key, acc') # rest'))
                 (step_accumulators t rest))"

definition next_price :: "double \<Rightarrow> double option \<Rightarrow> double" where
  "next_price noise old =
     (let price = (case old of None \<Rightarrow> 0 | Some p \<Rightarrow> p);
          price = (if price = 0 then 100 else price);
          price = price + noise
      in if price < 1 then 1 else price)"

definition make_tick :: "Symbol \<Rightarrow> double \<Rightarrow> int \<Rightarrow> tick" where
  "make_tick symb price now =
     \<lparr>tick_symbol = symb, tick_bid = price - 0.01, tick_ask = price + 0.01, tick_last = price,
      tick_bid_size = 100, tick_ask_size = 100, tick_last_size = 100, tick_ts_ns = now,
      tick_ts_recv_ns = now\<rparr>"

text \<open>
  One round over a copy of the symbols and tick subscriptions, taken at its start. The result lists
  the handler calls in their order: for each symbol its tick, then its completed bars.
\<close>

datatype feed_output = Out_tick tick | Out_bar bar

fun emit_symbols ::
  "bool \<Rightarrow> bool \<Rightarrow> int \<Rightarrow> (Symbol \<rightharpoonup> int) \<Rightarrow> (nat \<Rightarrow> double) \<Rightarrow> Symbol list
   \<Rightarrow> (Symbol \<rightharpoonup> double) \<Rightarrow> sim_feed
   \<Rightarrow> (feed_output list \<times> (Symbol \<rightharpoonup> double) \<times> sim_feed) option" where
  "emit_symbols has_tick has_bar now tsubs noise [] prices f = Some ([], prices, f)"
| "emit_symbols has_tick has_bar now tsubs noise (symb # symbs) prices f =
     (let price = next_price (noise 0) (prices symb);
          t = make_tick symb price now
      in case step_accumulators t (accumulators f) of
           None \<Rightarrow> None
         | Some (bars, accs) \<Rightarrow>
             map_option
               (\<lambda>(out, prices', f').
                  ((if has_tick \<and> tsubs symb \<noteq> None then [Out_tick t] else [])
                   @ (if has_bar then map Out_bar bars else []) @ out, prices', f'))
               (emit_symbols has_tick has_bar now tsubs (\<lambda>n. noise (Suc n)) symbs
                  (prices(symb \<mapsto> price)) (f\<lparr>accumulators := accs\<rparr>)))"

definition emit_round ::
  "bool \<Rightarrow> bool \<Rightarrow> int \<Rightarrow> (nat \<Rightarrow> double) \<Rightarrow> (Symbol \<rightharpoonup> double) \<Rightarrow> sim_feed
   \<Rightarrow> (feed_output list \<times> (Symbol \<rightharpoonup> double) \<times> sim_feed) option" where
  "emit_round has_tick has_bar now noise prices f =
     emit_symbols has_tick has_bar now (tick_subscriptions f) noise (feed_symbols f) prices f"

section \<open>Bars and ticks\<close>

text \<open>What a bar over a non-empty list of ticks is: the usual summary of their prices.\<close>

definition tick_notional :: "tick \<Rightarrow> double" where
  "tick_notional t = tick_last t * tick_last_size t"

definition total_size :: "tick list \<Rightarrow> double" where
  "total_size seg = (\<Sum>x\<leftarrow>seg. tick_last_size x)"

definition total_notional :: "tick list \<Rightarrow> double" where
  "total_notional seg = (\<Sum>x\<leftarrow>seg. tick_notional x)"

definition bar_summary :: "bar \<Rightarrow> tick list \<Rightarrow> bool" where
  "bar_summary b seg \<longleftrightarrow>
     bar_open b = tick_last (hd seg) \<and> bar_close b = tick_last (last seg)
     \<and> bar_high b = Max (tick_last ` set seg) \<and> bar_low b = Min (tick_last ` set seg)
     \<and> bar_volume b = total_size seg \<and> bar_vwap b = total_notional seg / total_size seg"

definition in_window :: "int \<Rightarrow> bar \<Rightarrow> tick list \<Rightarrow> bool" where
  "in_window period b seg \<longleftrightarrow>
     period dvd bar_ts_ns b
     \<and> (\<forall>t \<in> set seg. bar_ts_ns b \<le> tick_ts_ns t \<and> tick_ts_ns t < bar_ts_ns b + period)"

definition bar_for :: "Symbol \<Rightarrow> BarPeriod \<Rightarrow> int \<Rightarrow> bar \<Rightarrow> tick list \<Rightarrow> bool" where
  "bar_for s p period b seg \<longleftrightarrow>
     seg \<noteq> [] \<and> bar_symbol b = s \<and> bar_period b = p \<and> bar_summary b seg \<and> in_window period b seg"

fun acc_run ::
  "Symbol \<Rightarrow> BarPeriod \<Rightarrow> bar_accumulator \<Rightarrow> tick list \<Rightarrow> (bar list \<times> bar_accumulator) option" where
  "acc_run s p acc [] = Some ([], acc)"
| "acc_run s p acc (t # ts) =
     (case acc_step s p acc t of
        None \<Rightarrow> None
      | Some (bs, acc') \<Rightarrow> map_option (\<lambda>(bs', acc''). (bs @ bs', acc'')) (acc_run s p acc' ts))"

text \<open>The accumulator holds the bar of the last ticks, and the running totals of its average.\<close>

definition acc_for :: "Symbol \<Rightarrow> BarPeriod \<Rightarrow> int \<Rightarrow> bar_accumulator \<Rightarrow> tick list \<Rightarrow> bool" where
  "acc_for s p period acc seg \<longleftrightarrow>
     bar_for s p period (acc_bar acc) seg \<and> period_ns acc = period
     \<and> bar_start_ns acc = bar_ts_ns (acc_bar acc) \<and> 0 < bar_start_ns acc
     \<and> vwap_volume acc = total_size seg \<and> vwap_notional acc = total_notional seg"

lemma start_bar_for:
  assumes "0 < period" and "period \<le> tick_ts_ns t" and "period_ns acc = period"
    and "0 < tick_last_size t"
  shows "\<exists>acc'. start_bar acc s p t = Some acc' \<and> acc_for s p period acc' [t]
       \<and> bar_ts_ns (acc_bar acc') = tick_ts_ns t div period * period"
proof -
  have "0 \<le> tick_ts_ns t" using assms(1,2) by simp
  moreover have "tick_ts_ns t div period * period \<le> tick_ts_ns t"
    using assms(1) by (simp add: times_div_less_eq_dividend minus_mod_eq_div_mult [symmetric])
  moreover have "tick_ts_ns t < tick_ts_ns t div period * period + period"
    using assms(1) pos_mod_bound [of period "tick_ts_ns t"] div_mult_mod_eq [of "tick_ts_ns t" period]
    by linarith
  moreover have "0 < tick_ts_ns t div period"
    using assms(1,2) by (simp add: pos_imp_zdiv_pos_iff)
  ultimately show ?thesis
    using assms
    by (simp add: start_bar_def align_to_period_start_def acc_for_def bar_for_def bar_summary_def
        in_window_def total_size_def total_notional_def tick_notional_def)
qed

lemma total_size_pos: "seg \<noteq> [] \<Longrightarrow> \<forall>x \<in> set seg. 0 < tick_last_size x \<Longrightarrow> 0 < total_size seg"
proof (induction seg)
  case Nil
  then show ?case by simp
next
  case (Cons x seg)
  then show ?case by (cases "seg = []") (auto simp: total_size_def)
qed

lemma Max_Min_snoc:
  fixes f :: "'a \<Rightarrow> real"
  assumes "seg \<noteq> []"
  shows "Max (f ` set (seg @ [u])) = max (Max (f ` set seg)) (f u)"
    and "Min (f ` set (seg @ [u])) = min (Min (f ` set seg)) (f u)"
proof -
  have "f ` set (seg @ [u]) = insert (f u) (f ` set seg)" by auto
  then show "Max (f ` set (seg @ [u])) = max (Max (f ` set seg)) (f u)"
    and "Min (f ` set (seg @ [u])) = min (Min (f ` set seg)) (f u)"
    using assms by (simp_all add: max.commute min.commute)
qed

lemma update_bar_for:
  assumes "acc_for s p period acc seg" and "\<forall>x \<in> set (seg @ [u]). 0 < tick_last_size x"
    and "bar_start_ns acc \<le> tick_ts_ns u" and "tick_ts_ns u < bar_start_ns acc + period"
  shows "acc_for s p period (update_bar acc u) (seg @ [u])
       \<and> bar_ts_ns (acc_bar (update_bar acc u)) = bar_ts_ns (acc_bar acc)"
proof -
  let ?b = "acc_bar (update_bar acc u)"
  have old: "seg \<noteq> []" "bar_summary (acc_bar acc) seg" "in_window period (acc_bar acc) seg"
    "bar_symbol (acc_bar acc) = s" "bar_period (acc_bar acc) = p" "period_ns acc = period"
    "bar_start_ns acc = bar_ts_ns (acc_bar acc)" "0 < bar_start_ns acc"
    "vwap_volume acc = total_size seg" "vwap_notional acc = total_notional seg"
    using assms(1) unfolding acc_for_def bar_for_def by blast+
  have pos: "0 < total_size (seg @ [u])"
    using assms(2) by (intro total_size_pos) simp_all
  have sums: "total_size (seg @ [u]) = total_size seg + tick_last_size u"
    "total_notional (seg @ [u]) = total_notional seg + tick_last u * tick_last_size u"
    by (simp_all add: total_size_def total_notional_def tick_notional_def)
  have new: "bar_symbol ?b = s" "bar_period ?b = p" "bar_open ?b = bar_open (acc_bar acc)"
    "bar_close ?b = tick_last u" "bar_high ?b = max (bar_high (acc_bar acc)) (tick_last u)"
    "bar_low ?b = min (bar_low (acc_bar acc)) (tick_last u)"
    "bar_volume ?b = bar_volume (acc_bar acc) + tick_last_size u"
    "bar_ts_ns ?b = bar_ts_ns (acc_bar acc)" "period_ns (update_bar acc u) = period"
    "bar_start_ns (update_bar acc u) = bar_start_ns acc"
    "vwap_volume (update_bar acc u) = total_size (seg @ [u])"
    "vwap_notional (update_bar acc u) = total_notional (seg @ [u])"
    using old by (simp_all add: update_bar_def Let_def sums)
  have vwap: "bar_vwap ?b = total_notional (seg @ [u]) / total_size (seg @ [u])"
    using old(9,10) pos by (simp add: update_bar_def Let_def sums)
  have "bar_summary ?b (seg @ [u])"
    unfolding bar_summary_def Max_Min_snoc [OF old(1)] new vwap sums(1)
    using old(1,2) by (simp add: bar_summary_def)
  moreover have "in_window period ?b (seg @ [u])"
    using old(3,7) assms(3,4) by (simp add: in_window_def new)
  ultimately show ?thesis
    unfolding acc_for_def bar_for_def new using old by simp
qed

text \<open>
  The bars so far and the current one cover the ticks so far, segment by segment, in windows that
  follow each other.
\<close>

definition covered ::
  "Symbol \<Rightarrow> BarPeriod \<Rightarrow> int \<Rightarrow> tick list \<Rightarrow> bar list \<Rightarrow> bar_accumulator \<Rightarrow> bool" where
  "covered s p period ts bars acc \<longleftrightarrow>
     (\<exists>segs seg. concat segs @ seg = ts \<and> list_all2 (bar_for s p period) bars segs
        \<and> acc_for s p period acc seg
        \<and> sorted_wrt (\<lambda>a b. bar_ts_ns a + period \<le> bar_ts_ns b) (bars @ [acc_bar acc]))"

lemma covered_step:
  assumes "0 < period" and "covered s p period ts bars acc"
    and "\<forall>x \<in> set (ts @ [u]). 0 < tick_last_size x \<and> period \<le> tick_ts_ns x"
    and "\<forall>x \<in> set ts. tick_ts_ns x \<le> tick_ts_ns u"
  shows "\<exists>bs acc'. acc_step s p acc u = Some (bs, acc') \<and> covered s p period (ts @ [u]) (bars @ bs) acc'"
proof -
  obtain segs seg where c: "concat segs @ seg = ts" "list_all2 (bar_for s p period) bars segs"
    "acc_for s p period acc seg"
    "sorted_wrt (\<lambda>a b. bar_ts_ns a + period \<le> bar_ts_ns b) (bars @ [acc_bar acc])"
    using assms(2) by (auto simp: covered_def)
  have ne: "seg \<noteq> []" and start: "bar_start_ns acc = bar_ts_ns (acc_bar acc)" "0 < bar_start_ns acc"
    and per: "period_ns acc = period" and dvd: "period dvd bar_start_ns acc"
    using c(3) by (simp_all add: acc_for_def bar_for_def in_window_def)
  have last: "last seg \<in> set seg" "last seg \<in> set ts" using ne c(1) by auto
  have "in_window period (acc_bar acc) seg"
    using c(3) by (simp add: acc_for_def bar_for_def)
  with last start(1) have "bar_start_ns acc \<le> tick_ts_ns (last seg)"
    by (simp add: in_window_def)
  with last(2) assms(4) have low: "bar_start_ns acc \<le> tick_ts_ns u"
    by fastforce
  show ?thesis
  proof (cases "tick_ts_ns u \<ge> bar_start_ns acc + period")
    case True
    obtain acc' where new: "start_bar acc s p u = Some acc'" "acc_for s p period acc' [u]"
      "bar_ts_ns (acc_bar acc') = tick_ts_ns u div period * period"
      using start_bar_for [OF assms(1) _ per, of u s p] assms(3) by auto
    obtain k where k: "bar_start_ns acc = period * k" using dvd by (auto elim: dvdE)
    have "period * (k + 1) div period \<le> tick_ts_ns u div period"
      using True assms(1) k by (intro zdiv_mono1) (simp_all add: distrib_left)
    then have "k + 1 \<le> tick_ts_ns u div period"
      using assms(1) by simp
    then have later: "bar_start_ns acc + period \<le> bar_ts_ns (acc_bar acc')"
      using assms(1) k new(3) mult_right_mono [of "k + 1" "tick_ts_ns u div period" period]
      by (simp add: algebra_simps)
    have "sorted_wrt (\<lambda>a b. bar_ts_ns a + period \<le> bar_ts_ns b)
        ((bars @ [acc_bar acc]) @ [acc_bar acc'])"
      using c(4) later start assms(1) by (fastforce simp: sorted_wrt_append)
    moreover have "list_all2 (bar_for s p period) (bars @ [acc_bar acc]) (segs @ [seg])"
      using c(2,3) by (simp add: list_all2_appendI acc_for_def)
    moreover have "concat (segs @ [seg]) @ [u] = ts @ [u]" using c(1) by simp
    ultimately have "covered s p period (ts @ [u]) (bars @ [acc_bar acc]) acc'"
      unfolding covered_def using new(2) by (metis append.assoc)
    then show ?thesis
      using True new(1) start per by (simp add: acc_step_def)
  next
    case False
    then have upd: "acc_for s p period (update_bar acc u) (seg @ [u])"
      "bar_ts_ns (acc_bar (update_bar acc u)) = bar_ts_ns (acc_bar acc)"
      using update_bar_for [OF c(3), of u] assms(3) c(1) low by auto
    have "covered s p period (ts @ [u]) bars (update_bar acc u)"
      unfolding covered_def using c upd
      by (intro exI [of _ segs] exI [of _ "seg @ [u]"]) (simp add: sorted_wrt_append)
    then show ?thesis
      using False start per by (simp add: acc_step_def)
  qed
qed

lemma covered_run:
  assumes "0 < period"
  shows "covered s p period ts0 bars0 acc \<Longrightarrow>
    \<forall>x \<in> set (ts0 @ ts). 0 < tick_last_size x \<and> period \<le> tick_ts_ns x \<Longrightarrow>
    sorted (map tick_ts_ns (ts0 @ ts)) \<Longrightarrow>
    \<exists>bs acc'. acc_run s p acc ts = Some (bs, acc') \<and> covered s p period (ts0 @ ts) (bars0 @ bs) acc'"
proof (induction ts arbitrary: ts0 bars0 acc)
  case Nil
  then show ?case by simp
next
  case (Cons u ts)
  have "\<forall>x \<in> set ts0. tick_ts_ns x \<le> tick_ts_ns u"
    using Cons.prems(3) by (auto simp: sorted_append)
  with covered_step [OF assms Cons.prems(1), of u] Cons.prems(2)
  obtain bs acc1 where step: "acc_step s p acc u = Some (bs, acc1)"
    "covered s p period (ts0 @ [u]) (bars0 @ bs) acc1"
    by auto
  from Cons.IH [OF step(2)] Cons.prems(2,3)
  obtain bs' acc' where "acc_run s p acc1 ts = Some (bs', acc')"
    "covered s p period (ts0 @ u # ts) ((bars0 @ bs) @ bs') acc'"
    by auto
  with step(1) show ?case by simp
qed

section \<open>Properties\<close>

text \<open>
  C38. Bars partition the ticks. For a positive period and ticks in time order (with positive sizes,
  and not in the first period after the epoch), the accumulator never fails, and the bars it
  completes followed by the one it is building cover the ticks segment by segment: each bar has the
  open, high, low, close, volume and volume-weighted price of its segment, all of whose ticks lie in
  the bar's window, which starts at a multiple of the period; and the windows do not overlap.
\<close>

theorem bars_partition_ticks:
  assumes "0 < period" and "period_ns acc = period" and "bar_start_ns acc = 0"
    and "\<forall>x \<in> set (t # ts). 0 < tick_last_size x \<and> period \<le> tick_ts_ns x"
    and "sorted (map tick_ts_ns (t # ts))"
  shows "\<exists>bars acc' segs. acc_run s p acc (t # ts) = Some (bars, acc')
       \<and> concat segs = t # ts
       \<and> list_all2 (bar_for s p period) (bars @ [acc_bar acc']) segs
       \<and> sorted_wrt (\<lambda>a b. bar_ts_ns a + period \<le> bar_ts_ns b) (bars @ [acc_bar acc'])"
proof -
  obtain acc1 where start: "start_bar acc s p t = Some acc1" "acc_for s p period acc1 [t]"
    using start_bar_for [OF assms(1) _ assms(2), of t s p] assms(4) by auto
  have "covered s p period [t] [] acc1"
    unfolding covered_def using start(2) by (intro exI [of _ "[]"] exI [of _ "[t]"]) simp
  from covered_run [OF assms(1) this, of ts] assms(4,5)
  obtain bars acc' where run: "acc_run s p acc1 ts = Some (bars, acc')"
    "covered s p period (t # ts) bars acc'"
    by auto
  then obtain segs seg where c: "concat segs @ seg = t # ts"
    "list_all2 (bar_for s p period) bars segs" "acc_for s p period acc' seg"
    "sorted_wrt (\<lambda>a b. bar_ts_ns a + period \<le> bar_ts_ns b) (bars @ [acc_bar acc'])"
    by (auto simp: covered_def)
  have "acc_run s p acc (t # ts) = Some (bars, acc')"
    using assms(3) start(1) run(1) by (simp add: acc_step_def)
  moreover have "list_all2 (bar_for s p period) (bars @ [acc_bar acc']) (segs @ [seg])"
    using c(2,3) by (simp add: list_all2_appendI acc_for_def)
  moreover have "concat (segs @ [seg]) = t # ts"
    using c(1) by simp
  ultimately show ?thesis
    using c(4) by blast
qed

theorem bars_partition_ticks_witness:
  "\<exists>bars acc' segs.
     acc_run ''AAPL'' ''1s'' (new_accumulator\<lparr>period_ns := 1000000000\<rparr>)
       [make_tick ''AAPL'' 100 5000000000, make_tick ''AAPL'' 102 5900000000,
        make_tick ''AAPL'' 101 6000000001] = Some (bars, acc')
     \<and> concat segs = [make_tick ''AAPL'' 100 5000000000, make_tick ''AAPL'' 102 5900000000,
        make_tick ''AAPL'' 101 6000000001]
     \<and> list_all2 (bar_for ''AAPL'' ''1s'' 1000000000) (bars @ [acc_bar acc']) segs"
  using bars_partition_ticks [of 1000000000 "new_accumulator\<lparr>period_ns := 1000000000\<rparr>"
      "make_tick ''AAPL'' 100 5000000000" "[make_tick ''AAPL'' 102 5900000000,
        make_tick ''AAPL'' 101 6000000001]" "''AAPL''" "''1s''"]
  by (fastforce simp: new_accumulator_def make_tick_def)

text \<open>
  A period text is accepted exactly when it is a decimal number from 1 to the largest \<open>int\<close>
  followed by one of the four units, and is then that many units in nanoseconds as long as the
  product fits 64 bits; seconds always fit, minutes do not from 153,722,868 on.
\<close>

theorem period_text_value:
  assumes "0 < n" and "n < 2 ^ 31" and "unit_ns c = Some u"
  shows "period_to_ns (int_decimal n @ [c]) = Inr (wrap64 (n * u))
       \<and> (n * u < 2 ^ 63 \<longrightarrow> period_to_ns (int_decimal n @ [c]) = Inr (n * u))"
proof -
  have "0 < u" using assms(3) by (auto simp: unit_ns_def seconds_ns_def split: if_splits)
  with assms(1) have "0 \<le> n * u" by simp
  have "int_decimal n \<noteq> []"
    using assms(1) by (simp add: int_decimal_def)
  then have "period_to_ns (int_decimal n @ [c]) = Inr (wrap64 (n * u))"
    using assms by (simp add: period_to_ns_def str_to_int_decimal Suc_le_eq)
  with \<open>0 \<le> n * u\<close> show ?thesis
    by (simp add: wrap64_id in_i64_def)
qed

theorem period_text_value_witness:
  "period_to_ns (int_decimal 153722867 @ ''m'') = Inr 9223372020000000000"
  using conjunct2 [OF period_text_value [of 153722867 "CHR ''m''" 60000000000]]
  by (simp add: unit_ns_def seconds_ns_def)

text \<open>
  What the subscriptions keep: the symbols are those with a subscription, and each bar subscription
  has its accumulator and the other way round; counts are positive.
\<close>

definition feed_inv :: "sim_feed \<Rightarrow> bool" where
  "feed_inv f \<longleftrightarrow>
     distinct (map fst (bar_subscriptions f)) \<and> distinct (map fst (accumulators f))
     \<and> set (map fst (accumulators f)) = set (map fst (bar_subscriptions f))
     \<and> (\<forall>e \<in> set (bar_subscriptions f). 0 < snd e)
     \<and> (\<forall>s n. tick_subscriptions f s = Some n \<longrightarrow> 0 < n)
     \<and> distinct (feed_symbols f)
     \<and> set (feed_symbols f)
       = dom (tick_subscriptions f) \<union> fst ` set (map fst (bar_subscriptions f))"

lemma keys_emplace: "fst ` set (emplace k v al) = insert k (fst ` set al)"
  by (induction k v al rule: emplace.induct) auto

lemma distinct_emplace:
  "distinct (map fst al) \<Longrightarrow> k \<notin> fst ` set al \<Longrightarrow> distinct (map fst (emplace k v al))"
proof (induction k v al rule: emplace.induct)
  case (1 k v)
  then show ?case by simp
next
  case (2 k v k' v' al)
  then show ?case by (auto simp: keys_emplace)
qed

lemma keys_bump: "fst ` set (bump k al) = insert k (fst ` set al)"
proof -
  have "dom (map_of (bump k al)) = insert k (dom (map_of al))"
    by (simp add: bump_def)
  then show ?thesis by (simp add: dom_map_of_conv_image_fst)
qed

lemma pos_update:
  assumes "\<forall>e \<in> set al. 0 < snd e" and "0 < v"
  shows "\<forall>e \<in> set (AList.update k v al). 0 < snd (e :: 'k \<times> int)"
  using assms by (induction al) auto

lemma pos_map_of: "\<forall>e \<in> set al. 0 < snd e \<Longrightarrow> map_of al k = Some n \<Longrightarrow> 0 < (n :: int)"
  using map_of_SomeD by force

text \<open>The invariant without its part on the symbols, which \<open>unsubscribe\<close> restores at its end.\<close>

definition subs_inv :: "sim_feed \<Rightarrow> bool" where
  "subs_inv f \<longleftrightarrow>
     distinct (map fst (bar_subscriptions f)) \<and> distinct (map fst (accumulators f))
     \<and> fst ` set (accumulators f) = fst ` set (bar_subscriptions f)
     \<and> (\<forall>e \<in> set (bar_subscriptions f). 0 < snd e)
     \<and> (\<forall>s n. tick_subscriptions f s = Some n \<longrightarrow> 0 < n)"

definition symbols_of :: "sim_feed \<Rightarrow> Symbol set" where
  "symbols_of f = dom (tick_subscriptions f) \<union> fst ` fst ` set (bar_subscriptions f)"

lemma feed_inv_split:
  "feed_inv f \<longleftrightarrow> subs_inv f \<and> distinct (feed_symbols f) \<and> set (feed_symbols f) = symbols_of f"
  by (auto simp: feed_inv_def subs_inv_def symbols_of_def image_image)

lemma keys_update: "fst ` set (AList.update k v al) = insert k (fst ` set al)"
  by (induction al) auto

lemma keys_delete: "fst ` set (AList.delete k al) = fst ` set al - {k}"
  by (induction al) auto

lemma drop_bar_sub_inv:
  assumes "subs_inv f"
  shows "subs_inv (drop_bar_sub (s, q) f) \<and> feed_symbols (drop_bar_sub (s, q) f) = feed_symbols f
       \<and> symbols_of (drop_bar_sub (s, q) f) \<subseteq> symbols_of f
       \<and> symbols_of f \<subseteq> insert s (symbols_of (drop_bar_sub (s, q) f))"
proof (cases "map_of (bar_subscriptions f) (s, q)")
  case None
  with assms show ?thesis by (auto simp: drop_bar_sub_def)
next
  case (Some n)
  have n: "0 < n"
    using assms pos_map_of [OF _ Some] by (simp add: subs_inv_def)
  have mem: "(s, q) \<in> fst ` set (bar_subscriptions f)"
    using map_of_SomeD [OF Some] by force
  show ?thesis
  proof (cases "n - 1 = 0")
    case True
    have "\<forall>e \<in> set (AList.delete (s, q) (bar_subscriptions f)). 0 < snd e"
      using assms by (auto simp: subs_inv_def AList.delete_eq)
    moreover have "fst ` (K - {(s, q)}) \<subseteq> fst ` K" "fst ` K \<subseteq> insert s (fst ` (K - {(s, q)}))"
      for K :: "bar_key set"
      by force+
    ultimately show ?thesis
      using assms Some True
      by (simp add: drop_bar_sub_def subs_inv_def symbols_of_def keys_delete distinct_delete) blast
  next
    case False
    have "\<forall>e \<in> set (AList.update (s, q) (n - 1) (bar_subscriptions f)). 0 < snd e"
      by (rule pos_update) (use assms n False in \<open>auto simp: subs_inv_def\<close>)
    with assms Some False mem show ?thesis
      by (simp add: drop_bar_sub_def subs_inv_def symbols_of_def keys_update insert_absorb) blast
  qed
qed

lemma bump_inv:
  assumes "subs_inv f"
  shows "(\<forall>e \<in> set (bump key (bar_subscriptions f)). 0 < snd e)
       \<and> distinct (map fst (bump key (bar_subscriptions f)))"
proof -
  have "0 < (case map_of (bar_subscriptions f) key of None \<Rightarrow> 0 | Some n \<Rightarrow> n) + 1"
    using assms pos_map_of [of "bar_subscriptions f" key]
    by (fastforce simp: subs_inv_def split: option.split)
  then have "\<forall>e \<in> set (bump key (bar_subscriptions f)). 0 < snd e"
    unfolding bump_def by (rule pos_update [rotated]) (use assms in \<open>simp add: subs_inv_def\<close>)
  with assms show ?thesis
    by (simp add: bump_def subs_inv_def)
qed

lemma subscribe_inv:
  assumes "subs_inv f"
  shows "subs_inv (snd (subscribe s p f)) \<and> symbols_of (snd (subscribe s p f)) = insert s (symbols_of f)
       \<and> feed_symbols (snd (subscribe s p f))
         = (if s \<in> set (feed_symbols f) then feed_symbols f else feed_symbols f @ [s])"
proof (cases p)
  case None
  have "0 < (case tick_subscriptions f s of None \<Rightarrow> 0 | Some n \<Rightarrow> n) + 1"
    using assms by (force simp: subs_inv_def split: option.split)
  with assms None show ?thesis
    by (simp add: subscribe_def subs_inv_def symbols_of_def Let_def)
next
  case (Some q)
  note bump = bump_inv [OF assms, of "(s, q)"]
  have keys: "fst ` set (accumulators f) = fst ` set (bar_subscriptions f)"
    "distinct (map fst (accumulators f))"
    using assms by (simp_all add: subs_inv_def)
  show ?thesis
  proof (cases "map_of (accumulators f) (s, q)")
    case (Some a)
    then have "(s, q) \<in> fst ` set (bar_subscriptions f)"
      using keys(1) map_of_SomeD [OF Some] by force
    moreover from this have "s \<in> fst ` fst ` set (bar_subscriptions f)"
      by force
    ultimately show ?thesis
      using Some \<open>p = Some q\<close> assms bump
      by (simp add: subscribe_def subs_inv_def symbols_of_def Let_def keys_bump insert_absorb)
  next
    case None
    then have "(s, q) \<notin> fst ` set (accumulators f)"
      by (simp add: map_of_eq_None_iff)
    then have new: "distinct (map fst (emplace (s, q) v (accumulators f)))"
      "fst ` set (emplace (s, q) v (accumulators f)) = insert (s, q) (fst ` set (bar_subscriptions f))"
      for v
      using keys by (simp_all add: distinct_emplace keys_emplace)
    moreover have "\<forall>y. ((s, q), y) \<notin> set (accumulators f)"
      using \<open>(s, q) \<notin> fst ` set (accumulators f)\<close> by force
    ultimately show ?thesis
      using None \<open>p = Some q\<close> assms bump
      by (simp add: subscribe_def subs_inv_def symbols_of_def Let_def keys_bump split: sum.split)
  qed
qed

lemma feed_inv_subscribe: "feed_inv f \<Longrightarrow> feed_inv (snd (subscribe s p f))"
  using subscribe_inv [of f s p] by (auto simp: feed_inv_split)

lemma drop_tick_sub_inv:
  assumes "subs_inv f"
  shows "subs_inv (drop_tick_sub s f) \<and> feed_symbols (drop_tick_sub s f) = feed_symbols f
       \<and> symbols_of (drop_tick_sub s f) \<subseteq> symbols_of f
       \<and> symbols_of f \<subseteq> insert s (symbols_of (drop_tick_sub s f))"
proof (cases "tick_subscriptions f s")
  case None
  with assms show ?thesis by (auto simp: drop_tick_sub_def)
next
  case (Some n)
  then have n: "0 < n" using assms by (simp add: subs_inv_def)
  show ?thesis
  proof (cases "n - 1 = 0")
    case True
    with Some assms show ?thesis
      by (simp add: drop_tick_sub_def subs_inv_def symbols_of_def) blast
  next
    case False
    with n have "1 < n" by simp
    with False Some assms show ?thesis
      by (auto simp: drop_tick_sub_def subs_inv_def symbols_of_def)
  qed
qed

lemma feed_inv_unsubscribe:
  assumes "feed_inv f"
  shows "feed_inv (unsubscribe s p f)"
proof -
  define g where "g = (case p of Some q \<Rightarrow> drop_bar_sub (s, q) f | None \<Rightarrow> drop_tick_sub s f)"
  have sf: "subs_inv f" "distinct (feed_symbols f)" "set (feed_symbols f) = symbols_of f"
    using assms by (simp_all add: feed_inv_split)
  have g: "subs_inv g" "feed_symbols g = feed_symbols f" "symbols_of g \<subseteq> symbols_of f"
    "symbols_of f \<subseteq> insert s (symbols_of g)"
    using drop_bar_sub_inv [OF sf(1), of s] drop_tick_sub_inv [OF sf(1), of s]
    by (simp_all add: g_def split: option.split)
  have unused: "(\<not> list_ex (\<lambda>e. fst (fst e) = s) (bar_subscriptions g)
      \<and> \<not> tick_subscriptions g s \<noteq> None) \<longleftrightarrow> s \<notin> symbols_of g"
    by (force simp: symbols_of_def list_ex_iff)
  have u: "unsubscribe s p f
      = (if s \<notin> symbols_of g then g\<lparr>feed_symbols := removeAll s (feed_symbols g)\<rparr> else g)"
    unfolding unused [symmetric] by (simp add: unsubscribe_def g_def Let_def)
  have same: "symbols_of (g\<lparr>feed_symbols := x\<rparr>) = symbols_of g" "subs_inv (g\<lparr>feed_symbols := x\<rparr>)" for x
    using g(1) by (simp_all add: symbols_of_def subs_inv_def)
  have "symbols_of f = symbols_of g" if "s \<in> symbols_of g"
    using g(3,4) that by auto
  moreover have "symbols_of f - {s} = symbols_of g" if "s \<notin> symbols_of g"
    using g(3,4) that by auto
  ultimately show ?thesis
    using sf g(1,2) same by (simp add: u feed_inv_split distinct_removeAll)
qed

text \<open>A sequence of subscriptions and unsubscriptions.\<close>

datatype sub_cmd = Sub Symbol "BarPeriod option" | Unsub Symbol "BarPeriod option"

fun sub_step :: "sim_feed \<Rightarrow> sub_cmd \<Rightarrow> sim_feed" where
  "sub_step f (Sub s p) = snd (subscribe s p f)"
| "sub_step f (Unsub s p) = unsubscribe s p f"

lemma feed_inv_cmds: "feed_inv f \<Longrightarrow> feed_inv (foldl sub_step f cmds)"
proof (induction cmds arbitrary: f)
  case Nil
  then show ?case by simp
next
  case (Cons c cmds)
  then show ?case
    by (cases c) (simp_all add: feed_inv_subscribe feed_inv_unsubscribe)
qed

text \<open>
  The feed's four tables agree after any sequence of subscriptions and unsubscriptions, also of
  unknown symbols and with periods that are rejected: a symbol is simulated exactly while it has a
  tick or bar subscription, each subscribed symbol and period has exactly one accumulator and no
  other has one, and every count is positive.
\<close>

theorem feed_subscriptions_consistent:
  "set (feed_symbols (foldl sub_step new_feed cmds))
     = dom (tick_subscriptions (foldl sub_step new_feed cmds))
       \<union> fst ` set (map fst (bar_subscriptions (foldl sub_step new_feed cmds)))
   \<and> distinct (feed_symbols (foldl sub_step new_feed cmds))
   \<and> set (map fst (accumulators (foldl sub_step new_feed cmds)))
     = set (map fst (bar_subscriptions (foldl sub_step new_feed cmds)))
   \<and> distinct (map fst (accumulators (foldl sub_step new_feed cmds)))
   \<and> list_all (\<lambda>e. 0 < snd e) (bar_subscriptions (foldl sub_step new_feed cmds))"
proof -
  have "feed_inv new_feed" by (simp add: feed_inv_def new_feed_def)
  from feed_inv_cmds [OF this, of cmds] show ?thesis
    by (simp add: feed_inv_def list_all_iff)
qed

text \<open>
  A bar subscription with an invalid period reports an error but stays registered, with an
  accumulator of period zero: the next round of the emitting thread then divides by zero, whatever
  the time, the noise and the handlers.
\<close>

theorem rejected_period_crashes_feed:
  assumes "period_to_ns p = Inl e"
  shows "fst (subscribe s (Some p) new_feed) = Inl e
       \<and> emit_round has_tick has_bar now noise prices (snd (subscribe s (Some p) new_feed)) = None"
  using assms
  by (simp add: subscribe_def new_feed_def Let_def emit_round_def make_tick_def acc_step_def
      start_bar_def align_to_period_start_def new_accumulator_def)

theorem rejected_period_crashes_feed_witness:
  "fst (subscribe ''AAPL'' (Some ''1w'') new_feed) = Inl ''Invalid BarPeriod''
   \<and> emit_round True True 5000000000 (\<lambda>_. 0) Map.empty
       (snd (subscribe ''AAPL'' (Some ''1w'') new_feed)) = None"
  by (rule rejected_period_crashes_feed)
    (simp add: period_to_ns_def str_to_int_def is_digit_def digits_value_def digit_value_def
      unit_ns_def)

end
