(* ===== verification/AdapterStream.thy ===== *)
theory AdapterStream
  imports Prelude
begin

text \<open>
  The thread that reads a server stream of the adapter and reconnects when it breaks, and the
  \<open>stop\<close> that ends it: the control flow shared by \<open>GrpcGateway::run_fill_stream\<close> and
  \<open>GrpcMarketDataFeed::run_stream\<close>. What is read is handled in the theories of the two classes; here
  the two threads interleave at the granularity of their locked regions and blocking calls.
\<close>

section \<open>State and steps\<close>

text \<open>
  Where the stream thread is: before the loop's test of the stop token, past it, with a new context,
  in \<open>Read\<close>, after the stream ended, in the interruptible sleep, or out of the loop. And where the
  caller of \<open>stop\<close> is: not called yet, stop requested, or past the cancellation.
\<close>

datatype stream_place =
  At_check | Past_check | Has_context | In_read | After_stream | In_sleep | Left_loop | Thread_ended

datatype stopper_place = Not_stopping | Stop_requested | Stop_cancelled

text \<open>\<open>ctx\<close> is the client context of the current call, if any, and whether it was cancelled.\<close>

record stream_thread =
  place :: stream_place
  stopper :: stopper_place
  ctx :: "bool option"

definition started_stream :: stream_thread where
  "started_stream = \<lparr>place = At_check, stopper = Not_stopping, ctx = None\<rparr>"

definition stop_requested :: "stream_thread \<Rightarrow> bool" where
  "stop_requested t \<longleftrightarrow> stopper t \<noteq> Not_stopping"

text \<open>
  \<open>Read\<close> returns false when the adapter ends the stream, which it may do at any time, or because the
  context was cancelled.
\<close>

inductive thread_step :: "stream_thread \<Rightarrow> stream_thread \<Rightarrow> bool" where
  ts_check: "place t = At_check \<Longrightarrow>
     thread_step t (t\<lparr>place := (if stop_requested t then Left_loop else Past_check)\<rparr>)"
| ts_context: "place t = Past_check \<Longrightarrow> thread_step t (t\<lparr>place := Has_context, ctx := Some False\<rparr>)"
| ts_open: "place t = Has_context \<Longrightarrow> thread_step t (t\<lparr>place := In_read\<rparr>)"
| ts_cancelled: "place t = In_read \<Longrightarrow> ctx t = Some True \<Longrightarrow> thread_step t (t\<lparr>place := After_stream\<rparr>)"
| ts_finish: "place t = After_stream \<Longrightarrow>
     thread_step t (t\<lparr>place := (if stop_requested t then Left_loop else In_sleep)\<rparr>)"
| ts_wake: "place t = In_sleep \<Longrightarrow> thread_step t (t\<lparr>place := At_check\<rparr>)"
| ts_leave: "place t = Left_loop \<Longrightarrow> thread_step t (t\<lparr>place := Thread_ended, ctx := None\<rparr>)"

inductive adapter_step :: "stream_thread \<Rightarrow> stream_thread \<Rightarrow> bool" where
  as_report: "place t = In_read \<Longrightarrow> adapter_step t t"
| as_end: "place t = In_read \<Longrightarrow> adapter_step t (t\<lparr>place := After_stream\<rparr>)"

text \<open>\<open>stop\<close>: request the stop, then cancel the context under its lock if there is one.\<close>

inductive stopper_step :: "stream_thread \<Rightarrow> stream_thread \<Rightarrow> bool" where
  ss_request: "stopper t = Not_stopping \<Longrightarrow> stopper_step t (t\<lparr>stopper := Stop_requested\<rparr>)"
| ss_cancel: "stopper t = Stop_requested \<Longrightarrow>
     stopper_step t (t\<lparr>stopper := Stop_cancelled, ctx := map_option (\<lambda>_. True) (ctx t)\<rparr>)"

inductive_cases thread_stepE: "thread_step t t'"
inductive_cases adapter_stepE: "adapter_step t t'"
inductive_cases stopper_stepE: "stopper_step t t'"

lemmas step_cases = thread_stepE adapter_stepE stopper_stepE

definition stream_step :: "stream_thread \<Rightarrow> stream_thread \<Rightarrow> bool" where
  "stream_step t t' \<longleftrightarrow> thread_step t t' \<or> adapter_step t t' \<or> stopper_step t t'"

inductive stream_reach :: "stream_thread \<Rightarrow> stream_thread \<Rightarrow> bool" for t0 where
  sr_refl: "stream_reach t0 t0"
| sr_step: "stream_reach t0 t \<Longrightarrow> stream_step t t' \<Longrightarrow> stream_reach t0 t'"

section \<open>Stopping\<close>

text \<open>
  A thread that \<open>stop\<close> has reached: it is on its way out, or its call is cancelled, or it will see
  the request at its next test.
\<close>

definition stop_effective :: "stream_thread \<Rightarrow> bool" where
  "stop_effective t \<longleftrightarrow>
     stopper t = Stop_cancelled \<and> place t \<noteq> Past_check
     \<and> (place t \<in> {Has_context, In_read} \<longrightarrow> ctx t = Some True)"

definition context_ok :: "stream_thread \<Rightarrow> bool" where
  "context_ok t \<longleftrightarrow> (place t \<in> {Has_context, In_read} \<longrightarrow> ctx t \<noteq> None)"

lemma context_ok_reach: "stream_reach started_stream t \<Longrightarrow> context_ok t"
  by (induction rule: stream_reach.induct)
    (auto simp: context_ok_def started_stream_def stream_step_def elim!: step_cases split: if_splits)

lemma stop_effective_step:
  "stop_effective t \<Longrightarrow> stream_step t t' \<Longrightarrow> stop_effective t'"
  by (auto simp: stop_effective_def stream_step_def stop_requested_def elim!: step_cases)

lemma stop_effective_reach:
  "stream_reach t0 t \<Longrightarrow> stop_effective t0 \<Longrightarrow> stop_effective t"
  by (induction rule: stream_reach.induct) (auto intro: stop_effective_step)

text \<open>Rounds the thread still has to make once it is stopped.\<close>

fun rounds_left :: "stream_place \<Rightarrow> nat" where
  "rounds_left Has_context = 6"
| "rounds_left In_read = 5"
| "rounds_left After_stream = 4"
| "rounds_left In_sleep = 3"
| "rounds_left At_check = 2"
| "rounds_left Left_loop = 1"
| "rounds_left Thread_ended = 0"
| "rounds_left Past_check = 7"

lemma stopped_progress:
  assumes "stop_effective t" and "place t \<noteq> Thread_ended"
  shows "\<exists>t'. thread_step t t' \<and> rounds_left (place t') < rounds_left (place t)"
proof (cases "place t")
  case At_check
  with assms show ?thesis
    using ts_check [OF At_check]
    by (intro exI [of _ "t\<lparr>place := Left_loop\<rparr>"]) (simp add: stop_effective_def stop_requested_def)
next
  case Past_check
  with assms show ?thesis by (simp add: stop_effective_def)
next
  case Has_context
  with ts_open [of t] show ?thesis by fastforce
next
  case In_read
  with assms ts_cancelled [of t] show ?thesis by (fastforce simp: stop_effective_def)
next
  case After_stream
  with assms show ?thesis
    using ts_finish [OF After_stream]
    by (intro exI [of _ "t\<lparr>place := Left_loop\<rparr>"]) (simp add: stop_effective_def stop_requested_def)
next
  case In_sleep
  with ts_wake [of t] show ?thesis by fastforce
next
  case Left_loop
  with ts_leave [of t] show ?thesis by fastforce
qed (use assms in simp)

lemma stopped_decreases:
  assumes "stop_effective t" and "stream_step t t'"
  shows "t' = t \<or> rounds_left (place t') < rounds_left (place t)"
  using assms by (auto simp: stop_effective_def stream_step_def stop_requested_def elim!: step_cases)

lemma cancel_effective:
  assumes "context_ok t1" and "stopper t1 = Stop_requested" and "place t1 \<noteq> Past_check"
    and "stopper_step t1 t2"
  shows "stop_effective t2"
  using assms by (auto simp: context_ok_def stop_effective_def elim!: step_cases)

lemma stopped_ends:
  "stop_effective t \<Longrightarrow> \<exists>n \<le> rounds_left (place t). \<exists>t'. (thread_step ^^ n) t t' \<and> place t' = Thread_ended"
proof (induction "rounds_left (place t)" arbitrary: t rule: less_induct)
  case less
  show ?case
  proof (cases "place t = Thread_ended")
    case True
    then show ?thesis by (intro exI [of _ 0]) simp
  next
    case False
    from stopped_progress [OF less.prems this] obtain t1
      where t1: "thread_step t t1" "rounds_left (place t1) < rounds_left (place t)" by blast
    have "stop_effective t1"
      by (rule stop_effective_step [OF less.prems]) (use t1(1) in \<open>simp add: stream_step_def\<close>)
    from less.hyps [OF t1(2) this] obtain n t' where n: "n \<le> rounds_left (place t1)"
      "(thread_step ^^ n) t1 t'" "place t' = Thread_ended" by blast
    have "(thread_step ^^ Suc n) t t'" using t1(1) n(2) by (rule relpowp_Suc_I2)
    moreover have "Suc n \<le> rounds_left (place t)" using n(1) t1(2) by simp
    ultimately show ?thesis using n(3) by blast
  qed
qed

text \<open>
  C30. Stopping an adapter stream ends its thread, unless \<open>stop\<close> falls into the one window between the
  loop's test and the creation of the context: outside it, in every state after the cancellation the
  thread comes to its end by at most six steps of its own, and every step of anyone, other than the
  delivery of one more report, brings the end nearer, so that no interleaving needs more than six.
\<close>

theorem stream_stop_terminates:
  assumes "stream_reach started_stream t1" and "stopper t1 = Stop_requested"
    and "place t1 \<noteq> Past_check" and "stopper_step t1 t2" and "stream_reach t2 t"
  shows "(\<exists>n \<le> 6. \<exists>t'. (thread_step ^^ n) t t' \<and> place t' = Thread_ended)
       \<and> (place t = Thread_ended \<or> (\<exists>t'. thread_step t t'))
       \<and> (\<forall>t'. stream_step t t' \<longrightarrow> t' = t \<or> rounds_left (place t') < rounds_left (place t))
       \<and> rounds_left (place t) \<le> 6"
proof -
  have eff: "stop_effective t"
    by (rule stop_effective_reach [OF assms(5)
          cancel_effective [OF context_ok_reach [OF assms(1)] assms(2-4)]])
  then have six: "rounds_left (place t) \<le> 6" by (cases "place t") (simp_all add: stop_effective_def)
  with stopped_ends [OF eff] have "\<exists>n \<le> 6. \<exists>t'. (thread_step ^^ n) t t' \<and> place t' = Thread_ended"
    by (meson order_trans)
  with six show ?thesis
    using stopped_progress [OF eff] stopped_decreases [OF eff] by blast
qed

text \<open>The thread waits in \<open>Read\<close> when \<open>stop\<close> is called.\<close>

definition reading_stream :: "stopper_place \<Rightarrow> bool \<Rightarrow> stream_thread" where
  "reading_stream sp c = \<lparr>place = In_read, stopper = sp, ctx = Some c\<rparr>"

lemma context_reach:
  "stream_reach started_stream (started_stream\<lparr>place := Has_context, ctx := Some False\<rparr>)"
proof -
  note step = sr_step [OF _ iffD2 [OF stream_step_def]]
  have "stream_reach started_stream (started_stream\<lparr>place := Past_check\<rparr>)"
    using step [OF sr_refl disjI1 [OF ts_check [of started_stream]]]
    by (simp add: started_stream_def stop_requested_def)
  from step [OF this disjI1 [OF ts_context]] show ?thesis
    by (simp add: started_stream_def)
qed

lemma reading_reach: "stream_reach started_stream (reading_stream Stop_requested False)"
proof -
  note step = sr_step [OF _ iffD2 [OF stream_step_def]]
  from step [OF context_reach disjI1 [OF ts_open]]
  have "stream_reach started_stream (reading_stream Not_stopping False)"
    by (simp add: started_stream_def reading_stream_def)
  from step [OF this disjI2 [OF disjI2 [OF ss_request]]] show ?thesis
    by (simp add: reading_stream_def)
qed

theorem stream_stop_terminates_witness:
  "\<exists>t'. thread_step (reading_stream Stop_cancelled True) t'"
proof -
  have "stopper_step (reading_stream Stop_requested False) (reading_stream Stop_cancelled True)"
    using ss_cancel [of "reading_stream Stop_requested False"] by (simp add: reading_stream_def)
  from stream_stop_terminates [OF reading_reach _ _ this sr_refl] show ?thesis
    by (simp add: reading_stream_def)
qed

text \<open>
  In that window \<open>stop\<close> is lost: it finds no context to cancel (or the one of the previous
  stream), the thread then opens a new stream, and from then on neither the thread nor \<open>stop\<close> can make
  a step: only the adapter can end the \<open>Read\<close>, so joining the thread may never return.
\<close>

theorem stream_stop_can_be_lost:
  "\<exists>t. stream_reach started_stream t \<and> stopper t = Stop_cancelled \<and> place t = In_read
     \<and> (\<nexists>t'. thread_step t t' \<or> stopper_step t t')"
proof -
  note step = sr_step [OF _ iffD2 [OF stream_step_def]]
  let ?t1 = "started_stream\<lparr>place := Past_check\<rparr>"
  let ?t2 = "?t1\<lparr>stopper := Stop_requested\<rparr>"
  let ?t3 = "?t2\<lparr>stopper := Stop_cancelled\<rparr>"
  have "stream_reach started_stream ?t1"
    using step [OF sr_refl disjI1 [OF ts_check [of started_stream]]]
    by (simp add: started_stream_def stop_requested_def)
  then have "stream_reach started_stream ?t2"
    by (rule step) (use ss_request [of ?t1] in \<open>simp add: started_stream_def\<close>)
  then have "stream_reach started_stream ?t3"
    by (rule step) (use ss_cancel [of ?t2] in \<open>simp add: started_stream_def\<close>)
  then have "stream_reach started_stream (?t3\<lparr>place := Has_context, ctx := Some False\<rparr>)"
    by (rule step) (use ts_context [of ?t3] in \<open>simp add: started_stream_def\<close>)
  then have "stream_reach started_stream (reading_stream Stop_cancelled False)"
    by (rule step)
      (use ts_open [of "?t3\<lparr>place := Has_context, ctx := Some False\<rparr>"] in
        \<open>simp add: started_stream_def reading_stream_def\<close>)
  moreover have "\<nexists>t'. thread_step (reading_stream Stop_cancelled False) t'
      \<or> stopper_step (reading_stream Stop_cancelled False) t'"
    by (auto simp: reading_stream_def elim!: step_cases)
  ultimately show ?thesis
    by (intro exI [of _ "reading_stream Stop_cancelled False"]) (simp add: reading_stream_def)
qed

end
