(* ===== verification/GrpcGateway.thy ===== *)
theory GrpcGateway
  imports Gateway AdapterStream
begin

text \<open>
  \<open>gateways/grpc_gateway.cpp\<close>: the gateway that forwards orders to an adapter process. The adapter is
  outside the repository's C++ code: its answers are a parameter, a function of the number of the call
  and the request, and nothing is assumed of them. Execution reports come from the stream thread of
  \<open>AdapterStream\<close>; \<open>grpc_read\<close> is what the thread does with one report.
\<close>

section \<open>The adapter's messages\<close>

record submit_request =
  srq_strategy_id :: StrategyId
  srq_order :: order

record submit_response =
  srs_accepted :: bool
  srs_broker_order_id :: BrokerOrderId
  srs_rejection_reason :: string

record cancel_request =
  crq_strategy_id :: StrategyId
  crq_broker_order_id :: BrokerOrderId

record cancel_response =
  crs_accepted :: bool
  crs_rejection_reason :: string

record replace_request =
  rrq_strategy_id :: StrategyId
  rrq_broker_order_id :: BrokerOrderId
  rrq_new_order :: order

record replace_response =
  rrs_accepted :: bool
  rrs_new_broker_order_id :: BrokerOrderId
  rrs_rejection_reason :: string

text \<open>A call returns a response, or (\<open>Inl\<close>) the error message of a status that is not OK.\<close>

record adapter_stub =
  rpc_submit :: "nat \<Rightarrow> submit_request \<Rightarrow> string + submit_response"
  rpc_cancel :: "nat \<Rightarrow> cancel_request \<Rightarrow> string + cancel_response"
  rpc_replace :: "nat \<Rightarrow> replace_request \<Rightarrow> string + replace_response"

section \<open>The gateway\<close>

record grpc_gateway =
  gg_strategy_id :: StrategyId
  gg_stub :: adapter_stub
  gg_calls :: nat
  gg_handler_set :: bool
  seen_execution_ids :: "string set"
  seen_id_order :: "string list"
  gg_stream :: "stream_thread option"

definition kMaxSeenIds :: nat where "kMaxSeenIds = 10000"

definition new_grpc_gateway :: "StrategyId \<Rightarrow> adapter_stub \<Rightarrow> grpc_gateway" where
  "new_grpc_gateway strategy_id conn =
     \<lparr>gg_strategy_id = strategy_id, gg_stub = conn, gg_calls = 0, gg_handler_set = False,
      seen_execution_ids = {}, seen_id_order = [], gg_stream = None\<rparr>"

definition gg_set_fill_handler :: "grpc_gateway \<Rightarrow> grpc_gateway" where
  "gg_set_fill_handler g = g\<lparr>gg_handler_set := True\<rparr>"

definition gg_start :: "grpc_gateway \<Rightarrow> grpc_gateway" where
  "gg_start g = g\<lparr>gg_stream := Some started_stream\<rparr>"

text \<open>\<open>stop\<close> hands over no report and does not wait for the stream thread.\<close>

definition gg_stop :: "grpc_gateway \<Rightarrow> execution_report list \<times> grpc_gateway" where
  "gg_stop g =
     ([], g\<lparr>gg_stream := map_option
        (\<lambda>t. t\<lparr>stopper := Stop_cancelled, ctx := map_option (\<lambda>_. True) (ctx t)\<rparr>) (gg_stream g)\<rparr>)"

definition gg_submit_order :: "order \<Rightarrow> grpc_gateway \<Rightarrow> BrokerOrderId result \<times> grpc_gateway" where
  "gg_submit_order ord g =
     (let req = \<lparr>srq_strategy_id = gg_strategy_id g, srq_order = ord\<rparr>
      in (case rpc_submit (gg_stub g) (gg_calls g) req of
            Inl err \<Rightarrow> Inl (mk_error (''SubmitOrder RPC failed: '' @ err) Error)
          | Inr resp \<Rightarrow>
              if \<not> srs_accepted resp then Inl (mk_error (srs_rejection_reason resp) FailedOrder)
              else Inr (srs_broker_order_id resp),
          g\<lparr>gg_calls := Suc (gg_calls g)\<rparr>))"

definition gg_cancel_order :: "BrokerOrderId \<Rightarrow> grpc_gateway \<Rightarrow> unit result \<times> grpc_gateway" where
  "gg_cancel_order b g =
     (let req = \<lparr>crq_strategy_id = gg_strategy_id g, crq_broker_order_id = b\<rparr>
      in (case rpc_cancel (gg_stub g) (gg_calls g) req of
            Inl err \<Rightarrow> Inl (mk_error (''CancelOrder RPC failed: '' @ err) Error)
          | Inr resp \<Rightarrow>
              if \<not> crs_accepted resp then Inl (mk_error (crs_rejection_reason resp) FailedOrder)
              else Inr (),
          g\<lparr>gg_calls := Suc (gg_calls g)\<rparr>))"

definition gg_replace_order ::
  "BrokerOrderId \<Rightarrow> order \<Rightarrow> grpc_gateway \<Rightarrow> BrokerOrderId result \<times> grpc_gateway" where
  "gg_replace_order b new_order g =
     (let req = \<lparr>rrq_strategy_id = gg_strategy_id g, rrq_broker_order_id = b,
                 rrq_new_order = new_order\<rparr>
      in (case rpc_replace (gg_stub g) (gg_calls g) req of
            Inl err \<Rightarrow> Inl (mk_error (''ReplaceOrder RPC failed: '' @ err) Error)
          | Inr resp \<Rightarrow>
              if \<not> rrs_accepted resp then Inl (mk_error (rrs_rejection_reason resp) FailedOrder)
              else Inr (rrs_new_broker_order_id resp),
          g\<lparr>gg_calls := Suc (gg_calls g)\<rparr>))"

definition grpc_gateway_ops :: "grpc_gateway gateway_ops" where
  "grpc_gateway_ops =
     \<lparr>gw_submit_order = gg_submit_order, gw_cancel_order = gg_cancel_order,
      gw_replace_order = gg_replace_order, gw_start = gg_start \<circ> gg_set_fill_handler,
      gw_stop = gg_stop\<rparr>"

section \<open>Reports\<close>

text \<open>The deduplication of the loop in \<open>run_fill_stream\<close>: \<open>None\<close> skips the report.\<close>

definition remember_id :: "string \<Rightarrow> grpc_gateway \<Rightarrow> grpc_gateway" where
  "remember_id i g =
     (let g = (if card (seen_execution_ids g) \<ge> kMaxSeenIds
               then g\<lparr>seen_execution_ids := seen_execution_ids g - {hd (seen_id_order g)},
                      seen_id_order := tl (seen_id_order g)\<rparr>
               else g)
      in g\<lparr>seen_execution_ids := insert i (seen_execution_ids g),
           seen_id_order := seen_id_order g @ [i]\<rparr>)"

definition grpc_read ::
  "execution_report \<Rightarrow> grpc_gateway \<Rightarrow> execution_report option \<times> grpc_gateway" where
  "grpc_read report g =
     (let exec_id = er_execution_id report
      in if exec_id \<noteq> '''' \<and> exec_id \<in> seen_execution_ids g then (None, g)
         else (if gg_handler_set g then Some report else None,
               if exec_id \<noteq> '''' then remember_id exec_id g else g))"

text \<open>What the fill handler gets for a list of reports read.\<close>

fun grpc_reads ::
  "execution_report list \<Rightarrow> grpc_gateway \<Rightarrow> execution_report list \<times> grpc_gateway" where
  "grpc_reads [] g = ([], g)"
| "grpc_reads (r # rs) g =
     (let (out, g) = grpc_read r g; (outs, g) = grpc_reads rs g
      in (case out of None \<Rightarrow> outs | Some x \<Rightarrow> x # outs, g))"

section \<open>The window of remembered ids\<close>

definition seen_ok :: "grpc_gateway \<Rightarrow> bool" where
  "seen_ok g \<longleftrightarrow>
     seen_execution_ids g = set (seen_id_order g) \<and> distinct (seen_id_order g)
     \<and> length (seen_id_order g) \<le> kMaxSeenIds"

text \<open>
  The reference: the ids delivered last, newest first and at most \<open>n\<close> of them; a report with an id
  among them is skipped, and one without an id is always delivered.
\<close>

fun window_dedup :: "nat \<Rightarrow> string list \<Rightarrow> execution_report list \<Rightarrow> execution_report list" where
  "window_dedup n recent [] = []"
| "window_dedup n recent (r # rs) =
     (if er_execution_id r = '''' then r # window_dedup n recent rs
      else if er_execution_id r \<in> set recent then window_dedup n recent rs
      else r # window_dedup n (take n (er_execution_id r # recent)) rs)"

lemma remember_id_ok:
  assumes "seen_ok g" and "i \<notin> seen_execution_ids g"
  shows "seen_ok (remember_id i g)
    \<and> rev (seen_id_order (remember_id i g)) = take kMaxSeenIds (i # rev (seen_id_order g))"
proof (cases "length (seen_id_order g) < kMaxSeenIds")
  case True
  with assms show ?thesis
    by (auto simp: seen_ok_def remember_id_def Let_def distinct_card)
next
  case False
  with assms have "length (seen_id_order g) = kMaxSeenIds" by (simp add: seen_ok_def)
  moreover obtain x xs where xs: "seen_id_order g = x # xs"
    using calculation by (cases "seen_id_order g") (simp_all add: kMaxSeenIds_def)
  ultimately show ?thesis
    using assms
    by (auto simp: seen_ok_def remember_id_def Let_def distinct_card kMaxSeenIds_def)
qed

lemma remember_id_handler [simp]: "gg_handler_set (remember_id i g) = gg_handler_set g"
  by (simp add: remember_id_def Let_def)

lemma grpc_reads_window:
  assumes "seen_ok g" and "gg_handler_set g"
  shows "fst (grpc_reads rs g) = window_dedup kMaxSeenIds (rev (seen_id_order g)) rs"
  using assms
proof (induction rs arbitrary: g)
  case Nil
  then show ?case by simp
next
  case (Cons r rs)
  note step = remember_id_ok [OF Cons.prems(1), of "er_execution_id r"]
  show ?case
    using Cons.prems Cons.IH [of g] Cons.IH [of "remember_id (er_execution_id r) g"] step
    by (auto simp: grpc_read_def Let_def split_beta seen_ok_def)
qed

text \<open>
  The deduplication of execution reports, a set together with a queue, delivers exactly what the
  plain reference delivers that keeps the last 10000 delivered ids in one list: reports without an id
  always, any other unless its id is among those.
\<close>

theorem fill_stream_dedup_window:
  "fst (grpc_reads rs (gg_set_fill_handler (new_grpc_gateway sid stub))) = window_dedup 10000 [] rs"
  using grpc_reads_window [of "gg_set_fill_handler (new_grpc_gateway sid stub)" rs]
  by (simp add: seen_ok_def gg_set_fill_handler_def new_grpc_gateway_def kMaxSeenIds_def)

text \<open>The ids of the reports that have one.\<close>

definition given_ids :: "execution_report list \<Rightarrow> string list" where
  "given_ids rs = filter (\<lambda>i. i \<noteq> '''') (map er_execution_id rs)"

lemma given_ids_simps [simp]:
  "given_ids [] = []"
  "given_ids (r # rs)
   = (if er_execution_id r = '''' then given_ids rs else er_execution_id r # given_ids rs)"
  by (simp_all add: given_ids_def)

lemma window_dedup_ids:
  assumes "distinct recent" and "set recent \<union> set (given_ids rs) \<subseteq> ids" and "finite ids"
    and "card ids \<le> n"
  shows "distinct (given_ids (window_dedup n recent rs))
    \<and> set (given_ids (window_dedup n recent rs)) = set (given_ids rs) - set recent"
  using assms
proof (induction n recent rs rule: window_dedup.induct)
  case (1 n recent)
  then show ?case by simp
next
  case (2 n recent r rs)
  let ?i = "er_execution_id r"
  show ?case
  proof (cases "?i = '''' \<or> ?i \<in> set recent")
    case True
    with 2 show ?thesis by (auto split: if_splits)
  next
    case False
    then have "card (set (?i # recent)) \<le> card ids"
      using "2.prems" by (intro card_mono) auto
    with False "2.prems" have "take n (?i # recent) = ?i # recent"
      by (simp add: distinct_card del: take_Suc_Cons)
    with False "2.IH"(3) "2.prems" show ?thesis by auto
  qed
qed

text \<open>
  C26. As long as the adapter uses at most 10000 execution ids, each execution reaches the fill handler
  exactly once, however often the adapter repeats it, over any number of reconnections.
\<close>

theorem fill_stream_exactly_once:
  assumes "card (set (given_ids rs)) \<le> 10000"
  shows "distinct (given_ids (fst (grpc_reads rs (gg_set_fill_handler (new_grpc_gateway sid stub)))))
       \<and> set (given_ids (fst (grpc_reads rs (gg_set_fill_handler (new_grpc_gateway sid stub)))))
         = set (given_ids rs)"
  using window_dedup_ids [of "[]" rs "set (given_ids rs)" 10000] assms
    grpc_reads_window [of "gg_set_fill_handler (new_grpc_gateway sid stub)" rs]
  by (simp add: seen_ok_def gg_set_fill_handler_def new_grpc_gateway_def kMaxSeenIds_def)

definition silent_stub :: adapter_stub where
  "silent_stub = \<lparr>rpc_submit = (\<lambda>n r. Inl ''down''), rpc_cancel = (\<lambda>n r. Inl ''down''),
     rpc_replace = (\<lambda>n r. Inl ''down'')\<rparr>"

theorem fill_stream_exactly_once_witness:
  "set (given_ids (fst (grpc_reads [empty_report\<lparr>er_execution_id := ''E1''\<rparr>,
       empty_report\<lparr>er_execution_id := ''E1''\<rparr>]
     (gg_set_fill_handler (new_grpc_gateway ''S1'' silent_stub))))) = {''E1''}"
  using fill_stream_exactly_once [of "[empty_report\<lparr>er_execution_id := ''E1''\<rparr>,
       empty_report\<lparr>er_execution_id := ''E1''\<rparr>]"]
  by simp

end
