(* ===== verification/GrpcFeed.thy ===== *)
theory GrpcFeed
  imports Protos Clock AdapterStream
begin

text \<open>
  \<open>gateways/grpc_market_data_feed.cpp\<close>: the feed that streams market data from an adapter process.
  The subscriptions are buffered and sent when the stream thread opens the stream; the thread is the
  one of \<open>AdapterStream\<close>.
\<close>

section \<open>Messages\<close>

record tick_event =
  te_symbol :: Symbol
  te_bid :: double
  te_ask :: double
  te_last :: double
  te_bid_size :: double
  te_ask_size :: double
  te_last_size :: double
  te_timestamp_ns :: int

record bar_event =
  be_symbol :: Symbol
  be_period :: string
  be_open :: double
  be_high :: double
  be_low :: double
  be_close :: double
  be_volume :: double
  be_vwap :: double
  be_timestamp_ns :: int

text \<open>The \<open>oneof\<close>, which may be unset.\<close>

datatype market_data_event = kTick tick_event | kBar bar_event | EVENT_NOT_SET

record symbol_subscription =
  ss_symbol :: Symbol
  ss_bar_periods :: "BarPeriod list"

definition bar_from_proto :: "bar_event \<Rightarrow> int \<Rightarrow> bar" where
  "bar_from_proto b now =
     \<lparr>bar_symbol = be_symbol b, bar_period = be_period b, bar_open = be_open b,
      bar_high = be_high b, bar_low = be_low b, bar_close = be_close b, bar_volume = be_volume b,
      bar_vwap = be_vwap b, bar_ts_ns = be_timestamp_ns b, bar_ts_recv_ns = now\<rparr>"

definition tick_from_proto :: "tick_event \<Rightarrow> int \<Rightarrow> tick" where
  "tick_from_proto t now =
     \<lparr>tick_symbol = te_symbol t, tick_bid = te_bid t, tick_ask = te_ask t, tick_last = te_last t,
      tick_bid_size = te_bid_size t, tick_ask_size = te_ask_size t,
      tick_last_size = te_last_size t, tick_ts_ns = te_timestamp_ns t, tick_ts_recv_ns = now\<rparr>"

section \<open>The feed\<close>

text \<open>\<open>sent_requests\<close> records the subscriptions of every \<open>StreamMarketData\<close> call, oldest first.\<close>

record grpc_feed =
  gf_subscriptions :: "symbol_subscription list"
  gf_stream :: "stream_thread option"
  sent_requests :: "symbol_subscription list list"

definition new_grpc_feed :: grpc_feed where
  "new_grpc_feed = \<lparr>gf_subscriptions = [], gf_stream = None, sent_requests = []\<rparr>"

fun add_period :: "Symbol \<Rightarrow> BarPeriod option \<Rightarrow> symbol_subscription list \<Rightarrow> symbol_subscription list"
  where
  "add_period symbol period [] =
     [\<lparr>ss_symbol = symbol, ss_bar_periods = (case period of None \<Rightarrow> [] | Some p \<Rightarrow> [p])\<rparr>]"
| "add_period symbol period (s # ss) =
     (if ss_symbol s = symbol
      then (case period of
              None \<Rightarrow> s
            | Some p \<Rightarrow> if p \<in> set (ss_bar_periods s) then s
                        else s\<lparr>ss_bar_periods := ss_bar_periods s @ [p]\<rparr>) # ss
      else s # add_period symbol period ss)"

definition gf_subscribe :: "Symbol \<Rightarrow> BarPeriod option \<Rightarrow> grpc_feed \<Rightarrow> grpc_feed" where
  "gf_subscribe symbol period f =
     f\<lparr>gf_subscriptions := add_period symbol period (gf_subscriptions f)\<rparr>"

definition gf_unsubscribe :: "Symbol \<Rightarrow> BarPeriod option \<Rightarrow> grpc_feed \<Rightarrow> grpc_feed" where
  "gf_unsubscribe symbol period f = f"

definition gf_start :: "grpc_feed \<Rightarrow> grpc_feed" where
  "gf_start f = f\<lparr>gf_stream := Some started_stream\<rparr>"

definition gf_stop :: "grpc_feed \<Rightarrow> grpc_feed" where
  "gf_stop f = f\<lparr>gf_stream := map_option
     (\<lambda>t. t\<lparr>stopper := Stop_cancelled, ctx := map_option (\<lambda>_. True) (ctx t)\<rparr>) (gf_stream f)\<rparr>"

text \<open>The stream thread, with its context made, opens the stream with what is buffered by then.\<close>

definition gf_open_stream :: "grpc_feed \<Rightarrow> grpc_feed" where
  "gf_open_stream f =
     (case gf_stream f of
        Some t \<Rightarrow>
          if place t = Has_context
          then f\<lparr>gf_stream := Some (t\<lparr>place := In_read\<rparr>),
                 sent_requests := sent_requests f @ [gf_subscriptions f]\<rparr>
          else f
      | None \<Rightarrow> f)"

text \<open>One event read: what the tick and bar handlers, which the registry always sets, are called with.\<close>

definition gf_read :: "int \<Rightarrow> market_data_event \<Rightarrow> (tick + bar) option" where
  "gf_read now event =
     (case event of
        kTick t \<Rightarrow> Some (Inl (tick_from_proto t now))
      | kBar b \<Rightarrow> Some (Inr (bar_from_proto b now))
      | EVENT_NOT_SET \<Rightarrow> None)"

section \<open>What is subscribed\<close>

text \<open>A symbol subscription asks for the symbol's ticks and for its bars of the listed periods.\<close>

definition asks_for :: "symbol_subscription list \<Rightarrow> (Symbol \<times> BarPeriod option) set" where
  "asks_for ss =
     {(s, None) | s. s \<in> ss_symbol ` set ss}
     \<union> {(ss_symbol x, Some p) | x p. x \<in> set ss \<and> p \<in> set (ss_bar_periods x)}"

lemma asks_for_simps [simp]:
  "asks_for [] = {}"
  "asks_for (x # ss)
   = insert (ss_symbol x, None) ((\<lambda>p. (ss_symbol x, Some p)) ` set (ss_bar_periods x)) \<union> asks_for ss"
  by (auto simp: asks_for_def)

lemma asks_for_add:
  "asks_for (add_period s p ss) = insert (s, None) (insert (s, p) (asks_for ss))"
proof (induction ss)
  case Nil
  then show ?case by (cases p) auto
next
  case (Cons x ss)
  then show ?case by (cases p) auto
qed

lemma add_period_symbols:
  "distinct (map ss_symbol ss) \<Longrightarrow> distinct (map ss_symbol (add_period s p ss))
   \<and> set (map ss_symbol (add_period s p ss)) = insert s (set (map ss_symbol ss))"
  by (induction s p ss rule: add_period.induct) (auto split: option.splits)

end
