(* ===== verification/FeedRegistry.thy ===== *)
theory FeedRegistry
  imports OrderManager SimulatedFeed GrpcFeed
begin

text \<open>
  \<open>core/feed_registry.cpp\<close>: the feeds, and which order managers get which bars and ticks. The
  registry holds raw pointers to order managers: a pointer is a number, and the heap maps the numbers
  of the live objects to their states. A call through a pointer to a destroyed object has no result.
  Every method holds the registry's lock, so a method is one step.
\<close>

section \<open>The interface of a feed\<close>

record 'f feed_ops =
  mf_start :: "'f \<Rightarrow> 'f"
  mf_stop :: "'f \<Rightarrow> 'f"
  mf_subscribe :: "Symbol \<Rightarrow> BarPeriod option \<Rightarrow> 'f \<Rightarrow> (string + unit) \<times> 'f"
  mf_unsubscribe :: "Symbol \<Rightarrow> BarPeriod option \<Rightarrow> 'f \<Rightarrow> 'f"

text \<open>
  What the registry relies on: a subscription that does not throw is in force afterwards, and neither
  later subscriptions, failing or not, nor starting and stopping take one away.
\<close>

locale market_data_feed =
  fixes fops :: "'f feed_ops" and wants :: "'f \<Rightarrow> (Symbol \<times> BarPeriod option) set"
  assumes subscribe_wants: "mf_subscribe fops s p f = (Inr (), f') \<Longrightarrow> (s, p) \<in> wants f'"
    and subscribe_keeps: "wants f \<subseteq> wants (snd (mf_subscribe fops s p f))"
    and start_keeps: "wants (mf_start fops f) = wants f"
    and stop_keeps: "wants (mf_stop fops f) = wants f"
begin

primrec subscribe_all :: "(Symbol \<times> BarPeriod option) list \<Rightarrow> 'f \<Rightarrow> (string + unit) \<times> 'f" where
  "subscribe_all [] f = (Inr (), f)"
| "subscribe_all (sp # sps) f =
     (case mf_subscribe fops (fst sp) (snd sp) f of
        (Inl err, f) \<Rightarrow> (Inl err, f) | (Inr _, f) \<Rightarrow> subscribe_all sps f)"

lemma subscribe_all_keeps: "wants f \<subseteq> wants (snd (subscribe_all sps f))"
proof (induction sps arbitrary: f)
  case Nil
  then show ?case by simp
next
  case (Cons sp sps)
  obtain r f1 where f1: "mf_subscribe fops (fst sp) (snd sp) f = (r, f1)"
    by (cases "mf_subscribe fops (fst sp) (snd sp) f")
  then have "wants f \<subseteq> wants f1"
    using subscribe_keeps [of f "fst sp" "snd sp"] by simp
  with f1 Cons.IH [of f1] show ?case by (cases r) simp_all
qed

lemma subscribe_all_wants:
  "subscribe_all sps f = (Inr (), f') \<Longrightarrow> set sps \<subseteq> wants f'"
proof (induction sps arbitrary: f)
  case Nil
  then show ?case by simp
next
  case (Cons sp sps)
  obtain f1 where f1: "mf_subscribe fops (fst sp) (snd sp) f = (Inr (), f1)"
    "subscribe_all sps f1 = (Inr (), f')"
    using Cons.prems by (auto split: prod.splits sum.splits)
  have "sp \<in> wants f1" using subscribe_wants [OF f1(1)] by simp
  with subscribe_all_keeps [of f1 sps] f1(2) Cons.IH [OF f1(2)] show ?case by auto
qed

end

section \<open>The two feeds\<close>

definition sim_feed_ops :: "sim_feed feed_ops" where
  "sim_feed_ops = \<lparr>mf_start = id, mf_stop = id, mf_subscribe = subscribe, mf_unsubscribe = unsubscribe\<rparr>"

definition sim_wants :: "sim_feed \<Rightarrow> (Symbol \<times> BarPeriod option) set" where
  "sim_wants f =
     {(s, None) | s. tick_subscriptions f s \<noteq> None}
     \<union> {(s, Some p) | s p. (s, p) \<in> set (map fst (bar_subscriptions f))}"

definition grpc_feed_ops :: "grpc_feed feed_ops" where
  "grpc_feed_ops = \<lparr>mf_start = gf_start, mf_stop = gf_stop,
     mf_subscribe = (\<lambda>s p f. (Inr (), gf_subscribe s p f)), mf_unsubscribe = gf_unsubscribe\<rparr>"

definition grpc_wants :: "grpc_feed \<Rightarrow> (Symbol \<times> BarPeriod option) set" where
  "grpc_wants f = asks_for (gf_subscriptions f)"

lemma bump_keys: "set (map fst (bump k al)) = insert k (set (map fst al))"
  by (simp add: bump_def dom_update flip: dom_map_of_conv_image_fst)

interpretation simf: market_data_feed sim_feed_ops sim_wants
proof unfold_locales
  fix s p f f'
  assume "mf_subscribe sim_feed_ops s p f = (Inr (), f')"
  then show "(s, p) \<in> sim_wants f'"
    by (cases p)
      (auto simp: sim_feed_ops_def subscribe_def sim_wants_def Let_def bump_keys simp del: set_map
        split: if_splits sum.splits)
next
  fix s p f
  show "sim_wants f \<subseteq> sim_wants (snd (mf_subscribe sim_feed_ops s p f))"
    by (cases p)
      (auto simp: sim_feed_ops_def subscribe_def sim_wants_def Let_def bump_keys simp del: set_map
        split: if_splits sum.splits)
qed (simp_all add: sim_feed_ops_def)

interpretation grpcf: market_data_feed grpc_feed_ops grpc_wants
  by unfold_locales
    (auto simp: grpc_feed_ops_def grpc_wants_def gf_subscribe_def gf_start_def gf_stop_def
      asks_for_add)

text \<open>
  A \<open>unique_ptr<IMarketDataFeed>\<close>. The flag of a simulated feed says whether its thread runs; the
  handlers, which the registry sets before it stores a feed, lead back to the registry.
\<close>

datatype any_feed = Simulated_feed sim_feed bool | Adapter_feed grpc_feed

fun feed_subscribe ::
  "Symbol \<Rightarrow> BarPeriod option \<Rightarrow> any_feed \<Rightarrow> (string + unit) \<times> any_feed" where
  "feed_subscribe s p (Simulated_feed f r) =
     (let (res, f) = mf_subscribe sim_feed_ops s p f in (res, Simulated_feed f r))"
| "feed_subscribe s p (Adapter_feed f) =
     (let (res, f) = mf_subscribe grpc_feed_ops s p f in (res, Adapter_feed f))"

fun feed_unsubscribe :: "Symbol \<Rightarrow> BarPeriod option \<Rightarrow> any_feed \<Rightarrow> any_feed" where
  "feed_unsubscribe s p (Simulated_feed f r) = Simulated_feed (mf_unsubscribe sim_feed_ops s p f) r"
| "feed_unsubscribe s p (Adapter_feed f) = Adapter_feed (mf_unsubscribe grpc_feed_ops s p f)"

fun feed_start :: "any_feed \<Rightarrow> any_feed" where
  "feed_start (Simulated_feed f r) = Simulated_feed (mf_start sim_feed_ops f) True"
| "feed_start (Adapter_feed f) = Adapter_feed (mf_start grpc_feed_ops f)"

fun feed_stop :: "any_feed \<Rightarrow> any_feed" where
  "feed_stop (Simulated_feed f r) = Simulated_feed (mf_stop sim_feed_ops f) False"
| "feed_stop (Adapter_feed f) = Adapter_feed (mf_stop grpc_feed_ops f)"

definition any_feed_ops :: "any_feed feed_ops" where
  "any_feed_ops = \<lparr>mf_start = feed_start, mf_stop = feed_stop, mf_subscribe = feed_subscribe,
     mf_unsubscribe = feed_unsubscribe\<rparr>"

fun feed_wants :: "any_feed \<Rightarrow> (Symbol \<times> BarPeriod option) set" where
  "feed_wants (Simulated_feed f r) = sim_wants f"
| "feed_wants (Adapter_feed f) = grpc_wants f"

lemma any_feed_ops_simps [simp]:
  "mf_start any_feed_ops = feed_start" "mf_stop any_feed_ops = feed_stop"
  "mf_subscribe any_feed_ops = feed_subscribe" "mf_unsubscribe any_feed_ops = feed_unsubscribe"
  by (simp_all add: any_feed_ops_def)

lemma feed_subscribe_wants: "feed_subscribe s p f = (Inr (), f') \<Longrightarrow> (s, p) \<in> feed_wants f'"
  using simf.subscribe_wants [of s p] grpcf.subscribe_wants [of s p]
  by (cases f) (auto simp: Let_def split: prod.splits)

lemma feed_subscribe_keeps: "feed_wants f \<subseteq> feed_wants (snd (feed_subscribe s p f))"
  using simf.subscribe_keeps [of _ s p] grpcf.subscribe_keeps [of _ s p]
  by (cases f) (simp_all add: Let_def split_beta)

lemma feed_wants_threads [simp]:
  "feed_wants (feed_start f) = feed_wants f" "feed_wants (feed_stop f) = feed_wants f"
  by (cases f; simp add: simf.start_keeps simf.stop_keeps grpcf.start_keeps grpcf.stop_keeps)+

interpretation anyf: market_data_feed any_feed_ops feed_wants
  by unfold_locales (simp_all add: feed_subscribe_wants feed_subscribe_keeps)

section \<open>The registry\<close>

text \<open>
  The keys of the three unordered maps. Their hash functions only choose buckets: a lookup depends on
  the keys' equality alone.
\<close>

type_synonym feed_key = "FeedType \<times> AccountId"
type_synonym bar_sub_key = "feed_key \<times> Symbol \<times> BarPeriod"
type_synonym tick_sub_key = "feed_key \<times> Symbol"

record feed_registry =
  registry_running :: bool
  feeds :: "(feed_key \<times> any_feed) list"
  bar_subs :: "bar_sub_key \<rightharpoonup> nat list"
  tick_subs :: "tick_sub_key \<rightharpoonup> nat list"

definition new_registry :: feed_registry where
  "new_registry = \<lparr>registry_running = False, feeds = [], bar_subs = Map.empty, tick_subs = Map.empty\<rparr>"

definition has_feed :: "feed_key \<Rightarrow> feed_registry \<Rightarrow> bool" where
  "has_feed key fr \<longleftrightarrow> map_of (feeds fr) key \<noteq> None"

definition create_feed :: "feed_key \<Rightarrow> string + any_feed" where
  "create_feed key =
     (if fst key = Feed_Simulated then Inr (Simulated_feed new_feed False)
      else Inl (''Unknown feed type: '' @ int_decimal (feed_number (fst key))))"

text \<open>\<open>feeds_.emplace\<close> and, when the registry runs, the start of the feed stored under the key.\<close>

definition add_feed :: "feed_key \<Rightarrow> any_feed \<Rightarrow> feed_registry \<Rightarrow> feed_registry" where
  "add_feed key f fr =
     (let fr = (if has_feed key fr then fr else fr\<lparr>feeds := (key, f) # feeds fr\<rparr>)
      in if registry_running fr then fr\<lparr>feeds := AList.map_entry key feed_start (feeds fr)\<rparr> else fr)"

definition register_feed :: "feed_key \<Rightarrow> any_feed \<Rightarrow> feed_registry \<Rightarrow> feed_registry" where
  "register_feed key f fr = add_feed key f fr"

definition push_back :: "'k \<Rightarrow> 'v \<Rightarrow> ('k \<rightharpoonup> 'v list) \<Rightarrow> ('k \<rightharpoonup> 'v list)" where
  "push_back k v m = m(k \<mapsto> (case m k of None \<Rightarrow> [] | Some vs \<Rightarrow> vs) @ [v])"

definition ensure_feed :: "feed_key \<Rightarrow> feed_registry \<Rightarrow> string + feed_registry" where
  "ensure_feed key fr =
     (if has_feed key fr then Inr fr
      else case create_feed key of Inl err \<Rightarrow> Inl err | Inr f \<Rightarrow> Inr (add_feed key f fr))"

text \<open>\<open>Inl\<close> is the text of an exception, from \<open>create_feed\<close> or from the feed's \<open>subscribe\<close>.\<close>

definition register_subscription ::
  "feed_key \<Rightarrow> Symbol \<Rightarrow> BarPeriod option \<Rightarrow> nat \<Rightarrow> feed_registry \<Rightarrow> (string + unit) \<times> feed_registry"
  where
  "register_subscription key symbol period om fr =
     (case ensure_feed key fr of
        Inl err \<Rightarrow> (Inl err, fr)
      | Inr fr \<Rightarrow>
          let (res, f) = feed_subscribe symbol period (the (map_of (feeds fr) key));
              fr = fr\<lparr>feeds := AList.update key f (feeds fr)\<rparr>
          in case res of
               Inl err \<Rightarrow> (Inl err, fr)
             | Inr _ \<Rightarrow>
                 (Inr (),
                  case period of
                    Some p \<Rightarrow> fr\<lparr>bar_subs := push_back (key, symbol, p) om (bar_subs fr)\<rparr>
                  | None \<Rightarrow> fr\<lparr>tick_subs := push_back (key, symbol) om (tick_subs fr)\<rparr>))"

definition unregister_manager :: "nat \<Rightarrow> feed_registry \<Rightarrow> feed_registry" where
  "unregister_manager manager fr =
     fr\<lparr>bar_subs := (\<lambda>k. map_option (removeAll manager) (bar_subs fr k)),
        tick_subs := (\<lambda>k. map_option (removeAll manager) (tick_subs fr k))\<rparr>"

definition start_all :: "feed_registry \<Rightarrow> feed_registry" where
  "start_all fr = fr\<lparr>registry_running := True, feeds := map (\<lambda>(k, f). (k, feed_start f)) (feeds fr)\<rparr>"

definition stop_all_feeds :: "feed_registry \<Rightarrow> feed_registry" where
  "stop_all_feeds fr =
     fr\<lparr>registry_running := False, feeds := map (\<lambda>(k, f). (k, feed_stop f)) (feeds fr)\<rparr>"

section \<open>Delivery\<close>

type_synonym ('g, 's, 'j) om_heap = "nat \<rightharpoonup> ('g, 's, 'j) order_manager"

text \<open>\<open>om->enqueue(event)\<close> for each pointer of a list; \<open>None\<close> is a use after free.\<close>

fun enqueue_to ::
  "om_event \<Rightarrow> nat list \<Rightarrow> ('g, 's, 'j) om_heap \<Rightarrow> ('g, 's, 'j) om_heap option" where
  "enqueue_to ev [] h = Some h"
| "enqueue_to ev (a # as) h =
     (case h a of None \<Rightarrow> None | Some om \<Rightarrow> enqueue_to ev as (h(a \<mapsto> om_enqueue ev om)))"

definition on_bar ::
  "feed_key \<Rightarrow> bar \<Rightarrow> feed_registry \<Rightarrow> ('g, 's, 'j) om_heap \<Rightarrow> ('g, 's, 'j) om_heap option" where
  "on_bar key b fr h =
     (case bar_subs fr (key, bar_symbol b, bar_period b) of
        None \<Rightarrow> Some h | Some oms \<Rightarrow> enqueue_to (Bar_event b) oms h)"

definition on_tick ::
  "feed_key \<Rightarrow> tick \<Rightarrow> feed_registry \<Rightarrow> ('g, 's, 'j) om_heap \<Rightarrow> ('g, 's, 'j) om_heap option" where
  "on_tick key t fr h =
     (case tick_subs fr (key, tick_symbol t) of
        None \<Rightarrow> Some h | Some oms \<Rightarrow> enqueue_to (Tick_event t) oms h)"

section \<open>Who is registered\<close>

definition pointers :: "('k \<rightharpoonup> nat list) \<Rightarrow> nat set" where
  "pointers m = (\<Union>oms \<in> ran m. set oms)"

definition registered :: "feed_registry \<Rightarrow> nat set" where
  "registered fr = pointers (bar_subs fr) \<union> pointers (tick_subs fr)"

lemma pointersI: "m k = Some oms \<Longrightarrow> set oms \<subseteq> pointers m"
  by (auto simp: pointers_def ran_def)

lemma in_pointers: "a \<in> pointers m \<longleftrightarrow> (\<exists>k oms. m k = Some oms \<and> a \<in> set oms)"
  by (auto simp: pointers_def ran_def)

lemma pointers_push [simp]: "pointers (push_back k a m) = insert a (pointers m)"
proof (cases "m k")
  case None
  then show ?thesis
    by (auto simp: in_pointers push_back_def split: if_splits) (metis option.distinct(1))
next
  case (Some oms)
  then show ?thesis
    by (auto simp: in_pointers push_back_def split: if_splits)
      (metis UnI1 in_set_conv_decomp set_append option.inject)+
qed

lemma pointers_remove [simp]:
  "pointers (\<lambda>k. map_option (removeAll a) (m k)) = pointers m - {a}"
  by (force simp: pointers_def ran_def)

lemma pointers_empty [simp]: "pointers Map.empty = {}"
  by (simp add: pointers_def)

lemma registered_new [simp]: "registered new_registry = {}"
  by (simp add: registered_def new_registry_def)

lemma add_feed_subs [simp]:
  "bar_subs (add_feed key f fr) = bar_subs fr" "tick_subs (add_feed key f fr) = tick_subs fr"
  by (simp_all add: add_feed_def Let_def)

lemma registered_threads [simp]:
  "registered (register_feed key f fr) = registered fr"
  "registered (start_all fr) = registered fr" "registered (stop_all_feeds fr) = registered fr"
  by (simp_all add: register_feed_def start_all_def stop_all_feeds_def registered_def)

lemma ensure_feed_subs:
  "ensure_feed key fr = Inr fr1 \<Longrightarrow> bar_subs fr1 = bar_subs fr \<and> tick_subs fr1 = tick_subs fr"
  by (auto simp: ensure_feed_def split: if_splits sum.splits)

lemma registered_subscription:
  "registered (snd (register_subscription key s p om fr)) \<subseteq> insert om (registered fr)"
proof (cases "ensure_feed key fr")
  case (Inl err)
  then show ?thesis by (auto simp: register_subscription_def)
next
  case (Inr fr1)
  with ensure_feed_subs [OF Inr] show ?thesis
    by (cases p) (auto simp: register_subscription_def Let_def split_beta registered_def
        split: sum.split)
qed

lemma registered_unregister [simp]:
  "registered (unregister_manager a fr) = registered fr - {a}"
  by (auto simp: registered_def unregister_manager_def)

section \<open>Calls through registered pointers\<close>

lemma enqueue_to_live:
  "set as \<subseteq> dom h \<Longrightarrow>
   \<exists>h'. enqueue_to ev as h = Some h' \<and> dom h' = dom h
     \<and> (\<forall>a. h' a = map_option (om_enqueue ev ^^ count_list as a) (h a))"
proof (induction as arbitrary: h)
  case Nil
  then show ?case by (simp add: option.map_ident)
next
  case (Cons a as)
  then obtain om where om: "h a = Some om" by auto
  with Cons.prems have "set as \<subseteq> dom (h(a \<mapsto> om_enqueue ev om))" by auto
  from Cons.IH [OF this] obtain h' where h': "enqueue_to ev as (h(a \<mapsto> om_enqueue ev om)) = Some h'"
    "dom h' = dom (h(a \<mapsto> om_enqueue ev om))"
    "\<forall>x. h' x = map_option (om_enqueue ev ^^ count_list as x) ((h(a \<mapsto> om_enqueue ev om)) x)"
    by blast
  moreover have "dom h' = dom h" using h'(2) om by auto
  moreover have "h' x = map_option (om_enqueue ev ^^ count_list (a # as) x) (h x)" for x
    using h'(3) om by (simp add: funpow_swap1)
  ultimately show ?case using om by simp
qed

section \<open>Subscriptions and fan-out\<close>

lemma has_feed_add [simp]: "has_feed key (add_feed key f fr)"
  by (simp add: has_feed_def add_feed_def Let_def map_of_map_entry split: option.split)

text \<open>The managers subscribed to a bar or a tick, once for every registration.\<close>

definition bar_subscribers :: "feed_registry \<Rightarrow> feed_key \<Rightarrow> Symbol \<Rightarrow> BarPeriod \<Rightarrow> nat list" where
  "bar_subscribers fr key s p = (case bar_subs fr (key, s, p) of None \<Rightarrow> [] | Some oms \<Rightarrow> oms)"

definition tick_subscribers :: "feed_registry \<Rightarrow> feed_key \<Rightarrow> Symbol \<Rightarrow> nat list" where
  "tick_subscribers fr key s = (case tick_subs fr (key, s) of None \<Rightarrow> [] | Some oms \<Rightarrow> oms)"

lemma on_bar_subscribers:
  "on_bar key b fr h
   = enqueue_to (Bar_event b) (bar_subscribers fr key (bar_symbol b) (bar_period b)) h"
  by (simp add: on_bar_def bar_subscribers_def split: option.split)

lemma on_tick_subscribers:
  "on_tick key t fr h = enqueue_to (Tick_event t) (tick_subscribers fr key (tick_symbol t)) h"
  by (simp add: on_tick_def tick_subscribers_def split: option.split)

lemma subscribers_registered:
  "set (bar_subscribers fr key s p) \<subseteq> registered fr" "set (tick_subscribers fr key s) \<subseteq> registered fr"
proof -
  show "set (bar_subscribers fr key s p) \<subseteq> registered fr"
    using pointersI [of "bar_subs fr" "(key, s, p)"]
    by (cases "bar_subs fr (key, s, p)") (auto simp: registered_def bar_subscribers_def)
  show "set (tick_subscribers fr key s) \<subseteq> registered fr"
    using pointersI [of "tick_subs fr" "(key, s)"]
    by (cases "tick_subs fr (key, s)") (auto simp: registered_def tick_subscribers_def)
qed

lemma register_subscription_cases:
  assumes "register_subscription key s p a fr = (Inr (), fr')"
  obtains f f' where "feed_subscribe s p f = (Inr (), f')" "map_of (feeds fr') key = Some f'"
    "bar_subs fr' = (case p of Some q \<Rightarrow> push_back (key, s, q) a (bar_subs fr) | None \<Rightarrow> bar_subs fr)"
    "tick_subs fr' = (case p of Some q \<Rightarrow> tick_subs fr | None \<Rightarrow> push_back (key, s) a (tick_subs fr))"
proof -
  obtain fr1 where fr1: "ensure_feed key fr = Inr fr1"
    using assms by (cases "ensure_feed key fr") (auto simp: register_subscription_def)
  have "has_feed key fr1"
    using fr1 by (auto simp: ensure_feed_def split: if_splits sum.splits)
  then obtain f where f: "map_of (feeds fr1) key = Some f" by (auto simp: has_feed_def)
  obtain res f' where f': "feed_subscribe s p f = (res, f')" by (cases "feed_subscribe s p f")
  define fr2 where "fr2 = fr1\<lparr>feeds := AList.update key f' (feeds fr1)\<rparr>"
  define fr3 where "fr3 = (case p of
      Some q \<Rightarrow> fr2\<lparr>bar_subs := push_back (key, s, q) a (bar_subs fr2)\<rparr>
    | None \<Rightarrow> fr2\<lparr>tick_subs := push_back (key, s) a (tick_subs fr2)\<rparr>)"
  have "register_subscription key s p a fr
      = (case res of Inl err \<Rightarrow> (Inl err, fr2) | Inr _ \<Rightarrow> (Inr (), fr3))"
    by (simp only: register_subscription_def fr1 sum.case f f' option.sel Let_def prod.case fr2_def
        fr3_def)
  with assms have res: "res = Inr ()" and fr': "fr' = fr3"
    by (cases res; simp)+
  show thesis
  proof (rule that)
    show "feed_subscribe s p f = (Inr (), f')" using f' res by simp
    show "map_of (feeds fr') key = Some f'" by (cases p) (simp_all add: fr' fr3_def fr2_def)
    show "bar_subs fr' = (case p of Some q \<Rightarrow> push_back (key, s, q) a (bar_subs fr)
        | None \<Rightarrow> bar_subs fr)"
      using ensure_feed_subs [OF fr1] by (cases p) (simp_all add: fr' fr3_def fr2_def)
    show "tick_subs fr' = (case p of Some q \<Rightarrow> tick_subs fr
        | None \<Rightarrow> push_back (key, s) a (tick_subs fr))"
      using ensure_feed_subs [OF fr1] by (cases p) (simp_all add: fr' fr3_def fr2_def)
  qed
qed

text \<open>
  A subscription that is registered without an exception takes effect on both sides: the feed of
  its key has it in force, and the manager is among those the registry sends that bar or tick to; all
  earlier registrations stay.
\<close>

theorem subscription_takes_effect:
  assumes "register_subscription key s p a fr = (Inr (), fr')"
  shows "(case map_of (feeds fr') key of Some f \<Rightarrow> (s, p) \<in> feed_wants f | None \<Rightarrow> False)
       \<and> (\<forall>k s' q. bar_subscribers fr' k s' q
            = bar_subscribers fr k s' q @ (if k = key \<and> s' = s \<and> p = Some q then [a] else []))
       \<and> (\<forall>k s'. tick_subscribers fr' k s'
            = tick_subscribers fr k s' @ (if k = key \<and> s' = s \<and> p = None then [a] else []))"
proof -
  obtain f f' where r: "feed_subscribe s p f = (Inr (), f')" "map_of (feeds fr') key = Some f'"
    "bar_subs fr' = (case p of Some q \<Rightarrow> push_back (key, s, q) a (bar_subs fr) | None \<Rightarrow> bar_subs fr)"
    "tick_subs fr' = (case p of Some q \<Rightarrow> tick_subs fr | None \<Rightarrow> push_back (key, s) a (tick_subs fr))"
    by (rule register_subscription_cases [OF assms])
  have "(s, p) \<in> feed_wants f'" by (rule feed_subscribe_wants [OF r(1)])
  moreover have "bar_subscribers fr' k s' q
      = bar_subscribers fr k s' q @ (if k = key \<and> s' = s \<and> p = Some q then [a] else [])" for k s' q
    by (cases p) (simp_all add: bar_subscribers_def r(3) push_back_def split: option.split)
  moreover have "tick_subscribers fr' k s'
      = tick_subscribers fr k s' @ (if k = key \<and> s' = s \<and> p = None then [a] else [])" for k s'
    by (cases p) (simp_all add: tick_subscribers_def r(4) push_back_def split: option.split)
  ultimately show ?thesis by (simp add: r(2))
qed

theorem subscription_takes_effect_witness:
  "\<exists>fr'. register_subscription (Feed_Simulated, ''ACC'') ''AAPL'' None 3 new_registry = (Inr (), fr')
     \<and> tick_subscribers fr' (Feed_Simulated, ''ACC'') ''AAPL'' = [3]"
proof -
  let ?r = "register_subscription (Feed_Simulated, ''ACC'') ''AAPL'' None 3 new_registry"
  have r: "?r = (Inr (), snd ?r)"
    by (simp add: register_subscription_def ensure_feed_def has_feed_def new_registry_def create_feed_def add_feed_def
        sim_feed_ops_def subscribe_def Let_def)
  from subscription_takes_effect [OF r] have "tick_subscribers (snd ?r) (Feed_Simulated, ''ACC'') ''AAPL''
      = tick_subscribers new_registry (Feed_Simulated, ''ACC'') ''AAPL'' @ [3]"
    by simp
  then have "tick_subscribers (snd ?r) (Feed_Simulated, ''ACC'') ''AAPL'' = [3]"
    by (simp add: tick_subscribers_def new_registry_def)
  with r show ?thesis by blast
qed

text \<open>
  An adapter feed that is registered while the registry runs starts before it has any
  subscription: its thread may open the stream at once, and the request it sends then asks for
  nothing. The subscriptions registered afterwards are only buffered; they would reach the adapter
  with the next connection.
\<close>

theorem running_adapter_feed_asks_for_nothing:
  assumes "registry_running fr" and "\<not> has_feed key fr"
  shows "map_of (feeds (register_feed key (Adapter_feed new_grpc_feed) fr)) key
           = Some (Adapter_feed (gf_start new_grpc_feed))
       \<and> (\<exists>t. stream_reach started_stream t \<and> place t = Has_context
            \<and> sent_requests (gf_subscribe s p (gf_open_stream
                ((gf_start new_grpc_feed)\<lparr>gf_stream := Some t\<rparr>))) = [[]])"
proof -
  have "stream_reach started_stream (started_stream\<lparr>place := Has_context, ctx := Some False\<rparr>)"
    using context_reach by simp
  moreover have "sent_requests (gf_subscribe s p (gf_open_stream ((gf_start new_grpc_feed)
      \<lparr>gf_stream := Some (started_stream\<lparr>place := Has_context, ctx := Some False\<rparr>)\<rparr>))) = [[]]"
    by (simp add: gf_subscribe_def gf_open_stream_def gf_start_def new_grpc_feed_def)
  moreover have "map_of (feeds (register_feed key (Adapter_feed new_grpc_feed) fr)) key
      = Some (Adapter_feed (gf_start new_grpc_feed))"
    using assms by (simp add: register_feed_def add_feed_def grpc_feed_ops_def Let_def)
  ultimately show ?thesis
    by (intro conjI exI [of _ "started_stream\<lparr>place := Has_context, ctx := Some False\<rparr>"]) simp_all
qed

theorem running_adapter_feed_asks_for_nothing_witness:
  "map_of (feeds (register_feed (Feed_Adapter, ''ACC'') (Adapter_feed new_grpc_feed)
     (start_all new_registry))) (Feed_Adapter, ''ACC'') = Some (Adapter_feed (gf_start new_grpc_feed))"
  using running_adapter_feed_asks_for_nothing [of "start_all new_registry" "(Feed_Adapter, ''ACC'')"]
  by (simp add: start_all_def new_registry_def has_feed_def)

end
