(* ===== verification/AdapterManager.thy ===== *)
theory AdapterManager
  imports Protos
begin

text \<open>
  \<open>core/adapter_manager.cpp\<close>: one adapter process per venue and account. The system calls are
  parameters of the state: what a \<open>fork\<close> returns, what a ping and a \<open>waitpid\<close> answer, and what the
  steady clock reads. The list of children is the operating system's: the processes forked and not
  reaped. A call that never returns is \<open>None\<close>.
\<close>

section \<open>Polling\<close>

text \<open>
  The two waiting loops have one shape: until the deadline, poll and sleep. Reading \<open>n\<close> of the clock
  is the one before poll \<open>n\<close>.
\<close>

partial_function (option) poll_until ::
  "(nat \<Rightarrow> int) \<Rightarrow> (nat \<Rightarrow> bool) \<Rightarrow> int \<Rightarrow> nat \<Rightarrow> bool option" where
  "poll_until clk poll deadline n =
     (if clk n < deadline
      then (if poll n then Some True else poll_until clk poll deadline (Suc n))
      else Some False)"

lemma poll_until_stop: "\<not> clk n < deadline \<Longrightarrow> poll_until clk poll deadline n = Some False"
  by (subst poll_until.simps) simp

lemma poll_until_hit: "clk n < deadline \<Longrightarrow> poll n \<Longrightarrow> poll_until clk poll deadline n = Some True"
  by (subst poll_until.simps) simp

lemma poll_until_next:
  "clk n < deadline \<Longrightarrow> \<not> poll n \<Longrightarrow>
   poll_until clk poll deadline n = poll_until clk poll deadline (Suc n)"
  by (subst poll_until.simps) simp

text \<open>The clock advances by at least \<open>d\<close> over every sleep.\<close>

definition advances :: "int \<Rightarrow> (nat \<Rightarrow> int) \<Rightarrow> bool" where
  "advances d clk \<longleftrightarrow> 0 < d \<and> (\<forall>n. clk n + d \<le> clk (Suc n))"

lemma advances_mono: "advances d clk \<Longrightarrow> m \<le> n \<Longrightarrow> clk m \<le> clk n"
proof (induction n)
  case 0
  then show ?case by simp
next
  case (Suc n)
  have "clk n \<le> clk (Suc n)"
    using Suc.prems(1) unfolding advances_def by (smt (verit))
  with Suc show ?case by (cases "m = Suc n") auto
qed

lemma poll_until_returns:
  assumes "advances d clk"
  shows "\<exists>b. poll_until clk poll deadline n = Some b
    \<and> (b \<longleftrightarrow> (\<exists>k\<ge>n. clk k < deadline \<and> poll k))"
proof (induction "nat (deadline - clk n)" arbitrary: n rule: less_induct)
  case less
  have step: "clk n < clk (Suc n)"
    using assms unfolding advances_def by (smt (verit))
  show ?case
  proof (cases "clk n < deadline")
    case False
    then have "\<not> clk k < deadline" if "n \<le> k" for k
      using advances_mono [OF assms that] by simp
    with False show ?thesis by (auto simp: poll_until_stop)
  next
    case True
    show ?thesis
    proof (cases "poll n")
      case True
      with \<open>clk n < deadline\<close> show ?thesis by (auto simp: poll_until_hit)
    next
      case False
      have "nat (deadline - clk (Suc n)) < nat (deadline - clk n)"
        using True step by simp
      from less [OF this] obtain b where b: "poll_until clk poll deadline (Suc n) = Some b"
        "b \<longleftrightarrow> (\<exists>k\<ge>Suc n. clk k < deadline \<and> poll k)" by blast
      moreover have "(\<exists>k\<ge>n. clk k < deadline \<and> poll k) \<longleftrightarrow> (\<exists>k\<ge>Suc n. clk k < deadline \<and> poll k)"
        using False by (metis Suc_le_eq le_neq_implies_less order.strict_implies_order)
      ultimately show ?thesis using True False by (simp add: poll_until_next)
    qed
  qed
qed

section \<open>State\<close>

record adapter_process =
  ap_address :: string
  ap_pid :: int

datatype signal = SIGTERM int | SIGKILL int

text \<open>
  A ping answers whether the call succeeded and whether the adapter says it is ready. The connection
  of a process is its address.
\<close>

record adapter_manager =
  processes :: "((string \<times> string) \<times> adapter_process) list"
  children :: "int list"
  signals :: "signal list"
  forks :: nat
  fork_result :: "nat \<Rightarrow> string + int"
  ready_clock :: "nat \<Rightarrow> nat \<Rightarrow> int"
  ping_answer :: "nat \<Rightarrow> nat \<Rightarrow> bool \<times> bool"
  exit_clock :: "int \<Rightarrow> nat \<Rightarrow> int"
  exited :: "int \<Rightarrow> nat \<Rightarrow> bool"

section \<open>Operations\<close>

text \<open>Times are milliseconds.\<close>

definition wait_for_ready :: "(nat \<Rightarrow> int) \<Rightarrow> (nat \<Rightarrow> bool \<times> bool) \<Rightarrow> int \<Rightarrow> bool option" where
  "wait_for_ready clk ping timeout =
     poll_until clk (\<lambda>n. fst (ping n) \<and> snd (ping n)) (clk 0 + timeout) 1"

text \<open>The parent's side of \<open>spawn\<close>: the pid of the child, or the text of the exception.\<close>

definition spawn :: "adapter_manager \<Rightarrow> (string + int) \<times> adapter_manager" where
  "spawn am =
     (case fork_result am (forks am) of
        Inl err \<Rightarrow> (Inl (''fork() failed: '' @ err), am\<lparr>forks := Suc (forks am)\<rparr>)
      | Inr pid \<Rightarrow> (Inr pid, am\<lparr>forks := Suc (forks am), children := children am @ [pid]\<rparr>))"

definition get_or_create ::
  "string \<Rightarrow> string \<Rightarrow> adapter_config \<Rightarrow> adapter_manager
   \<Rightarrow> ((string + string) \<times> adapter_manager) option" where
  "get_or_create venue account_id cfg am =
     (let key = (venue, account_id)
      in case map_of (processes am) key of
           Some proc \<Rightarrow> Some (Inr (ap_address proc), am)
         | None \<Rightarrow>
             let address = ''127.0.0.1:'' @ int_decimal (ac_port cfg);
                 n = forks am;
                 (r, am) = spawn am
             in case r of
                  Inl err \<Rightarrow> Some (Inl err, am)
                | Inr pid \<Rightarrow>
                    (case wait_for_ready (ready_clock am n) (ping_answer am n) 30000 of
                       None \<Rightarrow> None
                     | Some ready \<Rightarrow>
                         if \<not> ready
                         then Some (Inl (''Adapter for venue='' @ [CHR 0x27] @ venue @ [CHR 0x27]
                                @ '' account='' @ [CHR 0x27] @ account_id @ [CHR 0x27] @ '' at ''
                                @ address @ '' did not become ready within 30s''), am)
                         else Some (Inr address,
                                am\<lparr>processes :=
                                  (key, \<lparr>ap_address = address, ap_pid = pid\<rparr>) # processes am\<rparr>)))"

text \<open>The second loop of \<open>stop_all\<close>, for one process: wait for it, else kill it and reap it.\<close>

definition stop_process :: "adapter_process \<Rightarrow> adapter_manager \<Rightarrow> adapter_manager option" where
  "stop_process proc am =
     (if ap_pid proc \<le> 0 then Some am
      else case poll_until (exit_clock am (ap_pid proc)) (exited am (ap_pid proc))
                  (exit_clock am (ap_pid proc) 0 + 5000) 1 of
             None \<Rightarrow> None
           | Some reaped \<Rightarrow>
               Some (am\<lparr>children := removeAll (ap_pid proc) (children am),
                        signals := signals am @ (if reaped then [] else [SIGKILL (ap_pid proc)])\<rparr>))"

fun stop_processes :: "adapter_process list \<Rightarrow> adapter_manager \<Rightarrow> adapter_manager option" where
  "stop_processes [] am = Some am"
| "stop_processes (p # ps) am =
     (case stop_process p am of None \<Rightarrow> None | Some am \<Rightarrow> stop_processes ps am)"

definition running_pids :: "adapter_manager \<Rightarrow> int list" where
  "running_pids am = filter (\<lambda>pid. 0 < pid) (map (\<lambda>e. ap_pid (snd e)) (processes am))"

definition stop_adapters :: "adapter_manager \<Rightarrow> adapter_manager option" where
  "stop_adapters am =
     (let am = am\<lparr>signals := signals am @ map SIGTERM (running_pids am)\<rparr>
      in map_option
           (\<lambda>am. am\<lparr>processes := map (\<lambda>(k, p). (k, if 0 < ap_pid p then p\<lparr>ap_pid := - 1\<rparr> else p))
              (processes am)\<rparr>)
           (stop_processes (map snd (processes am)) am))"

section \<open>Properties\<close>

text \<open>
  Waiting for an adapter always comes to an end: as the loop sleeps half a second per round, it
  returns, and its answer is yes exactly when some ping made within the 30 seconds found the adapter
  ready.
\<close>

theorem wait_for_ready_returns:
  assumes "advances 500 clk"
  shows "\<exists>b. wait_for_ready clk ping timeout = Some b
       \<and> (b \<longleftrightarrow> (\<exists>k\<ge>1. clk k < clk 0 + timeout \<and> fst (ping k) \<and> snd (ping k)))"
  using poll_until_returns [OF assms, of "\<lambda>n. fst (ping n) \<and> snd (ping n)" "clk 0 + timeout" 1]
  by (simp add: wait_for_ready_def)

theorem wait_for_ready_returns_witness:
  "wait_for_ready (\<lambda>n. 500 * int n) (\<lambda>n. (True, n = 7)) 30000 = Some True"
  using wait_for_ready_returns [of "\<lambda>n. 500 * int n" "\<lambda>n. (True, n = 7)" 30000]
  by (auto simp: advances_def)

text \<open>Whether a child exits within the five seconds it is given.\<close>

definition exits_in_time :: "adapter_manager \<Rightarrow> int \<Rightarrow> bool" where
  "exits_in_time am pid \<longleftrightarrow>
     (\<exists>k\<ge>1. exit_clock am pid k < exit_clock am pid 0 + 5000 \<and> exited am pid k)"

lemma exits_in_time_frame [simp]:
  "exits_in_time (am\<lparr>signals := ss\<rparr>) pid = exits_in_time am pid"
  "exits_in_time (am\<lparr>children := cs\<rparr>) pid = exits_in_time am pid"
  by (simp_all add: exits_in_time_def)

lemma stop_process_returns:
  assumes "\<forall>pid. advances 100 (exit_clock am pid)"
  shows "stop_process proc am = Some (if ap_pid proc \<le> 0 then am
    else am\<lparr>children := removeAll (ap_pid proc) (children am),
            signals := signals am
              @ (if exits_in_time am (ap_pid proc) then [] else [SIGKILL (ap_pid proc)])\<rparr>)"
proof -
  obtain b where "poll_until (exit_clock am (ap_pid proc)) (exited am (ap_pid proc))
      (exit_clock am (ap_pid proc) 0 + 5000) 1 = Some b" "b \<longleftrightarrow> exits_in_time am (ap_pid proc)"
    using poll_until_returns [of 100 "exit_clock am (ap_pid proc)"] assms
    unfolding exits_in_time_def by blast
  then show ?thesis by (simp add: stop_process_def)
qed

lemma filter_removeAll: "filter P (removeAll x cs) = filter (\<lambda>c. c \<noteq> x \<and> P c) cs"
  by (induction cs) auto

lemma stop_processes_returns:
  assumes "\<forall>pid. advances 100 (exit_clock am pid)"
  shows "stop_processes ps am = Some (am\<lparr>
      children := filter (\<lambda>c. c \<notin> set (filter (\<lambda>pid. 0 < pid) (map ap_pid ps))) (children am),
      signals := signals am @ map SIGKILL (filter (\<lambda>pid. \<not> exits_in_time am pid)
        (filter (\<lambda>pid. 0 < pid) (map ap_pid ps)))\<rparr>)"
  using assms
proof (induction ps arbitrary: am)
  case Nil
  then show ?case by simp
next
  case (Cons p ps)
  let ?am = "am\<lparr>children := removeAll (ap_pid p) (children am),
      signals := signals am @ (if exits_in_time am (ap_pid p) then [] else [SIGKILL (ap_pid p)])\<rparr>"
  show ?case
    using Cons.IH [of ?am] Cons.IH [of am] Cons.prems
    by (simp add: stop_process_returns filter_removeAll)
qed

lemma stop_adapters_effect:
  assumes "\<forall>pid. advances 100 (exit_clock am pid)"
  shows "\<exists>am'. stop_adapters am = Some am' \<and> running_pids am' = []
       \<and> children am' = filter (\<lambda>c. c \<notin> set (running_pids am)) (children am)
       \<and> signals am' = signals am @ map SIGTERM (running_pids am)
           @ map SIGKILL (filter (\<lambda>pid. \<not> exits_in_time am pid) (running_pids am))"
proof -
  let ?am = "am\<lparr>signals := signals am @ map SIGTERM (running_pids am)\<rparr>"
  have none: "filter (\<lambda>pid. 0 < pid)
      (map (\<lambda>e. ap_pid (snd e)) (map (\<lambda>(k, p). (k, if 0 < ap_pid p then p\<lparr>ap_pid := - 1\<rparr> else p)) ps)) = []"
    for ps :: "((string \<times> string) \<times> adapter_process) list"
    by (induction ps) (auto split: if_splits)
  show ?thesis
    using stop_processes_returns [of ?am "map snd (processes am)"] assms none [of "processes am"]
    by (simp add: stop_adapters_def Let_def running_pids_def comp_def)
qed

text \<open>
  \<open>stop_all\<close> leaves no adapter of the table behind: it returns, sends each running process a
  \<open>SIGTERM\<close> before it waits for any, then a \<open>SIGKILL\<close> exactly to those that do not exit within five
  seconds, and all of them are reaped and forgotten.
\<close>

theorem stop_adapters_reaps_all:
  assumes "\<forall>pid. advances 100 (exit_clock am pid)"
  shows "\<exists>am'. stop_adapters am = Some am' \<and> running_pids am' = []
       \<and> children am' = filter (\<lambda>c. c \<notin> set (running_pids am)) (children am)
       \<and> signals am' = signals am @ map SIGTERM (running_pids am)
           @ map SIGKILL (filter (\<lambda>pid. \<not> exits_in_time am pid) (running_pids am))"
  by (rule stop_adapters_effect [OF assms])

lemma get_or_create_returns:
  assumes "\<forall>n. advances 500 (ready_clock am n)"
  shows "\<exists>r am'. get_or_create venue account cfg am = Some (r, am') \<and> ready_clock am' = ready_clock am"
proof (cases "map_of (processes am) (venue, account)")
  case None
  obtain b where b: "wait_for_ready (ready_clock am (forks am)) (ping_answer am (forks am)) 30000 = Some b"
    using poll_until_returns [OF spec [OF assms], of "forks am"] by (auto simp: wait_for_ready_def)
  with None show ?thesis
    by (cases "fork_result am (forks am)") (simp_all add: get_or_create_def spawn_def Let_def)
qed (simp add: get_or_create_def)

definition sample_adapters :: adapter_manager where
  "sample_adapters =
     \<lparr>processes = [((''ibkr'', ''ACC''), \<lparr>ap_address = ''127.0.0.1:50061'', ap_pid = 41\<rparr>)],
      children = [41], signals = [], forks = 1, fork_result = (\<lambda>n. Inr (41 + int n)),
      ready_clock = (\<lambda>n k. 500 * int k), ping_answer = (\<lambda>n k. (False, False)),
      exit_clock = (\<lambda>pid k. 100 * int k), exited = (\<lambda>pid k. False)\<rparr>"

theorem stop_adapters_reaps_all_witness:
  "\<exists>am'. stop_adapters sample_adapters = Some am' \<and> children am' = []
     \<and> signals am' = [SIGTERM 41, SIGKILL 41]"
  using stop_adapters_reaps_all [of sample_adapters]
  by (auto simp: sample_adapters_def advances_def running_pids_def exits_in_time_def)

text \<open>
  An adapter that does not become ready in time is left behind: \<open>get_or_create\<close> throws, the child
  process goes on running, and no later \<open>stop_all\<close> ends it, since it never got into the table.
\<close>

theorem unready_adapter_is_leaked:
  assumes "map_of (processes am) (venue, account) = None"
    and "fork_result am (forks am) = Inr pid" and "pid \<notin> set (running_pids am)"
    and "advances 500 (ready_clock am (forks am))" and "\<forall>pid. advances 100 (exit_clock am pid)"
    and "\<forall>k. \<not> snd (ping_answer am (forks am) k)"
  shows "\<exists>err am' am''. get_or_create venue account cfg am = Some (Inl err, am')
       \<and> processes am' = processes am \<and> pid \<in> set (children am')
       \<and> stop_adapters am' = Some am'' \<and> pid \<in> set (children am'')"
proof -
  let ?am = "am\<lparr>forks := Suc (forks am), children := children am @ [pid]\<rparr>"
  have "wait_for_ready (ready_clock am (forks am)) (ping_answer am (forks am)) 30000 = Some False"
    using poll_until_returns [OF assms(4), of "\<lambda>n. fst (ping_answer am (forks am) n)
        \<and> snd (ping_answer am (forks am) n)" "ready_clock am (forks am) 0 + 30000" 1] assms(6)
    by (auto simp: wait_for_ready_def)
  then obtain err where e: "get_or_create venue account cfg am = Some (Inl err, ?am)"
    using assms(1,2) by (simp add: get_or_create_def spawn_def Let_def)
  have same: "running_pids ?am = running_pids am" by (simp add: running_pids_def)
  have "\<forall>pid. advances 100 (exit_clock ?am pid)" using assms(5) by simp
  from stop_adapters_effect [OF this] obtain am'' where "stop_adapters ?am = Some am''"
    "children am'' = filter (\<lambda>c. c \<notin> set (running_pids am)) (children am @ [pid])"
    unfolding same by auto
  with e assms(3) show ?thesis by auto
qed

theorem unready_adapter_is_leaked_witness:
  "\<exists>err am'. get_or_create ''ibkr'' ''ACC2'' empty_adapter_config sample_adapters = Some (Inl err, am')
     \<and> 42 \<in> set (children am')"
  using unready_adapter_is_leaked [of sample_adapters "''ibkr''" "''ACC2''" 42 empty_adapter_config]
  by (auto simp: sample_adapters_def advances_def running_pids_def)

end
