(* ===== verification/TradingEngine.thy ===== *)
theory TradingEngine
  imports OrderManagerLife PaperGateway GrpcGateway FeedRegistry AdapterManager
begin

text \<open>
  \<open>core/trading_engine.cpp\<close>: registration of strategies, routing of their signals, positions over all
  strategies, the kill switch and the shutdown. The engine owns the order managers: \<open>managers\<close> maps a
  strategy to the address of its manager, in the iteration order of the \<open>unordered_map\<close>, and the heap
  maps addresses to live objects. A destroyed manager leaves its final state in \<open>retired\<close>: that is
  what its database files hold.

  A method returns \<open>None\<close> when it does not return to its caller: a use after free, a call of
  \<open>std::terminate\<close>, or a wait that never ends. Otherwise \<open>Inl\<close> is the text of an escaping exception.
\<close>

section \<open>Gateways\<close>

text \<open>A \<open>unique_ptr<IExecutionGateway>\<close>; the Alpaca gateway is not compiled in.\<close>

datatype any_gateway = Paper_gateway paper_gateway | Grpc_gateway grpc_gateway

fun lift_gateway ::
  "(paper_gateway \<Rightarrow> 'a \<times> paper_gateway) \<Rightarrow> (grpc_gateway \<Rightarrow> 'a \<times> grpc_gateway)
   \<Rightarrow> any_gateway \<Rightarrow> 'a \<times> any_gateway" where
  "lift_gateway f h (Paper_gateway g) = (let (r, g) = f g in (r, Paper_gateway g))"
| "lift_gateway f h (Grpc_gateway g) = (let (r, g) = h g in (r, Grpc_gateway g))"

fun any_gateway_start :: "any_gateway \<Rightarrow> any_gateway" where
  "any_gateway_start (Paper_gateway g) = Paper_gateway (gw_start paper_gateway_ops g)"
| "any_gateway_start (Grpc_gateway g) = Grpc_gateway (gw_start grpc_gateway_ops g)"

definition any_gateway_ops :: "any_gateway gateway_ops" where
  "any_gateway_ops =
     \<lparr>gw_submit_order = (\<lambda>ord. lift_gateway (gw_submit_order paper_gateway_ops ord)
        (gw_submit_order grpc_gateway_ops ord)),
      gw_cancel_order = (\<lambda>b. lift_gateway (gw_cancel_order paper_gateway_ops b)
        (gw_cancel_order grpc_gateway_ops b)),
      gw_replace_order = (\<lambda>b ord. lift_gateway (gw_replace_order paper_gateway_ops b ord)
        (gw_replace_order grpc_gateway_ops b ord)),
      gw_start = any_gateway_start,
      gw_stop = lift_gateway (gw_stop paper_gateway_ops) (gw_stop grpc_gateway_ops)\<rparr>"

type_synonym engine_om = "(any_gateway, sqlite_store, sqlite_journal) order_manager"

section \<open>State\<close>

text \<open>
  What the engine finds around it: how messages print, and, for the object created at an address, the
  random draws and clock of a paper gateway, the adapter behind a connection, and the opening of the
  two databases, which may throw and may find rows of an earlier run.
\<close>

record engine_env =
  env_debug_string :: "order \<Rightarrow> string"
  env_fmt_double :: "double \<Rightarrow> string"
  env_paper :: "nat \<Rightarrow> paper_gateway"
  env_stub :: "string \<Rightarrow> adapter_stub"
  env_journal :: "StrategyId \<Rightarrow> nat \<Rightarrow> string + sqlite_journal"
  env_store :: "StrategyId \<Rightarrow> nat \<Rightarrow> string + sqlite_store"
  env_clock :: "nat \<Rightarrow> clock"

definition engine_deps :: "engine_env \<Rightarrow> (any_gateway, sqlite_store, sqlite_journal) deps" where
  "engine_deps env =
     \<lparr>gateway_of = any_gateway_ops, store_of = sqlite_store_ops, journal_of = sqlite_journal_ops,
      debug_string = env_debug_string env, fmt_double = env_fmt_double env\<rparr>"

record engine =
  engine_running :: bool
  adapters :: adapter_manager
  registry :: feed_registry
  managers :: "(StrategyId \<times> nat) list"
  om_heap :: "nat \<rightharpoonup> engine_om"
  next_om :: nat
  next_promise :: nat
  retired :: "(StrategyId \<times> engine_om) list"

definition new_engine :: "adapter_manager \<Rightarrow> engine" where
  "new_engine am =
     \<lparr>engine_running = True, adapters = am, registry = new_registry, managers = [],
      om_heap = Map.empty, next_om = 0, next_promise = 0, retired = []\<rparr>"

text \<open>The beginning of \<open>Run\<close>; the server's threads call the methods below from then on.\<close>

definition run_engine :: "engine \<Rightarrow> engine" where
  "run_engine e = e\<lparr>registry := start_all (registry e)\<rparr>"

type_synonym 'a engine_call = "((string + 'a result) \<times> engine) option"

section \<open>Registration\<close>

definition quoted :: "string \<Rightarrow> string" where
  "quoted s = [CHR 0x27] @ s @ [CHR 0x27]"

definition make_gateway ::
  "engine_env \<Rightarrow> register_strategy_request \<Rightarrow> engine \<Rightarrow> (any_gateway result \<times> engine) option" where
  "make_gateway env strat e =
     (case rsr_gateway strat of
        GrpcAdapterGW \<Rightarrow>
          (case rsr_adapter strat of
             None \<Rightarrow>
               Some (Inl (mk_error (''Strategy '' @ quoted (rsr_strategy_id strat)
                 @ '' uses gateway '' @ quoted ''grpc_adapter'' @ '' but has no '' @ quoted ''adapter''
                 @ '' config block'') Error), e)
           | Some cfg \<Rightarrow>
               (case get_or_create (ac_venue cfg) (rsr_account_id strat) cfg (adapters e) of
                  None \<Rightarrow> None
                | Some (Inl err, am) \<Rightarrow> Some (Inl (mk_error err Error), e\<lparr>adapters := am\<rparr>)
                | Some (Inr conn, am) \<Rightarrow>
                    Some (Inr (Grpc_gateway
                      (new_grpc_gateway (rsr_strategy_id strat) (env_stub env conn))),
                      e\<lparr>adapters := am\<rparr>)))
      | AlpacaGW \<Rightarrow>
          Some (Inl (mk_error
            ''Alpaca gateway not compiled in (TRADING_ENABLE_ALPACA_SDK=OFF)'' Error), e)
      | PaperTradingGW \<Rightarrow> Some (Inr (Paper_gateway (env_paper env (next_om e))), e)
      | other \<Rightarrow>
          Some (Inl (mk_error (''Invalid gateway: '' @ int_decimal (gateway_number other)) Error), e))"

definition risk_limits_of :: "register_strategy_request \<Rightarrow> risk_limits" where
  "risk_limits_of strat =
     (case rsr_risk_params strat of
        None \<Rightarrow> no_limits
      | Some r \<Rightarrow> \<lparr>max_quantity = rc_max_quantity r, max_open_orders = rc_max_open_orders r,
                   daily_pnl_limit = rc_daily_pnl_limit r\<rparr>)"

text \<open>
  The \<open>managers_.emplace\<close> of \<open>create_strategy\<close>. C++ leaves the order open in which the two databases
  are opened; only the text of the error can depend on it.
\<close>

definition emplace_manager ::
  "engine_env \<Rightarrow> register_strategy_request \<Rightarrow> any_gateway \<Rightarrow> engine \<Rightarrow> nat result \<times> engine" where
  "emplace_manager env strat gw e =
     (let a = next_om e; sid = rsr_strategy_id strat;
          failed = (\<lambda>err. (Inl (mk_error (err @ '' (Occured when creating a new order manager)'') Error),
                            e\<lparr>next_om := Suc a\<rparr>))
      in case env_journal env sid a of
           Inl err \<Rightarrow> failed err
         | Inr j \<Rightarrow>
             (case env_store env sid a of
                Inl err \<Rightarrow> failed err
              | Inr s \<Rightarrow>
                  let om = create_order_manager (engine_deps env) (rsr_account_id strat) [] gw j s
                             (risk_limits_of strat) (env_clock env a)
                  in (Inr a, e\<lparr>managers := (sid, a) # managers e, om_heap := (om_heap e)(a \<mapsto> om),
                               next_om := Suc a\<rparr>)))"

text \<open>The \<open>switch\<close> that registers the feed. The adapter is looked up outside any \<open>try\<close>.\<close>

definition open_feed ::
  "register_strategy_request \<Rightarrow> market_data_config \<Rightarrow> engine \<Rightarrow> unit engine_call" where
  "open_feed strat md e =
     (let key = (mdc_feed md, rsr_account_id strat)
      in if has_feed key (registry e) then Some (Inr (Inr ()), e)
         else case mdc_feed md of
                Feed_Simulated \<Rightarrow>
                  Some (Inr (Inr ()),
                    e\<lparr>registry := register_feed key (Simulated_feed new_feed False) (registry e)\<rparr>)
              | Feed_Adapter \<Rightarrow>
                  (case rsr_adapter strat of
                     None \<Rightarrow>
                       Some (Inr (Inl (mk_error (''Feed '' @ quoted ''Adapter'' @ '' requires an ''
                         @ quoted ''adapter'' @ '' config block'') Error)), e)
                   | Some cfg \<Rightarrow>
                       (case get_or_create (ac_venue cfg) (rsr_account_id strat) cfg (adapters e) of
                          None \<Rightarrow> None
                        | Some (Inl err, am) \<Rightarrow> Some (Inl err, e\<lparr>adapters := am\<rparr>)
                        | Some (Inr conn, am) \<Rightarrow>
                            Some (Inr (Inr ()), e\<lparr>adapters := am,
                              registry := register_feed key (Adapter_feed new_grpc_feed)
                                (registry e)\<rparr>)))
              | feed \<Rightarrow>
                  Some (Inr (Inl (mk_error
                    (''Unsupported market data feed: '' @ int_decimal (feed_number feed)) Error)), e))"

fun subscribe_manager ::
  "feed_key \<Rightarrow> nat \<Rightarrow> market_data_subscription list \<Rightarrow> engine \<Rightarrow> unit result \<times> engine" where
  "subscribe_manager key om [] e = (Inr (), e)"
| "subscribe_manager key om (sub # subs) e =
     (let (r, fr) = register_subscription key (mds_symbol sub) (mds_period sub) om (registry e);
          e = e\<lparr>registry := fr\<rparr>
      in case r of
           Inl err \<Rightarrow>
             (Inl (mk_error (err @ '' (Error occured while registering symbol: '' @ mds_symbol sub
                @ '')'') Error), e)
         | Inr _ \<Rightarrow> subscribe_manager key om subs e)"

definition find_manager :: "StrategyId \<Rightarrow> engine \<Rightarrow> nat option" where
  "find_manager sid e = map_of (managers e) sid"

definition setup_market_data :: "register_strategy_request \<Rightarrow> nat \<Rightarrow> engine \<Rightarrow> unit engine_call" where
  "setup_market_data strat om e =
     (case rsr_market_data strat of
        None \<Rightarrow> Some (Inr (Inr ()), e)
      | Some md \<Rightarrow>
          (case open_feed strat md e of
             None \<Rightarrow> None
           | Some (Inl ex, e) \<Rightarrow> Some (Inl ex, e)
           | Some (Inr (Inl err), e) \<Rightarrow> Some (Inr (Inl err), e)
           | Some (Inr (Inr _), e) \<Rightarrow>
               (let (r, e) = subscribe_manager (mdc_feed md, rsr_account_id strat) om
                               (mdc_subscriptions md) e
                in Some (Inr r, e))))"

definition create_strategy ::
  "engine_env \<Rightarrow> register_strategy_request \<Rightarrow> engine \<Rightarrow> unit engine_call" where
  "create_strategy env strat e =
     (if find_manager (rsr_strategy_id strat) e \<noteq> None then Some (Inr (Inr ()), e)
      else case make_gateway env strat e of
             None \<Rightarrow> None
           | Some (Inl err, e) \<Rightarrow> Some (Inr (Inl err), e)
           | Some (Inr gw, e) \<Rightarrow>
               (case emplace_manager env strat gw e of
                  (Inl err, e) \<Rightarrow> Some (Inr (Inl err), e)
                | (Inr om, e) \<Rightarrow> setup_market_data strat om e))"

definition RegisterStrategy ::
  "engine_env \<Rightarrow> register_strategy_request \<Rightarrow> engine \<Rightarrow> unit engine_call" where
  "RegisterStrategy env req e =
     (if list_ex (\<lambda>m. fst m = rsr_strategy_id req) (managers e)
      then Some (Inr (Inl (mk_error ''A strategy with this ID already exists.'' Error)), e)
      else create_strategy env req e)"

section \<open>Calls through a manager's pointer\<close>

definition call_manager :: "nat \<Rightarrow> (engine_om \<Rightarrow> 'a \<times> engine_om) \<Rightarrow> engine \<Rightarrow> ('a \<times> engine) option" where
  "call_manager a f e =
     (case om_heap e a of
        None \<Rightarrow> None
      | Some om \<Rightarrow> let (r, om) = f om in Some (r, e\<lparr>om_heap := (om_heap e)(a \<mapsto> om)\<rparr>))"

text \<open>A command carries a new promise; a broken promise would end the caller.\<close>

definition call_command ::
  "nat \<Rightarrow> (nat \<Rightarrow> engine_om \<Rightarrow> 'a option \<times> engine_om) \<Rightarrow> engine \<Rightarrow> ('a \<times> engine) option" where
  "call_command a f e =
     (case call_manager a (f (next_promise e)) e of
        Some (Some r, e) \<Rightarrow> Some (r, e\<lparr>next_promise := Suc (next_promise e)\<rparr>)
      | _ \<Rightarrow> None)"

definition unknown_strategy :: error where
  "unknown_strategy = mk_error ''Unknown strategy'' Error"

text \<open>
  The pointer is looked up under the lock and used after the lock was released; other threads may run
  between the two. \<open>SubmitSignal\<close> is the case where none does.
\<close>

definition submit_via ::
  "engine_env \<Rightarrow> nat \<Rightarrow> strategy_signal \<Rightarrow> engine \<Rightarrow> (LocalOrderId result \<times> engine) option" where
  "submit_via env a sig e = call_command a (process_submit (engine_deps env) sig) e"

definition SubmitSignal ::
  "engine_env \<Rightarrow> strategy_signal \<Rightarrow> engine \<Rightarrow> (LocalOrderId result \<times> engine) option" where
  "SubmitSignal env sig e =
     (case find_manager (sig_strategy_id sig) e of
        None \<Rightarrow> Some (Inl unknown_strategy, e)
      | Some a \<Rightarrow> submit_via env a sig e)"

definition CancelOrder ::
  "engine_env \<Rightarrow> cancel_signal \<Rightarrow> engine \<Rightarrow> (unit result \<times> engine) option" where
  "CancelOrder env sig e =
     (case find_manager (can_strategy_id sig) e of
        None \<Rightarrow> Some (Inl unknown_strategy, e)
      | Some a \<Rightarrow> call_command a (process_cancel (engine_deps env) sig) e)"

definition ReplaceOrder ::
  "engine_env \<Rightarrow> replace_signal \<Rightarrow> engine \<Rightarrow> (LocalOrderId result \<times> engine) option" where
  "ReplaceOrder env sig e =
     (case find_manager (rep_strategy_id sig) e of
        None \<Rightarrow> Some (Inl unknown_strategy, e)
      | Some a \<Rightarrow> call_command a (process_replace (engine_deps env) sig) e)"

section \<open>Positions\<close>

text \<open>The managers in iteration order.\<close>

definition manager_objects :: "engine \<Rightarrow> engine_om list" where
  "manager_objects e = List.map_filter (\<lambda>m. om_heap e (snd m)) (managers e)"

definition combine_position :: "v1_position \<Rightarrow> v1_position \<Rightarrow> v1_position" where
  "combine_position combined pos =
     (let existing_qty = vp_quantity combined;
          new_qty = existing_qty + vp_quantity pos;
          combined =
            (if new_qty \<noteq> 0 \<and> existing_qty \<noteq> 0
             then combined\<lparr>vp_avg_price :=
               (existing_qty * vp_avg_price combined + vp_quantity pos * vp_avg_price pos) / new_qty\<rparr>
             else if vp_quantity pos \<noteq> 0 then combined\<lparr>vp_avg_price := vp_avg_price pos\<rparr>
             else combined)
      in combined\<lparr>vp_quantity := new_qty\<rparr>)"

fun combine_found :: "Symbol \<Rightarrow> bool \<times> v1_position \<Rightarrow> engine_om list \<Rightarrow> bool \<times> v1_position" where
  "combine_found symbol acc [] = acc"
| "combine_found symbol acc (om # oms) =
     combine_found symbol
       (case om_get_position symbol om of
          Inl _ \<Rightarrow> acc | Inr pos \<Rightarrow> (True, combine_position (snd acc) pos)) oms"

definition GetPosition :: "Symbol \<Rightarrow> engine \<Rightarrow> v1_position result" where
  "GetPosition symbol e =
     (let (found, combined) =
        combine_found symbol (False, empty_v1_position\<lparr>vp_symbol := symbol\<rparr>) (manager_objects e)
      in if \<not> found then Inl (mk_error (''No position found for '' @ symbol) Error)
         else Inr combined)"

definition merge_position ::
  "(Symbol \<times> v1_position) list \<Rightarrow> v1_position \<Rightarrow> (Symbol \<times> v1_position) list" where
  "merge_position combined pos =
     (case map_of combined (vp_symbol pos) of
        None \<Rightarrow> AList.update (vp_symbol pos) pos combined
      | Some existing \<Rightarrow>
          let new_qty = vp_quantity existing + vp_quantity pos;
              existing =
                (if new_qty \<noteq> 0
                 then existing\<lparr>vp_avg_price :=
                   (vp_quantity existing * vp_avg_price existing
                    + vp_quantity pos * vp_avg_price pos) / new_qty\<rparr>
                 else existing)
          in AList.update (vp_symbol pos) (existing\<lparr>vp_quantity := new_qty\<rparr>) combined)"

definition GetAllPositions :: "engine \<Rightarrow> v1_position list" where
  "GetAllPositions e =
     map snd (foldl (\<lambda>combined om. foldl merge_position combined (om_get_all_positions om)) []
       (manager_objects e))"

section \<open>Streams\<close>

definition no_result :: "(engine_om \<Rightarrow> engine_om) \<Rightarrow> engine_om \<Rightarrow> unit \<times> engine_om" where
  "no_result f om = ((), f om)"

definition unknown_stream :: "StrategyId \<Rightarrow> error" where
  "unknown_stream sid = mk_error (''Unknown strategy: '' @ sid) Error"

definition SetupMarketDataStream ::
  "StrategyId \<Rightarrow> nat \<Rightarrow> nat \<Rightarrow> engine \<Rightarrow> (unit result \<times> engine) option" where
  "SetupMarketDataStream sid on_tick_sink on_bar_sink e =
     (case find_manager sid e of
        None \<Rightarrow> Some (Inl (unknown_stream sid), e)
      | Some a \<Rightarrow>
          map_option (map_prod Inr id)
            (call_manager a (no_result (set_market_data_sinks on_tick_sink on_bar_sink)) e))"

definition ClearMarketDataStream :: "StrategyId \<Rightarrow> engine \<Rightarrow> engine option" where
  "ClearMarketDataStream sid e =
     (case find_manager sid e of
        None \<Rightarrow> Some e
      | Some a \<Rightarrow> map_option snd (call_manager a (no_result clear_market_data_sinks) e))"

definition SetupFillStream :: "StrategyId \<Rightarrow> nat \<Rightarrow> engine \<Rightarrow> (unit result \<times> engine) option" where
  "SetupFillStream sid sink e =
     (case find_manager sid e of
        None \<Rightarrow> Some (Inl (unknown_stream sid), e)
      | Some a \<Rightarrow>
          map_option (map_prod Inr id) (call_manager a (no_result (set_fill_sink sink)) e))"

definition ClearFillStream :: "StrategyId \<Rightarrow> engine \<Rightarrow> engine option" where
  "ClearFillStream sid e =
     (case find_manager sid e of
        None \<Rightarrow> Some e
      | Some a \<Rightarrow> map_option snd (call_manager a (no_result clear_fill_sink) e))"

section \<open>The kill switch\<close>

definition cancel_all_at :: "engine_env \<Rightarrow> string \<Rightarrow> string \<Rightarrow> nat \<Rightarrow> engine \<Rightarrow> engine option" where
  "cancel_all_at env reason initiated_by a e =
     map_option (\<lambda>(_, e). e\<lparr>next_promise := Suc (next_promise e)\<rparr>)
       (call_manager a
          (no_result (om_cancel_all (engine_deps env) reason initiated_by (next_promise e))) e)"

text \<open>The destructor of a manager, with the end of its lifetime.\<close>

definition destroy_manager :: "engine_env \<Rightarrow> StrategyId \<times> nat \<Rightarrow> engine \<Rightarrow> engine option" where
  "destroy_manager env m e =
     (case om_heap e (snd m) of
        None \<Rightarrow> None
      | Some om \<Rightarrow>
          Some (e\<lparr>om_heap := (om_heap e)(snd m := None),
                  retired := retired e @ [(fst m, destroy_order_manager (engine_deps env) om)]\<rparr>))"

definition stop_strategy ::
  "engine_env \<Rightarrow> StrategyId \<Rightarrow> string \<Rightarrow> string \<Rightarrow> engine \<Rightarrow> (unit result \<times> engine) option" where
  "stop_strategy env sid reason initiated_by e =
     (case find_manager sid e of
        None \<Rightarrow>
          Some (Inl (mk_error (''No strategy '' @ quoted sid @ '' found; cannot stop'') Error), e)
      | Some a \<Rightarrow>
          (case cancel_all_at env reason initiated_by a e of
             None \<Rightarrow> None
           | Some e \<Rightarrow>
               let e = e\<lparr>registry := unregister_manager a (registry e)\<rparr>
               in map_option (\<lambda>e. (Inr (), e\<lparr>managers := AList.delete sid (managers e)\<rparr>))
                    (destroy_manager env (sid, a) e)))"

fun halt_managers ::
  "engine_env \<Rightarrow> string \<Rightarrow> string \<Rightarrow> (StrategyId \<times> nat) list \<Rightarrow> engine \<Rightarrow> engine option" where
  "halt_managers env reason initiated_by [] e = Some e"
| "halt_managers env reason initiated_by (m # ms) e =
     (case cancel_all_at env reason initiated_by (snd m) e of
        None \<Rightarrow> None
      | Some e \<Rightarrow>
          halt_managers env reason initiated_by ms
            (e\<lparr>registry := unregister_manager (snd m) (registry e)\<rparr>))"

fun destroy_managers :: "engine_env \<Rightarrow> (StrategyId \<times> nat) list \<Rightarrow> engine \<Rightarrow> engine option" where
  "destroy_managers env [] e = Some e"
| "destroy_managers env (m # ms) e =
     (case destroy_manager env m e of None \<Rightarrow> None | Some e \<Rightarrow> destroy_managers env ms e)"

definition halt_all ::
  "engine_env \<Rightarrow> string \<Rightarrow> string \<Rightarrow> engine \<Rightarrow> (unit result \<times> engine) option" where
  "halt_all env reason initiated_by e =
     (case halt_managers env reason initiated_by (managers e) e of
        None \<Rightarrow> None
      | Some e \<Rightarrow>
          map_option (\<lambda>e. (Inr (), e\<lparr>managers := [], engine_running := False\<rparr>))
            (destroy_managers env (managers e) e))"

definition ActivateKillSwitch ::
  "engine_env \<Rightarrow> kill_switch_request \<Rightarrow> engine \<Rightarrow> (unit result \<times> engine) option" where
  "ActivateKillSwitch env req e =
     (case ks_mode req of
        HALT_ALL \<Rightarrow> halt_all env (ks_reason req) (ks_initiated_by req) e
      | STOP_STRATEGY \<Rightarrow>
          stop_strategy env (ks_strategy_id req) (ks_reason req) (ks_initiated_by req) e
      | HaltMode_other _ \<Rightarrow> None)"

text \<open>The signal thread, and the end of \<open>Run\<close> once the engine was told to stop.\<close>

definition on_signal :: "engine \<Rightarrow> engine" where
  "on_signal e = e\<lparr>engine_running := False\<rparr>"

fun cancel_managers ::
  "engine_env \<Rightarrow> string \<Rightarrow> string \<Rightarrow> (StrategyId \<times> nat) list \<Rightarrow> engine \<Rightarrow> engine option" where
  "cancel_managers env reason initiated_by [] e = Some e"
| "cancel_managers env reason initiated_by (m # ms) e =
     (case cancel_all_at env reason initiated_by (snd m) e of
        None \<Rightarrow> None | Some e \<Rightarrow> cancel_managers env reason initiated_by ms e)"

definition finish_run :: "engine_env \<Rightarrow> engine \<Rightarrow> engine option" where
  "finish_run env e =
     map_option (\<lambda>e. e\<lparr>registry := stop_all_feeds (registry e)\<rparr>)
       (cancel_managers env ''Shutting down'' ''SIGINT/SIGTERM'' (managers e) e)"

section \<open>Calls of the feeds\<close>

definition engine_on_bar :: "feed_key \<Rightarrow> bar \<Rightarrow> engine \<Rightarrow> engine option" where
  "engine_on_bar key b e = map_option (\<lambda>h. e\<lparr>om_heap := h\<rparr>) (on_bar key b (registry e) (om_heap e))"

definition engine_on_tick :: "feed_key \<Rightarrow> tick \<Rightarrow> engine \<Rightarrow> engine option" where
  "engine_on_tick key t e = map_option (\<lambda>h. e\<lparr>om_heap := h\<rparr>) (on_tick key t (registry e) (om_heap e))"

end
