(* ===== verification/TradingEngineFacts.thy ===== *)
theory TradingEngineFacts
  imports TradingEngine
begin

text \<open>
  The invariant of the engine, of its managers, their addresses and the feed registry: what each call
  does to it, and that it holds over every interleaving of calls, feeds, gateways and dispatch
  threads.
\<close>

section \<open>Managers\<close>

text \<open>An order manager all of whose promises are among the first \<open>n\<close>.\<close>

definition promises_below :: "nat \<Rightarrow> ('g, 's, 'j) order_manager \<Rightarrow> bool" where
  "promises_below n om \<longleftrightarrow>
     (\<forall>p \<in> set (map fst (replies om)). p < n)
   \<and> (\<forall>ev \<in> set (q_items (queue om)). \<forall>p. promise_of ev = Some p \<longrightarrow> p < n)"

definition om_good :: "nat \<Rightarrow> ('g, sqlite_store, 'j) order_manager \<Rightarrow> bool" where
  "om_good n om \<longleftrightarrow>
     om_inv sq_look sq_inv om \<and> promises_below n om \<and> pk_ok (position_keeper om)"

lemma om_good_fresh: "om_good n om \<Longrightarrow> fresh_promise n om"
  by (auto simp: om_good_def promises_below_def fresh_promise_def list_all_iff)

lemma om_good_mono: "om_good n om \<Longrightarrow> n \<le> m \<Longrightarrow> om_good m om"
  by (fastforce simp: om_good_def promises_below_def)

lemma enqueue_items: "set (q_items (queue (om_enqueue ev om))) \<subseteq> insert ev (set (q_items (queue om)))"
  by (auto simp: om_enqueue_def q_push_def q_try_push_def Let_def)

lemma enqueue_replies [simp]: "replies (om_enqueue ev om) = replies om"
  by (simp add: om_enqueue_def)

lemma enqueue_positions [simp]: "position_keeper (om_enqueue ev om) = position_keeper om"
  by (simp add: om_enqueue_def)

lemma handle_events_positions: "pk_ok (position_keeper om) \<Longrightarrow> pk_ok (position_keeper (handle_events d evs om))"
  by (induction evs arbitrary: om) (simp_all add: handle_event_positions pk_ok_on_fills)

lemma om_good_enqueue:
  assumes "om_good n om" and "n \<le> m" and "\<And>p. promise_of ev = Some p \<Longrightarrow> p < m"
  shows "om_good m (om_enqueue ev om)"
  using om_good_mono [OF assms(1,2)] assms(3) enqueue_items [of ev om]
  by (auto simp: om_good_def promises_below_def)

lemma om_good_dispatch_queued:
  assumes "store_of d = sqlite_store_ops" and "om_good n om"
  shows "om_good n (dispatch_queued d om)"
proof -
  have "p < n" if "p \<in> set (map fst (replies (dispatch_queued d om)))" for p
    using that assms(2) unfolding dispatch_queued_promises
    by (fastforce simp: om_good_def promises_below_def split: option.splits)
  with assms show ?thesis
    
    by (simp add: om_good_def promises_below_def om_inv_dispatch_queued handle_events_positions
        dispatch_queued_frame(2))
qed

lemma om_good_dispatch_one:
  assumes "store_of d = sqlite_store_ops" and "om_good n om" and "q_pop st (queue om) = Popped ev q"
  shows "om_good n ((handle_event d ev (om\<lparr>queue := q\<rparr>))\<lparr>queue := q_mark_processed q\<rparr>)"
proof -
  have items: "q_items (queue om) = ev # q_items q"
    using assms(3) by (auto simp: q_pop_def split: list.splits if_splits)
  have "om_inv sq_look sq_inv (handle_event d ev (om\<lparr>queue := q\<rparr>))"
    using assms(2) by (intro sq.ok_handle_event [OF assms(1)]) (simp add: om_good_def)
  with assms(2) items show ?thesis
    by (auto simp: om_good_def promises_below_def handle_event_replies q_mark_processed_def
        handle_event_positions pk_ok_on_fills split: option.splits)
qed

lemma om_good_sinks [simp]:
  "om_good n (set_market_data_sinks k k' om) = om_good n om"
  "om_good n (clear_market_data_sinks om) = om_good n om"
  "om_good n (set_fill_sink k om) = om_good n om" "om_good n (clear_fill_sink om) = om_good n om"
  "om_good n (om\<lparr>gateway := g\<rparr>) = om_good n om" "om_good n (om\<lparr>journal := j\<rparr>) = om_good n om"
  by (simp_all add: om_good_def om_inv_def promises_below_def set_market_data_sinks_def
      clear_market_data_sinks_def set_fill_sink_def clear_fill_sink_def)

lemma om_good_commands:
  assumes "store_of d = sqlite_store_ops" and "om_good n om"
  shows "om_good (Suc n) (snd (process_submit d sig n om))"
    and "om_good (Suc n) (snd (process_cancel d can n om))"
    and "om_good (Suc n) (snd (process_replace d rep n om))"
    and "om_good (Suc n) (om_cancel_all d reason who n om)"
  by (auto simp: process_submit_def process_cancel_def process_replace_def om_cancel_all_def Let_def
      intro!: om_good_dispatch_queued [OF assms(1)] om_good_enqueue [OF assms(2)])

lemma om_good_answers:
  assumes "om_good n om"
  shows "\<exists>r. fst (process_submit d sig n om) = Some r" "\<exists>r. fst (process_cancel d can n om) = Some r"
    "\<exists>r. fst (process_replace d rep n om) = Some r"
  using process_answered [OF om_good_fresh [OF assms], of d sig can rep] by blast+

lemma om_good_create:
  assumes "sq_inv s"
  shows "om_good n (create_order_manager d a [] g j s limits clk)"
  using assms
  by (simp add: om_good_def promises_below_def om_inv_def create_order_manager_def live_ok_def
      empty_queue_def)

section \<open>The invariant of the engine\<close>

text \<open>
  Every strategy has one manager and every manager one strategy, the live objects are exactly the
  managers, the registry points at live managers only, and each manager keeps its own invariant.
\<close>

definition engine_inv :: "engine \<Rightarrow> bool" where
  "engine_inv e \<longleftrightarrow>
     distinct (map fst (managers e)) \<and> distinct (map snd (managers e))
   \<and> dom (om_heap e) = set (map snd (managers e))
   \<and> (\<forall>a \<in> dom (om_heap e). a < next_om e)
   \<and> registered (registry e) \<subseteq> dom (om_heap e)
   \<and> (\<forall>a om. om_heap e a = Some om \<longrightarrow> om_good (next_promise e) om)"

text \<open>What the engine finds in a database file is a table the schema allows.\<close>

definition env_ok :: "engine_env \<Rightarrow> bool" where
  "env_ok env \<longleftrightarrow> (\<forall>sid a s. env_store env sid a = Inr s \<longrightarrow> sq_inv s)"

lemma engine_deps_store [simp]: "store_of (engine_deps env) = sqlite_store_ops"
  by (simp add: engine_deps_def)

lemma engine_inv_new: "engine_inv (new_engine am)"
  by (simp add: engine_inv_def new_engine_def)

lemma engine_inv_live: "engine_inv e \<Longrightarrow> om_heap e a = Some om \<Longrightarrow> om_good (next_promise e) om"
  by (simp add: engine_inv_def)

lemma find_manager_cases:
  assumes "engine_inv e"
  obtains (Unknown) "find_manager sid e = None"
  | (Known) a om where "find_manager sid e = Some a" "om_heap e a = Some om"
      "om_good (next_promise e) om" "(sid, a) \<in> set (managers e)"
proof (cases "find_manager sid e")
  case (Some a)
  then have m: "(sid, a) \<in> set (managers e)"
    by (auto simp: find_manager_def dest: map_of_SomeD)
  have "dom (om_heap e) = snd ` set (managers e)"
    using assms by (simp add: engine_inv_def)
  with m obtain om where "om_heap e a = Some om" by (metis domD image_eqI snd_conv)
  with Some m assms show thesis by (intro Known) (auto simp: engine_inv_def)
qed (rule Unknown)

lemma engine_inv_set_om:
  assumes "engine_inv e" and "om_heap e a = Some om" and "om_good n om'" and "next_promise e \<le> n"
  shows "engine_inv (e\<lparr>om_heap := (om_heap e)(a \<mapsto> om'), next_promise := n\<rparr>)"
proof -
  have "om_good n om2" if "om_heap e a2 = Some om2" for a2 om2
    by (rule om_good_mono [OF engine_inv_live [OF assms(1) that] assms(4)])
  with assms(1-3) show ?thesis by (auto simp: engine_inv_def insert_absorb)
qed

lemma engine_inv_set_om_same:
  assumes "engine_inv e" and "om_heap e a = Some om" and "om_good (next_promise e) om'"
  shows "engine_inv (e\<lparr>om_heap := (om_heap e)(a \<mapsto> om')\<rparr>)"
  using engine_inv_set_om [OF assms order_refl] by simp

lemma call_manager_live:
  "om_heap e a = Some om \<Longrightarrow>
   call_manager a f e = Some (fst (f om), e\<lparr>om_heap := (om_heap e)(a \<mapsto> snd (f om))\<rparr>)"
  by (simp add: call_manager_def split_beta Let_def)

lemma call_command_live:
  assumes "om_heap e a = Some om" and "fst (f (next_promise e) om) = Some r"
  shows "call_command a f e
    = Some (r, e\<lparr>om_heap := (om_heap e)(a \<mapsto> snd (f (next_promise e) om)),
                 next_promise := Suc (next_promise e)\<rparr>)"
  by (simp add: call_command_def call_manager_live [OF assms(1)] assms(2))

lemma call_command_good:
  assumes "engine_inv e" and "om_heap e a = Some om"
    and "\<exists>r. fst (f (next_promise e) om) = Some r"
    and "om_good (Suc (next_promise e)) (snd (f (next_promise e) om))"
  shows "\<exists>r e'. call_command a f e = Some (r, e') \<and> engine_inv e'"
  using assms(3) call_command_live [of e a om f, OF assms(2)] engine_inv_set_om [OF assms(1,2,4)]
  by auto

lemma call_sinks_good:
  assumes "engine_inv e" and "om_heap e a = Some om"
    and "om_good (next_promise e) om \<Longrightarrow> om_good (next_promise e) (f om)"
  shows "\<exists>e'. call_manager a (no_result f) e = Some ((), e') \<and> engine_inv e'"
proof -
  have "om_good (next_promise e) om" using assms(1,2) by (simp add: engine_inv_def)
  from engine_inv_set_om_same [OF assms(1,2) assms(3) [OF this]] show ?thesis
    by (simp add: call_manager_live [OF assms(2)] no_result_def)
qed

lemma cancel_all_at_good:
  assumes "engine_inv e" and "om_heap e a = Some om"
  shows "cancel_all_at env reason who a e
      = Some (e\<lparr>om_heap := (om_heap e)(a \<mapsto> om_cancel_all (engine_deps env) reason who
                (next_promise e) om), next_promise := Suc (next_promise e)\<rparr>)"
    and "engine_inv (e\<lparr>om_heap := (om_heap e)(a \<mapsto> om_cancel_all (engine_deps env) reason who
                (next_promise e) om), next_promise := Suc (next_promise e)\<rparr>)"
proof -
  have "om_good (next_promise e) om" using assms by (simp add: engine_inv_def)
  from engine_inv_set_om [OF assms om_good_commands(4) [OF engine_deps_store this]]
  show "engine_inv (e\<lparr>om_heap := (om_heap e)(a \<mapsto> om_cancel_all (engine_deps env) reason who
                (next_promise e) om), next_promise := Suc (next_promise e)\<rparr>)" by simp
qed (simp add: cancel_all_at_def call_manager_live [OF assms(2)] no_result_def)

section \<open>Every call keeps the invariant and returns\<close>

lemma signals_good:
  assumes "engine_inv e"
  shows "\<exists>r e'. SubmitSignal env sig e = Some (r, e') \<and> engine_inv e'"
    and "\<exists>r e'. CancelOrder env can e = Some (r, e') \<and> engine_inv e'"
    and "\<exists>r e'. ReplaceOrder env rep e = Some (r, e') \<and> engine_inv e'"
proof -
  show "\<exists>r e'. SubmitSignal env sig e = Some (r, e') \<and> engine_inv e'"
    using assms
    by (cases rule: find_manager_cases [of e "sig_strategy_id sig"])
      (simp_all add: SubmitSignal_def submit_via_def assms call_command_good om_good_answers
        om_good_commands)
  show "\<exists>r e'. CancelOrder env can e = Some (r, e') \<and> engine_inv e'"
    using assms
    by (cases rule: find_manager_cases [of e "can_strategy_id can"])
      (simp_all add: CancelOrder_def assms call_command_good om_good_answers
        om_good_commands)
  show "\<exists>r e'. ReplaceOrder env rep e = Some (r, e') \<and> engine_inv e'"
    using assms
    by (cases rule: find_manager_cases [of e "rep_strategy_id rep"])
      (simp_all add: ReplaceOrder_def assms call_command_good om_good_answers
        om_good_commands)
qed

lemma streams_good:
  assumes "engine_inv e"
  shows "\<exists>r e'. SetupMarketDataStream sid k k' e = Some (r, e') \<and> engine_inv e'"
    and "\<exists>e'. ClearMarketDataStream sid e = Some e' \<and> engine_inv e'"
    and "\<exists>r e'. SetupFillStream sid k e = Some (r, e') \<and> engine_inv e'"
    and "\<exists>e'. ClearFillStream sid e = Some e' \<and> engine_inv e'"
proof -
  have "(\<exists>r e'. SetupMarketDataStream sid k k' e = Some (r, e') \<and> engine_inv e')
    \<and> (\<exists>e'. ClearMarketDataStream sid e = Some e' \<and> engine_inv e')
    \<and> (\<exists>r e'. SetupFillStream sid k e = Some (r, e') \<and> engine_inv e')
    \<and> (\<exists>e'. ClearFillStream sid e = Some e' \<and> engine_inv e')"
    using assms
  proof (cases rule: find_manager_cases [of e sid])
    case Unknown
    then show ?thesis
      by (simp add: SetupMarketDataStream_def ClearMarketDataStream_def SetupFillStream_def
          ClearFillStream_def assms)
  next
    case (Known a om)
    note call = call_sinks_good [OF assms Known(2)]
    show ?thesis
      using Known(1) call [of "set_market_data_sinks k k'"] call [of clear_market_data_sinks]
        call [of "set_fill_sink k"] call [of clear_fill_sink]
      by (auto simp: SetupMarketDataStream_def ClearMarketDataStream_def SetupFillStream_def
          ClearFillStream_def)
  qed
  then show "\<exists>r e'. SetupMarketDataStream sid k k' e = Some (r, e') \<and> engine_inv e'"
    "\<exists>e'. ClearMarketDataStream sid e = Some e' \<and> engine_inv e'"
    "\<exists>r e'. SetupFillStream sid k e = Some (r, e') \<and> engine_inv e'"
    "\<exists>e'. ClearFillStream sid e = Some e' \<and> engine_inv e'" by simp_all
qed

text \<open>
  The answer to a command: an unknown strategy is an error and changes nothing; otherwise the manager
  of the strategy has handled what was queued and given the caller's promise that answer, and the rest
  of the engine is as it was.
\<close>

definition answered ::
  "engine \<Rightarrow> nat option \<Rightarrow> om_reply \<Rightarrow> om_reply \<Rightarrow> engine \<Rightarrow> bool" where
  "answered e manager unknown r e' \<longleftrightarrow>
     (case manager of
        None \<Rightarrow> r = unknown \<and> e' = e
      | Some a \<Rightarrow>
          (\<exists>om'. e' = e\<lparr>om_heap := (om_heap e)(a \<mapsto> om'), next_promise := Suc (next_promise e)\<rparr>
             \<and> q_items (queue om') = [] \<and> (next_promise e, r) \<in> set (replies om')))"

lemma commands_answered:
  assumes "engine_inv e"
  shows "\<exists>r e'. SubmitSignal env sig e = Some (r, e')
      \<and> answered e (find_manager (sig_strategy_id sig) e) (Order_reply (Inl unknown_strategy)) (Order_reply r) e'"
    and "\<exists>r e'. CancelOrder env can e = Some (r, e')
      \<and> answered e (find_manager (can_strategy_id can) e) (Unit_reply (Inl unknown_strategy)) (Unit_reply r) e'"
    and "\<exists>r e'. ReplaceOrder env rep e = Some (r, e')
      \<and> answered e (find_manager (rep_strategy_id rep) e) (Order_reply (Inl unknown_strategy)) (Order_reply r) e'"
proof -
  note answers = process_answered [OF om_good_fresh, of "next_promise e" _ "engine_deps env" sig can rep]
  show "\<exists>r e'. SubmitSignal env sig e = Some (r, e')
      \<and> answered e (find_manager (sig_strategy_id sig) e) (Order_reply (Inl unknown_strategy)) (Order_reply r) e'"
    using assms
  proof (cases rule: find_manager_cases [of e "sig_strategy_id sig"])
    case (Known a om)
    from answers [OF Known(3)] obtain r where r: "fst (process_submit (engine_deps env) sig (next_promise e) om) = Some r"
      "(next_promise e, Order_reply r) \<in> set (replies (snd (process_submit (engine_deps env) sig (next_promise e) om)))"
      by (auto simp: process_submit_def Let_def replies_dispatch_command)
    with call_command_live [of e a om "process_submit (engine_deps env) sig", OF Known(2)] Known(1) show ?thesis
      by (auto simp: SubmitSignal_def submit_via_def answered_def process_submit_def Let_def)
  qed (simp add: SubmitSignal_def answered_def)
  show "\<exists>r e'. CancelOrder env can e = Some (r, e')
      \<and> answered e (find_manager (can_strategy_id can) e) (Unit_reply (Inl unknown_strategy)) (Unit_reply r) e'"
    using assms
  proof (cases rule: find_manager_cases [of e "can_strategy_id can"])
    case (Known a om)
    from answers [OF Known(3)] obtain r where r: "fst (process_cancel (engine_deps env) can (next_promise e) om) = Some r"
      "(next_promise e, Unit_reply r) \<in> set (replies (snd (process_cancel (engine_deps env) can (next_promise e) om)))"
      by (auto simp: process_cancel_def Let_def replies_dispatch_command)
    with call_command_live [of e a om "process_cancel (engine_deps env) can", OF Known(2)] Known(1) show ?thesis
      by (auto simp: CancelOrder_def answered_def process_cancel_def Let_def)
  qed (simp add: CancelOrder_def answered_def)
  show "\<exists>r e'. ReplaceOrder env rep e = Some (r, e')
      \<and> answered e (find_manager (rep_strategy_id rep) e) (Order_reply (Inl unknown_strategy)) (Order_reply r) e'"
    using assms
  proof (cases rule: find_manager_cases [of e "rep_strategy_id rep"])
    case (Known a om)
    from answers [OF Known(3)] obtain r where r: "fst (process_replace (engine_deps env) rep (next_promise e) om) = Some r"
      "(next_promise e, Order_reply r) \<in> set (replies (snd (process_replace (engine_deps env) rep (next_promise e) om)))"
      by (auto simp: process_replace_def Let_def replies_dispatch_command)
    with call_command_live [of e a om "process_replace (engine_deps env) rep", OF Known(2)] Known(1) show ?thesis
      by (auto simp: ReplaceOrder_def answered_def process_replace_def Let_def)
  qed (simp add: ReplaceOrder_def answered_def)
qed

subsection \<open>Registration\<close>

lemma make_gateway_frame:
  assumes "make_gateway env strat e = Some (r, e')"
  shows "managers e' = managers e \<and> om_heap e' = om_heap e \<and> next_om e' = next_om e
    \<and> next_promise e' = next_promise e \<and> registry e' = registry e \<and> retired e' = retired e
    \<and> engine_running e' = engine_running e"
  using assms
  by (auto simp: make_gateway_def split: GatewayType.splits option.splits prod.splits sum.splits)

lemma open_feed_frame:
  assumes "open_feed strat md e = Some (r, e')"
  shows "managers e' = managers e \<and> om_heap e' = om_heap e \<and> next_om e' = next_om e
    \<and> next_promise e' = next_promise e \<and> registered (registry e') = registered (registry e)
    \<and> retired e' = retired e \<and> engine_running e' = engine_running e"
  using assms
  by (auto simp: open_feed_def Let_def split: FeedType.splits option.splits prod.splits sum.splits
      if_splits)

lemma subscribe_manager_frame:
  "subscribe_manager key a subs e = (r, e') \<Longrightarrow>
   managers e' = managers e \<and> om_heap e' = om_heap e \<and> next_om e' = next_om e
   \<and> next_promise e' = next_promise e \<and> registered (registry e') \<subseteq> insert a (registered (registry e))
   \<and> retired e' = retired e \<and> engine_running e' = engine_running e"
proof (induction subs arbitrary: e)
  case (Cons sub subs)
  obtain res fr where reg: "register_subscription key (mds_symbol sub) (mds_period sub) a (registry e)
      = (res, fr)" by (cases "register_subscription key (mds_symbol sub) (mds_period sub) a (registry e)")
  with registered_subscription [of key "mds_symbol sub" "mds_period sub" a "registry e"]
  have sub: "registered fr \<subseteq> insert a (registered (registry e))" by simp
  show ?case
  proof (cases res)
    case (Inl err)
    with Cons.prems reg sub show ?thesis by auto
  next
    case (Inr u)
    with Cons.prems reg have "subscribe_manager key a subs (e\<lparr>registry := fr\<rparr>) = (r, e')" by simp
    from Cons.IH [OF this] sub show ?thesis by auto
  qed
qed auto

text \<open>Two states that differ only where the invariant does not look.\<close>

lemma engine_inv_cong:
  assumes "engine_inv e" and "managers e' = managers e" and "om_heap e' = om_heap e"
    and "next_om e' = next_om e" and "next_promise e' = next_promise e"
    and "registered (registry e') \<subseteq> dom (om_heap e)"
  shows "engine_inv e'"
  using assms by (simp add: engine_inv_def)

lemma engine_inv_registered: "engine_inv e \<Longrightarrow> registered (registry e) \<subseteq> dom (om_heap e)"
  unfolding engine_inv_def by blast

lemma emplace_manager_good:
  assumes "env_ok env" and "engine_inv e" and "find_manager (rsr_strategy_id strat) e = None"
    and "emplace_manager env strat gw e = (r, e')"
  shows "engine_inv e' \<and> (\<forall>a. r = Inr a \<longrightarrow> a \<in> dom (om_heap e'))"
proof -
  have fresh: "om_heap e (next_om e) = None" using assms(2) by (auto simp: engine_inv_def)
  have new: "rsr_strategy_id strat \<notin> fst ` set (managers e)"
    using assms(3) by (simp add: find_manager_def map_of_eq_None_iff)
  have addr: "next_om e \<notin> snd ` set (managers e)" "\<forall>m \<in> set (managers e). snd m < Suc (next_om e)"
    using assms(2) fresh by (auto simp: engine_inv_def less_Suc_eq)
  show ?thesis
  proof (cases "\<exists>j s. env_journal env (rsr_strategy_id strat) (next_om e) = Inr j
      \<and> env_store env (rsr_strategy_id strat) (next_om e) = Inr s")
    case False
    then have "e' = e\<lparr>next_om := Suc (next_om e)\<rparr>" "\<exists>err. r = Inl err"
      using assms(4) by (auto simp: emplace_manager_def Let_def split: sum.splits)
    with assms(2) show ?thesis by (auto simp: engine_inv_def less_Suc_eq)
  next
    case True
    then obtain j s where js: "env_journal env (rsr_strategy_id strat) (next_om e) = Inr j"
      "env_store env (rsr_strategy_id strat) (next_om e) = Inr s" by blast
    define om where "om = create_order_manager (engine_deps env) (rsr_account_id strat) [] gw j s
      (risk_limits_of strat) (env_clock env (next_om e))"
    have good: "om_good (next_promise e) om"
      unfolding om_def by (rule om_good_create) (use assms(1) js in \<open>auto simp: env_ok_def\<close>)
    have "e' = e\<lparr>managers := (rsr_strategy_id strat, next_om e) # managers e,
        om_heap := (om_heap e)(next_om e \<mapsto> om), next_om := Suc (next_om e)\<rparr>" "r = Inr (next_om e)"
      using assms(4) js by (auto simp: emplace_manager_def Let_def om_def)
    with assms(2) good new addr show ?thesis by (auto simp: engine_inv_def)
  qed
qed

lemma setup_market_data_good:
  assumes "engine_inv e" and "a \<in> dom (om_heap e)" and "setup_market_data strat a e = Some (r, e')"
  shows "engine_inv e' \<and> managers e' = managers e"
proof (cases "rsr_market_data strat")
  case None
  with assms show ?thesis by (simp add: setup_market_data_def)
next
  case (Some md)
  with assms(3) obtain fr e1 where feed: "open_feed strat md e = Some (fr, e1)"
    by (auto simp: setup_market_data_def split: option.splits)
  have inv1: "engine_inv e1"
    using open_feed_frame [OF feed] engine_inv_registered [OF assms(1)]
    by (intro engine_inv_cong [OF assms(1)]) simp_all
  show ?thesis
  proof (cases "\<exists>u. fr = Inr (Inr u)")
    case False
    with assms(3) Some feed inv1 open_feed_frame [OF feed] show ?thesis
      by (auto simp: setup_market_data_def split: sum.splits)
  next
    case True
    obtain sr e2 where sub: "subscribe_manager (mdc_feed md, rsr_account_id strat) a
        (mdc_subscriptions md) e1 = (sr, e2)" by (metis surj_pair)
    with True assms(3) Some feed have "e' = e2" by (auto simp: setup_market_data_def)
    moreover have "engine_inv e2"
      using subscribe_manager_frame [OF sub] engine_inv_registered [OF inv1] open_feed_frame [OF feed]
        assms(2)
      by (intro engine_inv_cong [OF inv1]) auto
    ultimately show ?thesis
      using subscribe_manager_frame [OF sub] open_feed_frame [OF feed] by simp
  qed
qed

lemma register_cases:
  assumes "RegisterStrategy env strat e = Some (r, e')"
  obtains (exists) a where "find_manager (rsr_strategy_id strat) e = Some a" "e' = e"
      "r = Inr (Inl (mk_error ''A strategy with this ID already exists.'' Error))"
  | (no_gateway) err where "find_manager (rsr_strategy_id strat) e = None"
      "make_gateway env strat e = Some (Inl err, e')" "r = Inr (Inl err)"
  | (no_manager) gway e1 err where "find_manager (rsr_strategy_id strat) e = None"
      "make_gateway env strat e = Some (Inr gway, e1)"
      "emplace_manager env strat gway e1 = (Inl err, e')" "r = Inr (Inl err)"
  | (created) gway e1 a e2 where "find_manager (rsr_strategy_id strat) e = None"
      "make_gateway env strat e = Some (Inr gway, e1)"
      "emplace_manager env strat gway e1 = (Inr a, e2)" "setup_market_data strat a e2 = Some (r, e')"
proof (cases "find_manager (rsr_strategy_id strat) e")
  case (Some a)
  then have "list_ex (\<lambda>m. fst m = rsr_strategy_id strat) (managers e)"
    by (force simp: find_manager_def list_ex_iff dest: map_of_SomeD)
  with assms Some show thesis by (intro exists) (auto simp: RegisterStrategy_def)
next
  case None
  then have "\<not> list_ex (\<lambda>m. fst m = rsr_strategy_id strat) (managers e)"
    by (force simp: find_manager_def map_of_eq_None_iff list_ex_iff)
  with assms have create: "create_strategy env strat e = Some (r, e')"
    by (simp add: RegisterStrategy_def)
  with None obtain gr e1 where gw: "make_gateway env strat e = Some (gr, e1)"
    by (auto simp: create_strategy_def split: option.splits)
  show thesis
  proof (cases gr)
    case (Inl err)
    with create None gw show thesis by (intro no_gateway) (auto simp: create_strategy_def)
  next
    case (Inr gway)
    obtain mr e2 where em: "emplace_manager env strat gway e1 = (mr, e2)"
      by (cases "emplace_manager env strat gway e1")
    show thesis
    proof (cases mr)
      case (Inl err)
      with create None gw \<open>gr = Inr gway\<close> em show thesis
        by (intro no_manager) (auto simp: create_strategy_def)
    next
      case (Inr a)
      with create None gw \<open>gr = Inr gway\<close> em show thesis
        by (intro created) (auto simp: create_strategy_def)
    qed
  qed
qed

lemma make_gateway_good:
  assumes "engine_inv e" and "make_gateway env strat e = Some (r, e')"
  shows "engine_inv e' \<and> find_manager sid e' = find_manager sid e"
  using make_gateway_frame [OF assms(2)] engine_inv_cong [OF assms(1)] engine_inv_registered [OF assms(1)]
  by (simp add: find_manager_def)

lemma register_good:
  assumes "env_ok env" and "engine_inv e" and "RegisterStrategy env strat e = Some (r, e')"
  shows "engine_inv e'"
  using assms(3)
proof (cases rule: register_cases)
  case exists
  with assms(2) show ?thesis by simp
next
  case no_gateway
  with make_gateway_good [OF assms(2)] show ?thesis by blast
next
  case (no_manager gway e1 err)
  note gw = make_gateway_good [OF assms(2) no_manager(2)]
  with no_manager(1) emplace_manager_good [OF assms(1) _ _ no_manager(3)] show ?thesis by simp
next
  case (created gway e1 a e2)
  note gw = make_gateway_good [OF assms(2) created(2)]
  with created(1) emplace_manager_good [OF assms(1) _ _ created(3)]
  have "engine_inv e2" "a \<in> dom (om_heap e2)" by simp_all
  then show ?thesis using setup_market_data_good created(4) by blast
qed

text \<open>A registration comes to an end when the waits for an adapter do.\<close>

lemma make_gateway_returns:
  assumes "\<forall>n. advances 500 (ready_clock (adapters e) n)"
  shows "\<exists>r e'. make_gateway env strat e = Some (r, e')
    \<and> ready_clock (adapters e') = ready_clock (adapters e)"
proof (cases "rsr_gateway strat = GrpcAdapterGW")
  case True
  show ?thesis
  proof (cases "rsr_adapter strat")
    case (Some cfg)
    obtain r am' where "get_or_create (ac_venue cfg) (rsr_account_id strat) cfg (adapters e) = Some (r, am')"
      "ready_clock am' = ready_clock (adapters e)"
      using get_or_create_returns [OF assms] by blast
    with True Some show ?thesis by (cases r) (simp_all add: make_gateway_def)
  qed (simp add: make_gateway_def True)
next
  case False
  then show ?thesis by (cases "rsr_gateway strat") (simp_all add: make_gateway_def)
qed

lemma open_feed_returns:
  assumes "\<forall>n. advances 500 (ready_clock (adapters e) n)"
  shows "\<exists>r e'. open_feed strat md e = Some (r, e')"
proof (cases "has_feed (mdc_feed md, rsr_account_id strat) (registry e) \<or> mdc_feed md \<noteq> Feed_Adapter")
  case True
  then show ?thesis by (cases "mdc_feed md") (auto simp: open_feed_def Let_def)
next
  case False
  show ?thesis
  proof (cases "rsr_adapter strat")
    case (Some cfg)
    obtain r am' where "get_or_create (ac_venue cfg) (rsr_account_id strat) cfg (adapters e) = Some (r, am')"
      using get_or_create_returns [OF assms] by blast
    with False Some show ?thesis by (cases r) (simp_all add: open_feed_def Let_def)
  qed (use False in \<open>simp add: open_feed_def Let_def\<close>)
qed

lemma setup_market_data_returns:
  assumes "\<forall>n. advances 500 (ready_clock (adapters e) n)"
  shows "\<exists>r e'. setup_market_data strat a e = Some (r, e')"
proof (cases "rsr_market_data strat")
  case (Some md)
  obtain r e1 where feed: "open_feed strat md e = Some (r, e1)" using open_feed_returns [OF assms] by blast
  show ?thesis
  proof (cases "\<exists>u. r = Inr (Inr u)")
    case True
    then show ?thesis
      by (cases "subscribe_manager (mdc_feed md, rsr_account_id strat) a (mdc_subscriptions md) e1")
        (auto simp: setup_market_data_def Some feed)
  next
    case False
    then show ?thesis by (cases r; cases "projr r") (auto simp: setup_market_data_def Some feed)
  qed
qed (simp add: setup_market_data_def)

lemma register_returns:
  assumes "\<forall>n. advances 500 (ready_clock (adapters e) n)"
  shows "\<exists>r e'. RegisterStrategy env strat e = Some (r, e')"
proof (cases "list_ex (\<lambda>m. fst m = rsr_strategy_id strat) (managers e) \<or> find_manager (rsr_strategy_id strat) e \<noteq> None")
  case True
  then show ?thesis by (auto simp: RegisterStrategy_def create_strategy_def)
next
  case False
  obtain gr e1 where gw: "make_gateway env strat e = Some (gr, e1)"
    "ready_clock (adapters e1) = ready_clock (adapters e)"
    using make_gateway_returns [OF assms] by blast
  show ?thesis
  proof (cases gr)
    case (Inl err)
    with False gw show ?thesis by (simp add: RegisterStrategy_def create_strategy_def)
  next
    case (Inr g)
    obtain mr e2 where em: "emplace_manager env strat g e1 = (mr, e2)" by (cases "emplace_manager env strat g e1")
    then have "adapters e2 = adapters e1"
      by (auto simp: emplace_manager_def Let_def split: sum.splits)
    with assms gw(2) have "\<forall>n. advances 500 (ready_clock (adapters e2) n)" by simp
    from setup_market_data_returns [OF this] obtain r e3
      where "setup_market_data strat (projr mr) e2 = Some (r, e3)" by blast
    with False gw Inr em show ?thesis
      by (cases mr) (simp_all add: RegisterStrategy_def create_strategy_def)
  qed
qed

subsection \<open>The kill switch\<close>

text \<open>The final state of a manager the kill switch stops, with some promise of its own.\<close>

definition stopped_om ::
  "engine_env \<Rightarrow> string \<Rightarrow> string \<Rightarrow> nat \<Rightarrow> engine_om \<Rightarrow> engine_om" where
  "stopped_om env reason who p om =
     destroy_order_manager (engine_deps env) (om_cancel_all (engine_deps env) reason who p om)"

lemma stop_strategy_effect:
  assumes "engine_inv e" and "find_manager sid e = Some a" and "om_heap e a = Some om"
  shows "stop_strategy env sid reason who e
    = Some (Inr (), e\<lparr>registry := unregister_manager a (registry e),
        managers := AList.delete sid (managers e), om_heap := (om_heap e)(a := None),
        next_promise := Suc (next_promise e),
        retired := retired e @ [(sid, stopped_om env reason who (next_promise e) om)]\<rparr>)"
  by (simp add: stop_strategy_def assms(2) cancel_all_at_good [OF assms(1,3)] destroy_manager_def
      stopped_om_def)

lemma delete_manager:
  assumes "distinct (map fst ms)" and "distinct (map snd ms)" and "(sid, a) \<in> set ms"
  shows "snd ` set (AList.delete sid ms) = snd ` set ms - {a}"
    and "distinct (map snd (AList.delete sid ms))"
proof -
  have inj: "inj_on fst (set ms)" "inj_on snd (set ms)" using assms(1,2) by (simp_all add: distinct_map)
  have del: "set (AList.delete sid ms) = set ms - {(sid, a)}"
  proof (intro set_eqI)
    fix m
    show "m \<in> set (AList.delete sid ms) \<longleftrightarrow> m \<in> set ms - {(sid, a)}"
      using inj_onD [OF inj(1) _ _ assms(3), of m] by (cases m) (auto simp: AList.delete_eq)
  qed
  show "snd ` set (AList.delete sid ms) = snd ` set ms - {a}"
    unfolding del using inj_on_image_set_diff [OF inj(2), of "set ms" "{(sid, a)}"] assms(3) by simp
  show "distinct (map snd (AList.delete sid ms))"
    using assms(2) by (simp add: AList.delete_eq distinct_map_filter)
qed

lemma stop_strategy_good:
  assumes "engine_inv e"
  shows "\<exists>r e'. stop_strategy env sid reason who e = Some (r, e') \<and> engine_inv e'"
  using assms
proof (cases rule: find_manager_cases [of e sid])
  case Unknown
  with assms show ?thesis by (simp add: stop_strategy_def)
next
  case (Known a om)
  have "distinct (map fst (managers e))" "distinct (map snd (managers e))"
    using assms by (simp_all add: engine_inv_def)
  note del = delete_manager [OF this Known(4)]
  have good: "om_good (Suc (next_promise e)) om2" if "om_heap e a2 = Some om2" for a2 om2
    by (rule om_good_mono [OF engine_inv_live [OF assms that]]) simp
  show ?thesis
    unfolding stop_strategy_effect [OF assms Known(1,2)]
    using assms del good by (auto simp: engine_inv_def distinct_delete)
qed

lemma halt_managers_effect:
  "engine_inv e \<Longrightarrow> distinct (map snd ms) \<Longrightarrow> snd ` set ms \<subseteq> dom (om_heap e) \<Longrightarrow>
   \<exists>h fr. halt_managers env reason who ms e
       = Some (e\<lparr>registry := fr, om_heap := h, next_promise := next_promise e + length ms\<rparr>)
     \<and> registered fr = registered (registry e) - snd ` set ms
     \<and> (\<forall>a. a \<notin> snd ` set ms \<longrightarrow> h a = om_heap e a)
     \<and> (\<forall>a \<in> snd ` set ms. \<exists>p. h a
          = map_option (om_cancel_all (engine_deps env) reason who p) (om_heap e a))"
proof (induction ms arbitrary: e)
  case Nil
  then show ?case by (intro exI [of _ "om_heap e"] exI [of _ "registry e"]) simp
next
  case (Cons m ms)
  obtain om where om: "om_heap e (snd m) = Some om" using Cons.prems(3) by auto
  define om1 where "om1 = om_cancel_all (engine_deps env) reason who (next_promise e) om"
  define e1 where "e1 = e\<lparr>om_heap := (om_heap e)(snd m \<mapsto> om1), next_promise := Suc (next_promise e)\<rparr>"
  define e2 where "e2 = e1\<lparr>registry := unregister_manager (snd m) (registry e1)\<rparr>"
  have inv1: "engine_inv e1" unfolding e1_def om1_def by (rule cancel_all_at_good(2) [OF Cons.prems(1) om])
  have inv2: "engine_inv e2"
    using engine_inv_registered [OF inv1] by (intro engine_inv_cong [OF inv1]) (auto simp: e2_def)
  have "snd ` set ms \<subseteq> dom (om_heap e2)" "distinct (map snd ms)"
    using Cons.prems(2,3) om by (auto simp: e2_def e1_def)
  from Cons.IH [OF inv2 this(2,1)] obtain h fr where
    IH: "halt_managers env reason who ms e2
       = Some (e2\<lparr>registry := fr, om_heap := h, next_promise := next_promise e2 + length ms\<rparr>)"
    "registered fr = registered (registry e2) - snd ` set ms"
    "\<forall>a. a \<notin> snd ` set ms \<longrightarrow> h a = om_heap e2 a"
    "\<forall>a \<in> snd ` set ms. \<exists>p. h a
       = map_option (om_cancel_all (engine_deps env) reason who p) (om_heap e2 a)"
    by blast
  have m: "snd m \<notin> snd ` set ms" using Cons.prems(2) by simp
  have "halt_managers env reason who (m # ms) e = halt_managers env reason who ms e2"
    by (simp add: cancel_all_at_good(1) [OF Cons.prems(1) om] e2_def e1_def om1_def)
  with IH(1) have "halt_managers env reason who (m # ms) e
      = Some (e\<lparr>registry := fr, om_heap := h, next_promise := next_promise e + length (m # ms)\<rparr>)"
    by (simp add: e2_def e1_def)
  moreover have "registered fr = registered (registry e) - snd ` set (m # ms)"
    using IH(2) by (auto simp: e2_def e1_def)
  moreover have "\<forall>a. a \<notin> snd ` set (m # ms) \<longrightarrow> h a = om_heap e a"
    using IH(3) by (auto simp: e2_def e1_def)
  moreover have "\<exists>p. h a = map_option (om_cancel_all (engine_deps env) reason who p) (om_heap e a)"
    if "a \<in> snd ` set (m # ms)" for a
  proof (cases "a = snd m")
    case True
    with IH(3) m om show ?thesis by (auto simp: e2_def e1_def om1_def)
  next
    case False
    with that have "a \<in> snd ` set ms" by auto
    with bspec [OF IH(4) this] False show ?thesis by (simp add: e2_def e1_def)
  qed
  ultimately show ?case by (intro exI [of _ h] exI [of _ fr]) simp
qed

lemma destroy_managers_effect:
  "distinct (map snd ms) \<Longrightarrow> snd ` set ms \<subseteq> dom (om_heap e) \<Longrightarrow>
   destroy_managers env ms e
   = Some (e\<lparr>om_heap := om_heap e |` (- snd ` set ms),
       retired := retired e @ map (\<lambda>m. (fst m,
         destroy_order_manager (engine_deps env) (the (om_heap e (snd m))))) ms\<rparr>)"
proof (induction ms arbitrary: e)
  case Nil
  then show ?case by simp
next
  case (Cons m ms)
  obtain om where om: "om_heap e (snd m) = Some om" using Cons.prems(2) by auto
  let ?e = "e\<lparr>om_heap := (om_heap e)(snd m := None),
    retired := retired e @ [(fst m, destroy_order_manager (engine_deps env) om)]\<rparr>"
  have first: "snd m \<notin> snd ` set ms" using Cons.prems(1) by simp
  have other: "snd x \<noteq> snd m" if "x \<in> set ms" for x
    using that first by (metis image_eqI)
  have "destroy_managers env (m # ms) e = destroy_managers env ms ?e"
    by (simp add: destroy_manager_def om)
  also have "\<dots> = Some (?e\<lparr>om_heap := om_heap ?e |` (- snd ` set ms),
       retired := retired ?e @ map (\<lambda>m. (fst m,
         destroy_order_manager (engine_deps env) (the (om_heap ?e (snd m))))) ms\<rparr>)"
  proof (rule Cons.IH)
    show "distinct (map snd ms)" using Cons.prems(1) by simp
    show "snd ` set ms \<subseteq> dom (om_heap ?e)"
    proof
      fix a assume a: "a \<in> snd ` set ms"
      with first have "a \<noteq> snd m" by metis
      with a Cons.prems(2) show "a \<in> dom (om_heap ?e)" by auto
    qed
  qed
  also have "om_heap ?e |` (- snd ` set ms) = om_heap e |` (- snd ` set (m # ms))"
    by (auto simp: restrict_map_def)
  finally show ?case using other om by (simp cong: map_cong)
qed

lemma halt_all_effect:
  assumes "engine_inv e"
  shows "\<exists>e' rs. halt_all env reason who e = Some (Inr (), e')
    \<and> managers e' = [] \<and> om_heap e' = Map.empty \<and> registered (registry e') = {}
    \<and> \<not> engine_running e' \<and> retired e' = retired e @ rs
    \<and> list_all2 (\<lambda>m r. fst r = fst m \<and> (\<exists>om p. om_heap e (snd m) = Some om
         \<and> snd r = stopped_om env reason who p om)) (managers e) rs"
proof -
  have ms: "distinct (map snd (managers e))" "dom (om_heap e) = snd ` set (managers e)"
    using assms by (simp_all add: engine_inv_def)
  obtain h fr where halt: "halt_managers env reason who (managers e) e
       = Some (e\<lparr>registry := fr, om_heap := h, next_promise := next_promise e + length (managers e)\<rparr>)"
    "registered fr = registered (registry e) - snd ` set (managers e)"
    "\<forall>a. a \<notin> snd ` set (managers e) \<longrightarrow> h a = om_heap e a"
    "\<forall>a \<in> snd ` set (managers e). \<exists>p. h a
       = map_option (om_cancel_all (engine_deps env) reason who p) (om_heap e a)"
    using halt_managers_effect [OF assms ms(1), of env reason who] ms(2) by auto
  define e1 where "e1 = e\<lparr>registry := fr, om_heap := h,
    next_promise := next_promise e + length (managers e)\<rparr>"
  have "h a = None \<longleftrightarrow> om_heap e a = None" for a
    using halt(3,4) by (cases "a \<in> snd ` set (managers e)") fastforce+
  then have dom: "dom h = snd ` set (managers e)" using ms(2) by (auto simp: dom_def)
  define rs where "rs = map (\<lambda>m. (fst m, destroy_order_manager (engine_deps env)
    (the (h (snd m))))) (managers e)"
  have gone: "h |` (- snd ` set (managers e)) = Map.empty"
    using dom by (auto simp: restrict_map_def fun_eq_iff dom_def)
  have "destroy_managers env (managers e) e1
      = Some (e1\<lparr>om_heap := Map.empty, retired := retired e @ rs\<rparr>)"
    using destroy_managers_effect [OF ms(1), of e1 env] dom gone by (simp add: e1_def rs_def)
  then have "halt_all env reason who e = Some (Inr (), e1\<lparr>om_heap := Map.empty,
      retired := retired e @ rs, managers := [], engine_running := False\<rparr>)"
    using halt(1) by (simp add: halt_all_def e1_def)
  moreover have "\<exists>om p. om_heap e (snd m) = Some om
      \<and> destroy_order_manager (engine_deps env) (the (h (snd m))) = stopped_om env reason who p om"
    if "m \<in> set (managers e)" for m
  proof -
    have a: "snd m \<in> snd ` set (managers e)" using that by simp
    then obtain om where om: "om_heap e (snd m) = Some om" using ms(2) by (metis domD)
    from bspec [OF halt(4) a] om obtain p
      where "h (snd m) = Some (om_cancel_all (engine_deps env) reason who p om)" by auto
    with om show ?thesis by (auto simp: stopped_om_def)
  qed
  then have "list_all2 (\<lambda>m r. fst r = fst m \<and> (\<exists>om p. om_heap e (snd m) = Some om
         \<and> snd r = stopped_om env reason who p om)) (managers e) rs"
    by (auto simp: rs_def list_all2_conv_all_nth)
  moreover have "registered fr = {}"
    using halt(2) engine_inv_registered [OF assms] ms(2) by simp
  ultimately show ?thesis by (auto simp: e1_def)
qed

lemma engine_inv_empty:
  "managers e = [] \<Longrightarrow> om_heap e = Map.empty \<Longrightarrow> registered (registry e) = {} \<Longrightarrow> engine_inv e"
  by (simp add: engine_inv_def)

lemma halt_all_good:
  assumes "engine_inv e"
  shows "\<exists>r e'. halt_all env reason who e = Some (r, e') \<and> engine_inv e'"
  using halt_all_effect [OF assms, of env reason who] engine_inv_empty by blast

lemma kill_switch_good:
  assumes "engine_inv e" and "ActivateKillSwitch env req e = Some (r, e')"
  shows "engine_inv e'"
  using assms(2) halt_all_good [OF assms(1), of env "ks_reason req" "ks_initiated_by req"]
    stop_strategy_good [OF assms(1), of env "ks_strategy_id req" "ks_reason req" "ks_initiated_by req"]
  by (auto simp: ActivateKillSwitch_def split: HaltMode.splits)

subsection \<open>Feeds and shutdown\<close>

lemma fan_out_good:
  assumes "engine_inv e" and "set as \<subseteq> dom (om_heap e)" and "promise_of ev = None"
  shows "\<exists>h. enqueue_to ev as (om_heap e) = Some h \<and> engine_inv (e\<lparr>om_heap := h\<rparr>)"
  using assms(1,2)
proof (induction as arbitrary: e)
  case Nil
  then show ?case by simp
next
  case (Cons a as)
  then obtain om where om: "om_heap e a = Some om" by auto
  have "engine_inv (e\<lparr>om_heap := (om_heap e)(a \<mapsto> om_enqueue ev om)\<rparr>)" (is "engine_inv ?e")
    using assms(3) engine_inv_live [OF Cons.prems(1) om]
    by (intro engine_inv_set_om_same [OF Cons.prems(1) om] om_good_enqueue) auto
  moreover have "set as \<subseteq> dom (om_heap ?e)" using Cons.prems(2) by auto
  ultimately have "\<exists>h. enqueue_to ev as (om_heap ?e) = Some h \<and> engine_inv (?e\<lparr>om_heap := h\<rparr>)"
    by (rule Cons.IH)
  with om show ?case by simp
qed

lemma deliveries_good:
  assumes "engine_inv e"
  shows "\<exists>e'. engine_on_bar key b e = Some e' \<and> engine_inv e'"
    and "\<exists>e'. engine_on_tick key t e = Some e' \<and> engine_inv e'"
proof -
  have "set (bar_subscribers (registry e) key (bar_symbol b) (bar_period b)) \<subseteq> dom (om_heap e)"
    "set (tick_subscribers (registry e) key (tick_symbol t)) \<subseteq> dom (om_heap e)"
    using subscribers_registered engine_inv_registered [OF assms] by blast+
  from fan_out_good [OF assms this(1)] fan_out_good [OF assms this(2)]
  show "\<exists>e'. engine_on_bar key b e = Some e' \<and> engine_inv e'"
    "\<exists>e'. engine_on_tick key t e = Some e' \<and> engine_inv e'"
    by (force simp: engine_on_bar_def engine_on_tick_def on_bar_subscribers on_tick_subscribers)+
qed

lemma cancel_managers_good:
  "engine_inv e \<Longrightarrow> snd ` set ms \<subseteq> dom (om_heap e) \<Longrightarrow>
   \<exists>e'. cancel_managers env reason who ms e = Some e' \<and> engine_inv e'"
proof (induction ms arbitrary: e)
  case Nil
  then show ?case by simp
next
  case (Cons m ms)
  then obtain om where om: "om_heap e (snd m) = Some om" by auto
  note cancel = cancel_all_at_good [OF Cons.prems(1) om, of env reason who]
  define e1 where "e1 = e\<lparr>om_heap := (om_heap e)(snd m \<mapsto> om_cancel_all (engine_deps env) reason who
    (next_promise e) om), next_promise := Suc (next_promise e)\<rparr>"
  have "snd ` set ms \<subseteq> dom (om_heap e1)" using Cons.prems(2) by (auto simp: e1_def)
  from Cons.IH [OF cancel(2) [folded e1_def] this] show ?case by (simp add: cancel(1) flip: e1_def)
qed

lemma finish_run_good:
  assumes "engine_inv e"
  shows "\<exists>e'. finish_run env e = Some e' \<and> engine_inv e'"
proof -
  have "snd ` set (managers e) \<subseteq> dom (om_heap e)" using assms by (simp add: engine_inv_def)
  from cancel_managers_good [OF assms this, of env "''Shutting down''" "''SIGINT/SIGTERM''"]
  obtain e1 where e1: "cancel_managers env ''Shutting down'' ''SIGINT/SIGTERM'' (managers e) e = Some e1"
    "engine_inv e1" by blast
  have "engine_inv (e1\<lparr>registry := stop_all_feeds (registry e1)\<rparr>)"
    using engine_inv_registered [OF e1(2)] by (intro engine_inv_cong [OF e1(2)]) simp_all
  with e1 show ?thesis by (simp add: finish_run_def)
qed

section \<open>Reachable states\<close>

text \<open>
  The calls of the gRPC threads, the feeds, the gateways' reports, the dispatch threads, and everything
  the gateways, journals, feeds and adapters do by themselves, in any order. A caller may also have
  enqueued its command and still be waiting.
\<close>

inductive engine_step :: "engine_env \<Rightarrow> engine \<Rightarrow> engine \<Rightarrow> bool" for env where
  es_register: "RegisterStrategy env req e = Some (r, e') \<Longrightarrow> engine_step env e e'"
| es_submit: "SubmitSignal env sig e = Some (r, e') \<Longrightarrow> engine_step env e e'"
| es_cancel: "CancelOrder env can e = Some (r, e') \<Longrightarrow> engine_step env e e'"
| es_replace: "ReplaceOrder env rep e = Some (r, e') \<Longrightarrow> engine_step env e e'"
| es_kill: "ActivateKillSwitch env ks e = Some (r, e') \<Longrightarrow> engine_step env e e'"
| es_md_stream: "SetupMarketDataStream sid k k' e = Some (r, e') \<Longrightarrow> engine_step env e e'"
| es_md_clear: "ClearMarketDataStream sid e = Some e' \<Longrightarrow> engine_step env e e'"
| es_fill_stream: "SetupFillStream sid k e = Some (r, e') \<Longrightarrow> engine_step env e e'"
| es_fill_clear: "ClearFillStream sid e = Some e' \<Longrightarrow> engine_step env e e'"
| es_start: "engine_step env e (run_engine e)"
| es_signal: "engine_step env e (on_signal e)"
| es_finish: "\<not> engine_running e \<Longrightarrow> finish_run env e = Some e' \<Longrightarrow> engine_step env e e'"
| es_bar: "engine_on_bar key b e = Some e' \<Longrightarrow> engine_step env e e'"
| es_tick: "engine_on_tick key t e = Some e' \<Longrightarrow> engine_step env e e'"
| es_report: "om_heap e a = Some om \<Longrightarrow>
    engine_step env e (e\<lparr>om_heap := (om_heap e)(a \<mapsto> om_enqueue (Fill_event rep) om)\<rparr>)"
| es_command: "om_heap e a = Some om \<Longrightarrow> promise_of ev = Some (next_promise e) \<Longrightarrow>
    engine_step env e (e\<lparr>om_heap := (om_heap e)(a \<mapsto> om_enqueue ev om),
                         next_promise := Suc (next_promise e)\<rparr>)"
| es_dispatch: "om_heap e a = Some om \<Longrightarrow> q_pop st (queue om) = Popped ev q \<Longrightarrow>
    engine_step env e (e\<lparr>om_heap := (om_heap e)(a \<mapsto>
      (handle_event (engine_deps env) ev (om\<lparr>queue := q\<rparr>))\<lparr>queue := q_mark_processed q\<rparr>)\<rparr>)"
| es_gateway: "om_heap e a = Some om \<Longrightarrow>
    engine_step env e (e\<lparr>om_heap := (om_heap e)(a \<mapsto> om\<lparr>gateway := g\<rparr>)\<rparr>)"
| es_journal: "om_heap e a = Some om \<Longrightarrow>
    engine_step env e (e\<lparr>om_heap := (om_heap e)(a \<mapsto> om\<lparr>journal := j\<rparr>)\<rparr>)"
| es_feeds: "engine_step env e (e\<lparr>registry := (registry e)\<lparr>feeds := fs\<rparr>\<rparr>)"
| es_adapters: "engine_step env e (e\<lparr>adapters := am\<rparr>)"

inductive engine_reach :: "engine_env \<Rightarrow> adapter_manager \<Rightarrow> engine \<Rightarrow> bool" for env am where
  er_new: "engine_reach env am (new_engine am)"
| er_step: "engine_reach env am e \<Longrightarrow> engine_step env e e' \<Longrightarrow> engine_reach env am e'"

lemma registered_feeds: "registered (fr\<lparr>feeds := fs\<rparr>) = registered fr"
  by (simp add: registered_def)

lemma engine_inv_threads:
  assumes "engine_inv e"
  shows "engine_inv (run_engine e)" "engine_inv (on_signal e)"
    "engine_inv (e\<lparr>registry := (registry e)\<lparr>feeds := fs\<rparr>\<rparr>)" "engine_inv (e\<lparr>adapters := am\<rparr>)"
  by (rule engine_inv_cong [OF assms];
      use engine_inv_registered [OF assms] in \<open>simp add: run_engine_def on_signal_def registered_feeds\<close>)+

lemma engine_inv_step:
  assumes "env_ok env" and "engine_inv e" and "engine_step env e e'"
  shows "engine_inv e'"
  using assms(3)
proof cases
  case (es_register req r)
  then show ?thesis using register_good [OF assms(1,2)] by blast
next
  case (es_submit sig r)
  then show ?thesis using signals_good(1) [OF assms(2), of env sig] by auto
next
  case (es_cancel can r)
  then show ?thesis using signals_good(2) [OF assms(2), of env can] by auto
next
  case (es_replace rep r)
  then show ?thesis using signals_good(3) [OF assms(2), of env rep] by auto
next
  case (es_kill ks r)
  then show ?thesis using kill_switch_good [OF assms(2)] by blast
next
  case (es_md_stream sid k k' r)
  then show ?thesis using streams_good(1) [OF assms(2), of sid k k'] by auto
next
  case (es_md_clear sid)
  then show ?thesis using streams_good(2) [OF assms(2), of sid] by auto
next
  case (es_fill_stream sid k r)
  then show ?thesis using streams_good(3) [OF assms(2), of sid k] by auto
next
  case (es_fill_clear sid)
  then show ?thesis using streams_good(4) [OF assms(2), of sid] by auto
next
  case es_finish
  then show ?thesis using finish_run_good [OF assms(2), of env] by auto
next
  case (es_bar key b)
  then show ?thesis using deliveries_good(1) [OF assms(2), of key b] by auto
next
  case (es_tick key t)
  then show ?thesis using deliveries_good(2) [OF assms(2), of key t] by auto
next
  case (es_report a om rep)
  then show ?thesis
    using engine_inv_live [OF assms(2)]
    by (auto intro!: engine_inv_set_om_same [OF assms(2)] om_good_enqueue)
next
  case (es_command a om ev)
  then show ?thesis
    using engine_inv_live [OF assms(2)]
    by (auto intro!: engine_inv_set_om [OF assms(2)] om_good_enqueue)
next
  case (es_dispatch a om st ev q)
  then show ?thesis
    using engine_inv_live [OF assms(2)]
    by (auto intro!: engine_inv_set_om_same [OF assms(2)] om_good_dispatch_one)
next
  case (es_gateway a om g)
  then show ?thesis
    using engine_inv_live [OF assms(2)] by (auto intro!: engine_inv_set_om_same [OF assms(2)])
next
  case (es_journal a om j)
  then show ?thesis
    using engine_inv_live [OF assms(2)] by (auto intro!: engine_inv_set_om_same [OF assms(2)])
qed (simp_all only: engine_inv_threads [OF assms(2)])

lemma engine_inv_reach: "engine_reach env am e \<Longrightarrow> env_ok env \<Longrightarrow> engine_inv e"
  by (induction rule: engine_reach.induct) (auto intro: engine_inv_new engine_inv_step)

end
