(* ===== verification/TradingEngineProps.thy ===== *)
theory TradingEngineProps
  imports TradingEngineFacts
begin

text \<open>
  The properties of the engine: its managers in every reachable state, the answers to its callers, the
  kill switch, and registration. They hold for every interleaving of \<open>engine_step\<close>.
\<close>

section \<open>The managers, in every reachable state\<close>

text \<open>
  C2. In every state the engine can reach, with any interleaving of its threads: strategy ids and
  manager addresses are unique, the live objects are exactly the registered managers, the feed
  registry holds no pointer to anything else, and every manager's live orders agree with its store.
\<close>

theorem engine_managers_consistent:
  assumes "engine_reach env am e" and "env_ok env"
  shows "distinct (map fst (managers e)) \<and> distinct (map snd (managers e))
       \<and> dom (om_heap e) = set (map snd (managers e))
       \<and> registered (registry e) \<subseteq> dom (om_heap e)
       \<and> (\<forall>a om. om_heap e a = Some om \<longrightarrow> om_inv sq_look sq_inv om)"
  using engine_inv_reach [OF assms] by (auto simp: engine_inv_def om_good_def)

text \<open>An engine with one paper trading strategy subscribed to the ticks of a symbol.\<close>

definition sample_env :: engine_env where
  "sample_env = \<lparr>env_debug_string = (\<lambda>_. ''''), env_fmt_double = (\<lambda>_. ''''),
     env_paper = (\<lambda>_. sure_gateway), env_stub = (\<lambda>_. silent_stub),
     env_journal = (\<lambda>_ _. Inr (open_journal sample_clock (\<lambda>_. False) (\<lambda>_. False))),
     env_store = (\<lambda>_ _. Inr (open_store (\<lambda>_. None) (\<lambda>_. ''''))), env_clock = (\<lambda>_. sample_clock)\<rparr>"

definition sample_registration :: register_strategy_request where
  "sample_registration = \<lparr>rsr_strategy_id = ''S1'', rsr_account_id = ''ACC'',
     rsr_gateway = PaperTradingGW, rsr_adapter = None,
     rsr_market_data = Some \<lparr>mdc_feed = Feed_Simulated,
       mdc_subscriptions = [\<lparr>mds_symbol = ''AAPL'', mds_period = None\<rparr>]\<rparr>,
     rsr_risk_params = None\<rparr>"

definition sample_engine :: engine where
  "sample_engine = snd (the (RegisterStrategy sample_env sample_registration (new_engine sample_adapters)))"

definition engine_om0 :: engine_om where
  "engine_om0 = create_order_manager (engine_deps sample_env) ''ACC'' [] (Paper_gateway sure_gateway)
     (open_journal sample_clock (\<lambda>_. False) (\<lambda>_. False)) (open_store (\<lambda>_. None) (\<lambda>_. ''''))
     no_limits sample_clock"

lemma sample_env_ok: "env_ok sample_env"
  by (auto simp: env_ok_def sample_env_def open_store_def sq_inv_def brokers_ok_def id_pairs_def)

lemma sample_register:
  "RegisterStrategy sample_env sample_registration (new_engine sample_adapters)
     = Some (Inr (Inr ()), sample_engine)"
  "managers sample_engine = [(''S1'', 0)]" "om_heap sample_engine = [0 \<mapsto> engine_om0]"
  "tick_subs (registry sample_engine) = [((Feed_Simulated, ''ACC''), ''AAPL'') \<mapsto> [0]]"
  "bar_subs (registry sample_engine) = Map.empty" "retired sample_engine = []"
  "next_promise sample_engine = 0" "adapters sample_engine = sample_adapters"
  by (simp_all add: sample_engine_def RegisterStrategy_def create_strategy_def find_manager_def
      new_engine_def sample_registration_def make_gateway_def emplace_manager_def sample_env_def
      setup_market_data_def open_feed_def has_feed_def new_registry_def register_feed_def add_feed_def
      register_subscription_def ensure_feed_def sim_feed_ops_def subscribe_def engine_om0_def
      engine_deps_def risk_limits_of_def push_back_def Let_def)

lemma sample_reach: "engine_reach sample_env sample_adapters sample_engine"
  by (rule er_step [OF er_new es_register [OF sample_register(1)]])

theorem engine_managers_consistent_witness:
  "dom (om_heap sample_engine) = {0} \<and> registered (registry sample_engine) \<subseteq> {0}"
  using engine_managers_consistent [OF sample_reach sample_env_ok] by (simp add: sample_register)



section \<open>Market data\<close>

text \<open>
  C27. A bar or a tick of a feed reaches the strategies that subscribed to it: in every reachable state
  its delivery succeeds, puts it into the queue of every manager exactly as often as that manager is
  registered for it under that feed, symbol and period, and changes nothing else in the engine. (A
  queue at its limit drops it.)
\<close>

theorem market_data_fan_out:
  assumes "engine_reach env am e" and "env_ok env"
  shows "\<exists>h h'. engine_on_bar key b e = Some (e\<lparr>om_heap := h\<rparr>)
       \<and> (\<forall>a. h a = map_option (om_enqueue (Bar_event b)
            ^^ count_list (bar_subscribers (registry e) key (bar_symbol b) (bar_period b)) a) (om_heap e a))
       \<and> engine_on_tick key t e = Some (e\<lparr>om_heap := h'\<rparr>)
       \<and> (\<forall>a. h' a = map_option (om_enqueue (Tick_event t)
            ^^ count_list (tick_subscribers (registry e) key (tick_symbol t)) a) (om_heap e a))"
proof -
  have "registered (registry e) \<subseteq> dom (om_heap e)"
    by (rule engine_inv_registered [OF engine_inv_reach [OF assms]])
  then have subs: "set (bar_subscribers (registry e) key (bar_symbol b) (bar_period b)) \<subseteq> dom (om_heap e)"
    "set (tick_subscribers (registry e) key (tick_symbol t)) \<subseteq> dom (om_heap e)"
    using subscribers_registered by blast+
  from enqueue_to_live [OF subs(1), of "Bar_event b"] enqueue_to_live [OF subs(2), of "Tick_event t"]
  show ?thesis
    by (auto simp: engine_on_bar_def engine_on_tick_def on_bar_subscribers on_tick_subscribers)
qed

theorem market_data_fan_out_witness:
  "\<exists>h. engine_on_tick (Feed_Simulated, ''ACC'') (make_tick ''AAPL'' 100 0) sample_engine
       = Some (sample_engine\<lparr>om_heap := h\<rparr>)
     \<and> h 0 = Some (om_enqueue (Tick_event (make_tick ''AAPL'' 100 0)) engine_om0)"
proof -
  let ?t = "make_tick ''AAPL'' 100 0" and ?key = "(Feed_Simulated, ''ACC'')"
  obtain h where "engine_on_tick ?key ?t sample_engine = Some (sample_engine\<lparr>om_heap := h\<rparr>)"
    "\<forall>a. h a = map_option (om_enqueue (Tick_event ?t)
       ^^ count_list (tick_subscribers (registry sample_engine) ?key (tick_symbol ?t)) a)
       (om_heap sample_engine a)"
    using market_data_fan_out [OF sample_reach sample_env_ok, of ?key undefined ?t] by blast
  then show ?thesis by (auto simp: sample_register tick_subscribers_def make_tick_def)
qed

section \<open>The kill switch\<close>

text \<open>A paper gateway, or an adapter that accepts every cancel.\<close>

fun obedient :: "any_gateway \<Rightarrow> bool" where
  "obedient (Paper_gateway g) = True"
| "obedient (Grpc_gateway g) =
     (\<forall>n r. case rpc_cancel (gg_stub g) n r of Inl err \<Rightarrow> False | Inr resp \<Rightarrow> crs_accepted resp)"

lemma cancels_from_obedient: "cancels_from obedient any_gateway_ops"
proof -
  have "is_ok (fst (gw_cancel_order any_gateway_ops b g)) \<and> obedient (snd (gw_cancel_order any_gateway_ops b g))"
    if "obedient g" for b g
  proof (cases g)
    case (Paper_gateway pg)
    then show ?thesis
      by (simp add: any_gateway_ops_def Let_def split_beta paper_cancel_order_def)
  next
    case (Grpc_gateway gg)
    with that have "case rpc_cancel (gg_stub gg) n r of Inl err \<Rightarrow> False | Inr resp \<Rightarrow> crs_accepted resp"
      for n r by simp
    from this [of "gg_calls gg" "\<lparr>crq_strategy_id = gg_strategy_id gg, crq_broker_order_id = b\<rparr>"]
    show ?thesis using that
      by (auto simp: Grpc_gateway any_gateway_ops_def grpc_gateway_ops_def gg_cancel_order_def Let_def
          split_beta split: sum.splits)
  qed
  moreover have "obedient (snd (gw_submit_order any_gateway_ops ord g))" if "obedient g" for ord g
    using that by (cases g) (auto simp: any_gateway_ops_def grpc_gateway_ops_def gg_submit_order_def
        Let_def split_beta split: sum.splits)
  moreover have "obedient (snd (gw_replace_order any_gateway_ops b ord g))" if "obedient g" for b ord g
    using that by (cases g) (auto simp: any_gateway_ops_def grpc_gateway_ops_def gg_replace_order_def
        Let_def split_beta split: sum.splits)
  ultimately show ?thesis by (simp add: cancels_from_def)
qed

lemma stopped_om_off:
  assumes "om_good n om" and "obedient (gateway om)" and "sq_healthy (order_store om)"
  shows "all_off (stopped_om env reason who p om)"
  unfolding stopped_om_def
proof (rule stopped_all_off [OF engine_deps_store])
  show "cancels_from obedient (gateway_of (engine_deps env))"
    using cancels_from_obedient by (simp add: engine_deps_def)
qed (use assms in \<open>simp_all add: om_good_def\<close>)

lemma stopped_om_cancelled:
  assumes "om_good n om" and "obedient (gateway om)" and "sq_healthy (order_store om)"
  shows "cancelled_at_broker (engine_deps env) om (stopped_om env reason who p om)"
  unfolding stopped_om_def
proof (rule stopped_cancelled [OF engine_deps_store])
  show "cancels_from obedient (gateway_of (engine_deps env))"
    using cancels_from_obedient by (simp add: engine_deps_def)
qed (use assms in \<open>simp_all add: om_good_def\<close>)

text \<open>No order of a stopped strategy is recorded as open at the broker.\<close>

definition none_at_broker :: "('g, sqlite_store, 'j) order_manager \<Rightarrow> bool" where
  "none_at_broker om \<longleftrightarrow>
     (\<forall>l. case sq_look (order_store om) l of None \<Rightarrow> True | Some v \<Rightarrow> \<not> at_broker v)"

lemma all_off_none: "all_off om \<Longrightarrow> none_at_broker om"
  by (auto simp: all_off_def none_at_broker_def split: option.split)

lemma stopped_om_closed:
  assumes "engine_inv e" and "om_heap e a = Some om"
    and "obedient (gateway om)" and "sq_healthy (order_store om)"
  shows "cancelled_at_broker (engine_deps env) om (stopped_om env reason who p om)
    \<and> none_at_broker (stopped_om env reason who p om)"
  using stopped_om_cancelled [OF engine_inv_live [OF assms(1,2)] assms(3,4)]
    all_off_none [OF stopped_om_off [OF engine_inv_live [OF assms(1,2)] assms(3,4)]] by simp

text \<open>
  Stopping one strategy: if its gateway accepts cancels and the store's statements do not fail, what
  its manager still had queued is handled, exactly the orders recorded as open with a broker id are
  cancelled at the broker, each once, and then its database holds no order that is open with a broker
  id, its manager is gone from the engine and from the feeds, and the managers of all other strategies
  are exactly what they were.
\<close>

theorem stop_strategy_closes_one:
  assumes "engine_reach env am e" and "env_ok env"
    and "find_manager sid e = Some a" and "om_heap e a = Some om"
    and "obedient (gateway om)" and "sq_healthy (order_store om)"
  shows "\<exists>e' om'. stop_strategy env sid reason who e = Some (Inr (), e')
       \<and> retired e' = retired e @ [(sid, om')]
       \<and> cancelled_at_broker (engine_deps env) om om' \<and> none_at_broker om'
       \<and> find_manager sid e' = None \<and> managers e' = AList.delete sid (managers e)
       \<and> om_heap e' = (om_heap e)(a := None) \<and> registered (registry e') = registered (registry e) - {a}"
proof -
  note inv = engine_inv_reach [OF assms(1,2)]
  from stopped_om_closed [OF inv assms(4-6)]
  show ?thesis
    unfolding stop_strategy_effect [OF inv assms(3,4)]
    by (simp add: find_manager_def delete_conv')
qed

lemma engine_om0_simps [simp]:
  "gateway engine_om0 = any_gateway_start (Paper_gateway sure_gateway)"
  "order_store engine_om0 = open_store (\<lambda>_. None) (\<lambda>_. '''')" "queue engine_om0 = empty_queue"
  "position_keeper engine_om0 = []" "id_mapper engine_om0 = empty_mapper"
  by (simp_all add: engine_om0_def create_order_manager_def engine_deps_def any_gateway_ops_def)

lemma engine_om0_obedient: "obedient (gateway engine_om0)" "sq_healthy (order_store engine_om0)"
  by (simp_all add: sq_healthy_def open_store_def)

theorem stop_strategy_closes_one_witness:
  "\<exists>e' om'. stop_strategy sample_env ''S1'' ''test'' ''ops'' sample_engine = Some (Inr (), e')
     \<and> retired e' = [(''S1'', om')] \<and> none_at_broker om' \<and> om_heap e' = Map.empty"
  using stop_strategy_closes_one [OF sample_reach sample_env_ok _ _ engine_om0_obedient,
      of "''S1''" 0 "''test''" "''ops''"]
  by (auto simp: find_manager_def sample_register)

text \<open>
  C8. Halting everything: while the gateways accept cancels and no statement of the order stores
  fails, \<open>HALT_ALL\<close> handles what every manager had queued, cancels at each broker exactly the orders
  recorded as open with a broker id, each once, and leaves no database with an order open that has a
  broker id; when it returns no manager is left, no feed points at one and the engine has been told to
  stop. An order whose broker id was never stored is not covered.
\<close>

theorem halt_all_closes_everything:
  assumes "engine_reach env am e" and "env_ok env" and "ks_mode req = HALT_ALL"
    and "\<forall>a om. om_heap e a = Some om \<longrightarrow> obedient (gateway om) \<and> sq_healthy (order_store om)"
  shows "\<exists>e' rs. ActivateKillSwitch env req e = Some (Inr (), e')
       \<and> managers e' = [] \<and> om_heap e' = Map.empty \<and> registered (registry e') = {}
       \<and> \<not> engine_running e' \<and> retired e' = retired e @ rs
       \<and> list_all2 (\<lambda>m r. fst r = fst m \<and> none_at_broker (snd r)
            \<and> (\<exists>om. om_heap e (snd m) = Some om \<and> cancelled_at_broker (engine_deps env) om (snd r)))
           (managers e) rs"
proof -
  note inv = engine_inv_reach [OF assms(1,2)]
  obtain e' rs where halt: "halt_all env (ks_reason req) (ks_initiated_by req) e = Some (Inr (), e')"
    "managers e' = []" "om_heap e' = Map.empty" "registered (registry e') = {}"
    "\<not> engine_running e'" "retired e' = retired e @ rs"
    and rs: "list_all2 (\<lambda>m r. fst r = fst m \<and> (\<exists>om p. om_heap e (snd m) = Some om
       \<and> snd r = stopped_om env (ks_reason req) (ks_initiated_by req) p om)) (managers e) rs"
    using halt_all_effect [OF inv, of env "ks_reason req" "ks_initiated_by req"] by blast
  have off: "cancelled_at_broker (engine_deps env) om (stopped_om env r w p om)
      \<and> none_at_broker (stopped_om env r w p om)" if "om_heap e a = Some om" for a om r w p
    using stopped_om_closed [OF inv that] assms(4) that by blast
  have "list_all2 (\<lambda>m r. fst r = fst m \<and> none_at_broker (snd r)
      \<and> (\<exists>om. om_heap e (snd m) = Some om \<and> cancelled_at_broker (engine_deps env) om (snd r)))
      (managers e) rs"
    using rs by (rule list_all2_mono) (use off in auto)
  with halt show ?thesis by (simp add: ActivateKillSwitch_def assms(3))
qed

theorem halt_all_closes_everything_witness:
  "\<exists>e'. ActivateKillSwitch sample_env \<lparr>ks_reason = ''test'', ks_initiated_by = ''ops'',
      ks_strategy_id = '''', ks_mode = HALT_ALL\<rparr> sample_engine = Some (Inr (), e')
     \<and> (\<exists>om'. retired e' = [(''S1'', om')] \<and> none_at_broker om'
          \<and> cancelled_at_broker (engine_deps sample_env) engine_om0 om')"
proof -
  have "\<forall>a om. om_heap sample_engine a = Some om \<longrightarrow> obedient (gateway om) \<and> sq_healthy (order_store om)"
    using engine_om0_obedient by (simp add: sample_register del: engine_om0_simps)
  from halt_all_closes_everything [OF sample_reach sample_env_ok _ this, of "\<lparr>ks_reason = ''test'',
      ks_initiated_by = ''ops'', ks_strategy_id = '''', ks_mode = HALT_ALL\<rparr>"]
  show ?thesis by (auto simp: sample_register list_all2_Cons1)
qed

section \<open>Requests\<close>

text \<open>
  A signal goes to the manager of its strategy and to no other: the call returns what that
  manager's dispatch thread answers once everything queued before is handled, and the rest of the
  engine, the managers of the other strategies included, stays exactly as it was.
\<close>

theorem submit_signal_routed:
  assumes "engine_reach env am e" and "env_ok env"
    and "find_manager (sig_strategy_id sig) e = Some a" and "om_heap e a = Some om"
  shows "\<exists>r om'. SubmitSignal env sig e
           = Some (r, e\<lparr>om_heap := (om_heap e)(a \<mapsto> om'), next_promise := Suc (next_promise e)\<rparr>)
       \<and> process_submit (engine_deps env) sig (next_promise e) om = (Some r, om')
       \<and> replies om' = replies (handle_events (engine_deps env) (q_items (queue om)) om)
           @ [(next_promise e, Order_reply r)]
       \<and> q_items (queue om') = []"
proof -
  note inv = engine_inv_reach [OF assms(1,2)]
  let ?p = "next_promise e" and ?d = "engine_deps env"
  obtain r where r: "fst (process_submit ?d sig ?p om) = Some r"
    "replies (handle_submit_command ?d sig ?p (handle_events ?d (q_items (queue om)) om))
      = replies (handle_events ?d (q_items (queue om)) om) @ [(?p, Order_reply r)]"
    using process_answered [OF om_good_fresh [OF engine_inv_live [OF inv assms(4)]], of ?d sig] by blast
  have "SubmitSignal env sig e
      = Some (r, e\<lparr>om_heap := (om_heap e)(a \<mapsto> snd (process_submit ?d sig ?p om)),
                   next_promise := Suc ?p\<rparr>)"
    using call_command_live [of e a om "process_submit ?d sig", OF assms(4) r(1)]
    by (simp add: SubmitSignal_def assms(3) submit_via_def)
  moreover have "replies (snd (process_submit ?d sig ?p om))
      = replies (handle_events ?d (q_items (queue om)) om) @ [(?p, Order_reply r)]"
    using r(2) by (simp add: process_submit_def Let_def replies_dispatch_command)
  moreover have "q_items (queue (snd (process_submit ?d sig ?p om))) = []"
    by (simp add: process_submit_def Let_def)
  ultimately show ?thesis using r(1) by (metis prod.collapse)
qed

theorem submit_signal_routed_witness:
  "\<exists>r e'. SubmitSignal sample_env sample_signal sample_engine = Some (r, e')
     \<and> managers e' = [(''S1'', 0)]"
  using submit_signal_routed [OF sample_reach sample_env_ok, of sample_signal 0 engine_om0]
  by (auto simp: find_manager_def sample_register sample_signal_def)

text \<open>
  The pointer is used after the lock that protects it was released: when a strategy is stopped
  between the lookup of \<open>SubmitSignal\<close> and its call, which no lock prevents, the call is made on a
  destroyed manager.
\<close>

theorem stop_races_with_submit:
  assumes "engine_reach env am e" and "env_ok env"
    and "find_manager (sig_strategy_id sig) e = Some a"
  shows "\<exists>e'. stop_strategy env (sig_strategy_id sig) reason who e = Some (Inr (), e')
       \<and> engine_reach env am e' \<and> submit_via env a sig e' = None"
proof -
  note inv = engine_inv_reach [OF assms(1,2)]
  let ?sid = "sig_strategy_id sig"
  obtain om where om: "om_heap e a = Some om"
    using inv assms(3) by (cases rule: find_manager_cases [of e ?sid]) auto
  obtain e' where e': "stop_strategy env ?sid reason who e = Some (Inr (), e')" "om_heap e' a = None"
    using stop_strategy_effect [OF inv assms(3) om, of env reason who] by simp
  let ?ks = "\<lparr>ks_reason = reason, ks_initiated_by = who, ks_strategy_id = ?sid, ks_mode = STOP_STRATEGY\<rparr>"
  have "ActivateKillSwitch env ?ks e = Some (Inr (), e')"
    using e'(1) by (simp add: ActivateKillSwitch_def)
  with assms(1) have "engine_reach env am e'" by (blast intro: er_step es_kill)
  moreover have "submit_via env a sig e' = None"
    using e'(2) by (simp add: submit_via_def call_command_def call_manager_def)
  ultimately show ?thesis using e'(1) by blast
qed

theorem stop_races_with_submit_witness:
  "\<exists>e'. stop_strategy sample_env ''S1'' ''test'' ''ops'' sample_engine = Some (Inr (), e')
     \<and> submit_via sample_env 0 sample_signal e' = None"
  using stop_races_with_submit [OF sample_reach sample_env_ok, of sample_signal 0 "''test''" "''ops''"]
  by (auto simp: find_manager_def sample_register sample_signal_def)

section \<open>Registration\<close>

text \<open>The subscribers of one requested subscription.\<close>

definition subscribers_of :: "feed_registry \<Rightarrow> feed_key \<Rightarrow> market_data_subscription \<Rightarrow> nat list" where
  "subscribers_of fr key sub =
     (case mds_period sub of
        None \<Rightarrow> tick_subscribers fr key (mds_symbol sub)
      | Some p \<Rightarrow> bar_subscribers fr key (mds_symbol sub) p)"

text \<open>What a registration adds to the subscribers of a subscription: the manager, once per request.\<close>

lemma subscription_adds:
  assumes "register_subscription key s p a fr = (Inr (), fr')"
  shows "subscribers_of fr' k sub = subscribers_of fr k sub
    @ (if k = key \<and> sub = \<lparr>mds_symbol = s, mds_period = p\<rparr> then [a] else [])"
  using assms
  by (elim register_subscription_cases; cases sub; cases p)
    (auto simp: subscribers_of_def tick_subscribers_def bar_subscribers_def push_back_def
      split: option.splits)

lemma subscribe_manager_wires:
  "subscribe_manager key a subs e = (Inr (), e') \<Longrightarrow>
   subscribers_of (registry e') k sub = subscribers_of (registry e) k sub
     @ replicate (if k = key then count_list subs sub else 0) a"
proof (induction subs arbitrary: e)
  case Nil
  then show ?case by simp
next
  case (Cons sb subs)
  obtain fr where reg: "register_subscription key (mds_symbol sb) (mds_period sb) a (registry e)
      = (Inr (), fr)"
    using Cons.prems by (auto simp: Let_def split: prod.splits sum.splits)
  then have "subscribe_manager key a subs (e\<lparr>registry := fr\<rparr>) = (Inr (), e')"
    using Cons.prems by simp
  from Cons.IH [OF this] subscription_adds [OF reg, of k sub] show ?case by (cases sb) auto
qed

lemma open_feed_subscribers:
  assumes "open_feed strat md e = Some (r, e')"
  shows "subscribers_of (registry e') k sub = subscribers_of (registry e) k sub"
  using assms
  by (auto simp: open_feed_def Let_def subscribers_of_def tick_subscribers_def bar_subscribers_def
      register_feed_def split: FeedType.splits option.splits prod.splits sum.splits if_splits)

lemma emplace_managerD:
  assumes "emplace_manager env strat gw e = (Inr a, e')"
  shows "\<exists>j s. a = next_om e \<and> managers e' = (rsr_strategy_id strat, a) # managers e
    \<and> om_heap e' = (om_heap e)(a \<mapsto> create_order_manager (engine_deps env) (rsr_account_id strat) []
        gw j s (risk_limits_of strat) (env_clock env a))"
  using assms
  by (auto simp: emplace_manager_def Let_def split: sum.splits) (intro exI, rule refl)

lemma setup_market_data_frame:
  assumes "setup_market_data strat a e = Some (r, e')"
  shows "managers e' = managers e \<and> om_heap e' = om_heap e"
  using assms
  by (auto simp: setup_market_data_def dest!: open_feed_frame subscribe_manager_frame
      split: option.splits prod.splits sum.splits)

text \<open>
  C28. A registration that succeeds adds exactly one manager, new and empty, under the strategy's id and
  with its risk limits, and exactly the subscriptions asked for: under the feed and the account of the
  request each subscription gets the new manager once for every time it is listed, behind the managers
  it had, and no other subscription of any feed changes; all other managers are as before.
\<close>

theorem registration_wires_manager:
  assumes "RegisterStrategy env strat e = Some (Inr (Inr ()), e')"
  shows "\<exists>om. managers e' = (rsr_strategy_id strat, next_om e) # managers e
       \<and> om_heap e' = (om_heap e)(next_om e \<mapsto> om)
       \<and> find_manager (rsr_strategy_id strat) e = None
       \<and> risk_manager om = risk_limits_of strat \<and> open_order_count om = 0
       \<and> position_keeper om = [] \<and> q_items (queue om) = [] \<and> id_mapper om = empty_mapper
       \<and> (\<forall>key sub. subscribers_of (registry e') key sub = subscribers_of (registry e) key sub
            @ replicate (case rsr_market_data strat of
                None \<Rightarrow> 0
              | Some md \<Rightarrow> if key = (mdc_feed md, rsr_account_id strat)
                           then count_list (mdc_subscriptions md) sub else 0) (next_om e))"
  using assms
proof (cases rule: register_cases)
  case (created gway e1 a e2)
  note gw = make_gateway_frame [OF created(2)] and om = emplace_managerD [OF created(3)]
    and md = setup_market_data_frame [OF created(4)]
  have "registry e2 = registry e1"
    using created(3) by (auto simp: emplace_manager_def Let_def split: sum.splits)
  have "subscribers_of (registry e') key sub = subscribers_of (registry e2) key sub
      @ replicate (case rsr_market_data strat of
          None \<Rightarrow> 0
        | Some md \<Rightarrow> if key = (mdc_feed md, rsr_account_id strat)
                     then count_list (mdc_subscriptions md) sub else 0) a" for key sub
  proof (cases "rsr_market_data strat")
    case None
    with created(4) show ?thesis by (simp add: setup_market_data_def)
  next
    case (Some md)
    then obtain u e3 where feed: "open_feed strat md e2 = Some (Inr (Inr u), e3)"
      "subscribe_manager (mdc_feed md, rsr_account_id strat) a (mdc_subscriptions md) e3 = (Inr (), e')"
      using created(4)
      by (auto simp: setup_market_data_def Let_def split: option.splits prod.splits sum.splits)
    from subscribe_manager_wires [OF feed(2)] open_feed_subscribers [OF feed(1)] Some show ?thesis
      by simp
  qed
  with gw om md created(1) \<open>registry e2 = registry e1\<close> show ?thesis
    by (auto simp: create_order_manager_def empty_queue_def)
qed simp_all

theorem registration_wires_manager_witness:
  "tick_subscribers (registry sample_engine) (Feed_Simulated, ''ACC'') ''AAPL'' = [0]
   \<and> tick_subscribers (registry sample_engine) (Feed_Simulated, ''ACC'') ''MSFT'' = []"
proof -
  let ?key = "(Feed_Simulated, ''ACC'')"
  have new: "subscribers_of (registry (new_engine sample_adapters)) key \<lparr>mds_symbol = s, mds_period = None\<rparr> = []"
    for key s
    by (simp add: new_engine_def new_registry_def subscribers_of_def tick_subscribers_def)
  have "\<forall>key sub. subscribers_of (registry sample_engine) key sub
      = subscribers_of (registry (new_engine sample_adapters)) key sub
        @ replicate (case rsr_market_data sample_registration of
            None \<Rightarrow> 0
          | Some md \<Rightarrow> if key = (mdc_feed md, rsr_account_id sample_registration)
                       then count_list (mdc_subscriptions md) sub else 0) (next_om (new_engine sample_adapters))"
    using registration_wires_manager [OF sample_register(1)] by blast
  from this [rule_format, of ?key]
  have "subscribers_of (registry sample_engine) ?key \<lparr>mds_symbol = s, mds_period = None\<rparr>
      = replicate (if s = ''AAPL'' then 1 else 0) 0" for s
    using new [of ?key] by (simp add: sample_registration_def new_engine_def)
  from this [of "''AAPL''"] this [of "''MSFT''"] show ?thesis by (simp add: subscribers_of_def)
qed

text \<open>
  A registration that fails after its manager was created leaves the strategy registered: the
  caller is told it failed, but the manager runs, and every further attempt is refused as a duplicate.
\<close>

theorem failed_registration_stays:
  assumes "RegisterStrategy env strat e = Some (Inr (Inl err), e')"
    and "make_gateway env strat e = Some (Inr gway, e1)"
    and "emplace_manager env strat gway e1 = (Inr a, e2)"
    and "find_manager (rsr_strategy_id strat) e = None"
  shows "find_manager (rsr_strategy_id strat) e' = Some a \<and> a \<in> dom (om_heap e')
       \<and> RegisterStrategy env strat e'
         = Some (Inr (Inl (mk_error ''A strategy with this ID already exists.'' Error)), e')"
  using assms(1)
proof (cases rule: register_cases)
  case (created gway' e1' a' e2')
  with assms(2,3) have "setup_market_data strat a e2 = Some (Inr (Inl err), e')" by simp
  with setup_market_data_frame emplace_managerD [OF assms(3)]
  have "managers e' = (rsr_strategy_id strat, a) # managers e1" "a \<in> dom (om_heap e')" by fastforce+
  then show ?thesis by (simp add: find_manager_def RegisterStrategy_def)
qed (use assms in auto)

definition unsupported_registration :: register_strategy_request where
  "unsupported_registration = sample_registration
     \<lparr>rsr_market_data := Some \<lparr>mdc_feed = Feed_Alpaca, mdc_subscriptions = []\<rparr>\<rparr>"

theorem failed_registration_stays_witness:
  "\<exists>err e'. RegisterStrategy sample_env unsupported_registration (new_engine sample_adapters)
       = Some (Inr (Inl err), e')
     \<and> find_manager ''S1'' e' = Some 0"
proof -
  let ?e = "new_engine sample_adapters" and ?r = unsupported_registration
  obtain e2 where e2: "emplace_manager sample_env ?r (Paper_gateway sure_gateway) ?e = (Inr 0, e2)"
    "registry e2 = new_registry"
    by (simp add: emplace_manager_def Let_def sample_env_def new_engine_def)
  have gw: "make_gateway sample_env ?r ?e = Some (Inr (Paper_gateway sure_gateway), ?e)"
    by (simp add: make_gateway_def unsupported_registration_def sample_registration_def sample_env_def)
  have none: "find_manager (rsr_strategy_id ?r) ?e = None"
    by (simp add: find_manager_def new_engine_def)
  obtain err where "RegisterStrategy sample_env ?r ?e = Some (Inr (Inl err), e2)"
    using gw e2 none
    by (simp add: RegisterStrategy_def create_strategy_def setup_market_data_def open_feed_def
        has_feed_def new_registry_def unsupported_registration_def new_engine_def)
  from failed_registration_stays [OF this gw e2(1) none] this show ?thesis
    by (auto simp: unsupported_registration_def sample_registration_def)
qed

end
