(* ===== verification/EnginePositions.thy ===== *)
theory EnginePositions
  imports TradingEngineProps
begin

text \<open>
  The two position queries of the engine, which add up the positions of all strategies in different
  ways: \<open>GetPosition\<close> for one symbol, \<open>GetAllPositions\<close> for all of them.
\<close>

section \<open>One symbol\<close>

definition om_quantity :: "Symbol \<Rightarrow> engine_om \<Rightarrow> double" where
  "om_quantity s om = quantity (position_of (position_keeper om) s)"

definition holds_symbol :: "Symbol \<Rightarrow> engine_om \<Rightarrow> bool" where
  "holds_symbol s om \<longleftrightarrow> map_of (position_keeper om) s \<noteq> None"

lemma om_quantity_none: "\<not> holds_symbol s om \<Longrightarrow> om_quantity s om = 0"
  by (simp add: om_quantity_def holds_symbol_def position_of_def empty_position_def)

lemma combine_position_simps [simp]:
  "vp_quantity (combine_position c p) = vp_quantity c + vp_quantity p"
  "vp_symbol (combine_position c p) = vp_symbol c"
  "vp_realized_pnl (combine_position c p) = vp_realized_pnl c"
  by (simp_all add: combine_position_def Let_def)

lemma to_v1_position_simps [simp]:
  "vp_quantity (to_v1_position p) = quantity p" "vp_symbol (to_v1_position p) = pos_symbol p"
  "vp_realized_pnl (to_v1_position p) = rPnL p"
  by (simp_all add: to_v1_position_def)

lemma om_get_position_cases:
  "om_get_position s om
   = (if holds_symbol s om then Inr (to_v1_position (position_of (position_keeper om) s))
      else Inl (mk_error ''Position not found'' Error))"
  by (simp add: om_get_position_def pk_get_position_def holds_symbol_def position_of_def
      split: option.split)

lemma combine_found_sum:
  "combine_found s (fnd, c) oms = (fnd', c') \<Longrightarrow>
   fnd' = (fnd \<or> list_ex (holds_symbol s) oms)
   \<and> vp_quantity c' = vp_quantity c + (\<Sum>om\<leftarrow>oms. om_quantity s om)
   \<and> vp_symbol c' = vp_symbol c \<and> vp_realized_pnl c' = vp_realized_pnl c"
proof (induction oms arbitrary: fnd c)
  case Nil
  then show ?case by simp
next
  case (Cons om oms)
  show ?case
  proof (cases "holds_symbol s om")
    case True
    with Cons.prems have "combine_found s
        (True, combine_position c (to_v1_position (position_of (position_keeper om) s))) oms = (fnd', c')"
      by (simp add: om_get_position_cases)
    from Cons.IH [OF this] True show ?thesis by (simp add: om_quantity_def)
  next
    case False
    with Cons.prems have "combine_found s (fnd, c) oms = (fnd', c')"
      by (simp add: om_get_position_cases)
    from Cons.IH [OF this] False show ?thesis by (simp add: om_quantity_none)
  qed
qed

lemma GetPosition_sum:
  "GetPosition s e
   = (if list_ex (holds_symbol s) (manager_objects e)
      then Inr (snd (combine_found s (False, empty_v1_position\<lparr>vp_symbol := s\<rparr>) (manager_objects e)))
      else Inl (mk_error (''No position found for '' @ s) Error))"
  "vp_quantity (snd (combine_found s (False, empty_v1_position\<lparr>vp_symbol := s\<rparr>) oms))
   = (\<Sum>om\<leftarrow>oms. om_quantity s om)"
  "vp_symbol (snd (combine_found s (False, empty_v1_position\<lparr>vp_symbol := s\<rparr>) oms)) = s"
  "vp_realized_pnl (snd (combine_found s (False, empty_v1_position\<lparr>vp_symbol := s\<rparr>) oms)) = 0"
  using combine_found_sum [of s False "empty_v1_position\<lparr>vp_symbol := s\<rparr>" "manager_objects e"
      "fst (combine_found s (False, empty_v1_position\<lparr>vp_symbol := s\<rparr>) (manager_objects e))"
      "snd (combine_found s (False, empty_v1_position\<lparr>vp_symbol := s\<rparr>) (manager_objects e))"]
    combine_found_sum [of s False "empty_v1_position\<lparr>vp_symbol := s\<rparr>" oms
      "fst (combine_found s (False, empty_v1_position\<lparr>vp_symbol := s\<rparr>) oms)"
      "snd (combine_found s (False, empty_v1_position\<lparr>vp_symbol := s\<rparr>) oms)"]
  by (simp_all add: GetPosition_def split_beta Let_def empty_v1_position_def)

section \<open>All symbols\<close>

text \<open>The merged table: one entry per symbol, each under its own symbol.\<close>

definition table_ok :: "(Symbol \<times> v1_position) list \<Rightarrow> bool" where
  "table_ok al \<longleftrightarrow> distinct (map fst al) \<and> list_all (\<lambda>(s, v). vp_symbol v = s) al"

definition table_quantity :: "(Symbol \<times> v1_position) list \<Rightarrow> Symbol \<Rightarrow> double" where
  "table_quantity al s = (case map_of al s of None \<Rightarrow> 0 | Some v \<Rightarrow> vp_quantity v)"

text \<open>The realised profit reported for a symbol, if it is reported at all.\<close>

definition table_realized :: "(Symbol \<times> v1_position) list \<Rightarrow> Symbol \<Rightarrow> double option" where
  "table_realized al s = map_option vp_realized_pnl (map_of al s)"

lemma table_ok_symbol: "table_ok al \<Longrightarrow> map_of al s = Some v \<Longrightarrow> vp_symbol v = s"
  by (auto simp: table_ok_def list_all_iff dest!: map_of_SomeD)

lemma merge_ok: "table_ok al \<Longrightarrow> table_ok (merge_position al pos)"
  using table_ok_symbol [of al "vp_symbol pos"]
  by (auto simp: merge_position_def table_ok_def Let_def intro!: list_all_update split: option.split)

lemma merge_effect:
  "table_quantity (merge_position al pos) s
   = table_quantity al s + (if vp_symbol pos = s then vp_quantity pos else 0)"
  "table_realized (merge_position al pos) s
   = (case table_realized al s of
        Some r \<Rightarrow> Some r
      | None \<Rightarrow> if vp_symbol pos = s then Some (vp_realized_pnl pos) else None)"
  by (auto simp: merge_position_def table_quantity_def table_realized_def Let_def split: option.split)

lemma merge_all_effect:
  "pk_ok pk \<Longrightarrow> table_ok al \<Longrightarrow>
   table_ok (foldl merge_position al (pk_get_all_positions pk))
   \<and> table_quantity (foldl merge_position al (pk_get_all_positions pk)) s
     = table_quantity al s + quantity (position_of pk s)
   \<and> table_realized (foldl merge_position al (pk_get_all_positions pk)) s
     = (case table_realized al s of Some r \<Rightarrow> Some r | None \<Rightarrow> map_option rPnL (map_of pk s))"
proof (induction pk arbitrary: al)
  case Nil
  then show ?case
    by (simp add: pk_get_all_positions_def position_of_def empty_position_def split: option.split)
next
  case (Cons sp pk)
  obtain k p where sp: "sp = (k, p)" by (cases sp)
  have pk: "pk_ok pk" "pos_symbol p = k" "map_of pk k = None"
    using Cons.prems(1) by (auto simp: sp pk_ok_def map_of_eq_None_iff)
  have "foldl merge_position al (pk_get_all_positions (sp # pk))
      = foldl merge_position (merge_position al (to_v1_position p)) (pk_get_all_positions pk)"
    by (simp add: pk_get_all_positions_def sp)
  with Cons.IH [OF pk(1) merge_ok [OF Cons.prems(2)], of "to_v1_position p"] pk(2,3)
  show ?case
    by (auto simp: sp merge_effect position_of_def empty_position_def split: option.split)
qed

definition merged :: "engine_om list \<Rightarrow> (Symbol \<times> v1_position) list" where
  "merged oms = foldl (\<lambda>combined om. foldl merge_position combined (om_get_all_positions om)) [] oms"

lemma merged_snoc [simp]:
  "merged [] = []" "merged (oms @ [om]) = foldl merge_position (merged oms) (om_get_all_positions om)"
  by (simp_all add: merged_def)

lemma merged_effect:
  "list_all (\<lambda>om. pk_ok (position_keeper om)) oms \<Longrightarrow>
   table_ok (merged oms)
   \<and> table_quantity (merged oms) s = (\<Sum>om\<leftarrow>oms. om_quantity s om)
   \<and> table_realized (merged oms) s
     = (case filter (holds_symbol s) oms of
          [] \<Rightarrow> None | om # _ \<Rightarrow> Some (rPnL (position_of (position_keeper om) s)))"
proof (induction oms rule: rev_induct)
  case Nil
  then show ?case by (simp add: table_ok_def table_quantity_def table_realized_def)
next
  case (snoc om oms)
  then have "pk_ok (position_keeper om)" "table_ok (merged oms)" by simp_all
  from merge_all_effect [OF this, of s] snoc show ?case
    by (auto simp: om_get_all_positions_def om_quantity_def holds_symbol_def position_of_def
        split: list.split option.split)
qed

text \<open>
  The average price: both queries weigh the prices by the quantities while the sum is not zero.
\<close>

definition price_of :: "(Symbol \<times> v1_position) list \<Rightarrow> Symbol \<Rightarrow> double" where
  "price_of al s = (case map_of al s of None \<Rightarrow> 0 | Some v \<Rightarrow> vp_avg_price v)"

definition merged_price :: "(Symbol \<times> v1_position) list \<Rightarrow> v1_position \<Rightarrow> double" where
  "merged_price al pos =
     (case map_of al (vp_symbol pos) of
        None \<Rightarrow> vp_avg_price pos
      | Some v \<Rightarrow> if vp_quantity v + vp_quantity pos \<noteq> 0
                  then (vp_quantity v * vp_avg_price v + vp_quantity pos * vp_avg_price pos)
                       / (vp_quantity v + vp_quantity pos)
                  else vp_avg_price v)"

lemma merge_price:
  "price_of (merge_position al pos) s = (if vp_symbol pos = s then merged_price al pos else price_of al s)"
  by (auto simp: merge_position_def price_of_def merged_price_def Let_def split: option.split)

lemma merge_other: "vp_symbol pos \<noteq> s \<Longrightarrow> map_of (merge_position al pos) s = map_of al s"
  by (auto simp: merge_position_def Let_def split: option.split)

lemma merge_all_price:
  "pk_ok pk \<Longrightarrow>
   price_of (foldl merge_position al (pk_get_all_positions pk)) s
   = (case map_of pk s of None \<Rightarrow> price_of al s | Some p \<Rightarrow> merged_price al (to_v1_position p))"
proof (induction pk arbitrary: al)
  case Nil
  then show ?case by (simp add: pk_get_all_positions_def)
next
  case (Cons sp pk)
  obtain k p where sp: "sp = (k, p)" by (cases sp)
  have pk: "pk_ok pk" "pos_symbol p = k" "map_of pk k = None" "\<And>q. map_of pk s = Some q \<Longrightarrow> pos_symbol q = s"
    using Cons.prems(1) by (auto simp: sp pk_ok_def map_of_eq_None_iff list_all_iff dest!: map_of_SomeD)
  have "foldl merge_position al (pk_get_all_positions (sp # pk))
      = foldl merge_position (merge_position al (to_v1_position p)) (pk_get_all_positions pk)"
    by (simp add: pk_get_all_positions_def sp)
  moreover have "merged_price (merge_position al (to_v1_position p)) (to_v1_position q)
      = merged_price al (to_v1_position q)" if "k \<noteq> s" "map_of pk s = Some q" for q
    using pk(2) pk(4) [OF that(2)] that(1) by (simp add: merged_price_def merge_other)
  ultimately show ?case
    using Cons.IH [OF pk(1), of "merge_position al (to_v1_position p)"] pk(2,3)
    by (auto simp: sp merge_price split: option.split)
qed

definition combined :: "Symbol \<Rightarrow> engine_om list \<Rightarrow> v1_position" where
  "combined s oms = snd (combine_found s (False, empty_v1_position\<lparr>vp_symbol := s\<rparr>) oms)"

lemma combine_found_append: "combine_found s acc (xs @ ys) = combine_found s (combine_found s acc xs) ys"
  by (induction xs arbitrary: acc) simp_all

lemma combined_snoc:
  "combined s (oms @ [om]) = (if holds_symbol s om
     then combine_position (combined s oms) (to_v1_position (position_of (position_keeper om) s))
     else combined s oms)"
  by (simp add: combined_def combine_found_append om_get_position_cases)

lemma combined_price_step:
  assumes "vp_quantity c = table_quantity al s" and "vp_symbol pos = s"
    and "vp_quantity c \<noteq> 0 \<Longrightarrow> vp_avg_price c = price_of al s"
    and "vp_quantity (combine_position c pos) \<noteq> 0"
  shows "vp_avg_price (combine_position c pos) = merged_price al pos"
  using assms
  by (cases "map_of al s")
    (auto simp: combine_position_def merged_price_def table_quantity_def price_of_def Let_def)

lemma prices_agree:
  "list_all (\<lambda>om. pk_ok (position_keeper om)) oms \<Longrightarrow> vp_quantity (combined s oms) \<noteq> 0 \<Longrightarrow>
   vp_avg_price (combined s oms) = price_of (merged oms) s"
proof (induction oms rule: rev_induct)
  case Nil
  then show ?case by (simp add: combined_def empty_v1_position_def)
next
  case (snoc om oms)
  then have ok: "pk_ok (position_keeper om)" "list_all (\<lambda>om. pk_ok (position_keeper om)) oms" by simp_all
  have q: "vp_quantity (combined s oms) = table_quantity (merged oms) s"
    using merged_effect [OF ok(2), of s] by (simp add: combined_def GetPosition_sum(2))
  show ?case
  proof (cases "map_of (position_keeper om) s")
    case None
    with snoc merge_all_price [OF ok(1), of "merged oms" s] show ?thesis
      by (simp add: combined_snoc holds_symbol_def om_get_all_positions_def)
  next
    case (Some p)
    then have "vp_symbol (to_v1_position p) = s"
      using ok(1) by (auto simp: pk_ok_def list_all_iff dest!: map_of_SomeD)
    with Some snoc.IH [OF ok(2)] q snoc.prems(2) show ?thesis
      using merge_all_price [OF ok(1), of "merged oms" s]
      by (simp add: combined_snoc holds_symbol_def om_get_all_positions_def position_of_def
          combined_price_step)
  qed
qed

lemma one_entry:
  "table_ok al \<Longrightarrow>
   filter (\<lambda>v. vp_symbol v = s) (map snd al) = (case map_of al s of None \<Rightarrow> [] | Some v \<Rightarrow> [v])"
proof (induction al)
  case Nil
  then show ?case by simp
next
  case (Cons kv al)
  have "map_of al (fst kv) = None" "table_ok al"
    using Cons.prems by (simp_all add: table_ok_def map_of_eq_None_iff)
  with Cons show ?case by (cases kv) (auto simp: table_ok_def)
qed

lemma managers_pk_ok:
  assumes "engine_inv e"
  shows "list_all (\<lambda>om. pk_ok (position_keeper om)) (manager_objects e)"
  using engine_inv_live [OF assms]
  by (auto simp: manager_objects_def list_all_iff List.map_filter_def om_good_def)

section \<open>An engine with a position\<close>

text \<open>One more event for a manager with an empty queue, as two steps of the engine.\<close>

lemma reach_event:
  assumes "engine_reach env am e" and "om_heap e a = Some om" and "q_items (queue om) = []"
    and "promise_of ev = Some (next_promise e) \<or> ev = Fill_event r"
  shows "\<exists>e' q. engine_reach env am e' \<and> q_items q = []
    \<and> om_heap e' = (om_heap e)(a \<mapsto> (handle_event (engine_deps env) ev om)\<lparr>queue := q\<rparr>)
    \<and> managers e' = managers e"
proof -
  have quiet: "\<not> is_market_data ev" using assms(4) by (cases ev) auto
  define n where "n = (if \<exists>r. ev = Fill_event r then next_promise e else Suc (next_promise e))"
  let ?om = "om_enqueue ev om"
  let ?e = "e\<lparr>om_heap := (om_heap e)(a \<mapsto> ?om), next_promise := n\<rparr>"
  have "engine_step env e ?e"
    using assms(4) es_report [OF assms(2), of env r] es_command [OF assms(2), of ev env]
    by (cases "\<exists>r. ev = Fill_event r") (auto simp: n_def)
  with assms(1) have reach: "engine_reach env am ?e" by (rule er_step)
  let ?q = "(queue ?om)\<lparr>q_items := []\<rparr>"
  have items: "q_items (queue ?om) = [ev]" using assms(3) by (simp add: enqueue_command [OF quiet])
  have "engine_step env ?e (?e\<lparr>om_heap := (om_heap ?e)(a \<mapsto>
      (handle_event (engine_deps env) ev (?om\<lparr>queue := ?q\<rparr>))\<lparr>queue := q_mark_processed ?q\<rparr>)\<rparr>)"
    by (rule es_dispatch [where st = False]) (simp_all add: q_pop_Cons [OF items])
  with reach have "engine_reach env am (?e\<lparr>om_heap := (om_heap ?e)(a \<mapsto>
      (handle_event (engine_deps env) ev (?om\<lparr>queue := ?q\<rparr>))\<lparr>queue := q_mark_processed ?q\<rparr>)\<rparr>)"
    by (rule er_step)
  then show ?thesis
    by (intro exI conjI, assumption)
      (simp_all add: q_mark_processed_def enqueue_command [OF quiet] handle_event_queue_commute)
qed

text \<open>The sample strategy buys, and is filled.\<close>

definition engine_om1 :: engine_om where
  "engine_om1 = handle_submit_command (engine_deps sample_env) sample_signal 0 engine_om0"

definition engine_fill :: execution_report where
  "engine_fill = final_fill\<lparr>er_broker_order_id := sure_id\<rparr>"

lemma engine_om0_clock:
  "readings (om_clock engine_om0) = (\<lambda>_. 0)" "risk_manager engine_om0 = no_limits"
  "replies engine_om0 = []"
  by (simp_all add: engine_om0_def create_order_manager_def sample_clock_def)

lemma engine_om0_accepts:
  "fst (gw_submit_order any_gateway_ops ord (any_gateway_start (Paper_gateway sure_gateway))) = Inr sure_id"
  by (simp add: any_gateway_ops_def split_beta Let_def op_defs paper_start_def set_fill_handler_def
      start_dispatcher_def sure_gateway_def new_paper_gateway_def default_config_def clock_now_def
      generate_def mk_generator_def sure_id_def)

lemma engine_om1_effect:
  "replies engine_om1 = [(0, Order_reply (Inr (fst (om_generate engine_om0))))]"
  "booked_fill (engine_deps sample_env) (Fill_event engine_fill) engine_om1 = [(''AAPL'', 10, 50, BUY)]"
proof -
  obtain s where s: "timestamp_to_string 0 = Inr s"
    using timestamp_to_string_ok [of 0] by (auto simp: in_i64_def)
  show "replies engine_om1 = [(0, Order_reply (Inr (fst (om_generate engine_om0))))]"
    "booked_fill (engine_deps sample_env) (Fill_event engine_fill) engine_om1 = [(''AAPL'', 10, 50, BUY)]"
    using engine_om0_clock engine_om0_accepts
    by (simp_all add: engine_om1_def handle_submit_alt Let_def s submit_stored_def submit_accepted_def
        split_beta op_defs open_store_def broker_taken_def engine_fill_def engine_deps_def
        get_local_id_def add_mapping_def update_rows_def row_of_def sample_signal_def)
qed

text \<open>An engine the sample strategy's fill was booked in.\<close>

lemma engine_with_position:
  "\<exists>e om. engine_reach sample_env sample_adapters e \<and> manager_objects e = [om]
     \<and> position_keeper om = on_fill ''AAPL'' 10 50 BUY []"
proof -
  let ?d = "engine_deps sample_env"
  obtain e1 q1 where e1: "engine_reach sample_env sample_adapters e1" "q_items q1 = []"
    "om_heap e1 = [0 \<mapsto> engine_om1\<lparr>queue := q1\<rparr>]" "managers e1 = [(''S1'', 0)]"
    using reach_event [OF sample_reach, of 0 engine_om0 "Submit_command sample_signal 0"]
    by (auto simp: sample_register empty_queue_def engine_om1_def)
  obtain e2 q2 where e2: "engine_reach sample_env sample_adapters e2"
    "om_heap e2 = [0 \<mapsto> (handle_event ?d (Fill_event engine_fill) (engine_om1\<lparr>queue := q1\<rparr>))\<lparr>queue := q2\<rparr>]"
    "managers e2 = [(''S1'', 0)]"
    using reach_event [OF e1(1), of 0 "engine_om1\<lparr>queue := q1\<rparr>" "Fill_event engine_fill"] e1(2-4) by auto
  have "position_keeper engine_om1 = []"
    using handle_event_positions [of ?d "Submit_command sample_signal 0" engine_om0]
    by (simp add: engine_om1_def)
  then have "position_keeper (handle_event ?d (Fill_event engine_fill) engine_om1)
      = on_fill ''AAPL'' 10 50 BUY []"
    by (simp only: handle_event_positions engine_om1_effect) simp
  then show ?thesis
    using e2 by (auto simp: manager_objects_def List.map_filter_def handle_event_queue_commute
        simp del: handle_event.simps)
qed

section \<open>The two queries\<close>

text \<open>
  C29. The two position queries agree as far as they report the same: in every reachable state
  \<open>GetPosition\<close> finds a symbol exactly when \<open>GetAllPositions\<close> has an entry for it, then exactly one; both
  report the sum of the quantities of all strategies, and the same average price unless that sum is
  zero. The realised profit differs: \<open>GetPosition\<close> reports none, and \<open>GetAllPositions\<close> that of the first
  strategy that knows the symbol.
\<close>

theorem position_queries_agree:
  assumes "engine_reach env am e" and "env_ok env"
  shows "case GetPosition s e of
           Inl err \<Rightarrow> filter (\<lambda>v. vp_symbol v = s) (GetAllPositions e) = []
         | Inr p \<Rightarrow>
             (\<exists>v. filter (\<lambda>v. vp_symbol v = s) (GetAllPositions e) = [v]
                \<and> vp_quantity v = vp_quantity p
                \<and> (vp_quantity p \<noteq> 0 \<longrightarrow> vp_avg_price v = vp_avg_price p)
                \<and> vp_realized_pnl v
                  = rPnL (position_of (position_keeper (hd (filter (holds_symbol s) (manager_objects e)))) s))
             \<and> vp_realized_pnl p = 0 \<and> vp_symbol p = s
             \<and> vp_quantity p = (\<Sum>om\<leftarrow>manager_objects e. om_quantity s om)"
proof -
  let ?oms = "manager_objects e"
  note ok = managers_pk_ok [OF engine_inv_reach [OF assms]]
  note m = merged_effect [OF ok, of s]
  have all: "GetAllPositions e = map snd (merged ?oms)"
    by (simp add: GetAllPositions_def merged_def)
  show ?thesis
  proof (cases "list_ex (holds_symbol s) ?oms")
    case True
    then obtain om oms where holders: "filter (holds_symbol s) ?oms = om # oms"
      by (cases "filter (holds_symbol s) ?oms") (auto simp: filter_empty_conv list_ex_iff)
    with m obtain v where v: "map_of (merged ?oms) s = Some v"
      "vp_realized_pnl v = rPnL (position_of (position_keeper om) s)" by (auto simp: table_realized_def)
    have "vp_avg_price v = vp_avg_price (combined s ?oms)" if "vp_quantity (combined s ?oms) \<noteq> 0"
      using prices_agree [OF ok that] v(1) by (simp add: price_of_def)
    with m True v holders show ?thesis
      by (simp add: GetPosition_sum all one_entry table_quantity_def combined_def)
  next
    case False
    then have "filter (holds_symbol s) ?oms = []" by (auto simp: filter_empty_conv list_ex_iff)
    with m have "map_of (merged ?oms) s = None" by (simp add: table_realized_def)
    with m False show ?thesis by (simp add: GetPosition_sum all one_entry)
  qed
qed

theorem position_queries_agree_witness:
  "\<exists>e p v. GetPosition ''AAPL'' e = Inr p \<and> vp_quantity p = 10
     \<and> filter (\<lambda>v. vp_symbol v = ''AAPL'') (GetAllPositions e) = [v] \<and> vp_quantity v = 10"
proof -
  obtain e om where e: "engine_reach sample_env sample_adapters e" "manager_objects e = [om]"
    "position_keeper om = on_fill ''AAPL'' 10 50 BUY []"
    using engine_with_position by blast
  then have "holds_symbol ''AAPL'' om" "om_quantity ''AAPL'' om = 10"
    by (simp_all add: holds_symbol_def om_quantity_def position_of_on_fill apply_to_position_def
        empty_position_def signed_fill_def) (simp add: on_fill_def)
  moreover from this e(2) obtain p where "GetPosition ''AAPL'' e = Inr p"
    by (simp add: GetPosition_sum(1))
  ultimately show ?thesis
    using position_queries_agree [OF e(1) sample_env_ok, of "''AAPL''"] e(2)
    by (intro exI [of _ e]) auto
qed

text \<open>
  When the quantities of the strategies cancel out the average prices differ: of 10 bought at 100 and
  10 sold at 110, one query reports the last price and the other the first.
\<close>

theorem flat_prices_differ:
  "let long = empty_v1_position\<lparr>vp_symbol := ''AAPL'', vp_quantity := 10, vp_avg_price := 100\<rparr>;
       short = empty_v1_position\<lparr>vp_symbol := ''AAPL'', vp_quantity := - 10, vp_avg_price := 110\<rparr>
   in vp_avg_price (combine_position (combine_position empty_v1_position long) short) = 110
      \<and> map vp_avg_price (map snd (merge_position (merge_position [] long) short)) = [100]"
  by (simp add: combine_position_def merge_position_def empty_v1_position_def Let_def)

text \<open>
  They do not agree on profit, and neither reports it: \<open>GetPosition\<close> leaves the realised profit
  at zero, and \<open>GetAllPositions\<close> gives that of the first strategy holding the symbol only.
\<close>

theorem realized_profit_not_combined:
  assumes "engine_reach env am e" and "env_ok env"
    and "filter (holds_symbol s) (manager_objects e) = om # oms"
  shows "\<exists>p v. GetPosition s e = Inr p \<and> vp_realized_pnl p = 0
       \<and> filter (\<lambda>v. vp_symbol v = s) (GetAllPositions e) = [v]
       \<and> vp_realized_pnl v = rPnL (position_of (position_keeper om) s)"
proof -
  let ?oms = "manager_objects e"
  note m = merged_effect [OF managers_pk_ok [OF engine_inv_reach [OF assms(1,2)]], of s]
  have "list_ex (holds_symbol s) ?oms" using assms(3) by (metis filter_eq_ConsD in_set_conv_decomp list_ex_iff)
  moreover obtain v where "map_of (merged ?oms) s = Some v"
    "vp_realized_pnl v = rPnL (position_of (position_keeper om) s)"
    using m assms(3) by (auto simp: table_realized_def)
  moreover have "GetAllPositions e = map snd (merged ?oms)"
    by (simp add: GetAllPositions_def merged_def)
  ultimately show ?thesis using m by (simp add: GetPosition_sum one_entry)
qed

theorem realized_profit_not_combined_witness:
  "\<exists>e p. GetPosition ''AAPL'' e = Inr p \<and> vp_realized_pnl p = 0"
proof -
  obtain e om where e: "engine_reach sample_env sample_adapters e" "manager_objects e = [om]"
    "position_keeper om = on_fill ''AAPL'' 10 50 BUY []"
    using engine_with_position by blast
  then have "filter (holds_symbol ''AAPL'') (manager_objects e) = om # []"
    by (simp add: holds_symbol_def on_fill_def)
  from realized_profit_not_combined [OF e(1) sample_env_ok this] show ?thesis by blast
qed

end
