(* ===== verification/GrpcServer.thy ===== *)
theory GrpcServer
  imports EnginePositions GrpcFeed
begin

text \<open>
  \<open>grpc/grpc_server.cpp\<close>: the request handlers of the execution service over the interface
  \<open>IExecutionServiceHandler\<close>, which the engine provides, and the sinks of the two server streams.
  Accepting connections and moving bytes is the gRPC library.
\<close>

section \<open>Messages\<close>

text \<open>A \<open>grpc::Status\<close>.\<close>

datatype status_code = ABORTED | INVALID_ARGUMENT | FAILED_PRECONDITION | NOT_FOUND | INTERNAL

datatype grpc_status = Status_OK | Status status_code string

record submit_signal_response =
  sr_accepted :: bool
  sr_order_id :: string
  sr_rejection_reason :: string
  sr_received_at :: string

record cancel_order_response =
  co_accepted :: bool
  co_rejection_reason :: string
  co_received_at :: string

record replace_order_response =
  ro_accepted :: bool
  ro_order_id :: string
  ro_rejection_reason :: string
  ro_received_at :: string

record register_strategy_response =
  rs_accepted :: bool
  rs_rejection_reason :: string

section \<open>The handler interface\<close>

text \<open>
  \<open>IExecutionServiceHandler\<close>. A method's \<open>None\<close> is a call that does not return to the server; the
  \<open>Inl\<close> of a registration is an escaping exception.
\<close>

record 'e service_handler =
  sh_submit :: "strategy_signal \<Rightarrow> 'e \<Rightarrow> (LocalOrderId result \<times> 'e) option"
  sh_cancel :: "cancel_signal \<Rightarrow> 'e \<Rightarrow> (unit result \<times> 'e) option"
  sh_replace :: "replace_signal \<Rightarrow> 'e \<Rightarrow> (LocalOrderId result \<times> 'e) option"
  sh_position :: "Symbol \<Rightarrow> 'e \<Rightarrow> v1_position result"
  sh_positions :: "'e \<Rightarrow> v1_position list"
  sh_kill :: "kill_switch_request \<Rightarrow> 'e \<Rightarrow> (unit result \<times> 'e) option"
  sh_register :: "register_strategy_request \<Rightarrow> 'e \<Rightarrow> ((string + unit result) \<times> 'e) option"
  sh_setup_md :: "StrategyId \<Rightarrow> nat \<Rightarrow> nat \<Rightarrow> 'e \<Rightarrow> (unit result \<times> 'e) option"
  sh_clear_md :: "StrategyId \<Rightarrow> 'e \<Rightarrow> 'e option"
  sh_setup_fills :: "StrategyId \<Rightarrow> nat \<Rightarrow> 'e \<Rightarrow> (unit result \<times> 'e) option"
  sh_clear_fills :: "StrategyId \<Rightarrow> 'e \<Rightarrow> 'e option"

definition engine_handler :: "engine_env \<Rightarrow> engine service_handler" where
  "engine_handler env =
     \<lparr>sh_submit = SubmitSignal env, sh_cancel = CancelOrder env, sh_replace = ReplaceOrder env,
      sh_position = GetPosition, sh_positions = GetAllPositions, sh_kill = ActivateKillSwitch env,
      sh_register = RegisterStrategy env, sh_setup_md = SetupMarketDataStream,
      sh_clear_md = ClearMarketDataStream, sh_setup_fills = SetupFillStream,
      sh_clear_fills = ClearFillStream\<rparr>"

section \<open>Unary calls\<close>

text \<open>The handler is a pointer, \<open>None\<close> when it is null.\<close>

definition not_initialized :: string where
  "not_initialized = ''Server handler not initialized''"

definition submit_response_of :: "LocalOrderId result \<Rightarrow> submit_signal_response" where
  "submit_response_of r =
     (case r of
        Inl err \<Rightarrow> \<lparr>sr_accepted = False, sr_order_id = '''', sr_rejection_reason = message err,
                    sr_received_at = ''''\<rparr>
      | Inr l \<Rightarrow> \<lparr>sr_accepted = True, sr_order_id = l, sr_rejection_reason = '''',
                  sr_received_at = ''''\<rparr>)"

definition invalid_or_ok :: "'a result \<Rightarrow> grpc_status" where
  "invalid_or_ok r = (case r of Inl err \<Rightarrow> Status INVALID_ARGUMENT (message err) | Inr _ \<Rightarrow> Status_OK)"

definition rpc_SubmitSignal ::
  "'e service_handler option \<Rightarrow> strategy_signal \<Rightarrow> 'e
   \<Rightarrow> (grpc_status \<times> submit_signal_response \<times> 'e) option" where
  "rpc_SubmitSignal handler sig e =
     (case handler of
        None \<Rightarrow> Some (Status ABORTED not_initialized, submit_response_of (Inl (mk_error not_initialized Error)), e)
      | Some h \<Rightarrow>
          (case sh_submit h sig e of
             None \<Rightarrow> None
           | Some (r, e) \<Rightarrow> Some (invalid_or_ok r, submit_response_of r, e)))"

definition rpc_CancelOrder ::
  "'e service_handler option \<Rightarrow> int \<Rightarrow> cancel_signal \<Rightarrow> 'e
   \<Rightarrow> (grpc_status \<times> cancel_order_response \<times> 'e) option" where
  "rpc_CancelOrder handler now sig e =
     (let response = \<lparr>co_accepted = False, co_rejection_reason = '''', co_received_at = get_current_time now\<rparr>
      in case handler of
           None \<Rightarrow>
             Some (Status ABORTED not_initialized, response\<lparr>co_rejection_reason := not_initialized\<rparr>, e)
         | Some h \<Rightarrow>
             (case sh_cancel h sig e of
                None \<Rightarrow> None
              | Some (r, e) \<Rightarrow>
                  Some (invalid_or_ok r,
                    case r of
                      Inl err \<Rightarrow> response\<lparr>co_rejection_reason := message err\<rparr>
                    | Inr _ \<Rightarrow> response\<lparr>co_accepted := True\<rparr>, e)))"

definition rpc_ReplaceOrder ::
  "'e service_handler option \<Rightarrow> int \<Rightarrow> replace_signal \<Rightarrow> 'e
   \<Rightarrow> (grpc_status \<times> replace_order_response \<times> 'e) option" where
  "rpc_ReplaceOrder handler now sig e =
     (let response = \<lparr>ro_accepted = False, ro_order_id = '''', ro_rejection_reason = '''',
                      ro_received_at = get_current_time now\<rparr>
      in case handler of
           None \<Rightarrow>
             Some (Status ABORTED not_initialized, response\<lparr>ro_rejection_reason := not_initialized\<rparr>, e)
         | Some h \<Rightarrow>
             (case sh_replace h sig e of
                None \<Rightarrow> None
              | Some (r, e) \<Rightarrow>
                  Some (invalid_or_ok r,
                    case r of
                      Inl err \<Rightarrow> response\<lparr>ro_rejection_reason := message err\<rparr>
                    | Inr l \<Rightarrow> response\<lparr>ro_accepted := True, ro_order_id := l\<rparr>, e)))"

text \<open>\<open>StreamSignals\<close>: the signals read until the client closes the stream, and the responses written.\<close>

fun stream_signals ::
  "'e service_handler \<Rightarrow> strategy_signal list \<Rightarrow> 'e \<Rightarrow> (submit_signal_response list \<times> 'e) option" where
  "stream_signals h [] e = Some ([], e)"
| "stream_signals h (sig # sigs) e =
     (case sh_submit h sig e of
        None \<Rightarrow> None
      | Some (r, e) \<Rightarrow>
          map_option (\<lambda>(rs, e). (submit_response_of r # rs, e)) (stream_signals h sigs e))"

definition rpc_StreamSignals ::
  "'e service_handler option \<Rightarrow> strategy_signal list \<Rightarrow> 'e
   \<Rightarrow> (grpc_status \<times> submit_signal_response list \<times> 'e) option" where
  "rpc_StreamSignals handler sigs e =
     (case handler of
        None \<Rightarrow> Some (Status FAILED_PRECONDITION not_initialized, [], e)
      | Some h \<Rightarrow> map_option (\<lambda>(rs, e). (Status_OK, rs, e)) (stream_signals h sigs e))"

definition rpc_GetPosition ::
  "'e service_handler option \<Rightarrow> Symbol \<Rightarrow> 'e \<Rightarrow> grpc_status \<times> v1_position option" where
  "rpc_GetPosition handler s e =
     (case handler of
        None \<Rightarrow> (Status FAILED_PRECONDITION not_initialized, None)
      | Some h \<Rightarrow>
          (case sh_position h s e of
             Inl err \<Rightarrow> (Status INTERNAL (message err), None) | Inr p \<Rightarrow> (Status_OK, Some p)))"

definition rpc_GetAllPositions ::
  "'e service_handler option \<Rightarrow> 'e \<Rightarrow> grpc_status \<times> v1_position list" where
  "rpc_GetAllPositions handler e =
     (case handler of
        None \<Rightarrow> (Status FAILED_PRECONDITION not_initialized, [])
      | Some h \<Rightarrow> (Status_OK, sh_positions h e))"

definition rpc_ActivateKillSwitch ::
  "'e service_handler option \<Rightarrow> kill_switch_request \<Rightarrow> 'e \<Rightarrow> (grpc_status \<times> 'e) option" where
  "rpc_ActivateKillSwitch handler req e =
     (case handler of
        None \<Rightarrow> Some (Status FAILED_PRECONDITION not_initialized, e)
      | Some h \<Rightarrow>
          (case sh_kill h req e of
             None \<Rightarrow> None
           | Some (Inl err, e) \<Rightarrow> Some (Status INTERNAL (message err), e)
           | Some (Inr _, e) \<Rightarrow> Some (Status_OK, e)))"

text \<open>\<open>Inl\<close> is an exception that escapes into the gRPC library.\<close>

definition rpc_RegisterStrategy ::
  "'e service_handler option \<Rightarrow> register_strategy_request \<Rightarrow> 'e
   \<Rightarrow> ((string + grpc_status \<times> register_strategy_response) \<times> 'e) option" where
  "rpc_RegisterStrategy handler req e =
     (case handler of
        None \<Rightarrow>
          Some (Inr (Status ABORTED not_initialized,
            \<lparr>rs_accepted = False, rs_rejection_reason = not_initialized\<rparr>), e)
      | Some h \<Rightarrow>
          (case sh_register h req e of
             None \<Rightarrow> None
           | Some (Inl ex, e) \<Rightarrow> Some (Inl ex, e)
           | Some (Inr r, e) \<Rightarrow>
               Some (Inr (invalid_or_ok r,
                 case r of
                   Inl err \<Rightarrow> \<lparr>rs_accepted = False, rs_rejection_reason = message err\<rparr>
                 | Inr _ \<Rightarrow> \<lparr>rs_accepted = True, rs_rejection_reason = ''''\<rparr>), e)))"

section \<open>Streams\<close>

text \<open>
  A \<open>ServerWriter\<close> with the flag its sink shares with the handler: what was written, how often
  \<open>Write\<close> was called, and which of these calls succeed.
\<close>

record 'm server_stream =
  st_active :: bool
  st_written :: "'m list"
  st_writes :: nat
  st_write_ok :: "nat \<Rightarrow> bool"

definition open_stream :: "(nat \<Rightarrow> bool) \<Rightarrow> 'm server_stream" where
  "open_stream ok = \<lparr>st_active = True, st_written = [], st_writes = 0, st_write_ok = ok\<rparr>"

definition write_stream :: "'m \<Rightarrow> 'm server_stream \<Rightarrow> 'm server_stream" where
  "write_stream m s =
     (if \<not> st_active s then s
      else let ok = st_write_ok s (st_writes s); s = s\<lparr>st_writes := Suc (st_writes s)\<rparr>
           in if \<not> ok then s\<lparr>st_active := False\<rparr> else s\<lparr>st_written := st_written s @ [m]\<rparr>)"

definition tick_to_proto :: "tick \<Rightarrow> market_data_event" where
  "tick_to_proto t =
     kTick \<lparr>te_symbol = tick_symbol t, te_bid = tick_bid t, te_ask = tick_ask t,
            te_last = tick_last t, te_bid_size = tick_bid_size t, te_ask_size = tick_ask_size t,
            te_last_size = tick_last_size t, te_timestamp_ns = tick_ts_ns t\<rparr>"

definition bar_to_proto :: "bar \<Rightarrow> market_data_event" where
  "bar_to_proto b =
     kBar \<lparr>be_symbol = bar_symbol b, be_period = bar_period b, be_open = bar_open b,
           be_high = bar_high b, be_low = bar_low b, be_close = bar_close b,
           be_volume = bar_volume b, be_vwap = bar_vwap b, be_timestamp_ns = bar_ts_ns b\<rparr>"

definition on_tick_sink :: "tick \<Rightarrow> market_data_event server_stream \<Rightarrow> market_data_event server_stream" where
  "on_tick_sink t s = write_stream (tick_to_proto t) s"

definition on_bar_sink :: "bar \<Rightarrow> market_data_event server_stream \<Rightarrow> market_data_event server_stream" where
  "on_bar_sink b s = write_stream (bar_to_proto b) s"

text \<open>
  \<open>StreamFills\<close> and \<open>StreamMarketData\<close> up to the loop that holds the call open, with the sinks under
  the given names, the test that ends the loop, and what follows it.
\<close>

definition begin_stream_fills ::
  "'e service_handler option \<Rightarrow> StrategyId \<Rightarrow> nat \<Rightarrow> 'e \<Rightarrow> ((grpc_status + unit) \<times> 'e) option" where
  "begin_stream_fills handler sid sink e =
     (case handler of
        None \<Rightarrow> Some (Inl (Status FAILED_PRECONDITION not_initialized), e)
      | Some h \<Rightarrow>
          (case sh_setup_fills h sid sink e of
             None \<Rightarrow> None
           | Some (Inl err, e) \<Rightarrow> Some (Inl (Status NOT_FOUND (message err)), e)
           | Some (Inr _, e) \<Rightarrow> Some (Inr (), e)))"

definition begin_stream_market_data ::
  "'e service_handler option \<Rightarrow> StrategyId \<Rightarrow> nat \<Rightarrow> nat \<Rightarrow> 'e \<Rightarrow> ((grpc_status + unit) \<times> 'e) option"
  where
  "begin_stream_market_data handler sid tick_k bar_k e =
     (case handler of
        None \<Rightarrow> Some (Inl (Status FAILED_PRECONDITION not_initialized), e)
      | Some h \<Rightarrow>
          (case sh_setup_md h sid tick_k bar_k e of
             None \<Rightarrow> None
           | Some (Inl err, e) \<Rightarrow> Some (Inl (Status NOT_FOUND (message err)), e)
           | Some (Inr _, e) \<Rightarrow> Some (Inr (), e)))"

definition stream_over :: "bool \<Rightarrow> 'm server_stream \<Rightarrow> bool" where
  "stream_over is_cancelled s \<longleftrightarrow> is_cancelled \<or> \<not> st_active s"

definition end_stream_fills ::
  "'e service_handler \<Rightarrow> StrategyId \<Rightarrow> 'e \<Rightarrow> (grpc_status \<times> 'e) option" where
  "end_stream_fills h sid e = map_option (Pair Status_OK) (sh_clear_fills h sid e)"

definition end_stream_market_data ::
  "'e service_handler \<Rightarrow> StrategyId \<Rightarrow> 'e \<Rightarrow> (grpc_status \<times> 'e) option" where
  "end_stream_market_data h sid e = map_option (Pair Status_OK) (sh_clear_md h sid e)"

section \<open>The contract of the handler\<close>

text \<open>
  What the server relies on: in the states of \<open>inv\<close> every method returns and stays in them, except
  for the kill switch with an unknown mode and registrations, which may wait for an adapter.
\<close>

locale service_contract =
  fixes h :: "'e service_handler" and inv :: "'e \<Rightarrow> bool"
  assumes submit_returns: "inv e \<Longrightarrow> \<exists>r e'. sh_submit h sig e = Some (r, e') \<and> inv e'"
    and cancel_returns: "inv e \<Longrightarrow> \<exists>r e'. sh_cancel h can e = Some (r, e') \<and> inv e'"
    and replace_returns: "inv e \<Longrightarrow> \<exists>r e'. sh_replace h rep e = Some (r, e') \<and> inv e'"
    and kill_returns:
      "inv e \<Longrightarrow> ks_mode req \<in> {STOP_STRATEGY, HALT_ALL} \<Longrightarrow>
       \<exists>r e'. sh_kill h req e = Some (r, e') \<and> inv e'"
    and register_keeps: "inv e \<Longrightarrow> sh_register h reg e = Some (x, e') \<Longrightarrow> inv e'"
    and fills_return: "inv e \<Longrightarrow> \<exists>r e'. sh_setup_fills h sid k e = Some (r, e') \<and> inv e'"
    and fills_clear: "inv e \<Longrightarrow> \<exists>e'. sh_clear_fills h sid e = Some e' \<and> inv e'"
    and md_return: "inv e \<Longrightarrow> \<exists>r e'. sh_setup_md h sid k k' e = Some (r, e') \<and> inv e'"
    and md_clear: "inv e \<Longrightarrow> \<exists>e'. sh_clear_md h sid e = Some e' \<and> inv e'"
begin

lemma stream_signals_returns:
  "inv e \<Longrightarrow> \<exists>rs e'. stream_signals h sigs e = Some (rs, e') \<and> length rs = length sigs \<and> inv e'"
proof (induction sigs arbitrary: e)
  case Nil
  then show ?case by simp
next
  case (Cons sig sigs)
  from submit_returns [OF Cons.prems, of sig] obtain r e1
    where e1: "sh_submit h sig e = Some (r, e1)" "inv e1" by blast
  from Cons.IH [OF e1(2)] e1(1) show ?case by auto
qed

lemma unary_return:
  assumes "inv e"
  shows "\<exists>st resp e'. rpc_SubmitSignal (Some h) sig e = Some (st, resp, e') \<and> inv e'
      \<and> (st = Status_OK \<longleftrightarrow> sr_accepted resp)"
    and "\<exists>st resp e'. rpc_CancelOrder (Some h) now can e = Some (st, resp, e') \<and> inv e'
      \<and> (st = Status_OK \<longleftrightarrow> co_accepted resp)"
    and "\<exists>st resp e'. rpc_ReplaceOrder (Some h) now rep e = Some (st, resp, e') \<and> inv e'
      \<and> (st = Status_OK \<longleftrightarrow> ro_accepted resp)"
  using submit_returns [OF assms, of sig] cancel_returns [OF assms, of can]
    replace_returns [OF assms, of rep]
  by (auto simp: rpc_SubmitSignal_def rpc_CancelOrder_def rpc_ReplaceOrder_def invalid_or_ok_def
      submit_response_of_def split: sum.split)

end

text \<open>The engine keeps the contract.\<close>

interpretation eng: service_contract "engine_handler env" "\<lambda>e. engine_inv e \<and> env_ok env" for env
proof (unfold_locales, goal_cases)
  case (4 e req)
  then show ?case
    using halt_all_good [of e env "ks_reason req" "ks_initiated_by req"]
      stop_strategy_good [of e env "ks_strategy_id req" "ks_reason req" "ks_initiated_by req"]
    by (auto simp: engine_handler_def ActivateKillSwitch_def)
next
  case (5 e reg x e')
  then show ?case by (auto simp: engine_handler_def dest: register_good)
qed (use signals_good streams_good in \<open>simp_all add: engine_handler_def\<close>)

section \<open>From the client's side\<close>

lemma accepted_submit:
  assumes "store_of d = sqlite_store_ops" and "om_inv sq_look sq_inv om" and "fresh_promise p om"
    and "process_submit d sig p om = (Some (Inr l), om')"
  shows "\<exists>b v. get_broker_id (id_mapper om') l = Some b \<and> sq_look (order_store om') l = Some v
    \<and> ov_status v = SUBMITTED \<and> ov_filled v = 0 \<and> ord_symbol (ov_order v) = sig_symbol sig
    \<and> ord_side (ov_order v) = sig_side sig \<and> ord_quantity (ov_order v) = sig_target_quantity sig"
proof -
  define om1 where "om1 = handle_events d (q_items (queue om)) om"
  have inv1: "om_inv sq_look sq_inv om1" unfolding om1_def by (rule om_inv_handle_events [OF assms(1,2)])
  have om': "id_mapper om' = id_mapper (handle_submit_command d sig p om1)"
    "order_store om' = order_store (handle_submit_command d sig p om1)"
    using assms(4)
    by (auto simp: process_submit_def Let_def om1_def dispatch_queued_frame enqueue_command
        handle_events_queue_commute
        handle_event_queue_commute [where ev = "Submit_command sig p", simplified])
  obtain r where "fst (process_submit d sig p om) = Some r"
    "replies (handle_submit_command d sig p om1) = replies om1 @ [(p, Order_reply r)]"
    using process_answered [OF assms(3), of d sig] unfolding om1_def by blast
  with assms(4) have "replies (handle_submit_command d sig p om1) = replies om1 @ [(p, Order_reply (Inr l))]"
    by simp
  with sq.submit_outcome [OF assms(1) inv1, of sig p] obtain b v where
    "id_mapper (handle_submit_command d sig p om1) = add_mapping l b (id_mapper om1)"
    "sq_look (order_store (handle_submit_command d sig p om1)) l = Some v"
    "ov_order v = submitted_order sig om1" "ov_status v = SUBMITTED" "ov_filled v = 0"
    by auto
  then show ?thesis by (auto simp: om')
qed

text \<open>
  End to end: when a client's \<open>SubmitSignal\<close> is answered with an OK status, the order id in the
  response names a live order of that strategy: mapped to a broker id and stored as submitted, with
  the symbol, side and quantity of the signal.
\<close>

theorem accepted_signal_is_live:
  assumes "engine_reach env am e" and "env_ok env"
    and "rpc_SubmitSignal (Some (engine_handler env)) sig e = Some (Status_OK, resp, e')"
  shows "\<exists>a om b v. find_manager (sig_strategy_id sig) e' = Some a \<and> om_heap e' a = Some om
       \<and> get_broker_id (id_mapper om) (sr_order_id resp) = Some b
       \<and> sq_look (order_store om) (sr_order_id resp) = Some v
       \<and> ov_status v = SUBMITTED \<and> ov_filled v = 0 \<and> ord_symbol (ov_order v) = sig_symbol sig
       \<and> ord_side (ov_order v) = sig_side sig \<and> ord_quantity (ov_order v) = sig_target_quantity sig"
proof -
  note inv = engine_inv_reach [OF assms(1,2)]
  from assms(3) obtain l where l: "SubmitSignal env sig e = Some (Inr l, e')" "sr_order_id resp = l"
    by (auto simp: rpc_SubmitSignal_def engine_handler_def invalid_or_ok_def submit_response_of_def
        split: option.splits sum.splits)
  from inv show ?thesis
  proof (cases rule: find_manager_cases [of e "sig_strategy_id sig"])
    case Unknown
    with l show ?thesis by (simp add: SubmitSignal_def)
  next
    case (Known a om)
    let ?p = "next_promise e" and ?d = "engine_deps env"
    obtain r where r: "fst (process_submit ?d sig ?p om) = Some r"
      using om_good_answers(1) [OF Known(3)] by blast
    have "e' = e\<lparr>om_heap := (om_heap e)(a \<mapsto> snd (process_submit ?d sig ?p om)), next_promise := Suc ?p\<rparr>"
      and "r = Inr l"
      using l(1) call_command_live [of e a om "process_submit ?d sig", OF Known(2) r]
      by (simp_all add: SubmitSignal_def Known(1) submit_via_def)
    moreover have "om_inv sq_look sq_inv om" using Known(3) by (simp add: om_good_def)
    ultimately show ?thesis
      using accepted_submit [of ?d om ?p sig l "snd (process_submit ?d sig ?p om)"] r Known(1) l(2)
        om_good_fresh [OF Known(3)]
      by (auto simp: find_manager_def prod_eq_iff)
  qed
qed

theorem accepted_signal_is_live_witness:
  "\<exists>st resp e' a om b. rpc_SubmitSignal (Some (engine_handler sample_env)) sample_signal sample_engine
       = Some (st, resp, e') \<and> st = Status_OK
     \<and> om_heap e' a = Some om \<and> get_broker_id (id_mapper om) (sr_order_id resp) = Some b"
proof -
  let ?d = "engine_deps sample_env"
  obtain r where r: "fst (process_submit ?d sample_signal 0 engine_om0) = Some r"
    "replies (handle_submit_command ?d sample_signal 0 (handle_events ?d [] engine_om0))
      = replies (handle_events ?d [] engine_om0) @ [(0, Order_reply r)]"
    using process_answered [of 0 engine_om0 ?d sample_signal]
    by (auto simp: fresh_promise_def empty_queue_def engine_om0_clock)
  then have "Inr (fst (om_generate engine_om0)) = r"
    using engine_om1_effect(1) by (simp add: engine_om0_clock flip: engine_om1_def)
  then obtain l where "r = Inr l" by blast
  with r(1) call_command_live [of sample_engine 0 engine_om0 "process_submit ?d sample_signal"]
  obtain e' where "SubmitSignal sample_env sample_signal sample_engine = Some (Inr l, e')"
    by (auto simp: SubmitSignal_def submit_via_def find_manager_def sample_register sample_signal_def)
  then have rpc: "rpc_SubmitSignal (Some (engine_handler sample_env)) sample_signal sample_engine
      = Some (Status_OK, submit_response_of (Inr l), e')"
    by (simp add: rpc_SubmitSignal_def engine_handler_def invalid_or_ok_def)
  from accepted_signal_is_live [OF sample_reach sample_env_ok this] rpc show ?thesis by auto
qed

text \<open>The signals of a stream, sent by unary calls.\<close>

fun unary_signals ::
  "'e service_handler \<Rightarrow> strategy_signal list \<Rightarrow> 'e \<Rightarrow> (submit_signal_response list \<times> 'e) option" where
  "unary_signals h [] e = Some ([], e)"
| "unary_signals h (sig # sigs) e =
     (case rpc_SubmitSignal (Some h) sig e of
        None \<Rightarrow> None
      | Some (_, resp, e) \<Rightarrow> map_option (\<lambda>(rs, e). (resp # rs, e)) (unary_signals h sigs e))"

lemma stream_is_unary: "stream_signals h sigs e = unary_signals h sigs e"
  by (induction sigs arbitrary: e)
    (auto simp: rpc_SubmitSignal_def split: option.split prod.split)

text \<open>
  Streaming signals is the same as sending them one by one: \<open>StreamSignals\<close> answers every signal,
  in order, with the response \<open>SubmitSignal\<close> would give in the state the earlier ones left behind, and
  it ends in the same state with an OK status.
\<close>

theorem signal_stream_like_unary_calls:
  assumes "engine_reach env am e" and "env_ok env"
  shows "\<exists>rs e'. rpc_StreamSignals (Some (engine_handler env)) sigs e = Some (Status_OK, rs, e')
       \<and> unary_signals (engine_handler env) sigs e = Some (rs, e') \<and> length rs = length sigs"
  using eng.stream_signals_returns [of e env sigs] engine_inv_reach [OF assms] assms(2)
  by (auto simp: rpc_StreamSignals_def stream_is_unary)

theorem signal_stream_like_unary_calls_witness:
  "\<exists>r1 r2 e'. rpc_StreamSignals (Some (engine_handler sample_env)) [sample_signal, sample_signal]
       sample_engine = Some (Status_OK, [r1, r2], e')"
  using signal_stream_like_unary_calls [OF sample_reach sample_env_ok, of "[sample_signal, sample_signal]"]
  by (auto simp: length_Suc_conv)

lemma stream_state:
  "st_write_ok (foldl (\<lambda>s m. write_stream m s) (open_stream ok) ms) = ok
   \<and> st_active (foldl (\<lambda>s m. write_stream m s) (open_stream ok) ms) = list_all ok [0..<length ms]
   \<and> st_writes (foldl (\<lambda>s m. write_stream m s) (open_stream ok) ms)
     = min (length ms) (Suc (length (takeWhile ok [0..<length ms])))
   \<and> st_written (foldl (\<lambda>s m. write_stream m s) (open_stream ok) ms)
     = map snd (takeWhile (\<lambda>im. ok (fst im)) (enumerate 0 ms))"
proof (induction ms rule: rev_induct)
  case Nil
  then show ?case by (simp add: open_stream_def)
next
  case (snoc m ms)
  let ?n = "length ms"
  have all: "(\<forall>im \<in> set (enumerate 0 ms). ok (fst im)) \<longleftrightarrow> list_all ok [0..<?n]"
    using map_fst_enumerate [of 0 ms] by (metis add_0 list_all_iff list.pred_map comp_def)
  show ?case
  proof (cases "list_all ok [0..<?n]")
    case True
    then have "takeWhile ok [0..<?n] = [0..<?n]"
      "takeWhile (\<lambda>im. ok (fst im)) (enumerate 0 ms) = enumerate 0 ms"
      using all by (simp_all add: takeWhile_eq_all_conv list_all_iff)
    with True snoc all show ?thesis
      by (simp add: write_stream_def Let_def enumerate_append_eq takeWhile_append)
  next
    case False
    then have "length (takeWhile ok [0..<?n]) < ?n"
      by (metis length_takeWhile_le length_upt diff_zero nat_less_le takeWhile_eq_all_conv
          takeWhile_eq_take take_all_iff list_all_iff order_refl)
    moreover have "\<exists>x \<in> {0..<?n}. \<not> ok x" using False by (auto simp: list_all_iff)
    ultimately show ?thesis
      using False snoc all
      by (simp add: write_stream_def Let_def enumerate_append_eq takeWhile_append) blast
  qed
qed

text \<open>
  A stream sends exactly the events before its first failed write, in order: every event that is
  delivered to the sink is written until one write fails, and from then on nothing is written, so the
  handler's loop ends.
\<close>

theorem stream_sends_until_failure:
  "st_written (foldl (\<lambda>s m. write_stream m s) (open_stream ok) ms)
     = map snd (takeWhile (\<lambda>im. ok (fst im)) (enumerate 0 ms))
   \<and> stream_over False (foldl (\<lambda>s m. write_stream m s) (open_stream ok) ms)
     = list_ex (\<lambda>i. \<not> ok i) [0..<length ms]
   \<and> st_writes (foldl (\<lambda>s m. write_stream m s) (open_stream ok) ms)
     = min (length ms) (Suc (length (takeWhile ok [0..<length ms])))"
  using stream_state [of ok ms] by (auto simp: stream_over_def list_ex_iff list_all_iff)

text \<open>
  Market data crosses the wire unchanged: what an adapter's stream reads back from the message
  the server writes is the same tick or bar, except for the time of its reception.
\<close>

theorem market_data_survives_wire:
  "gf_read now (tick_to_proto t) = Some (Inl (t\<lparr>tick_ts_recv_ns := now\<rparr>))
   \<and> gf_read now (bar_to_proto b) = Some (Inr (b\<lparr>bar_ts_recv_ns := now\<rparr>))"
  by (simp add: gf_read_def tick_to_proto_def bar_to_proto_def tick_from_proto_def bar_from_proto_def)

text \<open>
  The end of an old stream silences a newer one: when a client reconnects its fill stream before
  the server has noticed that the first one broke, the first handler's clean-up removes the second
  stream's sink, and its client gets no more fills although its stream is open.
\<close>

theorem ended_stream_silences_newer:
  assumes "engine_reach env am e" and "env_ok env" and "find_manager sid e = Some a"
  shows "\<exists>e1 e2 e3 om. begin_stream_fills (Some (engine_handler env)) sid k e = Some (Inr (), e1)
       \<and> begin_stream_fills (Some (engine_handler env)) sid k' e1 = Some (Inr (), e2)
       \<and> end_stream_fills (engine_handler env) sid e2 = Some (Status_OK, e3)
       \<and> om_heap e3 a = Some om \<and> fill_sink om = None"
proof -
  obtain om where om: "om_heap e a = Some om"
    using engine_inv_reach [OF assms(1,2)] assms(3)
    by (cases rule: find_manager_cases [of e sid]) auto
  show ?thesis
    using assms(3) om
    by (simp add: begin_stream_fills_def end_stream_fills_def engine_handler_def SetupFillStream_def
        ClearFillStream_def find_manager_def call_manager_def no_result_def clear_fill_sink_def
        set_fill_sink_def)
qed

theorem ended_stream_silences_newer_witness:
  "\<exists>e1. begin_stream_fills (Some (engine_handler sample_env)) ''S1'' 1 sample_engine = Some (Inr (), e1)"
  using ended_stream_silences_newer [OF sample_reach sample_env_ok, of "''S1''" 0 1 2]
  by (auto simp: find_manager_def sample_register)

text \<open>
  Every request of a connected client is answered, and the status says the same as the response:
  an order request gets an OK status exactly when its response says it was accepted, in every
  reachable state of the engine.
\<close>

theorem requests_answered:
  assumes "engine_reach env am e" and "env_ok env"
  shows "(\<exists>st resp e'. rpc_SubmitSignal (Some (engine_handler env)) sig e = Some (st, resp, e')
            \<and> (st = Status_OK \<longleftrightarrow> sr_accepted resp))
       \<and> (\<exists>st resp e'. rpc_CancelOrder (Some (engine_handler env)) now can e = Some (st, resp, e')
            \<and> (st = Status_OK \<longleftrightarrow> co_accepted resp))
       \<and> (\<exists>st resp e'. rpc_ReplaceOrder (Some (engine_handler env)) now rep e = Some (st, resp, e')
            \<and> (st = Status_OK \<longleftrightarrow> ro_accepted resp))"
  using eng.unary_return [of e env] engine_inv_reach [OF assms] assms(2) by blast

theorem requests_answered_witness:
  "\<exists>st resp e'. rpc_SubmitSignal (Some (engine_handler sample_env)) sample_signal sample_engine
     = Some (st, resp, e')"
  using requests_answered [OF sample_reach sample_env_ok, of sample_signal] by blast

end
