(* ===== verification/AlpacaGateway.thy ===== *)
theory AlpacaGateway
  imports Gateway
begin

text \<open>
  \<open>gateways/alpaca_fix_gateway.cpp\<close>, which is compiled in only with \<open>TRADING_ENABLE_ALPACA_SDK\<close>. The
  SDK is third-party code: its calls are parameters, as is \<open>std::stod\<close>, and of its types only what the
  source names is modelled. Modelled are the conversions, which throw, the three calls, and the trade
  update callback, which turns the broker's cumulative fills into the increments the engine expects.
\<close>

section \<open>The SDK's types\<close>

datatype alpaca_side = Alpaca_buy | Alpaca_sell | Alpaca_side_other int

datatype alpaca_order_type = Alpaca_market | Alpaca_limit | Alpaca_stop_limit | Alpaca_stop

datatype alpaca_tif = Alpaca_day | Alpaca_fok | Alpaca_gtc | Alpaca_ioc

datatype trade_update_event =
  Update_fill | Update_partial_fill | Update_canceled | Update_expired | Update_replaced
| Update_rejected | Update_other int

record order_request_param =
  orp_symbol :: Symbol
  orp_quantity :: double
  orp_side :: alpaca_side
  orp_type :: alpaca_order_type
  orp_tif :: alpaca_tif

record trade_update =
  tu_event :: trade_update_event
  tu_order_id :: BrokerOrderId
  tu_filled_qty :: string
  tu_filled_avg_price :: "string option"
  tu_symbol :: "string option"
  tu_side :: alpaca_side

text \<open>
  The trading client's calls, numbered, with the broker's answer or (\<open>Inl\<close>) its error message, and
  \<open>std::stod\<close>, which gives \<open>None\<close> where it throws.
\<close>

record alpaca_sdk =
  sdk_submit :: "nat \<Rightarrow> order_request_param \<Rightarrow> string + BrokerOrderId"
  sdk_delete :: "nat \<Rightarrow> BrokerOrderId \<Rightarrow> string + unit"
  sdk_replace :: "nat \<Rightarrow> BrokerOrderId \<Rightarrow> double \<Rightarrow> string + BrokerOrderId"
  sdk_stod :: "string \<Rightarrow> double option"

section \<open>Conversions\<close>

text \<open>\<open>Inl\<close> is the text of a \<open>std::invalid_argument\<close>.\<close>

fun side_to_alpaca :: "Side \<Rightarrow> string + alpaca_side" where
  "side_to_alpaca BUY = Inr Alpaca_buy"
| "side_to_alpaca SELL = Inr Alpaca_sell"
| "side_to_alpaca _ = Inl ''Unknown v1::Side''"

fun side_from_alpaca :: "alpaca_side \<Rightarrow> string + Side" where
  "side_from_alpaca Alpaca_buy = Inr BUY"
| "side_from_alpaca Alpaca_sell = Inr SELL"
| "side_from_alpaca _ = Inl ''Unknown v1::Side''"

fun type_to_alpaca :: "OrderType \<Rightarrow> string + alpaca_order_type" where
  "type_to_alpaca MARKET = Inr Alpaca_market"
| "type_to_alpaca LIMIT = Inr Alpaca_limit"
| "type_to_alpaca STOP_LIMIT = Inr Alpaca_stop_limit"
| "type_to_alpaca STOP = Inr Alpaca_stop"
| "type_to_alpaca _ = Inl ''Unknown v1::OrderType''"

fun tif_to_alpaca :: "TimeInForce \<Rightarrow> string + alpaca_tif" where
  "tif_to_alpaca DAY = Inr Alpaca_day"
| "tif_to_alpaca FOK = Inr Alpaca_fok"
| "tif_to_alpaca GTC = Inr Alpaca_gtc"
| "tif_to_alpaca IOC = Inr Alpaca_ioc"
| "tif_to_alpaca _ = Inl ''Unknown v1::TimeInForce''"

text \<open>Designated initialisers run in the order of the fields.\<close>

definition order_to_alpaca_order :: "order \<Rightarrow> string + order_request_param" where
  "order_to_alpaca_order ord =
     (case side_to_alpaca (ord_side ord) of
        Inl ex \<Rightarrow> Inl ex
      | Inr side \<Rightarrow>
          (case type_to_alpaca (ord_type ord) of
             Inl ex \<Rightarrow> Inl ex
           | Inr type \<Rightarrow>
               (case tif_to_alpaca (ord_time_in_force ord) of
                  Inl ex \<Rightarrow> Inl ex
                | Inr tif \<Rightarrow>
                    Inr \<lparr>orp_symbol = ord_symbol ord, orp_quantity = ord_quantity ord,
                         orp_side = side, orp_type = type, orp_tif = tif\<rparr>)))"

section \<open>The gateway\<close>

record alpaca_gateway =
  al_sdk :: alpaca_sdk
  al_calls :: nat
  al_base :: dispatch_base
  al_connected :: bool
  cum_qty :: "BrokerOrderId \<rightharpoonup> double"
  cum_cost :: "BrokerOrderId \<rightharpoonup> double"

definition new_alpaca_gateway :: "alpaca_sdk \<Rightarrow> alpaca_gateway" where
  "new_alpaca_gateway sdk =
     \<lparr>al_sdk = sdk, al_calls = 0, al_base = new_dispatch_base, al_connected = False,
      cum_qty = Map.empty, cum_cost = Map.empty\<rparr>"

definition from_response :: "string + 'a \<Rightarrow> 'a result" where
  "from_response resp = (case resp of Inl err \<Rightarrow> Inl (mk_error err Error) | Inr x \<Rightarrow> Inr x)"

text \<open>\<open>Inl\<close> is an exception the caller, the dispatch thread of an order manager, does not catch.\<close>

definition al_submit_order ::
  "order \<Rightarrow> alpaca_gateway \<Rightarrow> (string + BrokerOrderId result) \<times> alpaca_gateway" where
  "al_submit_order ord g =
     (case order_to_alpaca_order ord of
        Inl ex \<Rightarrow> (Inl ex, g)
      | Inr o' \<Rightarrow>
          (Inr (from_response (sdk_submit (al_sdk g) (al_calls g) o')),
           g\<lparr>al_calls := Suc (al_calls g)\<rparr>))"

definition al_cancel_order :: "BrokerOrderId \<Rightarrow> alpaca_gateway \<Rightarrow> unit result \<times> alpaca_gateway" where
  "al_cancel_order b g =
     (from_response (sdk_delete (al_sdk g) (al_calls g) b), g\<lparr>al_calls := Suc (al_calls g)\<rparr>)"

definition al_replace_order ::
  "BrokerOrderId \<Rightarrow> order \<Rightarrow> alpaca_gateway \<Rightarrow> BrokerOrderId result \<times> alpaca_gateway" where
  "al_replace_order b new_order g =
     (from_response (sdk_replace (al_sdk g) (al_calls g) b (ord_quantity new_order)),
      g\<lparr>al_calls := Suc (al_calls g)\<rparr>)"

definition al_start :: "alpaca_gateway \<Rightarrow> alpaca_gateway" where
  "al_start g = g\<lparr>al_base := start_dispatcher (al_base g), al_connected := True\<rparr>"

definition al_stop :: "alpaca_gateway \<Rightarrow> execution_report list \<times> alpaca_gateway" where
  "al_stop g =
     (let (rs, d) = stop_dispatcher (al_base g) in (rs, g\<lparr>al_connected := False, al_base := d\<rparr>))"

text \<open>
  The increment a fill adds to what was already reported: new cumulative quantity and average, and
  the previous cumulative quantity and cost.
\<close>

definition increment :: "double \<Rightarrow> double \<Rightarrow> double \<Rightarrow> double \<Rightarrow> double \<times> double" where
  "increment new_cum_qty new_cum_avg prev_qty prev_cost =
     (let new_cum_cost = new_cum_qty * new_cum_avg;
          incr_qty = new_cum_qty - prev_qty
      in (incr_qty,
          if incr_qty > 0 then (new_cum_cost - prev_cost) / incr_qty else new_cum_avg))"

definition value_or_zero :: "double option \<Rightarrow> double" where
  "value_or_zero x = (case x of None \<Rightarrow> 0 | Some v \<Rightarrow> v)"

text \<open>
  The \<open>onUpdate\<close> callback. \<open>Inl\<close> is an exception that escapes into the SDK's stream; what was
  changed before it stays changed.
\<close>

definition on_fill_update :: "trade_update \<Rightarrow> alpaca_gateway \<Rightarrow> (string + unit) \<times> alpaca_gateway" where
  "on_fill_update u g =
     (let b = tu_order_id u
      in case sdk_stod (al_sdk g) (tu_filled_qty u) of
           None \<Rightarrow> (Inl ''stod'', g)
         | Some new_cum_qty \<Rightarrow>
             (case tu_filled_avg_price u of
                None \<Rightarrow> (Inl ''bad optional access'', g)
              | Some avg_text \<Rightarrow>
                  (case sdk_stod (al_sdk g) avg_text of
                     None \<Rightarrow> (Inl ''stod'', g)
                   | Some new_cum_avg \<Rightarrow>
                       let (incr_qty, incr_price) =
                             increment new_cum_qty new_cum_avg (value_or_zero (cum_qty g b))
                               (value_or_zero (cum_cost g b));
                           g = (if tu_event u = Update_fill
                                then g\<lparr>cum_qty := (cum_qty g)(b := None), cum_cost := (cum_cost g)(b := None)\<rparr>
                                else g\<lparr>cum_qty := (cum_qty g)(b \<mapsto> new_cum_qty),
                                       cum_cost := (cum_cost g)(b \<mapsto> new_cum_qty * new_cum_avg)\<rparr>)
                       in case tu_symbol u of
                            None \<Rightarrow> (Inl ''bad optional access'', g)
                          | Some symbol \<Rightarrow>
                              (case side_from_alpaca (tu_side u) of
                                 Inl ex \<Rightarrow> (Inl ex, g)
                               | Inr side \<Rightarrow>
                                   (Inr (),
                                    g\<lparr>al_base := enqueue_report
                                        (empty_report\<lparr>er_broker_order_id := b, er_symbol := symbol,
                                           er_side := side, er_filled_quantity := incr_qty,
                                           er_avg_fill_price := incr_price\<rparr>) (al_base g)\<rparr>)))))"

definition on_update :: "trade_update \<Rightarrow> alpaca_gateway \<Rightarrow> (string + unit) \<times> alpaca_gateway" where
  "on_update u g =
     (if tu_event u = Update_fill \<or> tu_event u = Update_partial_fill then on_fill_update u g
      else if tu_event u = Update_canceled \<or> tu_event u = Update_expired \<or> tu_event u = Update_replaced
      then (Inr (), g\<lparr>cum_qty := (cum_qty g)(tu_order_id u := None),
                      cum_cost := (cum_cost g)(tu_order_id u := None)\<rparr>)
      else (Inr (), g))"

fun on_updates :: "trade_update list \<Rightarrow> alpaca_gateway \<Rightarrow> alpaca_gateway" where
  "on_updates [] g = g"
| "on_updates (u # us) g = on_updates us (snd (on_update u g))"

section \<open>Increments add up to the cumulative fills\<close>

text \<open>A well-formed fill of an order: quantity and average price as the broker states them.\<close>

definition fill_update ::
  "(string \<Rightarrow> double option) \<Rightarrow> BrokerOrderId \<Rightarrow> trade_update \<Rightarrow> (double \<times> double) option" where
  "fill_update stod b u =
     (if tu_order_id u = b \<and> tu_event u \<in> {Update_fill, Update_partial_fill} \<and> tu_symbol u \<noteq> None
         \<and> side_from_alpaca (tu_side u) \<noteq> Inl ''Unknown v1::Side''
      then case (stod (tu_filled_qty u), map_option stod (tu_filled_avg_price u)) of
             (Some q, Some (Some a)) \<Rightarrow> Some (q, a)
           | _ \<Rightarrow> None
      else None)"

text \<open>
  The updates of one order from the first to the last: partial fills with growing cumulative
  quantities above \<open>q\<close>, then the final fill, and nothing after it.
\<close>

fun fill_run ::
  "(string \<Rightarrow> double option) \<Rightarrow> BrokerOrderId \<Rightarrow> double \<Rightarrow> trade_update list \<Rightarrow> double \<times> double \<Rightarrow> bool"
  where
  "fill_run stod b q [] qa = False"
| "fill_run stod b q (u # us) qa =
     (case fill_update stod b u of
        None \<Rightarrow> False
      | Some (q', a) \<Rightarrow> q < q'
          \<and> (if tu_event u = Update_fill then us = [] \<and> qa = (q', a) else fill_run stod b q' us qa))"

text \<open>What the reports queued for an order add up to.\<close>

definition reported_qty :: "BrokerOrderId \<Rightarrow> alpaca_gateway \<Rightarrow> double" where
  "reported_qty b g =
     (\<Sum>r\<leftarrow>filter (\<lambda>r. er_broker_order_id r = b) (reports_queue (al_base g)). er_filled_quantity r)"

definition reported_cost :: "BrokerOrderId \<Rightarrow> alpaca_gateway \<Rightarrow> double" where
  "reported_cost b g =
     (\<Sum>r\<leftarrow>filter (\<lambda>r. er_broker_order_id r = b) (reports_queue (al_base g)).
        er_filled_quantity r * er_avg_fill_price r)"

lemma side_from_alpaca_ok:
  "side_from_alpaca s \<noteq> Inl ''Unknown v1::Side'' \<Longrightarrow> \<exists>side. side_from_alpaca s = Inr side"
  by (cases s) auto

lemma fill_step:
  assumes "fill_update (sdk_stod (al_sdk g)) b u = Some (q, a)"
    and "value_or_zero (cum_qty g b) < q"
  shows "fst (on_update u g) = Inr ()"
    and "al_sdk (snd (on_update u g)) = al_sdk g"
    and "cum_qty (snd (on_update u g)) b = (if tu_event u = Update_fill then None else Some q)"
    and "cum_cost (snd (on_update u g)) b = (if tu_event u = Update_fill then None else Some (q * a))"
    and "reported_qty b (snd (on_update u g)) = reported_qty b g + (q - value_or_zero (cum_qty g b))"
    and "reported_cost b (snd (on_update u g)) = reported_cost b g + (q * a - value_or_zero (cum_cost g b))"
proof -
  obtain symbol avg side where u: "tu_order_id u = b" "tu_symbol u = Some symbol"
    "sdk_stod (al_sdk g) (tu_filled_qty u) = Some q" "tu_filled_avg_price u = Some avg"
    "sdk_stod (al_sdk g) avg = Some a" "side_from_alpaca (tu_side u) = Inr side"
    "tu_event u \<in> {Update_fill, Update_partial_fill}"
    using assms(1) side_from_alpaca_ok [of "tu_side u"]
    by (auto simp: fill_update_def split: if_splits option.splits)
  let ?q = "q - value_or_zero (cum_qty g b)"
  have nz: "?q \<noteq> 0" using assms(2) by simp
  show "fst (on_update u g) = Inr ()" "al_sdk (snd (on_update u g)) = al_sdk g"
    "cum_qty (snd (on_update u g)) b = (if tu_event u = Update_fill then None else Some q)"
    "cum_cost (snd (on_update u g)) b = (if tu_event u = Update_fill then None else Some (q * a))"
    "reported_qty b (snd (on_update u g)) = reported_qty b g + ?q"
    "reported_cost b (snd (on_update u g)) = reported_cost b g + (q * a - value_or_zero (cum_cost g b))"
    using u nz assms(2)
    by (auto simp: on_update_def on_fill_update_def Let_def increment_def enqueue_report_def
        reported_qty_def reported_cost_def)
qed

text \<open>An update of another order does not touch the totals and reports of this one.\<close>

lemma other_update:
  assumes "tu_order_id u \<noteq> b"
  shows "al_sdk (snd (on_update u g)) = al_sdk g"
    and "cum_qty (snd (on_update u g)) b = cum_qty g b" "cum_cost (snd (on_update u g)) b = cum_cost g b"
    and "reported_qty b (snd (on_update u g)) = reported_qty b g"
    and "reported_cost b (snd (on_update u g)) = reported_cost b g"
  using assms
  by (auto simp: on_update_def on_fill_update_def Let_def reported_qty_def reported_cost_def
      enqueue_report_def split_beta split: option.split sum.split)

lemma no_update:
  assumes "filter (\<lambda>u. tu_order_id u = b) us = []"
  shows "cum_qty (on_updates us g) b = cum_qty g b \<and> cum_cost (on_updates us g) b = cum_cost g b
    \<and> reported_qty b (on_updates us g) = reported_qty b g
    \<and> reported_cost b (on_updates us g) = reported_cost b g"
  using assms by (induction us arbitrary: g) (simp_all add: other_update split: if_splits)

lemma run_reports:
  assumes "fill_run (sdk_stod (al_sdk g)) b (value_or_zero (cum_qty g b)) (filter (\<lambda>u. tu_order_id u = b) us) (q, a)"
  shows "reported_qty b (on_updates us g) = reported_qty b g + (q - value_or_zero (cum_qty g b))
    \<and> reported_cost b (on_updates us g) = reported_cost b g + (q * a - value_or_zero (cum_cost g b))
    \<and> cum_qty (on_updates us g) b = None \<and> cum_cost (on_updates us g) b = None"
  using assms
proof (induction us arbitrary: g)
  case Nil
  then show ?case by simp
next
  case (Cons u us)
  show ?case
  proof (cases "tu_order_id u = b")
    case False
    note other = other_update [OF False]
    have "fill_run (sdk_stod (al_sdk (snd (on_update u g)))) b
        (value_or_zero (cum_qty (snd (on_update u g)) b)) (filter (\<lambda>u. tu_order_id u = b) us) (q, a)"
      using Cons.prems False other by simp
    from Cons.IH [OF this] other show ?thesis by simp
  next
    case True
    with Cons.prems obtain q' a' where u: "fill_update (sdk_stod (al_sdk g)) b u = Some (q', a')"
      "value_or_zero (cum_qty g b) < q'"
      "if tu_event u = Update_fill then filter (\<lambda>u. tu_order_id u = b) us = [] \<and> (q, a) = (q', a')
       else fill_run (sdk_stod (al_sdk g)) b q' (filter (\<lambda>u. tu_order_id u = b) us) (q, a)"
      by (auto split: option.splits)
    note step = fill_step [OF u(1,2)]
    show ?thesis
    proof (cases "tu_event u = Update_fill")
      case final: True
      with u(3) have "filter (\<lambda>u. tu_order_id u = b) us = []" "q' = q" "a' = a" by simp_all
      with no_update [OF this(1), of "snd (on_update u g)"] step final show ?thesis by simp
    next
      case partial: False
      have v: "value_or_zero (cum_qty (snd (on_update u g)) b) = q'"
        "value_or_zero (cum_cost (snd (on_update u g)) b) = q' * a'"
        using step(3,4) partial by (simp_all add: value_or_zero_def)
      have "fill_run (sdk_stod (al_sdk (snd (on_update u g)))) b
          (value_or_zero (cum_qty (snd (on_update u g)) b)) (filter (\<lambda>u. tu_order_id u = b) us) (q, a)"
        using u(3) partial v(1) step(2) by simp
      from Cons.IH [OF this] step v show ?thesis by simp
    qed
  qed
qed

text \<open>
  C35. The conversion of cumulative fills to increments adds up, in exact arithmetic. Take any updates
  of any orders, well formed or not, among which those of one order are partial fills with growing
  cumulative quantities and then its final fill of \<open>q\<close> at average \<open>a\<close>, with none after it. Then what
  the engine is handed for that order adds up to the quantity \<open>q\<close> and the cost \<open>q * a\<close>, and its totals
  are forgotten.
\<close>

theorem alpaca_increments_add_up:
  assumes "cum_qty g b = None" and "cum_cost g b = None"
    and "fill_run (sdk_stod (al_sdk g)) b 0 (filter (\<lambda>u. tu_order_id u = b) us) (q, a)"
  shows "reported_qty b (on_updates us g) = reported_qty b g + q
       \<and> reported_cost b (on_updates us g) = reported_cost b g + q * a
       \<and> cum_qty (on_updates us g) b = None \<and> cum_cost (on_updates us g) b = None"
  using run_reports [of g b us q a] assms by (simp add: value_or_zero_def)

definition sample_sdk :: alpaca_sdk where
  "sample_sdk = \<lparr>sdk_submit = (\<lambda>n o'. Inr ''A1''), sdk_delete = (\<lambda>n b. Inr ()),
     sdk_replace = (\<lambda>n b q. Inr ''A2''),
     sdk_stod = (\<lambda>s. if s = ''4'' then Some 4 else if s = ''10'' then Some 10
        else if s = ''50'' then Some 50 else None)\<rparr>"

definition sample_update :: "trade_update_event \<Rightarrow> string \<Rightarrow> string \<Rightarrow> trade_update" where
  "sample_update ev q a = \<lparr>tu_event = ev, tu_order_id = ''A1'', tu_filled_qty = q,
     tu_filled_avg_price = Some a, tu_symbol = Some ''AAPL'', tu_side = Alpaca_buy\<rparr>"

lemmas sample_alpaca = sample_sdk_def sample_update_def new_alpaca_gateway_def fill_update_def

text \<open>The final fill of another order comes between the two fills of this one.\<close>

theorem alpaca_increments_add_up_witness:
  "reported_qty ''A1'' (on_updates [sample_update Update_partial_fill ''4'' ''10'',
      (sample_update Update_fill ''4'' ''10'')\<lparr>tu_order_id := ''A2''\<rparr>,
      sample_update Update_fill ''10'' ''50''] (new_alpaca_gateway sample_sdk)) = 10"
  using alpaca_increments_add_up [of "new_alpaca_gateway sample_sdk" "''A1''"
      "[sample_update Update_partial_fill ''4'' ''10'',
        (sample_update Update_fill ''4'' ''10'')\<lparr>tu_order_id := ''A2''\<rparr>,
        sample_update Update_fill ''10'' ''50'']" 10 50]
  by (simp add: sample_alpaca reported_qty_def new_dispatch_base_def)

text \<open>
  A final fill that the broker sends again, for example after its stream reconnected, is counted
  a second time in full: the totals were forgotten with the first copy, so the engine receives the
  whole quantity of the order once more.
\<close>

theorem alpaca_repeated_fill_counts_twice:
  assumes "fill_update (sdk_stod (al_sdk g)) b u = Some (q, a)" and "tu_event u = Update_fill"
    and "0 < q" and "cum_qty g b = None"
  shows "reported_qty b (on_updates [u, u] g) = reported_qty b g + 2 * q"
proof -
  note one = fill_step [OF assms(1)]
  have "cum_qty (snd (on_update u g)) b = None" "al_sdk (snd (on_update u g)) = al_sdk g"
    using one assms(2-4) by (simp_all add: value_or_zero_def)
  then show ?thesis
    using one(5) fill_step(5) [of "snd (on_update u g)" b u q a] assms
    by (simp add: value_or_zero_def)
qed

theorem alpaca_repeated_fill_counts_twice_witness:
  "reported_qty ''A1'' (on_updates [sample_update Update_fill ''10'' ''50'',
      sample_update Update_fill ''10'' ''50''] (new_alpaca_gateway sample_sdk)) = 20"
  using alpaca_repeated_fill_counts_twice [of "new_alpaca_gateway sample_sdk" "''A1''"
      "sample_update Update_fill ''10'' ''50''" 10 50]
  by (simp add: sample_alpaca reported_qty_def new_dispatch_base_def)

text \<open>
  The engine never hears that an Alpaca order ended without being filled: a cancelled, expired,
  replaced or rejected update, and any other, reports nothing to the order manager.
\<close>

theorem alpaca_end_not_reported:
  assumes "tu_event u \<notin> {Update_fill, Update_partial_fill}"
  shows "fst (on_update u g) = Inr () \<and> al_base (snd (on_update u g)) = al_base g"
  using assms by (simp add: on_update_def)

theorem alpaca_end_not_reported_witness:
  "reports_queue (al_base (snd (on_update (sample_update Update_canceled ''4'' ''10'')
     (new_alpaca_gateway sample_sdk)))) = []"
  using alpaca_end_not_reported [of "sample_update Update_canceled ''4'' ''10''"
      "new_alpaca_gateway sample_sdk"]
  by (simp add: sample_alpaca new_dispatch_base_def)

text \<open>
  An order the SDK has no word for throws: submitting fails with an exception, without calling
  the broker, exactly when the side, the type or the time in force is not one of the known values,
  an unset side included; otherwise the broker is called once with every field but the price.
\<close>

theorem alpaca_submit_throws:
  "case fst (al_submit_order ord g) of
     Inl ex \<Rightarrow>
       (ord_side ord \<notin> {BUY, SELL} \<or> ord_type ord \<notin> {MARKET, LIMIT, STOP, STOP_LIMIT}
        \<or> ord_time_in_force ord \<notin> {DAY, GTC, IOC, FOK})
       \<and> snd (al_submit_order ord g) = g
   | Inr r \<Rightarrow>
       ord_side ord \<in> {BUY, SELL} \<and> ord_type ord \<in> {MARKET, LIMIT, STOP, STOP_LIMIT}
       \<and> ord_time_in_force ord \<in> {DAY, GTC, IOC, FOK}
       \<and> snd (al_submit_order ord g) = g\<lparr>al_calls := Suc (al_calls g)\<rparr>"
  by (cases "ord_side ord"; cases "ord_type ord"; cases "ord_time_in_force ord")
    (simp_all add: al_submit_order_def order_to_alpaca_order_def)

end
