(* ===== verification/Calendar.thy ===== *)
theory Calendar
  imports Clock "HOL-Library.Char_ord" "HOL-Library.List_Lexorder"
begin

text \<open>
  The calendar behind the journal's timestamps: day numbers and civil dates are inverse to each other
  and in the same order, so the text of a timestamp can be read back
  (\<open>LogEntry::string_to_timestamp\<close>, with the \<open>std::get_time\<close> and \<open>timegm\<close> it calls), and comparing
  two texts compares the times, on which the journal's range query relies.
\<close>

section \<open>Day numbers and dates\<close>

lemma year_of_era:
  fixes doe :: int
  assumes "0 \<le> doe" and "doe < 146097"
    and yoe: "yoe = (doe - doe div 1460 + doe div 36524 - doe div 146096) div 365"
  shows "0 \<le> yoe" and "yoe \<le> 399"
    and "365 * yoe + yoe div 4 - yoe div 100 \<le> doe"
    and "doe < 365 * (yoe + 1) + (yoe + 1) div 4 - (yoe + 1) div 100 + (yoe + 1) div 400"
proof -
  have "0 \<le> yoe \<and> yoe \<le> 399 \<and> 365 * yoe + yoe div 4 - yoe div 100 \<le> doe
      \<and> doe < 365 * (yoe + 1) + (yoe + 1) div 4 - (yoe + 1) div 100 + (yoe + 1) div 400"
  proof (cases "doe = 146096")
    case True
    then show ?thesis by (simp add: yoe)
  next
    case False
    define a b where "a = doe div 1460" and "b = doe div 36524"
    have a: "1460 * a \<le> doe" "doe < 1460 * a + 1460" unfolding a_def by linarith+
    have b: "36524 * b \<le> doe" "doe < 36524 * b + 36524" unfolding b_def by linarith+
    have b3: "0 \<le> b" "b \<le> 3" using assms(1,2) False b by linarith+
    have "doe div 146096 = 0" using assms(1,2) False by simp
    then have y: "yoe = (doe - a + b) div 365" by (simp add: yoe a_def b_def)
    have n: "365 * yoe \<le> doe - a + b" "doe - a + b < 365 * yoe + 365"
      unfolding y by linarith+
    have century: "100 * b \<le> yoe" "yoe \<le> 100 * b + 99"
      using a b b3 n by linarith+
    then have d100: "yoe div 100 = b" by linarith
    define q q' where "q = yoe div 4" and "q' = (yoe + 1) div 4"
    have q: "4 * q \<le> yoe" "yoe \<le> 4 * q + 3" unfolding q_def by linarith+
    have q': "4 * q' \<le> yoe + 1" "yoe + 1 \<le> 4 * q' + 3" unfolding q'_def by linarith+
    have "q \<le> a" using q a b n century b3 by linarith
    then have lower: "365 * yoe + q - b \<le> doe" using n by linarith
    have "doe < 365 * (yoe + 1) + q' - (yoe + 1) div 100"
    proof (cases "yoe + 1 = 100 * (b + 1)")
      case True
      then have "365 * (yoe + 1) + q' - (yoe + 1) div 100 = 36524 * (b + 1)" by (simp add: q'_def)
      with b show ?thesis by simp
    next
      case False
      then have "yoe + 1 < 100 * b + 100" using century by simp
      then have d': "(yoe + 1) div 100 = b" using century by linarith
      have "a \<le> q'" using q' a b n century b3 by linarith
      then show ?thesis using n by (simp add: d')
    qed
    moreover have "0 \<le> (yoe + 1) div 400" using century b3 by (simp add: pos_imp_zdiv_nonneg_iff)
    ultimately show ?thesis
      using lower century b3 by (simp add: d100 flip: q_def q'_def)
  qed
  then show "0 \<le> yoe" and "yoe \<le> 399"
    and "365 * yoe + yoe div 4 - yoe div 100 \<le> doe"
    and "doe < 365 * (yoe + 1) + (yoe + 1) div 4 - (yoe + 1) div 100 + (yoe + 1) div 400"
    by blast+
qed

lemma month_of_year:
  fixes doy :: int
  assumes "0 \<le> doy" and "doy \<le> 365" and "mp = (5 * doy + 2) div 153"
  shows "0 \<le> mp" and "mp \<le> 11" and "(153 * mp + 2) div 5 \<le> doy"
    and "doy < (153 * (mp + 1) + 2) div 5" and "doy - (153 * mp + 2) div 5 \<le> 30"
proof -
  have m: "153 * mp \<le> 5 * doy + 2" "5 * doy + 2 < 153 * mp + 153"
    unfolding assms(3) by linarith+
  then show mp: "0 \<le> mp" "mp \<le> 11" using assms(1,2) by linarith+
  define k k' where "k = (153 * mp + 2) div 5" and "k' = (153 * mp + 155) div 5"
  have "5 * k \<le> 153 * mp + 2" "153 * mp + 2 < 5 * k + 5" unfolding k_def by linarith+
  moreover have "5 * k' \<le> 153 * mp + 155" "153 * mp + 155 < 5 * k' + 5" unfolding k'_def by linarith+
  ultimately show "(153 * mp + 2) div 5 \<le> doy" "doy < (153 * (mp + 1) + 2) div 5"
    "doy - (153 * mp + 2) div 5 \<le> 30"
    using m by (simp_all add: k_def [symmetric] k'_def [symmetric])
qed


text \<open>The start of the year \<open>y\<close> that begins in March, and of its month \<open>mp\<close>.\<close>

definition march_days :: "int \<Rightarrow> int" where
  "march_days y = 365 * y + y div 4 - y div 100 + y div 400"

definition month_days :: "int \<Rightarrow> int" where
  "month_days mp = (153 * mp + 2) div 5"

text \<open>The day number of a civil date, as \<open>timegm\<close> counts it, days since 1970-01-01.\<close>

definition days_from_civil :: "int \<Rightarrow> int \<Rightarrow> int \<Rightarrow> int" where
  "days_from_civil y m d =
     march_days (if m \<le> 2 then y - 1 else y) + month_days (if m \<le> 2 then m + 9 else m - 3) + d
     - 719469"

lemma march_days_era: "march_days (400 * era + yoe) = 146097 * era + march_days yoe"
proof -
  have "(400 * era + yoe) div 4 = 100 * era + yoe div 4"
    "(400 * era + yoe) div 100 = 4 * era + yoe div 100"
    "(400 * era + yoe) div 400 = era + yoe div 400"
    by linarith+
  then show ?thesis by (simp add: march_days_def)
qed

text \<open>A day in the form the calendar splits it: year from March, month from March, day.\<close>

lemma civil_split:
  obtains y mp d where "0 \<le> mp" "mp \<le> 11" "1 \<le> d" "d \<le> 31"
    "civil_from_days z = (if mp < 10 then y else y + 1, nat (if mp < 10 then mp + 3 else mp - 9), nat d)"
    "z + 719468 = march_days y + month_days mp + d - 1"
    "month_days mp + d - 1 < month_days (mp + 1)"
    "z + 719468 < march_days (y + 1)"
proof -
  define era where "era = (z + 719468) div 146097"
  define doe where "doe = z + 719468 - era * 146097"
  define yoe where "yoe = (doe - doe div 1460 + doe div 36524 - doe div 146096) div 365"
  define doy where "doy = doe - (365 * yoe + yoe div 4 - yoe div 100)"
  define mp where "mp = (5 * doy + 2) div 153"
  define d where "d = doy - (153 * mp + 2) div 5 + 1"
  have "doe = (z + 719468) mod 146097" by (simp add: doe_def era_def minus_div_mult_eq_mod)
  then have doe: "0 \<le> doe" "doe < 146097" by auto
  note year = year_of_era [OF doe yoe_def]
  have y400: "yoe div 400 = 0" using year(1,2) by simp
  have doy: "0 \<le> doy" using year(3) by (simp add: doy_def)
  have upto: "doe < march_days (yoe + 1)" using year(4) by (simp add: march_days_def)
  have "doy \<le> 365"
  proof (cases "yoe = 399")
    case True
    then show ?thesis using doe(2) by (simp add: doy_def)
  next
    case False
    then have "(yoe + 1) div 400 = 0" using year(1,2) by simp
    moreover have "(yoe + 1) div 4 \<le> yoe div 4 + 1" "yoe div 100 \<le> (yoe + 1) div 100" by linarith+
    ultimately show ?thesis using year(4) by (simp add: doy_def)
  qed
  note month = month_of_year [OF doy this mp_def]
  show ?thesis
  proof (rule that [of mp d "400 * era + yoe"])
    show "0 \<le> mp" "mp \<le> 11" using month(1,2) .
    show "1 \<le> d" "d \<le> 31" using month(3,5) by (simp_all add: d_def)
    show "month_days mp + d - 1 < month_days (mp + 1)" using month(4) by (simp add: d_def month_days_def)
    have "march_days yoe + doy = doe" using y400 by (simp add: doy_def march_days_def)
    then show "z + 719468 = march_days (400 * era + yoe) + month_days mp + d - 1"
      by (simp add: march_days_era d_def month_days_def doe_def)
    show "z + 719468 < march_days (400 * era + yoe + 1)"
      using upto march_days_era [of era "yoe + 1"] by (simp add: doe_def add.assoc)
    have "civil_from_days z = (yoe + era * 400 + (if (if mp < 10 then mp + 3 else mp - 9) \<le> 2 then 1 else 0),
        nat (if mp < 10 then mp + 3 else mp - 9), nat d)"
      by (simp only: civil_from_days_def Let_def d_def mp_def doy_def yoe_def doe_def era_def)
    then show "civil_from_days z = (if mp < 10 then 400 * era + yoe else 400 * era + yoe + 1,
        nat (if mp < 10 then mp + 3 else mp - 9), nat d)"
      using month(1,2) by simp
  qed
qed


lemma civil_roundtrip:
  assumes "civil_from_days z = (y, m, d)"
  shows "days_from_civil y (int m) (int d) = z" and "1 \<le> m" and "m \<le> 12" and "1 \<le> d" and "d \<le> 31"
proof -
  obtain y0 mp d0 where c: "0 \<le> mp" "mp \<le> 11" "1 \<le> d0" "d0 \<le> 31"
    "civil_from_days z = (if mp < 10 then y0 else y0 + 1, nat (if mp < 10 then mp + 3 else mp - 9), nat d0)"
    "z + 719468 = march_days y0 + month_days mp + d0 - 1"
    by (rule civil_split [of z])
  then show "days_from_civil y (int m) (int d) = z"
    using assms by (cases "mp < 10") (simp_all add: days_from_civil_def)
  show "1 \<le> m" "m \<le> 12" "1 \<le> d" "d \<le> 31"
    using assms c(1-5) by (auto split: if_splits)
qed

lemma march_days_mono: "y \<le> y' \<Longrightarrow> march_days y \<le> march_days y'"
proof (induction y' rule: int_ge_induct)
  case (step y')
  have "y' div 4 \<le> (y' + 1) div 4" "(y' + 1) div 100 \<le> y' div 100 + 1" "y' div 400 \<le> (y' + 1) div 400"
    by linarith+
  with step show ?case by (simp add: march_days_def)
qed simp

lemma month_days_mono: "mp \<le> mp' \<Longrightarrow> month_days mp \<le> month_days mp'"
  by (simp add: month_days_def zdiv_mono1)

text \<open>Later days have later dates, compared by year, month and day.\<close>

lemma civil_mono:
  assumes "z < z'" and "civil_from_days z = (y, m, d)" and "civil_from_days z' = (y', m', d')"
  shows "y < y' \<or> y = y' \<and> (m < m' \<or> m = m' \<and> d < d')"
proof -
  obtain y0 mp d0 where c: "0 \<le> mp" "mp \<le> 11" "1 \<le> d0"
    "civil_from_days z = (if mp < 10 then y0 else y0 + 1, nat (if mp < 10 then mp + 3 else mp - 9), nat d0)"
    "z + 719468 = march_days y0 + month_days mp + d0 - 1"
    by (rule civil_split [of z])
  obtain y1 mp1 d1 where c1: "0 \<le> mp1" "mp1 \<le> 11" "1 \<le> d1"
    "civil_from_days z' = (if mp1 < 10 then y1 else y1 + 1, nat (if mp1 < 10 then mp1 + 3 else mp1 - 9), nat d1)"
    "z' + 719468 = march_days y1 + month_days mp1 + d1 - 1"
    "month_days mp1 + d1 - 1 < month_days (mp1 + 1)" "z' + 719468 < march_days (y1 + 1)"
    by (rule civil_split [of z'])
  have "y0 < y1 \<or> y0 = y1 \<and> (mp < mp1 \<or> mp = mp1 \<and> d0 < d1)"
  proof (rule ccontr)
    assume *: "\<not> ?thesis"
    have "0 \<le> month_days mp" using month_days_mono [OF c(1)] by (simp add: month_days_def)
    consider "y1 + 1 \<le> y0" | "y0 = y1" "mp1 + 1 \<le> mp" | "y0 = y1" "mp = mp1" "d1 \<le> d0"
      using * by linarith
    then show False
    proof cases
      case 1
      from march_days_mono [OF this] c c1 assms(1) \<open>0 \<le> month_days mp\<close> show False by linarith
    next
      case 2
      from month_days_mono [OF 2(2)] 2 c c1 assms(1) show False by simp
    next
      case 3
      with c c1 assms(1) show False by simp
    qed
  qed
  with c(1-4) c1(1-4) assms(2,3) show ?thesis by (auto split: if_splits)
qed

section \<open>Reading a timestamp\<close>

text \<open>
  \<open>timegm\<close> of the fields \<open>std::get_time\<close> filled in; as in \<open>gmtime_r\<close> the record holds the calendar
  year and month, so that a zeroed \<open>std::tm\<close> is day 0 of January 1900.
\<close>

definition zero_tm :: tm where
  "zero_tm = \<lparr>tm_year = 1900, tm_mon = 1, tm_mday = 0, tm_hour = 0, tm_min = 0, tm_sec = 0\<rparr>"

definition timegm :: "tm \<Rightarrow> int" where
  "timegm t =
     (days_from_civil (tm_year t) (int (tm_mon t)) 1 + int (tm_mday t) - 1) * 86400
     + int (tm_hour t) * 3600 + int (tm_min t) * 60 + int (tm_sec t)"

text \<open>A number of exactly \<open>w\<close> digits in a range; the texts of the journal have no shorter ones.\<close>

definition get_num :: "nat \<Rightarrow> nat \<Rightarrow> nat \<Rightarrow> string \<Rightarrow> (nat \<times> string) option" where
  "get_num w lo hi s =
     (let ds = take w s; n = digits_value ds
      in if length ds = w \<and> list_all is_digit ds \<and> lo \<le> n \<and> n \<le> hi then Some (n, drop w s) else None)"

definition get_field :: "char \<Rightarrow> string \<Rightarrow> tm \<Rightarrow> (tm \<times> string) option" where
  "get_field c s t =
     (if c = CHR ''Y'' then map_option (\<lambda>(n, s). (t\<lparr>tm_year := int n\<rparr>, s)) (get_num 4 0 9999 s)
      else if c = CHR ''m'' then map_option (\<lambda>(n, s). (t\<lparr>tm_mon := n\<rparr>, s)) (get_num 2 1 12 s)
      else if c = CHR ''d'' then map_option (\<lambda>(n, s). (t\<lparr>tm_mday := n\<rparr>, s)) (get_num 2 1 31 s)
      else if c = CHR ''H'' then map_option (\<lambda>(n, s). (t\<lparr>tm_hour := n\<rparr>, s)) (get_num 2 0 23 s)
      else if c = CHR ''M'' then map_option (\<lambda>(n, s). (t\<lparr>tm_min := n\<rparr>, s)) (get_num 2 0 59 s)
      else if c = CHR ''S'' then map_option (\<lambda>(n, s). (t\<lparr>tm_sec := n\<rparr>, s)) (get_num 2 0 60 s)
      else None)"

text \<open>\<open>std::get_time\<close>: at the first mismatch it stops, and the fields already read stay.\<close>

fun get_time :: "string \<Rightarrow> string \<Rightarrow> tm \<Rightarrow> tm" where
  "get_time (f # c # fmt) s t =
     (if f = CHR ''%''
      then case get_field c s t of None \<Rightarrow> t | Some (t', s') \<Rightarrow> get_time fmt s' t'
      else case s of [] \<Rightarrow> t | a # s' \<Rightarrow> if a = f then get_time (c # fmt) s' t else t)"
| "get_time _ s t = t"

text \<open>\<open>from_time_t\<close> multiplies in 64 bits: \<open>None\<close> is its overflow.\<close>

definition string_to_timestamp :: "string \<Rightarrow> int option" where
  "string_to_timestamp str =
     (let ns = timegm (get_time ''%Y-%m-%d %H:%M:%S'' str zero_tm) * 1000000000
      in if in_i64 ns then Some ns else None)"

section \<open>Fixed-width numbers\<close>

lemma length_decimal: "n < 10 ^ w \<Longrightarrow> 1 \<le> w \<Longrightarrow> length (decimal n) \<le> w"
proof (induction n arbitrary: w rule: decimal.induct)
  case (1 n)
  show ?case
  proof (cases "n < 10")
    case False
    with 1(2) obtain v where v: "w = Suc v" "1 \<le> v" by (cases w; cases "w - 1") auto
    with 1(1) [OF False, of v] 1(2) False show ?thesis by (simp add: decimal_step)
  qed (use 1(3) in simp)
qed

lemma length_pad_decimal: "n < 10 ^ w \<Longrightarrow> 1 \<le> w \<Longrightarrow> length (pad_decimal w n) = w"
  using length_decimal [of n w] by (simp add: pad_decimal_def Let_def)

lemma pad_decimal_Suc:
  assumes "1 \<le> w"
  shows "pad_decimal (Suc w) n = pad_decimal w (n div 10) @ [digit_char (n mod 10)]"
proof (cases "n < 10")
  case True
  moreover have "digit_char 0 = CHR ''0''" by code_simp
  ultimately show ?thesis
    using assms replicate_append_same [of "w - 1" "CHR ''0''"]
    by (cases w) (simp_all add: pad_decimal_def)
next
  case False
  then show ?thesis by (simp add: pad_decimal_def decimal_step Let_def)
qed

lemma pad_decimal_full:
  "10 ^ w \<le> n \<Longrightarrow> n < 10 ^ Suc w \<Longrightarrow> pad_decimal (Suc w) n = decimal n"
proof (induction w arbitrary: n)
  case 0
  then show ?case by (simp add: pad_decimal_def)
next
  case (Suc w)
  then have "10 ^ w \<le> n div 10" "n div 10 < 10 ^ Suc w" by auto
  moreover have "10 \<le> n" using Suc.prems(1) by (metis One_nat_def Suc_le_mono le_trans one_le_numeral power_Suc0_right power_increasing zero_le)
  ultimately show ?case using Suc.IH [of "n div 10"] by (simp add: pad_decimal_Suc decimal_step del: power_Suc)
qed

lemma get_num_pad [simp]:
  assumes "n < 10 ^ w" and "1 \<le> w" and "lo \<le> n" and "n \<le> hi"
  shows "get_num w lo hi (pad_decimal w n @ s) = Some (n, s)"
  using assms by (simp add: get_num_def length_pad_decimal pad_decimal_digits Let_def)

text \<open>Texts of one length are compared before what follows them.\<close>

lemma append_less:
  fixes xs :: string
  shows "length xs = length ys \<Longrightarrow> xs @ u < ys @ v \<longleftrightarrow> xs < ys \<or> xs = ys \<and> u < v"
  by (induction xs ys rule: list_induct2) auto

lemma digit_char_less: "a < b \<Longrightarrow> b < 10 \<Longrightarrow> digit_char a < digit_char b"
  by (simp add: less_char_def)

lemma pad_decimal_less: "a < b \<Longrightarrow> b < 10 ^ w \<Longrightarrow> 1 \<le> w \<Longrightarrow> pad_decimal w a < pad_decimal w b"
proof (induction w arbitrary: a b)
  case (Suc w)
  show ?case
  proof (cases "w = 0")
    case True
    with Suc.prems show ?thesis by (simp add: pad_decimal_def digit_char_less)
  next
    case False
    then have w: "1 \<le> w" "b div 10 < 10 ^ w" using Suc.prems by auto
    have "a div 10 < b div 10 \<or> a div 10 = b div 10 \<and> a mod 10 < b mod 10"
      using Suc.prems(1) div_mult_mod_eq [of a 10] div_mult_mod_eq [of b 10] div_le_mono [of a b 10]
      by (metis le_neq_implies_less less_imp_le nat_add_left_cancel_less)
    then show ?thesis
      using Suc.IH [of "a div 10" "b div 10"] w
      by (auto simp: pad_decimal_Suc append_less length_pad_decimal digit_char_less)
  qed
qed simp

lemma pad_append_less:
  assumes "a < 10 ^ w" and "b < 10 ^ w" and "1 \<le> w"
  shows "pad_decimal w a @ u < pad_decimal w b @ v \<longleftrightarrow> a < b \<or> a = b \<and> u < v"
proof -
  have "a < b \<longleftrightarrow> pad_decimal w a < pad_decimal w b"
    using assms pad_decimal_less by (metis less_irrefl less_linear order_less_trans)
  then show ?thesis
    using assms by (auto simp: append_less length_pad_decimal dest: pad_decimal_inj)
qed

section \<open>The text of a timestamp\<close>

definition date_time_text :: "nat \<Rightarrow> nat \<Rightarrow> nat \<Rightarrow> nat \<Rightarrow> nat \<Rightarrow> nat \<Rightarrow> string" where
  "date_time_text y m d h mi s =
     pad_decimal 4 y @ ''-'' @ pad_decimal 2 m @ ''-'' @ pad_decimal 2 d @ '' ''
     @ pad_decimal 2 h @ '':'' @ pad_decimal 2 mi @ '':'' @ pad_decimal 2 s"

text \<open>The hour, minute and second of a number of seconds since midnight.\<close>

lemma day_seconds:
  fixes s :: int
  assumes "0 \<le> s" and "s < 86400"
  obtains h mi se where "nat (s div 3600) = h" "nat (s div 60 mod 60) = mi" "nat (s mod 60) = se"
    "h < 24" "mi < 60" "se < 60" "s = int h * 3600 + int mi * 60 + int se"
proof -
  define H M E where "H = s div 60 div 60" and "M = s div 60 mod 60" and "E = s mod 60"
  have "s div 60 < 1440" using assms by auto
  then have "H < 24" unfolding H_def by auto
  moreover have "0 \<le> H" unfolding H_def using assms(1) by (simp add: pos_imp_zdiv_nonneg_iff)
  moreover have "0 \<le> M" "M < 60" "0 \<le> E" "E < 60" by (simp_all add: M_def E_def)
  moreover have "s = H * 3600 + M * 60 + E"
    unfolding H_def M_def E_def
    using div_mult_mod_eq [of s 60] div_mult_mod_eq [of "s div 60" 60] by linarith
  moreover have "s div 3600 = H" unfolding H_def by (simp flip: zdiv_zmult2_eq)
  moreover note M_def [symmetric] E_def [symmetric]
  ultimately show ?thesis
    by (intro that [of "nat H" "nat M" "nat E"]) (simp_all only: nat_less_iff int_nat_eq if_True simp_thms)
qed

lemma date_time_form:
  assumes "- 9223372037 \<le> secs" and "secs \<le> 9223372037"
  obtains t y where "gmtime_r secs = Some t" "civil_from_days (secs div 86400) = (int y, tm_mon t, tm_mday t)"
    "1000 \<le> y" "y < 10000" "1 \<le> tm_mon t" "tm_mon t \<le> 12" "1 \<le> tm_mday t" "tm_mday t \<le> 31"
    "tm_hour t < 24" "tm_min t < 60" "tm_sec t < 60"
    "secs mod 86400 = int (tm_hour t) * 3600 + int (tm_min t) * 60 + int (tm_sec t)"
    "format_date t @ '' '' @ format_time t
       = date_time_text y (tm_mon t) (tm_mday t) (tm_hour t) (tm_min t) (tm_sec t)"
proof -
  obtain y m d where c: "civil_from_days (secs div 86400) = (y, m, d)"
    by (cases "civil_from_days (secs div 86400)")
  have "- 106753 \<le> secs div 86400" "secs div 86400 \<le> 106753"
    using assms by auto
  from civil_year_bounds [OF this] c have y: "1500 \<le> y" "y \<le> 2500" by simp_all
  obtain t where t: "gmtime_r secs = Some t" using gmtime_r_in_range [OF assms] by blast
  then have f: "tm_year t = y" "tm_mon t = m" "tm_mday t = d" "tm_hour t = nat (secs mod 86400 div 3600)"
    "tm_min t = nat (secs mod 86400 div 60 mod 60)" "tm_sec t = nat (secs mod 86400 mod 60)"
    using c by (auto simp: gmtime_r_def Let_def split: if_splits)
  obtain h mi se where hms: "tm_hour t = h" "tm_min t = mi" "tm_sec t = se" "h < 24" "mi < 60" "se < 60"
    "secs mod 86400 = int h * 3600 + int mi * 60 + int se"
    using day_seconds [of "secs mod 86400"] unfolding f by (metis pos_mod_bound pos_mod_sign zero_less_numeral)
  have "int_decimal y = pad_decimal 4 (nat y)"
    using y pad_decimal_full [of 3 "nat y"] by (simp add: int_decimal_def)
  then have "format_date t @ '' '' @ format_time t = date_time_text (nat y) m d h mi se"
    by (simp add: format_date_def format_time_def date_time_text_def f(1-3) hms(1-3))
  with c hms y civil_roundtrip(2-) [OF c] show thesis
    by (intro that [OF t, of "nat y"]) (simp_all add: f(2,3))
qed

lemma clock_seconds:
  assumes "in_i64 ts"
  shows "- 9223372037 \<le> cpp_div ts 1000000000" and "cpp_div ts 1000000000 \<le> 9223372037"
  using cpp_div_bounds [of 1000000000 9223372037 ts] assms by (auto simp: in_i64_def)

lemma get_time_text:
  assumes "y < 10000" and "1 \<le> m" "m \<le> 12" and "1 \<le> d" "d \<le> 31" and "h < 24" "mi < 60" "se < 60"
  shows "get_time ''%Y-%m-%d %H:%M:%S'' (date_time_text y m d h mi se @ rest) zero_tm
    = \<lparr>tm_year = int y, tm_mon = m, tm_mday = d, tm_hour = h, tm_min = mi, tm_sec = se\<rparr>"
  using assms by (simp add: date_time_text_def get_field_def zero_tm_def)

lemma timestamp_text:
  assumes "in_i64 ts"
  obtains t :: tm and y where
    "timestamp_to_string ts = Inr (date_time_text y (tm_mon t) (tm_mday t) (tm_hour t) (tm_min t) (tm_sec t)
       @ ''.'' @ pad_int_decimal 3 (cpp_mod (cpp_div ts 1000000) 1000))"
    "civil_from_days (cpp_div ts 1000000000 div 86400) = (int y, tm_mon t, tm_mday t)"
    "1000 \<le> y" "y < 10000" "1 \<le> tm_mon t" "tm_mon t \<le> 12" "1 \<le> tm_mday t" "tm_mday t \<le> 31"
    "tm_hour t < 24" "tm_min t < 60" "tm_sec t < 60"
    "cpp_div ts 1000000000 mod 86400 = int (tm_hour t) * 3600 + int (tm_min t) * 60 + int (tm_sec t)"
proof -
  obtain t y where t: "gmtime_r (cpp_div ts 1000000000) = Some t"
    "format_date t @ '' '' @ format_time t
       = date_time_text y (tm_mon t) (tm_mday t) (tm_hour t) (tm_min t) (tm_sec t)"
    "civil_from_days (cpp_div ts 1000000000 div 86400) = (int y, tm_mon t, tm_mday t)"
    "1000 \<le> y" "y < 10000" "1 \<le> tm_mon t" "tm_mon t \<le> 12" "1 \<le> tm_mday t" "tm_mday t \<le> 31"
    "tm_hour t < 24" "tm_min t < 60" "tm_sec t < 60"
    "cpp_div ts 1000000000 mod 86400 = int (tm_hour t) * 3600 + int (tm_min t) * 60 + int (tm_sec t)"
    using date_time_form [OF clock_seconds [OF assms]] by metis
  have "timestamp_to_string ts = Inr ((format_date t @ '' '' @ format_time t)
      @ ''.'' @ pad_int_decimal 3 (cpp_mod (cpp_div ts 1000000) 1000))"
    using t(1) by (simp add: timestamp_to_string_def)
  then show thesis using that [OF _ t(3-)] unfolding t(2) by blast
qed

lemma reads_back:
  assumes "in_i64 ts" and "timestamp_to_string ts = Inr s"
  shows "string_to_timestamp s = Some (cpp_div ts 1000000000 * 1000000000)"
proof -
  let ?secs = "cpp_div ts 1000000000"
  obtain t :: tm and y where written: "timestamp_to_string ts
      = Inr (date_time_text y (tm_mon t) (tm_mday t) (tm_hour t) (tm_min t) (tm_sec t)
         @ ''.'' @ pad_int_decimal 3 (cpp_mod (cpp_div ts 1000000) 1000))"
    and c: "civil_from_days (?secs div 86400) = (int y, tm_mon t, tm_mday t)"
    and "1000 \<le> y"
    and t: "y < 10000" "1 \<le> tm_mon t" "tm_mon t \<le> 12" "1 \<le> tm_mday t" "tm_mday t \<le> 31"
    "tm_hour t < 24" "tm_min t < 60" "tm_sec t < 60"
    and m: "?secs mod 86400 = int (tm_hour t) * 3600 + int (tm_min t) * 60 + int (tm_sec t)"
    by (rule timestamp_text [OF assms(1)], rule that)
  from written assms(2) have s: "s = date_time_text y (tm_mon t) (tm_mday t) (tm_hour t) (tm_min t) (tm_sec t)
       @ ''.'' @ pad_int_decimal 3 (cpp_mod (cpp_div ts 1000000) 1000)"
    by simp
  have "timegm (get_time ''%Y-%m-%d %H:%M:%S'' s zero_tm)
      = ?secs div 86400 * 86400 + ?secs mod 86400"
    unfolding s get_time_text [OF t] m civil_roundtrip(1) [OF c, symmetric]
    by (simp add: timegm_def days_from_civil_def)
  moreover have "in_i64 (?secs * 1000000000)"
    using assms by (cases "0 \<le> ts") (auto simp: in_i64_def cpp_div_def abs_if sgn_if)
  ultimately show ?thesis by (simp add: string_to_timestamp_def)
qed

section \<open>The order of texts is the order of times\<close>

lemma date_time_text_less:
  assumes "y < 10000" "m < 100" "d < 100" "h < 100" "mi < 100" "se < 100" "ms < 1000"
    and "y' < 10000" "m' < 100" "d' < 100" "h' < 100" "mi' < 100" "se' < 100" "ms' < 1000"
  shows "date_time_text y m d h mi se @ ''.'' @ pad_decimal 3 ms
      < date_time_text y' m' d' h' mi' se' @ ''.'' @ pad_decimal 3 ms' \<longleftrightarrow>
    y < y' \<or> y = y' \<and> (m < m' \<or> m = m' \<and> (d < d' \<or> d = d' \<and>
      (h < h' \<or> h = h' \<and> (mi < mi' \<or> mi = mi' \<and> (se < se' \<or> se = se' \<and> ms < ms')))))"
  using assms pad_append_less [of ms 3 ms' "[]" "[]"]
  by (simp add: date_time_text_def pad_append_less)

lemma seconds_less:
  assumes "int h * 3600 + int mi * 60 + int se < int h' * 3600 + int mi' * 60 + int se'"
    and "mi < 60" "se < 60" "mi' < 60" "se' < 60"
  shows "h < h' \<or> h = h' \<and> (mi < mi' \<or> mi = mi' \<and> se < se')"
  using assms by linarith

lemma seconds_eq:
  assumes "int h * 3600 + int mi * 60 + int se = int h' * 3600 + int mi' * 60 + int se'"
    and "mi < 60" "se < 60" "mi' < 60" "se' < 60"
  shows "h = h' \<and> mi = mi' \<and> se = se'"
proof -
  have h: "h = h'" using assms by (cases h h' rule: linorder_cases) linarith+
  moreover have "mi = mi'" using assms h by (cases mi mi' rule: linorder_cases) linarith+
  ultimately show ?thesis using assms(1) by simp
qed

lemma div_mod_less:
  fixes a b c :: int
  assumes "a < b" and "0 < c"
  shows "a div c < b div c \<or> a div c = b div c \<and> a mod c < b mod c"
  using zdiv_mono1 [of a b c] div_mult_mod_eq [of a c] div_mult_mod_eq [of b c] assms
  by (metis add_less_cancel_left antisym_conv2 less_imp_le)

lemma timestamp_text_nonneg:
  assumes "in_i64 ts" and "0 \<le> ts" and "timestamp_to_string ts = Inr s"
  obtains t :: tm and y where
    "s = date_time_text y (tm_mon t) (tm_mday t) (tm_hour t) (tm_min t) (tm_sec t)
       @ ''.'' @ pad_decimal 3 (nat (ts div 1000000 mod 1000))"
    "civil_from_days (ts div 1000000000 div 86400) = (int y, tm_mon t, tm_mday t)"
    "y < 10000" "tm_mon t < 100" "tm_mday t < 100" "tm_hour t < 100" "tm_min t < 60" "tm_sec t < 60"
    "ts div 1000000000 mod 86400 = int (tm_hour t) * 3600 + int (tm_min t) * 60 + int (tm_sec t)"
proof -
  have d: "cpp_div ts 1000000000 = ts div 1000000000" "0 \<le> ts div 1000000"
    "cpp_div ts 1000000 = ts div 1000000"
    using assms(2) by (simp_all add: pos_imp_zdiv_nonneg_iff)
  have ms: "pad_int_decimal 3 (cpp_mod (cpp_div ts 1000000) 1000)
      = pad_decimal 3 (nat (ts div 1000000 mod 1000))"
    unfolding d(3) cpp_mod_nonneg [OF d(2) zero_less_numeral] pad_int_decimal_def
    using pos_mod_sign [of 1000 "ts div 1000000"] by (simp add: not_less del: pos_mod_sign)
  obtain t :: tm and y where w: "timestamp_to_string ts
      = Inr (date_time_text y (tm_mon t) (tm_mday t) (tm_hour t) (tm_min t) (tm_sec t)
         @ ''.'' @ pad_int_decimal 3 (cpp_mod (cpp_div ts 1000000) 1000))"
    and c: "civil_from_days (cpp_div ts 1000000000 div 86400) = (int y, tm_mon t, tm_mday t)"
    and "1000 \<le> y"
    and t: "y < 10000" "1 \<le> tm_mon t" "tm_mon t \<le> 12" "1 \<le> tm_mday t" "tm_mday t \<le> 31"
    "tm_hour t < 24" "tm_min t < 60" "tm_sec t < 60"
    and m: "cpp_div ts 1000000000 mod 86400 = int (tm_hour t) * 3600 + int (tm_min t) * 60 + int (tm_sec t)"
    by (rule timestamp_text [OF assms(1)], rule that)
  from w have "s = date_time_text y (tm_mon t) (tm_mday t) (tm_hour t) (tm_min t) (tm_sec t)
       @ ''.'' @ pad_decimal 3 (nat (ts div 1000000 mod 1000))"
    unfolding assms(3) ms by simp
  from that [OF this c [unfolded d(1)] t(1) _ _ _ t(7,8) m [unfolded d(1)]] t show thesis by simp
qed

lemma earlier_text:
  assumes "in_i64 ts" "0 \<le> ts" "in_i64 ts'" "0 \<le> ts'"
    and "timestamp_to_string ts = Inr s" and "timestamp_to_string ts' = Inr s'"
    and "ts div 1000000 < ts' div 1000000"
  shows "s < s'"
proof -
  let ?ms = "\<lambda>ts. nat (ts div 1000000 mod 1000)"
  obtain t :: tm and y where t: "s = date_time_text y (tm_mon t) (tm_mday t) (tm_hour t) (tm_min t) (tm_sec t)
       @ ''.'' @ pad_decimal 3 (?ms ts)"
    "civil_from_days (ts div 1000000000 div 86400) = (int y, tm_mon t, tm_mday t)"
    "y < 10000" "tm_mon t < 100" "tm_mday t < 100" "tm_hour t < 100" "tm_min t < 60" "tm_sec t < 60"
    "ts div 1000000000 mod 86400 = int (tm_hour t) * 3600 + int (tm_min t) * 60 + int (tm_sec t)"
    by (rule timestamp_text_nonneg [OF assms(1,2,5)], rule that)
  obtain t' :: tm and y' where t': "s' = date_time_text y' (tm_mon t') (tm_mday t') (tm_hour t') (tm_min t') (tm_sec t')
       @ ''.'' @ pad_decimal 3 (?ms ts')"
    "civil_from_days (ts' div 1000000000 div 86400) = (int y', tm_mon t', tm_mday t')"
    "y' < 10000" "tm_mon t' < 100" "tm_mday t' < 100" "tm_hour t' < 100" "tm_min t' < 60" "tm_sec t' < 60"
    "ts' div 1000000000 mod 86400 = int (tm_hour t') * 3600 + int (tm_min t') * 60 + int (tm_sec t')"
    by (rule timestamp_text_nonneg [OF assms(3,4,6)], rule that)
  have split: "ts div 1000000000 = ts div 1000000 div 1000" for ts :: int
    by (simp flip: zdiv_zmult2_eq)
  have less: "s < s' \<longleftrightarrow> y < y' \<or> y = y' \<and> (tm_mon t < tm_mon t' \<or> tm_mon t = tm_mon t' \<and>
      (tm_mday t < tm_mday t' \<or> tm_mday t = tm_mday t' \<and> (tm_hour t < tm_hour t' \<or> tm_hour t = tm_hour t' \<and>
      (tm_min t < tm_min t' \<or> tm_min t = tm_min t' \<and> (tm_sec t < tm_sec t' \<or> tm_sec t = tm_sec t' \<and>
      ?ms ts < ?ms ts')))))"
    unfolding t(1) t'(1)
    by (rule date_time_text_less) (use t(3-8) t'(3-8) in simp_all)
  have "ts div 1000000000 < ts' div 1000000000
      \<or> ts div 1000000000 = ts' div 1000000000 \<and> ts div 1000000 mod 1000 < ts' div 1000000 mod 1000"
    unfolding split by (rule div_mod_less [OF assms(7)]) simp
  moreover have "nat a < nat b" if "a < b" "0 \<le> a" for a b :: int using that by simp
  ultimately consider "ts div 1000000000 div 86400 < ts' div 1000000000 div 86400"
    | "ts div 1000000000 div 86400 = ts' div 1000000000 div 86400"
      "ts div 1000000000 mod 86400 < ts' div 1000000000 mod 86400"
    | "ts div 1000000000 = ts' div 1000000000" "?ms ts < ?ms ts'"
    using div_mod_less [of "ts div 1000000000" "ts' div 1000000000" 86400]
    by (metis pos_mod_sign zero_less_numeral)
  then show ?thesis
  proof cases
    case 1
    from civil_mono [OF this t(2) t'(2)] show ?thesis unfolding less by auto
  next
    case 2
    have "(int y, tm_mon t, tm_mday t) = (int y', tm_mon t', tm_mday t')"
      unfolding t(2) [symmetric] t'(2) [symmetric] 2(1) ..
    then have "y = y'" "tm_mon t = tm_mon t'" "tm_mday t = tm_mday t'" by simp_all
    with seconds_less [OF 2(2) [unfolded t(9) t'(9)] t(7,8) t'(7,8)] show ?thesis
      unfolding less by auto
  next
    case 3
    have "(int y, tm_mon t, tm_mday t) = (int y', tm_mon t', tm_mday t')"
      unfolding t(2) [symmetric] t'(2) [symmetric] 3(1) ..
    then have "y = y'" "tm_mon t = tm_mon t'" "tm_mday t = tm_mday t'" by simp_all
    moreover have "tm_hour t = tm_hour t' \<and> tm_min t = tm_min t' \<and> tm_sec t = tm_sec t'"
      using 3(1) t(9) t'(9) by (intro seconds_eq t(7,8) t'(7,8)) (simp only:)
    ultimately show ?thesis unfolding less using 3(2) by simp
  qed
qed

lemma timestamp_text_order:
  assumes "in_i64 ts" "0 \<le> ts" "in_i64 ts'" "0 \<le> ts'"
    and "timestamp_to_string ts = Inr s" and "timestamp_to_string ts' = Inr s'"
  shows "s \<le> s' \<longleftrightarrow> ts div 1000000 \<le> ts' div 1000000"
proof (cases "ts div 1000000" "ts' div 1000000" rule: linorder_cases)
  case less
  from earlier_text [OF assms less] less show ?thesis by simp
next
  case greater
  from earlier_text [OF assms(3,4,1,2,6,5) greater] greater show ?thesis by simp
next
  case equal
  have "cpp_div ts 1000000 = cpp_div ts' 1000000" using assms(2,4) equal by simp
  moreover have "ts div 1000000000 = ts div 1000000 div 1000" for ts :: int
    by (simp flip: zdiv_zmult2_eq)
  then have "cpp_div ts 1000000000 = cpp_div ts' 1000000000" using assms(2,4) equal by simp
  ultimately have "timestamp_to_string ts = timestamp_to_string ts'"
    unfolding timestamp_to_string_def by (simp only:)
  with assms(5,6) equal show ?thesis by simp
qed

section \<open>Properties\<close>

text \<open>
  A timestamp read back from the journal is the one written, cut off to whole seconds towards the
  epoch, for every reading of the 64-bit clock: the milliseconds are lost, and nothing else.
\<close>

theorem timestamp_reads_back:
  assumes "in_i64 ts"
  shows "\<exists>s. timestamp_to_string ts = Inr s
       \<and> string_to_timestamp s = Some (cpp_div ts 1000000000 * 1000000000)"
  using timestamp_to_string_ok [OF assms] reads_back [OF assms] by blast

theorem timestamp_reads_back_witness:
  "\<exists>s. timestamp_to_string 1714566896123456789 = Inr s
     \<and> string_to_timestamp s = Some 1714566896000000000"
  using timestamp_reads_back [of 1714566896123456789] by (simp add: in_i64_def)

text \<open>
  Comparing two timestamps of the journal as texts compares their times to the millisecond, for all
  readings of the clock from 1970 on.
\<close>

theorem timestamp_texts_ordered:
  assumes "in_i64 ts" "0 \<le> ts" "in_i64 ts'" "0 \<le> ts'"
  shows "\<exists>s s'. timestamp_to_string ts = Inr s \<and> timestamp_to_string ts' = Inr s'
       \<and> (s \<le> s' \<longleftrightarrow> ts div 1000000 \<le> ts' div 1000000)"
  using timestamp_to_string_ok [OF assms(1)] timestamp_to_string_ok [OF assms(3)]
    timestamp_text_order [OF assms] by blast

theorem timestamp_texts_ordered_witness:
  "\<exists>s s'. timestamp_to_string 999999999999999999 = Inr s \<and> timestamp_to_string 1000000000000000000 = Inr s'
     \<and> s \<le> s'"
  using timestamp_texts_ordered [of 999999999999999999 1000000000000000000] by (simp add: in_i64_def)

end
