(* ===== verification/JournalHistory.thy ===== *)
theory JournalHistory
  imports SqliteJournal Calendar
begin

text \<open>
  What becomes of a journal's entries: the two queries of \<open>persistence/sqlite_journal.cpp\<close> with the
  \<open>LogEntry\<close> of \<open>i_journal.h\<close>, and the end of the writer thread when the journal is destroyed.
\<close>

section \<open>The queries\<close>

record log_entry =
  le_id :: int
  le_timestamp :: int
  le_event_type :: Event
  le_data :: string
  le_correlation_id :: string

text \<open>
  What SQLite decides in a query: the row ids, which increase in the order of the inserts, whether the
  statement can be prepared, and whether stepping it fails after some rows, which ends the loop as
  the end of the rows does.
\<close>

record query_run =
  qr_rowid :: "nat \<Rightarrow> int"
  qr_prepare_fails :: bool
  qr_fails_after :: "nat option"

text \<open>The body of the loops that read rows; \<open>None\<close> is the overflow of \<open>string_to_timestamp\<close>.\<close>

definition log_entry_of :: "int \<Rightarrow> journal_row \<Rightarrow> log_entry option" where
  "log_entry_of i r =
     (case string_to_timestamp (jr_timestamp r) of
        None \<Rightarrow> None
      | Some ts \<Rightarrow>
          Some \<lparr>le_id = i, le_timestamp = ts, le_event_type = event_from_string (Some (jr_event_type r)),
                le_data = jr_data r,
                le_correlation_id = (case jr_correlation_id r of None \<Rightarrow> '''' | Some c \<Rightarrow> c)\<rparr>)"

fun read_rows :: "(int \<times> journal_row) list \<Rightarrow> log_entry list option" where
  "read_rows [] = Some []"
| "read_rows ((i, r) # rows) =
     (case log_entry_of i r of
        None \<Rightarrow> None
      | Some entry \<Rightarrow> map_option (\<lambda>entries. entry # entries) (read_rows rows))"

definition select_rows :: "query_run \<Rightarrow> (journal_row \<Rightarrow> bool) \<Rightarrow> journal_row list \<Rightarrow> (int \<times> journal_row) list" where
  "select_rows q cond rows =
     (let selected = filter (\<lambda>(i, r). cond r) (map (\<lambda>(n, r). (qr_rowid q n, r)) (enumerate 0 rows))
      in case qr_fails_after q of None \<Rightarrow> selected | Some n \<Rightarrow> take n selected)"

definition get_history ::
  "query_run \<Rightarrow> int \<Rightarrow> int \<Rightarrow> Event option \<Rightarrow> sqlite_journal \<Rightarrow> log_entry list result option" where
  "get_history q from_ts to_ts event_filter j =
     (if qr_prepare_fails q then Some (Inr [])
      else case timestamp_to_string from_ts of
             Inl err \<Rightarrow>
               Some (Inl (mk_error (err @ '' (Occured when converting timestamp to string : from)'') Error))
           | Inr from_str \<Rightarrow>
               (case timestamp_to_string to_ts of
                  Inl err \<Rightarrow>
                    Some (Inl (mk_error (err @ '' (Occured when converting timestamp to string : to)'') Error))
                | Inr to_str \<Rightarrow>
                    map_option Inr
                      (read_rows
                        (select_rows q
                          (\<lambda>r. from_str \<le> jr_timestamp r \<and> jr_timestamp r \<le> to_str
                             \<and> (case event_filter of
                                  None \<Rightarrow> True | Some ev \<Rightarrow> jr_event_type r = event_to_string ev))
                          (journal_rows j)))))"

definition get_order_history :: "query_run \<Rightarrow> string \<Rightarrow> sqlite_journal \<Rightarrow> log_entry list option" where
  "get_order_history q oid j =
     (if qr_prepare_fails q then Some []
      else read_rows (select_rows q (\<lambda>r. jr_correlation_id r = Some oid) (journal_rows j)))"

section \<open>The end of the writer\<close>

text \<open>
  The writer thread once a stop was requested and no caller is left: \<open>None\<close> while it still runs after
  the given number of its locked regions.
\<close>

definition writer_step :: "sqlite_journal \<Rightarrow> sqlite_journal" where
  "writer_step j =
     (case writer j of
        Waiting \<Rightarrow> writer_take j
      | Has_batch b \<Rightarrow> writer_commit b j
      | Committed_batch b \<Rightarrow> writer_count b j)"

fun writer_loop :: "nat \<Rightarrow> sqlite_journal \<Rightarrow> sqlite_journal option" where
  "writer_loop 0 j = None"
| "writer_loop (Suc n) j =
     (if writer j = Waiting \<and> write_queue j = [] then Some j else writer_loop n (writer_step j))"

section \<open>Rows that were logged\<close>

lemma insert_or_ignore_set: "set (insert_or_ignore rs r) \<subseteq> insert r (set rs)"
  by (auto simp: insert_or_ignore_def)

lemma insert_entries_set:
  "set (journal_rows (insert_entries es j)) \<subseteq> set (journal_rows j) \<union> row_of_entry ` set es"
proof (induction es arbitrary: j)
  case (Cons e es)
  let ?rs = "if insert_fails j (inserts j) then journal_rows j
      else insert_or_ignore (journal_rows j) (row_of_entry e)"
  have "set ?rs \<subseteq> insert (row_of_entry e) (set (journal_rows j))"
    using insert_or_ignore_set [of "journal_rows j" "row_of_entry e"] by auto
  then show ?case
    using Cons.IH [of "j\<lparr>journal_rows := ?rs, inserts := Suc (inserts j)\<rparr>"] by auto
qed simp

lemma commit_batch_set:
  "set (journal_rows (commit_batch b j)) \<subseteq> set (journal_rows j) \<union> row_of_entry ` set b"
  using insert_entries_set [of b "j\<lparr>batches := Suc (batches j)\<rparr>"]
  by (simp add: commit_batch_def Let_def)

lemma journal_clock_frame [frame]:
  "journal_clock (insert_entries es j) = journal_clock j"
  "journal_clock (commit_batch b j) = journal_clock j"
proof -
  show *: "journal_clock (insert_entries es j) = journal_clock j" for es j
    by (induction es arbitrary: j) simp_all
  show "journal_clock (commit_batch b j) = journal_clock j"
    by (simp add: commit_batch_def * Let_def)
qed

text \<open>Every row is an accepted entry, and every accepted entry is stamped by the journal's clock.\<close>

definition stamped :: "(nat \<Rightarrow> int) \<Rightarrow> pending_entry \<Rightarrow> bool" where
  "stamped tms e \<longleftrightarrow>
     (\<exists>n. pe_timestamp e = (case timestamp_to_string (tms n) of Inl err \<Rightarrow> ''UNKNOWN'' | Inr s \<Rightarrow> s))"

lemma journal_rows_logged:
  "journal_reach acc j \<Longrightarrow>
   set (journal_rows j) \<subseteq> row_of_entry ` set acc
   \<and> (\<forall>e \<in> set acc. stamped (readings (journal_clock j)) e)"
proof (induction rule: journal_reach.induct)
  case (jr_open clk pf rf)
  show ?case by (simp add: open_journal_def)
next
  case (jr_reopen acc j)
  then show ?case by (simp add: reopen_journal_def)
next
  case (jr_log acc j ev data corr)
  have "stamped (readings (journal_clock j)) (pending_of ev data corr j)"
    by (auto simp: stamped_def pending_of_def clock_now_def)
  with jr_log.IH show ?case by (auto simp: sj_log_def Let_def)
next
  case (jr_take acc j)
  then show ?case by (simp add: writer_take_def)
next
  case (jr_commit acc j b)
  then have "set b \<subseteq> set acc"
    using journal_inv_reach [OF jr_commit.hyps(1)] by (auto simp: journal_inv_def)
  with jr_commit commit_batch_set [of b j] show ?case
    by (auto simp: writer_commit_def frame)
next
  case (jr_count acc j b)
  then show ?case by (simp add: writer_count_def)
qed

section \<open>Reading rows\<close>

lemma read_rows_all:
  "(\<forall>(i, r) \<in> set rows. log_entry_of i r = Some (f i r)) \<Longrightarrow>
   read_rows rows = Some (map (\<lambda>(i, r). f i r) rows)"
  by (induction rows) auto

text \<open>The time a row was written at.\<close>

definition written_at :: "int \<Rightarrow> journal_row \<Rightarrow> bool" where
  "written_at ts r \<longleftrightarrow> 0 \<le> ts \<and> in_i64 ts \<and> timestamp_to_string ts = Inr (jr_timestamp r)"

definition entry_at :: "int \<Rightarrow> int \<Rightarrow> journal_row \<Rightarrow> log_entry" where
  "entry_at i ts r =
     \<lparr>le_id = i, le_timestamp = ts div 1000000000 * 1000000000,
      le_event_type = event_from_string (Some (jr_event_type r)), le_data = jr_data r,
      le_correlation_id = (case jr_correlation_id r of None \<Rightarrow> '''' | Some c \<Rightarrow> c)\<rparr>"

lemma written_entry:
  "written_at ts r \<Longrightarrow> log_entry_of i r = Some (entry_at i ts r)"
  using reads_back [of ts "jr_timestamp r"]
  by (simp add: written_at_def log_entry_of_def entry_at_def)

text \<open>With no failure the rows of a condition are read in order.\<close>

lemma select_and_read:
  assumes "list_all2 written_at tms rows" and "qr_fails_after q = None"
  shows "read_rows (select_rows q cond rows)
    = Some (map (\<lambda>n. entry_at (qr_rowid q n) (tms ! n) (rows ! n)) (filter (\<lambda>n. cond (rows ! n)) [0..<length rows]))"
proof -
  have "enumerate 0 rows = map (\<lambda>n. (n, rows ! n)) [0..<length rows]"
    by (rule nth_equalityI) (simp_all add: nth_enumerate_eq)
  then have sel: "select_rows q cond rows
      = map (\<lambda>n. (qr_rowid q n, rows ! n)) (filter (\<lambda>n. cond (rows ! n)) [0..<length rows])"
    using assms(2) by (simp add: select_rows_def filter_map comp_def)
  have "log_entry_of (qr_rowid q n) (rows ! n) = Some (entry_at (qr_rowid q n) (tms ! n) (rows ! n))"
    if "n < length rows" for n
    using assms(1) that by (intro written_entry) (simp add: list_all2_conv_all_nth)
  then have "read_rows (map (\<lambda>n. (qr_rowid q n, rows ! n)) ns)
      = Some (map (\<lambda>n. entry_at (qr_rowid q n) (tms ! n) (rows ! n)) ns)"
    if "set ns \<subseteq> {..<length rows}" for ns
    using that by (induction ns) simp_all
  from this [of "filter (\<lambda>n. cond (rows ! n)) [0..<length rows]"] show ?thesis
    unfolding sel by auto
qed

lemma stamped_written:
  assumes "stamped tms e" and "\<forall>n. 0 \<le> tms n \<and> in_i64 (tms n)"
  shows "\<exists>n. written_at (tms n) (row_of_entry e)"
proof -
  obtain n where n: "pe_timestamp e
      = (case timestamp_to_string (tms n) of Inl err \<Rightarrow> ''UNKNOWN'' | Inr s \<Rightarrow> s)"
    using assms(1) unfolding stamped_def by blast
  moreover obtain s where "timestamp_to_string (tms n) = Inr s"
    using timestamp_to_string_ok assms(2) by blast
  ultimately show ?thesis using assms(2) by (auto simp: written_at_def row_of_entry_def)
qed

text \<open>With a clock after 1970 every row of a reachable journal has the time it was written at.\<close>

lemma rows_written:
  assumes "journal_reach acc j" and "\<forall>n. 0 \<le> readings (journal_clock j) n \<and> in_i64 (readings (journal_clock j) n)"
  obtains tms where "list_all2 written_at tms (journal_rows j)"
    "set tms \<subseteq> range (readings (journal_clock j))"
proof -
  let ?tms = "\<lambda>r. readings (journal_clock j) (SOME n. written_at (readings (journal_clock j) n) r)"
  have "written_at (?tms r) r" if "r \<in> set (journal_rows j)" for r
    using that journal_rows_logged [OF assms(1)] stamped_written [OF _ assms(2)]
    by (intro someI_ex [of "\<lambda>n. written_at (readings (journal_clock j) n) r"]) blast
  then have "list_all2 written_at (map ?tms (journal_rows j)) (journal_rows j)"
    by (auto simp: list_all2_conv_all_nth)
  then show ?thesis using that by fastforce
qed

section \<open>Draining\<close>

definition writer_work :: "sqlite_journal \<Rightarrow> nat" where
  "writer_work j = 3 * length (write_queue j)
     + (case writer j of Waiting \<Rightarrow> 0 | Has_batch _ \<Rightarrow> 2 | Committed_batch _ \<Rightarrow> 1)"

lemma writer_step_works:
  "\<not> (writer j = Waiting \<and> write_queue j = []) \<Longrightarrow> writer_work (writer_step j) < writer_work j"
  by (cases "write_queue j")
    (auto simp: writer_work_def writer_step_def writer_take_def writer_commit_def writer_count_def
      BATCH_SIZE_def frame split: writer_place.splits)

lemma writer_step_reach: "journal_reach acc j \<Longrightarrow> journal_reach acc (writer_step j)"
  by (auto simp: writer_step_def split: writer_place.split intro: jr_take jr_commit jr_count)

lemma writer_step_frame [frame]:
  "journal_clock (writer_step j) = journal_clock j"
  "prepare_fails (writer_step j) = prepare_fails j" "insert_fails (writer_step j) = insert_fails j"
  by (simp_all add: writer_step_def writer_take_def writer_commit_def writer_count_def frame
      split: writer_place.split)

lemma writer_loop_returns:
  "writer_work j < n \<Longrightarrow> journal_reach acc j \<Longrightarrow>
   \<exists>j'. writer_loop n j = Some j' \<and> journal_reach acc j' \<and> writer j' = Waiting \<and> write_queue j' = []
      \<and> prepare_fails j' = prepare_fails j \<and> insert_fails j' = insert_fails j
      \<and> journal_clock j' = journal_clock j"
proof (induction n arbitrary: j)
  case (Suc n)
  show ?case
  proof (cases "writer j = Waiting \<and> write_queue j = []")
    case False
    from writer_step_works [OF False] Suc.prems(1) have "writer_work (writer_step j) < n" by simp
    from Suc.IH [OF this writer_step_reach [OF Suc.prems(2)]] False show ?thesis by (auto simp: frame)
  qed (use Suc.prems in simp)
qed simp

section \<open>Properties\<close>

definition sample_logged :: sqlite_journal where
  "sample_logged = sj_log ORDER_CREATED ''AAPL'' ''ORD_1''
     (open_journal \<lparr>readings = (\<lambda>_. 1714566896123456789), reads = 0\<rparr> (\<lambda>_. False) (\<lambda>_. False))"

definition sample_entry :: pending_entry where
  "sample_entry = \<lparr>pe_timestamp = ''2024-05-01 12:34:56.123'', pe_event = ORDER_CREATED,
     pe_data = ''AAPL'', pe_correlation_id = ''ORD_1''\<rparr>"

lemma sample_logged_simps:
  "journal_reach [sample_entry] sample_logged" "no_journal_faults sample_logged"
  "writer sample_logged = Waiting" "write_queue sample_logged = [sample_entry]" "readings (journal_clock sample_logged) n = 1714566896123456789"
proof -
  let ?clk = "\<lparr>readings = (\<lambda>_. 1714566896123456789), reads = 0\<rparr>"
  have "pending_of ORDER_CREATED ''AAPL'' ''ORD_1'' (open_journal ?clk (\<lambda>_. False) (\<lambda>_. False)) = sample_entry"
    by (simp add: pending_of_def open_journal_def clock_now_def timestamp_example sample_entry_def)
  note entry = this
  from entry show "write_queue sample_logged = [sample_entry]"
    by (simp add: sample_logged_def sj_log_def open_journal_def MAX_QUEUE_DEPTH_def Let_def)
  from entry jr_log [OF jr_open, of ?clk "\<lambda>_. False" "\<lambda>_. False" ORDER_CREATED "''AAPL''" "''ORD_1''"]
  show "journal_reach [sample_entry] sample_logged"
    by (simp add: sample_logged_def MAX_QUEUE_DEPTH_def open_journal_def)
qed (simp_all add: sample_logged_def op_defs MAX_QUEUE_DEPTH_def no_journal_faults_def Let_def
    clock_now_def)

lemma sample_drained:
  obtains j where "journal_reach [sample_entry] j" "flush_ready j" "no_journal_faults j"
    "\<forall>n. readings (journal_clock j) n = 1714566896123456789"
proof -
  obtain j where j: "journal_reach [sample_entry] j" "writer j = Waiting" "write_queue j = []"
    "prepare_fails j = prepare_fails sample_logged" "insert_fails j = insert_fails sample_logged"
    "journal_clock j = journal_clock sample_logged"
    using writer_loop_returns [of sample_logged 4, OF _ sample_logged_simps(1)] sample_logged_simps(3,4)
    by (auto simp: writer_work_def)
  moreover have "flush_ready j"
    using journal_inv_reach [OF j(1)] j(2,3) by (auto simp: journal_inv_def flush_ready_def)
  ultimately show ?thesis
    using that sample_logged_simps(2,5) by (simp add: no_journal_faults_def)
qed

text \<open>
  Destroying the journal loses nothing and ends: once no caller is left and a stop was requested, the
  writer leaves its loop after at most three locked regions per queued entry and three more, and
  with no failing statement every entry \<open>log\<close> accepted has then been inserted, in order.
\<close>

theorem journal_shutdown_complete:
  assumes "journal_reach acc j" and "no_journal_faults j"
  shows "\<exists>j'. writer_loop (3 * length (write_queue j) + 3) j = Some j' \<and> write_queue j' = []
       \<and> committed j' = pushed j'
       \<and> journal_rows j' = foldl insert_or_ignore [] (map row_of_entry acc)"
proof -
  have "writer_work j < 3 * length (write_queue j) + 3"
    by (simp add: writer_work_def split: writer_place.split)
  from writer_loop_returns [OF this assms(1)] obtain j' where j':
    "writer_loop (3 * length (write_queue j) + 3) j = Some j'" "journal_reach acc j'"
    "writer j' = Waiting" "write_queue j' = []" "no_journal_faults j'"
    using assms(2) by (auto simp: no_journal_faults_def)
  with journal_inv_reach [OF j'(2)] show ?thesis
    by (auto simp: journal_inv_def recorded_def)
qed

theorem journal_shutdown_complete_witness:
  "\<exists>j'. writer_loop 6 sample_logged = Some j' \<and> journal_rows j' = [row_of_entry sample_entry]"
  using journal_shutdown_complete [OF sample_logged_simps(1,2)] sample_logged_simps(4)
  by (auto simp: insert_or_ignore_def)

text \<open>
  C40. The rows of the table are well typed, whatever was logged, in whatever order the threads ran and
  whichever statements failed: each row has a timestamp that can be read back, the name of an event
  and no empty correlation id, so no query of the journal can overflow or fail on a row.
\<close>

theorem journal_rows_typed:
  assumes "journal_reach acc j" and "\<forall>n. in_i64 (readings (journal_clock j) n)"
  shows "list_all (\<lambda>r. \<exists>e. log_entry_of i r = Some e \<and> event_to_string (le_event_type e) = jr_event_type r
            \<and> jr_correlation_id r \<noteq> Some '''') (journal_rows j)
       \<and> get_history q from_ts to_ts ev j \<noteq> None \<and> get_order_history q oid j \<noteq> None"
proof -
  have ok: "(\<exists>e. log_entry_of i r = Some e \<and> event_to_string (le_event_type e) = jr_event_type r)
      \<and> jr_correlation_id r \<noteq> Some ''''" if r: "r \<in> set (journal_rows j)" for i r
  proof -
    obtain e n where e: "r = row_of_entry e" and n: "pe_timestamp e
        = (case timestamp_to_string (readings (journal_clock j) n) of Inl err \<Rightarrow> ''UNKNOWN'' | Inr s \<Rightarrow> s)"
      using r journal_rows_logged [OF assms(1)] unfolding stamped_def by blast
    obtain s where s: "timestamp_to_string (readings (journal_clock j) n) = Inr s"
      using timestamp_to_string_ok assms(2) by blast
    with n have "pe_timestamp e = s" by simp
    moreover obtain ts where "string_to_timestamp s = Some ts"
      using reads_back [OF _ s] assms(2) by blast
    ultimately show ?thesis by (simp add: e log_entry_of_def row_of_entry_def)
  qed
  have "read_rows rows \<noteq> None" if "snd ` set rows \<subseteq> set (journal_rows j)" for rows
    using that
  proof (induction rows)
    case (Cons ir rows)
    then show ?case using ok [of "snd ir" "fst ir"] by (cases ir) auto
  qed simp
  moreover have "snd ` set (select_rows q cond (journal_rows j)) \<subseteq> set (journal_rows j)" for cond
    by (auto simp: select_rows_def Let_def in_set_enumerate_eq dest!: in_set_takeD split: option.splits)
  ultimately show ?thesis
    using ok by (auto simp: list_all_iff get_history_def get_order_history_def split: sum.splits)
qed

theorem journal_rows_typed_witness:
  "get_order_history \<lparr>qr_rowid = int, qr_prepare_fails = False, qr_fails_after = Some 1\<rparr> ''ORD_1'' sample_logged
   \<noteq> None"
  using journal_rows_typed [OF sample_logged_simps(1)] sample_logged_simps(5) by (simp add: in_i64_def)

text \<open>
  C34. The range query is a query by time: on any reachable journal whose clock is after 1970, with SQLite
  not failing, \<open>get_history\<close> returns in order exactly the rows written between \<open>from\<close> and \<open>to\<close>, both
  to the millisecond and included, that have the event asked for, each with its time cut off to
  seconds; the comparison of texts it makes is a comparison of times.
\<close>

theorem history_is_time_range:
  assumes "journal_reach acc j"
    and "\<forall>n. 0 \<le> readings (journal_clock j) n \<and> in_i64 (readings (journal_clock j) n)"
    and "in_i64 from_ts" "0 \<le> from_ts" "in_i64 to_ts" "0 \<le> to_ts"
    and "\<not> qr_prepare_fails q" and "qr_fails_after q = None"
  shows "\<exists>tms. list_all2 written_at tms (journal_rows j) \<and> set tms \<subseteq> range (readings (journal_clock j))
       \<and> get_history q from_ts to_ts ev j
         = Some (Inr (map (\<lambda>n. entry_at (qr_rowid q n) (tms ! n) (journal_rows j ! n))
             (filter (\<lambda>n. from_ts div 1000000 \<le> tms ! n div 1000000 \<and> tms ! n div 1000000 \<le> to_ts div 1000000
                \<and> ev \<in> {None, Some (event_from_string (Some (jr_event_type (journal_rows j ! n))))})
              [0..<length (journal_rows j)])))"
proof -
  obtain tms where tms: "list_all2 written_at tms (journal_rows j)" "set tms \<subseteq> range (readings (journal_clock j))"
    by (rule rows_written [OF assms(1,2)])
  obtain f t where ft: "timestamp_to_string from_ts = Inr f" "timestamp_to_string to_ts = Inr t"
    using timestamp_to_string_ok assms(3,5) by blast
  let ?cond = "\<lambda>r. f \<le> jr_timestamp r \<and> jr_timestamp r \<le> t
      \<and> (case ev of None \<Rightarrow> True | Some v \<Rightarrow> jr_event_type r = event_to_string v)"
  have "?cond (journal_rows j ! n) \<longleftrightarrow>
      from_ts div 1000000 \<le> tms ! n div 1000000 \<and> tms ! n div 1000000 \<le> to_ts div 1000000
      \<and> ev \<in> {None, Some (event_from_string (Some (jr_event_type (journal_rows j ! n))))}"
    if n: "n < length (journal_rows j)" for n
  proof -
    have w: "0 \<le> tms ! n" "in_i64 (tms ! n)" "timestamp_to_string (tms ! n) = Inr (jr_timestamp (journal_rows j ! n))"
      using tms(1) n by (auto simp: list_all2_conv_all_nth written_at_def)
    obtain e where "journal_rows j ! n = row_of_entry e"
      using journal_rows_logged [OF assms(1)] nth_mem [OF n] by blast
    then show ?thesis
      using timestamp_text_order [OF assms(3,4) w(2,1) ft(1) w(3)]
        timestamp_text_order [OF w(2,1) assms(5,6) w(3) ft(2)]
      by (auto simp: row_of_entry_def split: option.split)
  qed
  then have "filter (\<lambda>n. ?cond (journal_rows j ! n)) [0..<length (journal_rows j)]
      = filter (\<lambda>n. from_ts div 1000000 \<le> tms ! n div 1000000 \<and> tms ! n div 1000000 \<le> to_ts div 1000000
          \<and> ev \<in> {None, Some (event_from_string (Some (jr_event_type (journal_rows j ! n))))})
        [0..<length (journal_rows j)]"
    by (intro filter_cong) simp_all
  with select_and_read [OF tms(1) assms(8), of ?cond] assms(7) ft tms show ?thesis
    by (auto simp: get_history_def)
qed

theorem history_is_time_range_witness:
  "\<exists>j es. journal_reach [sample_entry] j
     \<and> get_history \<lparr>qr_rowid = int, qr_prepare_fails = False, qr_fails_after = None\<rparr>
         1714566896123000000 1714566896123999999 None j = Some (Inr es) \<and> length es = 1"
proof -
  obtain j where j: "journal_reach [sample_entry] j" "flush_ready j" "no_journal_faults j"
    "\<forall>n. readings (journal_clock j) n = 1714566896123456789"
    by (rule sample_drained)
  have rows: "journal_rows j = [row_of_entry sample_entry]"
    using flushed_rows(3) [OF j(1,2) _ j(3)] by (simp add: recorded_def insert_or_ignore_def)
  from history_is_time_range [OF j(1), of 1714566896123000000 1714566896123999999
      "\<lparr>qr_rowid = int, qr_prepare_fails = False, qr_fails_after = None\<rparr>" None] j(4)
  show ?thesis
    using j(1) by (fastforce simp: rows in_i64_def list_all2_Cons2)
qed

text \<open>
  After a flush the history of an order is the list of what was logged for it: with no failing
  statement and no two entries of the same order, event and millisecond, \<open>get_order_history\<close> returns
  exactly the accepted entries with that correlation id, in the order they were logged.
\<close>

theorem order_history_complete:
  assumes "journal_reach acc j" and "flush_ready j" and "length acc < 2 ^ 64" and "no_journal_faults j"
    and "\<forall>n. 0 \<le> readings (journal_clock j) n \<and> in_i64 (readings (journal_clock j) n)"
    and "\<forall>e \<in> set acc. pe_correlation_id e = '''' \<or>
           length (filter (\<lambda>e'. journal_key (row_of_entry e') = journal_key (row_of_entry e)) acc) = 1"
    and "\<not> qr_prepare_fails q" and "qr_fails_after q = None" and "oid \<noteq> ''''"
  shows "map_option (map (\<lambda>le. (le_event_type le, le_data le, le_correlation_id le))) (get_order_history q oid j)
       = Some (map (\<lambda>e. (pe_event e, pe_data e, oid)) (filter (\<lambda>e. pe_correlation_id e = oid) acc))"
proof -
  obtain tms where tms: "list_all2 written_at tms (journal_rows j)"
    by (rule rows_written [OF assms(1,5)])
  have rows: "journal_rows j = map row_of_entry acc"
    using flushed_rows(3) [OF assms(1-4)] recorded_distinct [OF assms(6)] by simp
  let ?ns = "filter (\<lambda>n. pe_correlation_id (acc ! n) = oid) [0..<length acc]"
  have corr: "jr_correlation_id (row_of_entry e) = Some oid \<longleftrightarrow> pe_correlation_id e = oid" for e
    using assms(9) by (auto simp: row_of_entry_def)
  then have "filter (\<lambda>n. jr_correlation_id (journal_rows j ! n) = Some oid) [0..<length (journal_rows j)] = ?ns"
    by (auto simp: rows intro: filter_cong)
  with select_and_read [OF tms assms(8), of "\<lambda>r. jr_correlation_id r = Some oid"] assms(7)
  have "get_order_history q oid j
      = Some (map (\<lambda>n. entry_at (qr_rowid q n) (tms ! n) (journal_rows j ! n)) ?ns)"
    by (simp add: get_order_history_def)
  moreover have "map (\<lambda>le. (le_event_type le, le_data le, le_correlation_id le))
      (map (\<lambda>n. entry_at (qr_rowid q n) (tms ! n) (journal_rows j ! n)) ?ns)
    = map (\<lambda>n. (pe_event (acc ! n), pe_data (acc ! n), oid)) ?ns"
    using assms(9) by (auto simp: rows entry_at_def row_of_entry_def)
  moreover have "filter (\<lambda>e. pe_correlation_id e = oid) acc = map ((!) acc) ?ns"
    by (subst (1) map_nth [symmetric]) (simp add: filter_map comp_def)
  ultimately show ?thesis by (simp add: comp_def)
qed

theorem order_history_complete_witness:
  "\<exists>j. map_option (map le_event_type)
      (get_order_history \<lparr>qr_rowid = int, qr_prepare_fails = False, qr_fails_after = None\<rparr> ''ORD_1'' j)
    = Some [ORDER_CREATED]"
proof -
  obtain j where j: "journal_reach [sample_entry] j" "flush_ready j" "no_journal_faults j"
    "\<forall>n. readings (journal_clock j) n = 1714566896123456789"
    by (rule sample_drained)
  from order_history_complete [OF j(1,2) _ j(3),
      of "\<lparr>qr_rowid = int, qr_prepare_fails = False, qr_fails_after = None\<rparr>" "''ORD_1''"] j(4)
  show ?thesis by (fastforce simp: in_i64_def sample_entry_def)
qed

end
