(* ===== verification/ProgramLife.thy ===== *)
theory ProgramLife
  imports GrpcServer
begin

text \<open>
  The life of the process: \<open>main.cpp\<close>, the start and the stop of the gRPC server, and what happens after
  \<open>TradingEngine::Run\<close> returned, the destruction of the engine's members in the reverse order of their
  declaration (\<open>core/trading_engine.h\<close>): the managers, the server, the feeds, the adapters.
\<close>

section \<open>The server\<close>

text \<open>
  The pointer \<open>server_\<close> is null until \<open>start\<close>, and after it when \<open>BuildAndStart\<close> could not listen on
  the address, which is the library's answer. \<open>start\<close> does not look at it.
\<close>

datatype listening = No_server | Listening | Shut_down

record grpc_server =
  gs_address :: string
  gs_service :: bool
  gs_server :: listening

definition new_server :: "string \<Rightarrow> grpc_server" where
  "new_server address = \<lparr>gs_address = address, gs_service = False, gs_server = No_server\<rparr>"

definition server_start :: "(string \<Rightarrow> bool) \<Rightarrow> grpc_server \<Rightarrow> grpc_server" where
  "server_start can_listen s =
     s\<lparr>gs_service := True, gs_server := (if can_listen (gs_address s) then Listening else No_server)\<rparr>"


section \<open>The program\<close>

definition PORT_HOST :: string where "PORT_HOST = ''0.0.0.0:50051''"

text \<open>\<open>main\<close>: the address of the server, from the program's name and its arguments.\<close>

definition main_address :: "string list \<Rightarrow> string" where
  "main_address argv = (if length argv \<noteq> 2 then PORT_HOST else argv ! 1)"

text \<open>
  \<open>Run\<close> up to the wait, and, once \<open>running_\<close> is false, from the wait on. The state is that at the
  moment when the server's shutdown has returned; that it does is shown in \<open>StreamShutdown\<close>.
\<close>

definition begin_run ::
  "(string \<Rightarrow> bool) \<Rightarrow> string list \<Rightarrow> engine \<Rightarrow> grpc_server \<times> engine" where
  "begin_run can_listen argv e =
     (server_start can_listen (new_server (main_address argv)), run_engine e)"



section \<open>The shutdown\<close>








text \<open>
  A server that cannot listen is not noticed: when the address is taken, \<open>Run\<close> goes on to its wait with
  no server at all, and nothing but a signal can end the process.
\<close>

theorem taken_address_unnoticed:
  assumes "\<not> can_listen (main_address argv)"
  shows "gs_server (fst (begin_run can_listen argv (new_engine am))) = No_server
       \<and> engine_running (snd (begin_run can_listen argv (new_engine am)))"
  using assms by (simp add: begin_run_def server_start_def new_server_def run_engine_def new_engine_def)

theorem taken_address_unnoticed_witness:
  "gs_server (fst (begin_run (\<lambda>_. False) [''engine'', ''0.0.0.0:1''] (new_engine sample_adapters))) = No_server"
  using taken_address_unnoticed [of "\<lambda>_. False" "[''engine'', ''0.0.0.0:1'']" sample_adapters] by simp

end
