(* ===== verification/OrderLifecycle.thy ===== *)
theory OrderLifecycle
  imports OrderManagerLife
begin

text \<open>
  The life of a stored order as an abstract machine, and the order manager as a refinement of it. A
  step of the machine is one change an event may make to one stored order; which steps there are
  does not depend on the gateway, on the journal or on which statements of the store fail.
\<close>

section \<open>The abstract machine\<close>

text \<open>How an order may first be stored: the ends of a submission and of a replacement.\<close>

definition placed :: "order_view \<Rightarrow> bool" where
  "placed v \<longleftrightarrow> ov_filled v = 0
     \<and> (ov_status v = SUBMITTED
        \<or> ov_status v \<in> {PENDING_SUBMISSION, REJECTED} \<and> ov_broker_id v = None)"

inductive order_step :: "order_view \<Rightarrow> order_view \<Rightarrow> bool" where
  ends: "live_view v \<Longrightarrow> st \<in> {OrderStatus.CANCELLED, REJECTED, REPLACED} \<Longrightarrow>
         order_step v (v\<lparr>ov_status := st\<rparr>)"
| killed: "at_broker v \<Longrightarrow> order_step v (v\<lparr>ov_status := OrderStatus.CANCELLED\<rparr>)"
| fills: "live_view v \<Longrightarrow>
          order_step v (fill_view q p
            (if ord_quantity (ov_order v) \<le> ov_filled v + q then OrderStatus.FILLED
             else PARTIALLY_FILLED) v)"

inductive_cases order_stepE: "order_step v v'"

text \<open>One event, seen from one local id: nothing, a first storing, or at most one step.\<close>

definition evolves :: "order_view option \<Rightarrow> order_view option \<Rightarrow> bool" where
  "evolves o1 o2 \<longleftrightarrow>
     (case o1 of
        None \<Rightarrow> (case o2 of None \<Rightarrow> True | Some v' \<Rightarrow> placed v')
      | Some v \<Rightarrow> (\<exists>v'. o2 = Some v' \<and> order_step\<^sup>=\<^sup>= v v'))"

lemma evolves_refl [simp, intro]: "evolves x x"
  by (cases x) (simp_all add: evolves_def)

lemma evolves_None: "evolves None o2 \<longleftrightarrow> (\<forall>v'. o2 = Some v' \<longrightarrow> placed v')"
  by (cases o2) (simp_all add: evolves_def)

lemma evolves_Some: "evolves (Some v) o2 \<longleftrightarrow> (\<exists>v'. o2 = Some v' \<and> (v' = v \<or> order_step v v'))"
  by (auto simp: evolves_def)

text \<open>
  The kill switch works through a list read before its first cancel. Whatever part of it is done, an
  order is as it was, or was open at the broker and is now cancelled.
\<close>

definition switched :: "order_view option \<Rightarrow> order_view option \<Rightarrow> bool" where
  "switched x y \<longleftrightarrow>
     y = x \<or> (\<exists>v. x = Some v \<and> at_broker v \<and> y = Some (v\<lparr>ov_status := OrderStatus.CANCELLED\<rparr>))"

text \<open>
  An order that is stored but not mapped is out of reach: only the kill switch still touches it.
\<close>

definition out_of_reach ::
  "('s \<Rightarrow> string \<Rightarrow> order_view option) \<Rightarrow> string \<Rightarrow> order_view \<Rightarrow> ('g, 's, 'j) order_manager \<Rightarrow> bool" where
  "out_of_reach view l v om \<longleftrightarrow>
     view (order_store om) l = Some v \<and> get_broker_id (id_mapper om) l = None"

text \<open>Everything but the kill switch leaves an order out of reach alone.\<close>

fun is_cancel_all :: "om_event \<Rightarrow> bool" where
  "is_cancel_all (Cancel_all_command reason who p) = True"
| "is_cancel_all _ = False"

section \<open>Every handler follows it\<close>

context order_store begin

text \<open>A new status for one id, when the statement may fail.\<close>

lemma evolves_status:
  assumes "\<And>v. look s l = Some v \<Longrightarrow> order_step v (v\<lparr>ov_status := st\<rparr>)"
  shows "evolves (look s l') (look (snd (st_update_order_status ops l st s)) l')"
  using assms by (cases "look s l'") (auto simp: looks evolves_Some)

lemma mapped_live:
  assumes "ok om" and "get_broker_id (id_mapper om) l = Some b"
    and "look (order_store om) l = Some v"
  shows "live_view v"
  using assms by (auto simp: om_inv_def live_ok_def)

lemma evolves_ended:
  assumes "ok om" and "get_broker_id (id_mapper om) l = Some b"
    and "st \<in> {OrderStatus.CANCELLED, REJECTED, REPLACED}"
  shows "evolves (look (order_store om) l')
           (look (snd (st_update_order_status ops l st (order_store om))) l')"
  by (rule evolves_status) (intro ends mapped_live [OF assms(1,2)] assms(3))

lemma submit_stored_placed:
  assumes "store_of deps = ops" and "look (order_store om) l = Some v"
    and "ov_status v = PENDING_SUBMISSION" and "ov_broker_id v = None" and "ov_filled v = 0"
  shows "\<exists>v'. look (order_store (submit_stored deps l ord p om)) l = Some v' \<and> placed v'"
  using assms(2-5)
  by (auto simp: submit_stored_def submit_rejected_def submit_accepted_def Let_def split_beta
      assms(1) looks placed_def split: sum.split)

lemma submit_stored_others:
  assumes "store_of deps = ops" and "l' \<noteq> l"
  shows "look (order_store (submit_stored deps l ord p om)) l' = look (order_store om) l'"
  using assms(2)
  by (simp add: submit_stored_def submit_rejected_def submit_accepted_def Let_def split_beta
      assms(1) looks split: sum.split)

lemma evolves_submit:
  assumes "store_of deps = ops" and "ok om"
  shows "evolves (look (order_store om) l')
           (look (order_store (handle_submit_command deps sig p om)) l')"
proof -
  have stored: "evolves (look (order_store om) l')
      (look (order_store (submit_stored deps l ord p (snd (on_store (st_store_order ops so) om1)))) l')"
    if om1: "ok om1" "order_store om1 = order_store om"
      and kept: "fst (st_store_order ops so (order_store om)) = Inr u"
      and so: "so_local_id so = l" "so_status so = PENDING_SUBMISSION" "so_broker_id so = None"
        "so_filled_quantity so = 0"
    for om1 l so u ord
  proof (cases "l' = l")
    case False
    have "store_inv (order_store om)" using assms(2) by (simp add: om_inv_def)
    with False show ?thesis
      by (simp add: submit_stored_others [OF assms(1)] om1(2) looks so(1))
  next
    case True
    have "look (order_store om) l = None"
      using store_ok [of "order_store om" so u] assms(2) kept so(1)
      by (metis om_inv_def prod.collapse)
    moreover have "\<exists>v'. look (order_store (submit_stored deps l ord p
        (snd (on_store (st_store_order ops so) om1)))) l = Some v' \<and> placed v'"
      using insert_new(2) [OF om1(1), of so u] om1(2) kept so
      by (intro submit_stored_placed [OF assms(1), where v = "view_of so"]) (simp_all add: view_of_def)
    ultimately show ?thesis using True by (auto simp: evolves_None)
  qed
  have failed: "evolves (look (order_store om) l')
      (look (snd (st_store_order ops so (order_store om))) l')"
    if "fst (st_store_order ops so (order_store om)) = Inl e" for so e
    using that store_err [of so "order_store om" e]
    by (metis evolves_refl prod.collapse)
  show ?thesis
    using assms(2)
    by (auto simp: handle_submit_command_def Let_def split_beta assms(1)
        intro!: stored failed split: sum.split)
qed

lemma evolves_cancel:
  assumes "store_of deps = ops" and "ok om"
  shows "evolves (look (order_store om) l')
           (look (order_store (handle_cancel_command deps sig p om)) l')"
  using evolves_ended [OF assms(2), of "can_order_id sig" _ OrderStatus.CANCELLED l']
  by (auto simp: handle_cancel_command_def Let_def split_beta assms(1) split: sum.split option.split)

lemma evolves_trans_None:
  "evolves x y \<Longrightarrow> (y = None \<Longrightarrow> evolves y z) \<Longrightarrow> (y \<noteq> None \<Longrightarrow> z = y) \<Longrightarrow> evolves x z"
  by (cases y) (auto simp: evolves_def split: option.splits)

lemma evolves_replace:
  assumes "store_of deps = ops" and "ok om"
  shows "evolves (look (order_store om) l')
           (look (order_store (handle_replace_command deps sig p om)) l')"
proof -
  have accepted: "evolves (look (order_store om) l')
      (look (order_store (replace_accepted deps old_l new_l new_b new_ord p om1)) l')"
    if om1: "ok om1" "order_store om1 = order_store om" "id_mapper om1 = id_mapper om"
      and mapped: "get_broker_id (id_mapper om) old_l = Some b"
    for om1 old_l new_l new_b new_ord b
  proof -
    let ?s = "snd (st_update_order_status ops old_l REPLACED (order_store om))"
    have first: "evolves (look (order_store om) l') (look ?s l')"
      by (rule evolves_ended [OF assms(2) mapped]) simp
    have inv: "store_inv ?s" using assms(2) by (simp add: om_inv_def keeps)
    have second: "evolves (look (order_store om) l')
        (look (snd (st_store_order ops (new_stored_order new_ord new_l (Some new_b) SUBMITTED t) ?s)) l')"
      for t
    proof (rule evolves_trans_None [OF first])
      let ?so = "new_stored_order new_ord new_l (Some new_b) SUBMITTED t"
      show "evolves (look ?s l') (look (snd (st_store_order ops ?so ?s)) l')" if "look ?s l' = None"
        using that inv by (auto simp: looks evolves_None placed_def view_of_def)
      show "look (snd (st_store_order ops ?so ?s)) l' = look ?s l'" if "look ?s l' \<noteq> None"
        using that inv store_ok [OF inv, of ?so] 
        by (cases "st_store_order ops ?so ?s"; cases "fst (st_store_order ops ?so ?s)")
          (auto simp: store_err)
    qed
    show ?thesis
      using first second
      by (simp add: replace_accepted_def Let_def split_beta assms(1) om1(2) split: sum.split)
  qed
  show ?thesis
    using assms(2)
    by (auto simp: handle_replace_command_def Let_def split_beta
        intro!: accepted split: sum.split option.split)
qed

lemma switched_evolves: "switched x y \<Longrightarrow> evolves x y"
  by (auto simp: switched_def evolves_Some intro: killed)

lemma cancel_one_switched:
  assumes "store_of deps = ops" and "\<And>l. switched (look s0 l) (look (order_store om) l)"
    and "\<exists>v. look s0 (so_local_id so) = Some v \<and> v = view_of so \<and> ov_status v \<in> set open_statuses"
  shows "switched (look s0 l) (look (order_store (cancel_one deps so om)) l)"
  using assms(2) [of l] assms(3)
  by (auto simp: cancel_one_def Let_def split_beta assms(1) looks switched_def at_broker_def
      view_of_def split: option.split sum.split)

lemma cancel_ones_switched:
  assumes "store_of deps = ops"
    and "\<And>so. so \<in> set sos \<Longrightarrow>
      \<exists>v. look s0 (so_local_id so) = Some v \<and> v = view_of so \<and> ov_status v \<in> set open_statuses"
  shows "(\<And>l. switched (look s0 l) (look (order_store om) l)) \<Longrightarrow>
    switched (look s0 l) (look (order_store (foldl (\<lambda>om so. cancel_one deps so om) om sos)) l)"
  using assms(2)
proof (induction sos arbitrary: om)
  case Nil
  then show ?case by simp
next
  case (Cons so sos)
  have "switched (look s0 l') (look (order_store (cancel_one deps so om)) l')" for l'
    by (rule cancel_one_switched [OF assms(1) Cons.prems(1)]) (simp add: Cons.prems(2))
  with Cons.IH [of "cancel_one deps so om"] Cons.prems(2) show ?case by simp
qed

lemma evolves_cancel_all:
  assumes "store_of deps = ops" and "ok om"
  shows "evolves (look (order_store om) l)
           (look (order_store (handle_cancel_all_command deps reason who p om)) l)"
proof -
  let ?sos = "fst (st_get_open_orders ops (order_store om))"
  have listed: "\<exists>v. look (order_store om) (so_local_id so) = Some v \<and> v = view_of so
      \<and> ov_status v \<in> set open_statuses" if "so \<in> set ?sos" for so
    using open_ok [of "order_store om" so] assms(2) that by (auto simp: om_inv_def view_of_def)
  have "switched (look (order_store om) l) (look (order_store
      (foldl (\<lambda>om so. cancel_one deps so om) om1 ?sos)) l)"
    if "look (order_store om1) = look (order_store om)" for om1
    by (rule cancel_ones_switched [OF assms(1) listed]) (simp_all add: that switched_def)
  then show ?thesis
    by (simp add: handle_cancel_all_command_def Let_def split_beta assms(1) switched_evolves looks)
qed

lemma evolves_fill:
  assumes "store_of deps = ops" and "ok om"
  shows "evolves (look (order_store om) l') (look (order_store (handle_fill deps r om)) l')"
proof -
  have mapped: "get_broker_id (id_mapper om) l = Some (er_broker_order_id r)"
    if "get_local_id (id_mapper om) (er_broker_order_id r) = Some l" for l
    using assms(2) that by (simp add: om_inv_def get_local_id_live)
  have terminal: "evolves (look (order_store om) l')
      (look (order_store (handle_terminal_report deps r l om)) l')"
    if "get_local_id (id_mapper om) (er_broker_order_id r) = Some l" for l
    using evolves_ended [OF assms(2) mapped [OF that], of OrderStatus.CANCELLED l']
      evolves_ended [OF assms(2) mapped [OF that], of REJECTED l']
    by (simp add: handle_terminal_report_def Let_def assms(1))
  have booked: "evolves (look (order_store om) l')
      (look (order_store (apply_fill_report deps r l so om1)) l')"
    if "get_local_id (id_mapper om) (er_broker_order_id r) = Some l"
      and om1: "order_store om1 = snd (st_get_order ops l (order_store om))"
      and got: "fst (st_get_order ops l (order_store om)) = Inr so" for l so om1
  proof -
    have v: "look (order_store om) l = Some (view_of so)"
      using got get_ok [of l "order_store om" so] by (metis prod.collapse)
    note step = fills [OF mapped_live [OF assms(2) mapped [OF that(1)] v],
        of "er_filled_quantity r" "er_avg_fill_price r"]
    have "store_inv (snd (st_get_order ops l (order_store om)))"
      using assms(2) by (simp add: om_inv_def keeps)
    with step v show ?thesis
      by (auto simp: apply_fill_report_def Let_def assms(1) om1 looks evolves_Some view_of_def)
  qed
  show ?thesis
    using terminal booked
    by (auto simp: handle_fill_def Let_def split_beta assms(1) looks split: sum.split option.split)
qed

lemma evolves_handle_event:
  assumes "store_of deps = ops" and "ok om"
  shows "evolves (look (order_store om) l) (look (order_store (handle_event deps ev om)) l)"
  using assms
  by (cases ev) (simp_all add: evolves_submit evolves_cancel evolves_replace evolves_cancel_all
      evolves_fill market_data_defs split: option.split)

lemma out_of_reach_calls [simp]:
  "out_of_reach look l v (set_value q r om) = out_of_reach look l v om"
  "out_of_reach look l v (om_log d e m c om) = out_of_reach look l v om"
  "out_of_reach look l v (snd (on_gateway f om)) = out_of_reach look l v om"
  "out_of_reach look l v (snd (om_now om)) = out_of_reach look l v om"
  "out_of_reach look l v (snd (om_generate om)) = out_of_reach look l v om"
  "out_of_reach look l v (count_orders n om) = out_of_reach look l v om"
  "out_of_reach look l v (deliver_fill rep om) = out_of_reach look l v om"
  "out_of_reach look l v (log_failure d x ro) = out_of_reach look l v (snd ro)"
  by (simp_all add: out_of_reach_def)

lemma stored_is_new:
  assumes "ok om" and "fst (st_store_order ops so (order_store om)) = Inr u"
    and "look (order_store om) l = Some v"
  shows "l \<noteq> so_local_id so"
  using store_ok [of "order_store om" so u] assms by (metis om_inv_def option.distinct(1) prod.collapse)

lemma out_of_reach_store:
  assumes "ok om" and "out_of_reach look l v om"
  shows "look (snd (st_store_order ops so (order_store om))) l = Some v"
  using assms stored_is_new [OF assms(1), of so "()" l v]
  by (cases "fst (st_store_order ops so (order_store om))")
    (auto simp: out_of_reach_def om_inv_def looks)

lemma out_of_reach_submit:
  assumes "store_of deps = ops" and "ok om" and "out_of_reach look l v om"
  shows "out_of_reach look l v (handle_submit_command deps sig p om)"
proof -
  have step: "out_of_reach look l v (submit_stored deps l' ord p om1)"
    if "l \<noteq> l'" and "out_of_reach look l v om1" for l' ord om1
    using that
    by (simp add: out_of_reach_def submit_stored_def submit_rejected_def submit_accepted_def Let_def
        split_beta assms(1) looks split: sum.split)
  have calls: "out_of_reach look l v (snd (on_store (st_store_order ops so) om1))"
    if "order_store om1 = order_store om" "id_mapper om1 = id_mapper om" for so om1
    using out_of_reach_store [OF assms(2,3), of so] assms(3) that by (simp add: out_of_reach_def)
  have new: "l \<noteq> so_local_id so" if "fst (st_store_order ops so (order_store om)) = Inr u" for so u
    using stored_is_new [OF assms(2) that] assms(3) by (simp add: out_of_reach_def)
  show ?thesis
    using assms(3)
    by (auto simp: handle_submit_command_def Let_def split_beta assms(1)
        intro!: step calls dest: new split: sum.split)
qed

lemma out_of_reach_replace:
  assumes "store_of deps = ops" and "ok om" and "out_of_reach look l v om"
  shows "out_of_reach look l v (handle_replace_command deps sig p om)"
proof -
  have accepted: "out_of_reach look l v (replace_accepted deps old_l new_l new_b new_ord q om1)"
    if om1: "ok om1" "out_of_reach look l v om1" and mapped: "get_broker_id (id_mapper om1) old_l = Some b"
    for old_l new_l new_b new_ord q om1 b
  proof -
    define om2 where "om2 = snd (om_now (snd (on_store (st_update_order_status ops old_l REPLACED)
        (set_mapper (remove_mapping old_l) om1))))"
    have "l \<noteq> old_l" using om1(2) mapped by (auto simp: out_of_reach_def)
    then have om2: "ok om2" "out_of_reach look l v om2"
      using om1 ok_set_status_removed [OF om1(1)] by (simp_all add: om2_def out_of_reach_def looks)
    have new: "l \<noteq> so_local_id so" if "fst (st_store_order ops so (order_store om2)) = Inr u" for so u
      using stored_is_new [OF om2(1) that] om2(2) by (simp add: out_of_reach_def)
    from om2(2) out_of_reach_store [OF om2] show ?thesis
      by (auto simp: replace_accepted_def Let_def split_beta assms(1) out_of_reach_def om2_def
          split: sum.split dest: new [unfolded om2_def, simplified])
  qed
  show ?thesis
    using assms(2,3)
    by (auto simp: handle_replace_command_def Let_def split_beta
        intro!: accepted split: sum.split option.split)
qed

lemma out_of_reach_cancel:
  assumes "store_of deps = ops" and "out_of_reach look l v om"
  shows "out_of_reach look l v (handle_cancel_command deps sig p om)"
proof (cases "can_order_id sig = l")
  case True
  with assms(2) show ?thesis by (simp add: handle_cancel_command_def out_of_reach_def)
next
  case False
  with assms(2) show ?thesis
    by (auto simp: out_of_reach_def cancel_defs assms(1) looks split: sum.split option.split)
qed

lemma out_of_reach_fill:
  assumes "store_of deps = ops" and "ok om" and "out_of_reach look l v om"
  shows "out_of_reach look l v (handle_fill deps r om)"
proof (cases "get_local_id (id_mapper om) (er_broker_order_id r)")
  case None
  with assms(3) show ?thesis by (simp add: handle_fill_def)
next
  case (Some l')
  then have "get_broker_id (id_mapper om) l' = Some (er_broker_order_id r)" and "store_inv (order_store om)"
    using assms(2) by (simp_all add: om_inv_def get_local_id_live)
  then have "l' \<noteq> l" "store_inv (snd (st_get_order ops l' (order_store om)))"
    using assms(3) by (auto simp: out_of_reach_def keeps)
  with assms(3) Some show ?thesis
    by (simp add: out_of_reach_def fill_defs assms(1) looks split: sum.split)
qed

lemma out_of_reach_event:
  assumes "store_of deps = ops" and "ok om" and "out_of_reach look l v om" and "\<not> is_cancel_all ev"
  shows "out_of_reach look l v (handle_event deps ev om)"
  using assms
  by (cases ev) (simp_all add: out_of_reach_submit out_of_reach_cancel out_of_reach_replace
      out_of_reach_fill, simp_all add: out_of_reach_def market_data_defs split: option.split)

lemma out_of_reach_events:
  assumes "store_of deps = ops"
  shows "ok om \<Longrightarrow> out_of_reach look l v om \<Longrightarrow> \<forall>ev \<in> set evs. \<not> is_cancel_all ev \<Longrightarrow>
    out_of_reach look l v (handle_events deps evs om)"
  by (induction evs arbitrary: om)
    (simp_all add: ok_handle_event [OF assms] out_of_reach_event [OF assms])

end

section \<open>Whole histories\<close>

text \<open>
  What the status of a stored order says of its fills and its broker id. Two of the nine statuses
  are never stored.
\<close>

definition status_fits :: "order_view \<Rightarrow> bool" where
  "status_fits v \<longleftrightarrow>
     (case ov_status v of
        PENDING_SUBMISSION \<Rightarrow> ov_broker_id v = None \<and> ov_filled v = 0
      | SUBMITTED \<Rightarrow> ov_filled v = 0
      | PARTIALLY_FILLED \<Rightarrow> ov_filled v < ord_quantity (ov_order v)
      | OrderStatus.FILLED \<Rightarrow> ord_quantity (ov_order v) \<le> ov_filled v
      | ACCEPTED \<Rightarrow> False
      | EXPIRED \<Rightarrow> False
      | _ \<Rightarrow> True)"

lemma placed_fits: "placed v \<Longrightarrow> status_fits v"
  by (auto simp: placed_def status_fits_def)

lemma order_step_fits: "order_step v v' \<Longrightarrow> status_fits v'"
  if "status_fits v"
  using that
  by (auto elim!: order_stepE simp: status_fits_def fill_view_def at_broker_def open_statuses_def)

lemma order_step_order: "order_step v v' \<Longrightarrow> ov_order v' = ov_order v \<and> ov_broker_id v' = ov_broker_id v"
  by (auto elim!: order_stepE simp: fill_view_def)

text \<open>Only a submitted or partially filled order has a next step.\<close>

lemma order_step_from: "status_fits v \<Longrightarrow> order_step v v' \<Longrightarrow> ov_status v \<in> {SUBMITTED, PARTIALLY_FILLED}"
  by (auto elim!: order_stepE simp: status_fits_def live_view_def at_broker_def open_statuses_def)

lemma order_steps_order:
  "order_step\<^sup>*\<^sup>* v v' \<Longrightarrow> ov_order v' = ov_order v \<and> ov_broker_id v' = ov_broker_id v"
  by (induction rule: rtranclp_induct) (auto dest: order_step_order)

lemma order_steps_fit: "order_step\<^sup>*\<^sup>* v v' \<Longrightarrow> status_fits v \<Longrightarrow> status_fits v'"
  by (induction rule: rtranclp_induct) (auto intro: order_step_fits)

lemma order_steps_final:
  assumes "order_step\<^sup>*\<^sup>* v v'" and "status_fits v"
    and "ov_status v \<notin> {SUBMITTED, PARTIALLY_FILLED}"
  shows "v' = v"
  using assms(1) by (cases rule: converse_rtranclpE) (use assms(2,3) order_step_from in blast)+

definition story :: "order_view option \<Rightarrow> order_view option \<Rightarrow> bool" where
  "story x y \<longleftrightarrow>
     (case x of
        Some v \<Rightarrow> (\<exists>v'. y = Some v' \<and> order_step\<^sup>*\<^sup>* v v')
      | None \<Rightarrow> y = None \<or> (\<exists>v0 v'. y = Some v' \<and> placed v0 \<and> order_step\<^sup>*\<^sup>* v0 v'))"

lemma story_refl [simp]: "story x x"
  by (simp add: story_def split: option.split)

lemma story_evolves: "story x y \<Longrightarrow> evolves y z \<Longrightarrow> story x z"
  by (cases y; cases z)
    (auto simp: story_def evolves_None evolves_Some split: option.splits
      intro: rtranclp.rtrancl_into_rtrancl)

lemma story_fits: "story None (Some v) \<Longrightarrow> status_fits v"
  by (auto simp: story_def intro: order_steps_fit placed_fits)

lemma reach_story:
  assumes "om_reach d om0 om" and "store_of d = sqlite_store_ops" and "om_inv sq_look sq_inv om0"
  shows "story (sq_look (order_store om0) l) (sq_look (order_store om) l)"
  using assms(1)
proof (induction rule: om_reach.induct)
  case (om_dispatches om st ev q)
  have "om_inv sq_look sq_inv (om\<lparr>queue := q\<rparr>)"
    using om_inv_reach [OF om_dispatches.hyps(1) assms(2,3)] by simp
  from sq.evolves_handle_event [OF assms(2) this, of l ev] om_dispatches.IH show ?case
    by (auto intro: story_evolves)
qed (simp_all add: om_enqueue_def set_market_data_sinks_def clear_market_data_sinks_def
      set_fill_sink_def clear_fill_sink_def)

text \<open>
  C4. The order manager on the SQLite store implements the order machine. Take any state it reaches
  from its creation, and any later one, with any gateway, any failing statements and any events in
  between. An order stored in the first is stored in the second too, as the same order under the same
  broker id, a number of machine steps further; if its status was anything but submitted or partially
  filled, nothing about it has changed. An order stored in between was placed as pending, submitted
  or rejected. And the stored status is true of the stored fills: nothing is filled of a pending or
  submitted order, less than the quantity of a partially filled one, and at least the quantity of a
  filled one.
\<close>

theorem order_lifecycle_refined:
  assumes "om_reach d (create_order_manager d a pk g j (open_store fs now) limits clk) om"
    and "om_reach d om om'" and "store_of d = sqlite_store_ops"
  shows "(case sq_look (order_store om) l of
            None \<Rightarrow> sq_look (order_store om') l = None
              \<or> (\<exists>v0 v'. sq_look (order_store om') l = Some v' \<and> placed v0 \<and> order_step\<^sup>*\<^sup>* v0 v')
          | Some v \<Rightarrow> (\<exists>v'. sq_look (order_store om') l = Some v' \<and> order_step\<^sup>*\<^sup>* v v'
              \<and> ov_order v' = ov_order v \<and> ov_broker_id v' = ov_broker_id v
              \<and> (ov_status v \<in> {SUBMITTED, PARTIALLY_FILLED} \<or> v' = v)))
       \<and> (\<forall>v. sq_look (order_store om) l = Some v \<longrightarrow> status_fits v)"
proof -
  note inv0 = om_inv_create [of d a pk g j fs now limits clk]
  have "sq_look (order_store (create_order_manager d a pk g j (open_store fs now) limits clk)) l = None"
    by (simp add: create_order_manager_def)
  with reach_story [OF assms(1,3) inv0, of l] have fits:
    "\<forall>v. sq_look (order_store om) l = Some v \<longrightarrow> status_fits v"
    by (auto intro: story_fits)
  have "story (sq_look (order_store om) l) (sq_look (order_store om') l)"
    by (rule reach_story [OF assms(2,3) om_inv_reach [OF assms(1,3) inv0]])
  with fits show ?thesis
    by (auto simp: story_def dest: order_steps_order order_steps_final split: option.splits)
qed

text \<open>An order is submitted to the sample manager, and then cancelled.\<close>

lemma sample_cancel:
  assumes "sq_healthy (order_store om)" and "get_broker_id (id_mapper om) (can_order_id sig) = Some b"
  shows "sq_look (order_store (handle_cancel_command sample_deps sig p om)) (can_order_id sig)
    = map_option (\<lambda>v. v\<lparr>ov_status := OrderStatus.CANCELLED\<rparr>) (sq_look (order_store om) (can_order_id sig))"
  using assms sqh.healthy_status_ok [OF assms(1), of "can_order_id sig" OrderStatus.CANCELLED]
    sq.status_look [of "can_order_id sig" OrderStatus.CANCELLED "order_store om" "can_order_id sig"]
  by (auto simp: cancel_defs is_ok_iff split: sum.split)

lemma reach_handles:
  assumes "om_reach d om0 om" and "q_items (queue om) = []" and "\<not> is_market_data ev"
  shows "\<exists>q. om_reach d om0 ((handle_event d ev om)\<lparr>queue := q\<rparr>) \<and> q_items q = []"
proof -
  obtain q where q: "q_pop True (queue (om_enqueue ev om)) = Popped ev q" "q_items q = []"
    using assms(2,3) by (auto simp: om_enqueue_def q_pop_def q_push_def empty_queue_def)
  have "(om_enqueue ev om)\<lparr>queue := q\<rparr> = om\<lparr>queue := q\<rparr>"
    by (simp add: om_enqueue_def)
  with om_dispatches [OF om_enqueues [OF assms(1)] q(1)] q(2) show ?thesis
    by (auto simp: handle_event_queue_commute q_mark_processed_def)
qed

theorem order_lifecycle_refined_witness:
  "\<exists>(om :: (nat, sqlite_store, sqlite_journal) order_manager) om' l v v'.
     om_reach sample_deps sample_om om \<and> om_reach sample_deps om om'
     \<and> sq_look (order_store om) l = Some v \<and> ov_status v = SUBMITTED
     \<and> sq_look (order_store om') l = Some v' \<and> ov_status v' = OrderStatus.CANCELLED
     \<and> order_step\<^sup>*\<^sup>* v v'"
proof -
  let ?l = "fst (om_generate sample_om)"
  let ?om = "handle_event sample_deps (Submit_command sample_signal 7) sample_om"
  let ?sig = "\<lparr>can_strategy_id = ''S1'', can_order_id = ?l, can_generated_at = ''''\<rparr>"
  obtain q where q: "om_reach sample_deps sample_om (?om\<lparr>queue := q\<rparr>)" "q_items q = []"
    using reach_handles [OF om_start, of sample_om "Submit_command sample_signal 7" sample_deps]
    by (auto simp: empty_queue_def)
  let ?om' = "handle_event sample_deps (Cancel_command ?sig 8) (?om\<lparr>queue := q\<rparr>)"
  obtain q' where q': "om_reach sample_deps (?om\<lparr>queue := q\<rparr>) (?om'\<lparr>queue := q'\<rparr>)"
    using reach_handles [OF om_start, of "?om\<lparr>queue := q\<rparr>" "Cancel_command ?sig 8" sample_deps] q(2)
    by auto
  have mapped: "get_broker_id (id_mapper ?om) ?l = Some (''B'' @ decimal 0)"
    using sample_submit [of sample_om sample_signal 7]
    by (simp add: sample_om_def create_order_manager_def sample_clock_def)
  have healthy: "sq_healthy (order_store ?om)"
    using sqh.steady_handle_event [of sample_deps "\<lambda>_. True" sample_om "Submit_command sample_signal 7"]
    by (simp add: cancels_from_def sq_healthy_def open_store_def)
  obtain v where v: "sq_look (order_store ?om) ?l = Some v" "ov_status v = SUBMITTED"
    using sq.submit_outcome [of sample_deps sample_om sample_signal 7] mapped by auto
  have cancelled: "sq_look (order_store ?om') ?l = Some (v\<lparr>ov_status := OrderStatus.CANCELLED\<rparr>)"
    using sample_cancel [of "?om\<lparr>queue := q\<rparr>" ?sig] healthy mapped v(1) by simp
  have "order_step\<^sup>*\<^sup>* v (v\<lparr>ov_status := OrderStatus.CANCELLED\<rparr>)"
    using order_lifecycle_refined [OF q(1) [unfolded sample_om_def] q' [unfolded sample_om_def], of ?l]
      v(1) cancelled
    by (simp flip: sample_om_def)
  with q(1) q' v cancelled show ?thesis
    by (intro exI conjI) (assumption | simp)+
qed

end
