(* ===== verification/PaperBooks.thy ===== *)
theory PaperBooks
  imports OrderLifecycle PaperGateway
begin

text \<open>
  The order manager and the paper gateway together: what the broker has filled of an order, what is
  on its way as reports, and what the order store has booked. Three threads move reports along: the
  simulation fills orders under their lock and then puts its reports into the dispatcher's queue one
  by one, the dispatcher takes one and hands it to the fill handler, which enqueues it at the order
  manager, and the dispatch thread books it.
\<close>

section \<open>The books\<close>

text \<open>
  The ghosts \<open>os\<close> and \<open>rs\<close> are the orders the broker has accepted and the reports it has produced;
  \<open>fl\<close> are the reports on their way. For every live order the store has booked what was reported and is
  not on its way, and the order is still pending at the broker or completely reported. A broker id
  in the store belongs to no other live order.
\<close>

definition booked ::
  "(BrokerOrderId \<rightharpoonup> order) \<Rightarrow> execution_report list \<Rightarrow> (BrokerOrderId \<times> simulated_order) list
   \<Rightarrow> execution_report list \<Rightarrow> BrokerOrderId \<Rightarrow> order_view \<Rightarrow> bool" where
  "booked os rs ps fl b v \<longleftrightarrow>
     os b = Some (ov_order v) \<and> 0 < ord_quantity (ov_order v)
   \<and> ov_filled v + reported b fl = reported b rs
   \<and> (b \<in> fst ` set ps \<or> reported b rs = ord_quantity (ov_order v))"

definition linked ::
  "(BrokerOrderId \<rightharpoonup> order) \<Rightarrow> execution_report list \<Rightarrow> (BrokerOrderId \<times> simulated_order) list
   \<Rightarrow> (string \<Rightarrow> order_view option) \<Rightarrow> order_id_mapper \<Rightarrow> execution_report list \<Rightarrow> bool" where
  "linked os rs ps view m fl \<longleftrightarrow>
     (\<forall>l b. get_broker_id m l = Some b \<longrightarrow> (\<exists>v. view l = Some v \<and> booked os rs ps fl b v))
   \<and> (\<forall>l v b. view l = Some v \<and> ov_broker_id v = Some b \<longrightarrow>
        os b \<noteq> None \<and> (\<forall>l'. get_broker_id m l' = Some b \<longrightarrow> l' = l))"

lemma linkedI:
  assumes "\<And>l b. get_broker_id m l = Some b \<Longrightarrow> \<exists>v. view l = Some v \<and> booked os rs ps fl b v"
    and "\<And>l v b. view l = Some v \<Longrightarrow> ov_broker_id v = Some b \<Longrightarrow> os b \<noteq> None"
    and "\<And>l v b l'. view l = Some v \<Longrightarrow> ov_broker_id v = Some b \<Longrightarrow> get_broker_id m l' = Some b \<Longrightarrow> l' = l"
  shows "linked os rs ps view m fl"
  unfolding linked_def using assms by blast

lemma linked_live:
  assumes "linked os rs ps view m fl" and "get_broker_id m l = Some b"
  obtains v where "view l = Some v" "booked os rs ps fl b v"
  using assms unfolding linked_def by blast

lemma linked_broker:
  assumes "linked os rs ps view m fl" and "view l = Some v" and "ov_broker_id v = Some b"
  shows "os b \<noteq> None" and "get_broker_id m l' = Some b \<Longrightarrow> l' = l"
  using assms unfolding linked_def by blast+

definition known_reports :: "(BrokerOrderId \<rightharpoonup> order) \<Rightarrow> execution_report list \<Rightarrow> bool" where
  "known_reports os fl \<longleftrightarrow>
     (\<forall>r \<in> set fl. \<exists>ord. os (er_broker_order_id r) = Some ord \<and> report_for (er_broker_order_id r) ord r)"

type_synonym 'j paper_om = "(paper_gateway, sqlite_store, 'j) order_manager"

definition books ::
  "(BrokerOrderId \<rightharpoonup> order) \<Rightarrow> execution_report list \<Rightarrow> 'j paper_om \<Rightarrow> execution_report list \<Rightarrow> bool" where
  "books os rs om fl \<longleftrightarrow>
     mapper_bij (id_mapper om)
   \<and> paper_inv os rs (pending_orders (gateway om)) (id_gen (gateway om))
   \<and> known_reports os fl
   \<and> linked os rs (pending_orders (gateway om)) (sq_look (order_store om)) (id_mapper om) fl"

lemma books_frame:
  "order_store om' = order_store om \<Longrightarrow> id_mapper om' = id_mapper om \<Longrightarrow> gateway om' = gateway om \<Longrightarrow>
   books os rs om' fl = books os rs om fl"
  by (simp add: books_def)

lemma books_calls [simp]:
  "books os rs (om_log d ev s c om) fl = books os rs om fl"
  "books os rs (set_value p r om) fl = books os rs om fl"
  "books os rs (snd (om_now om)) fl = books os rs om fl"
  "books os rs (snd (om_generate om)) fl = books os rs om fl"
  "books os rs (deliver_fill rep om) fl = books os rs om fl"
  "books os rs (log_failure d l ro) fl = books os rs (snd ro) fl"
  "books os rs (count_orders n om) fl = books os rs om fl"
  "books os rs (om\<lparr>position_keeper := pk\<rparr>) fl = books os rs om fl"
  "books os rs (om\<lparr>queue := q\<rparr>) fl = books os rs om fl"
  by (rule books_frame; simp)+

section \<open>Changes the books survive\<close>

lemma reported_unknown:
  assumes "known_reports os fl" and "os b = None"
  shows "reported b fl = 0"
  by (rule reported_other) (use assms in \<open>force simp: known_reports_def\<close>)

lemma reported_nonneg: "(\<And>r. r \<in> set rs \<Longrightarrow> 0 < er_filled_quantity r) \<Longrightarrow> 0 \<le> reported b rs"
  by (induction rs) (simp_all add: add_nonneg_nonneg less_imp_le)

lemma known_reports_add: "known_reports os fl \<Longrightarrow> os b = None \<Longrightarrow> known_reports (os(b \<mapsto> ord)) fl"
  by (force simp: known_reports_def)

text \<open>A stored order may change in what the books do not look at.\<close>

lemma linked_view:
  assumes "linked os rs ps view m fl"
    and same: "\<And>l v'. view' l = Some v' \<Longrightarrow> \<exists>v. view l = Some v \<and> ov_broker_id v' = ov_broker_id v"
    and kept: "\<And>l v. view l = Some v \<Longrightarrow>
      \<exists>v'. view' l = Some v' \<and> ov_order v' = ov_order v \<and> ov_filled v' = ov_filled v"
  shows "linked os rs ps view' m fl"
proof (rule linkedI)
  fix l b assume "get_broker_id m l = Some b"
  from linked_live [OF assms(1) this] obtain v where "view l = Some v" "booked os rs ps fl b v" .
  with kept [of l v] show "\<exists>v. view' l = Some v \<and> booked os rs ps fl b v"
    by (auto simp: booked_def)
next
  fix l v b assume "view' l = Some v" "ov_broker_id v = Some b"
  with same [of l v] obtain v0 where "view l = Some v0" "ov_broker_id v0 = Some b" by auto
  from linked_broker [OF assms(1) this]
  show "os b \<noteq> None" and "get_broker_id m l' = Some b \<Longrightarrow> l' = l" for l' .
qed

lemma linked_remove: "linked os rs ps view m fl \<Longrightarrow> linked os rs ps view (remove_mapping l m) fl"
  by (rule linkedI) (auto elim: linked_live dest: linked_broker split: if_splits)

text \<open>An order is stored under a new id.\<close>

lemma linked_store:
  assumes "linked os rs ps view m fl" and "view l = None"
    and "\<And>b. ov_broker_id v = Some b \<Longrightarrow> os b \<noteq> None"
    and "\<And>b l'. ov_broker_id v = Some b \<Longrightarrow> get_broker_id m l' \<noteq> Some b"
  shows "linked os rs ps (view(l \<mapsto> v)) m fl"
proof (rule linkedI)
  fix l' b assume "get_broker_id m l' = Some b"
  from linked_live [OF assms(1) this] obtain v' where "view l' = Some v'" "booked os rs ps fl b v'" .
  with assms(2) show "\<exists>v'. (view(l \<mapsto> v)) l' = Some v' \<and> booked os rs ps fl b v'" by auto
next
  fix l1 v1 b assume "(view(l \<mapsto> v)) l1 = Some v1" "ov_broker_id v1 = Some b"
  with assms(3,4) linked_broker [OF assms(1)]
  show "os b \<noteq> None" and "get_broker_id m l' = Some b \<Longrightarrow> l' = l1" for l'
    by (auto split: if_splits)
qed

text \<open>A stored order becomes live under a broker id with nothing reported.\<close>

lemma linked_add:
  assumes "linked os rs ps view m fl" and "view l = Some v" and "booked os rs ps fl b v"
    and "\<And>l' v'. view l' = Some v' \<Longrightarrow> ov_broker_id v' = Some b \<Longrightarrow> l' = l"
  shows "linked os rs ps view (add_mapping l b m) fl"
proof (rule linkedI)
  fix l' b' assume "get_broker_id (add_mapping l b m) l' = Some b'"
  with assms(2,3) show "\<exists>v. view l' = Some v \<and> booked os rs ps fl b' v"
    by (auto elim: linked_live [OF assms(1)] split: if_splits)
next
  fix l1 v1 b' assume *: "view l1 = Some v1" "ov_broker_id v1 = Some b'"
  with linked_broker [OF assms(1)] show "os b' \<noteq> None" by blast
  fix l' assume "get_broker_id (add_mapping l b m) l' = Some b'"
  with * assms(4) linked_broker(2) [OF assms(1) *] show "l' = l1"
    by (auto split: if_splits)
qed

text \<open>The broker accepts an order under a new id.\<close>

lemma linked_accept:
  assumes "linked os rs ps view m fl" and "os b = None" and "fst ` set ps \<subseteq> fst ` set ps'"
  shows "linked (os(b \<mapsto> ord)) rs ps' view m fl"
proof (rule linkedI)
  fix l b' assume "get_broker_id m l = Some b'"
  from linked_live [OF assms(1) this] obtain v where "view l = Some v" "booked os rs ps fl b' v" .
  with assms(2,3) show "\<exists>v. view l = Some v \<and> booked (os(b \<mapsto> ord)) rs ps' fl b' v"
    by (auto simp: booked_def)
next
  fix l1 v1 b' assume "view l1 = Some v1" "ov_broker_id v1 = Some b'"
  with linked_broker [OF assms(1)]
  show "(os(b \<mapsto> ord)) b' \<noteq> None" and "get_broker_id m l' = Some b' \<Longrightarrow> l' = l1" for l'
    by auto
qed

text \<open>The broker drops an order that is live under no other id than the one that stops being live.\<close>

lemma linked_drop:
  assumes "linked os rs ps view m fl" and "\<And>l'. get_broker_id m l' = Some b \<Longrightarrow> l' = l"
    and "fst ` set ps - {b} \<subseteq> fst ` set ps'"
  shows "linked os rs ps' view (remove_mapping l m) fl"
proof (rule linkedI)
  fix l' b' assume "get_broker_id (remove_mapping l m) l' = Some b'"
  then have m: "l' \<noteq> l" "get_broker_id m l' = Some b'" by (auto split: if_splits)
  with assms(2) have "b' \<noteq> b" by blast
  from linked_live [OF assms(1) m(2)] obtain v where "view l' = Some v" "booked os rs ps fl b' v" .
  with \<open>b' \<noteq> b\<close> assms(3) show "\<exists>v. view l' = Some v \<and> booked os rs ps' fl b' v"
    by (auto simp: booked_def)
next
  fix l1 v1 b' assume "view l1 = Some v1" "ov_broker_id v1 = Some b'"
  with linked_broker [OF assms(1)]
  show "os b' \<noteq> None" and "get_broker_id (remove_mapping l m) l' = Some b' \<Longrightarrow> l' = l1" for l'
    by (auto split: if_splits)
qed

section \<open>The calls of the handlers\<close>

text \<open>On the SQLite store: a status, a new order, a broker id.\<close>

lemmas sql_looks =
  sq.status_look [simplified] sq.broker_look [simplified] sq.fill_look [simplified]
  sq.get_frame [simplified] sq.open_frame [simplified]

lemma books_status:
  assumes "books os rs om fl"
  shows "books os rs (snd (on_store (st_update_order_status sqlite_store_ops l st) om)) fl"
proof -
  let ?s = "snd (st_update_order_status sqlite_store_ops l st (order_store om))"
  have "linked os rs (pending_orders (gateway om)) (sq_look ?s) (id_mapper om) fl"
  proof (rule linked_view)
    show "linked os rs (pending_orders (gateway om)) (sq_look (order_store om)) (id_mapper om) fl"
      using assms by (simp add: books_def)
  qed (auto simp: sql_looks split: if_splits)
  with assms show ?thesis by (simp add: books_def)
qed

lemma books_store:
  assumes "books os rs om fl" and "sq_inv (order_store om)"
    and "\<And>b. so_broker_id so = Some b \<Longrightarrow> os b \<noteq> None"
    and "\<And>b l. so_broker_id so = Some b \<Longrightarrow> get_broker_id (id_mapper om) l \<noteq> Some b"
  shows "books os rs (snd (on_store (st_store_order sqlite_store_ops so) om)) fl"
proof (cases "fst (st_store_order sqlite_store_ops so (order_store om))")
  case (Inl e)
  then have "sq_look (snd (st_store_order sqlite_store_ops so (order_store om))) = sq_look (order_store om)"
    by (metis prod.collapse sq.store_err)
  with assms(1) show ?thesis by (simp add: books_def)
next
  case (Inr u)
  then have "sq_look (order_store om) (so_local_id so) = None"
    and look: "sq_look (snd (st_store_order sqlite_store_ops so (order_store om)))
     = (sq_look (order_store om))(so_local_id so \<mapsto> view_of so)"
    using sq.store_ok [OF assms(2), of so u] by (metis prod.collapse)+
  then have "linked os rs (pending_orders (gateway om))
      ((sq_look (order_store om))(so_local_id so \<mapsto> view_of so)) (id_mapper om) fl"
    using assms(1,3,4) by (intro linked_store) (auto simp: books_def view_of_def)
  with assms(1) look show ?thesis by (simp add: books_def)
qed

lemma books_broker:
  assumes "books os rs om fl" and "os b \<noteq> None"
    and "\<And>l'. get_broker_id (id_mapper om) l' = Some b \<Longrightarrow> l' = l"
  shows "books os rs (snd (on_store (st_update_broker_id sqlite_store_ops l b) om)) fl"
proof -
  let ?s = "snd (st_update_broker_id sqlite_store_ops l b (order_store om))"
  note linked = assms(1) [unfolded books_def, THEN conjunct2, THEN conjunct2, THEN conjunct2]
  have "linked os rs (pending_orders (gateway om)) (sq_look ?s) (id_mapper om) fl"
  proof (rule linkedI)
    fix l' b' assume "get_broker_id (id_mapper om) l' = Some b'"
    from linked_live [OF linked this] obtain v where "sq_look (order_store om) l' = Some v"
      "booked os rs (pending_orders (gateway om)) fl b' v" .
    then show "\<exists>v. sq_look ?s l' = Some v \<and> booked os rs (pending_orders (gateway om)) fl b' v"
      by (auto simp: sql_looks booked_def)
  next
    fix l1 v1 b' assume "sq_look ?s l1 = Some v1" "ov_broker_id v1 = Some b'"
    then obtain v0 where "sq_look (order_store om) l1 = Some v0" "ov_broker_id v0 = Some b' \<or> b' = b \<and> l1 = l"
      by (auto simp: sql_looks split: if_splits)
    with linked_broker [OF linked, of l1 v0 b'] assms(2,3)
    show "os b' \<noteq> None" and "get_broker_id (id_mapper om) l' = Some b' \<Longrightarrow> l' = l1" for l'
      by auto
  qed
  with assms(1) show ?thesis by (simp add: books_def)
qed

lemma books_remove: "books os rs om fl \<Longrightarrow> books os rs (set_mapper (remove_mapping l) om) fl"
  by (simp add: books_def mapper_bij_remove linked_remove)

text \<open>The broker's side: what a call of the gateway does to the pending orders and the ids.\<close>

lemma paper_submit_cases:
  assumes "paper_submit_order ord g = (r, g')"
  obtains (Rejected) e where "r = Inl e" "pending_orders g' = pending_orders g" "id_gen g' = id_gen g"
  | (Accepted) b t price where "r = Inr b" "generate t (id_gen g) = (b, id_gen g')"
      "pending_orders g' = AList.update b (new_simulated ord price) (pending_orders g)"
  using assms
  by (auto simp: paper_submit_order_def pg_generate_def Let_def split_beta split: if_splits)

lemma paper_replace_cases:
  assumes "paper_replace_order old_b ord g = (r, g')"
  obtains (Rejected) e where "r = Inl e" "pending_orders g' = pending_orders g" "id_gen g' = id_gen g"
  | (Accepted) b t price where "r = Inr b" "generate t (id_gen g) = (b, id_gen g')"
      "pending_orders g' = AList.update b (new_simulated ord price) (AList.delete old_b (pending_orders g))"
  using assms
  by (auto simp: paper_replace_order_def pg_generate_def Let_def split_beta split: if_splits)

text \<open>A broker id that is new: nothing is reported, stored or mapped under it.\<close>

definition new_at_broker :: "BrokerOrderId \<Rightarrow> execution_report list \<Rightarrow> 'j paper_om \<Rightarrow> execution_report list \<Rightarrow> bool"
  where
  "new_at_broker b rs om fl \<longleftrightarrow>
     reported b rs = 0 \<and> reported b fl = 0 \<and> b \<in> fst ` set (pending_orders (gateway om))
     \<and> (\<forall>l. get_broker_id (id_mapper om) l \<noteq> Some b)
     \<and> (\<forall>l v. sq_look (order_store om) l = Some v \<longrightarrow> ov_broker_id v \<noteq> Some b)"

lemma new_at_broker_calls [simp]:
  "new_at_broker b rs (om_log d ev s c om) fl = new_at_broker b rs om fl"
  "new_at_broker b rs (set_value p r om) fl = new_at_broker b rs om fl"
  "new_at_broker b rs (snd (om_now om)) fl = new_at_broker b rs om fl"
  by (simp_all add: new_at_broker_def)

lemma books_accept:
  assumes "books os rs om fl" and "0 < ids_left (id_gen (gateway om))" and "0 < ord_quantity ord"
    and "generate t (id_gen (gateway om)) = (b, id_gen g')"
    and "pending_orders g' = AList.update b (new_simulated ord price) ps"
    and "ps = pending_orders (gateway om) \<or> ps = AList.delete old_b (pending_orders (gateway om))"
    and "mapper_bij m" and "linked os rs ps (sq_look (order_store om)) m fl"
  shows "os b = None" and "books (os(b \<mapsto> ord)) rs (om\<lparr>gateway := g', id_mapper := m\<rparr>) fl"
    and "new_at_broker b rs (om\<lparr>gateway := g', id_mapper := m\<rparr>) fl"
proof -
  have inv: "paper_inv os rs ps (id_gen (gateway om))"
    using assms(1,6) by (auto simp: books_def intro: paper_inv_delete)
  show new: "os b = None"
    using inv assms(4) gid.gen_fresh [OF assms(2), of t] by (auto simp: paper_inv_def)
  have known: "known_reports os fl" using assms(1) by (simp add: books_def)
  have "paper_inv (os(b \<mapsto> ord)) rs (pending_orders g') (id_gen g')"
    unfolding assms(5) by (rule paper_inv_add [OF inv assms(2,4,3)])
  moreover have keys: "fst ` set (pending_orders g') = insert b (fst ` set ps)"
    by (simp add: assms(5) dom_update flip: dom_map_of_conv_image_fst)
  moreover have "linked (os(b \<mapsto> ord)) rs (pending_orders g') (sq_look (order_store om)) m fl"
    by (rule linked_accept [OF assms(8) new]) (auto simp: keys)
  ultimately show "books (os(b \<mapsto> ord)) rs (om\<lparr>gateway := g', id_mapper := m\<rparr>) fl"
    using assms(7) known_reports_add [OF known new] by (simp add: books_def)
  have "get_broker_id m l \<noteq> Some b" for l
    using linked_live [OF assms(8), of l b] new by (auto simp: booked_def)
  moreover have "ov_broker_id v \<noteq> Some b" if "sq_look (order_store om) l = Some v" for l v
    using linked_broker(1) [OF assms(8) that, of b] new by blast
  ultimately show "new_at_broker b rs (om\<lparr>gateway := g', id_mapper := m\<rparr>) fl"
    using paper_inv_unknown [OF inv new] reported_unknown [OF known new] keys
    by (simp add: new_at_broker_def)
qed

section \<open>Submitting and replacing\<close>

text \<open>A stored order becomes live under a broker id.\<close>

lemma books_add:
  assumes "books os rs om fl" and "booked os rs (pending_orders (gateway om)) fl b v"
    and "sq_look (order_store om) l = Some v" and "get_broker_id (id_mapper om) l = None"
    and "\<forall>l. get_broker_id (id_mapper om) l \<noteq> Some b"
    and "\<And>l' v'. sq_look (order_store om) l' = Some v' \<Longrightarrow> ov_broker_id v' = Some b \<Longrightarrow> l' = l"
  shows "books os rs (set_mapper (add_mapping l b) om) fl"
proof -
  have bij: "mapper_bij (id_mapper om)" using assms(1) by (simp add: books_def)
  then have "get_local_id (id_mapper om) b = None"
    using assms(5) get_local_id_live [OF mapper_bij_inv] by (metis not_Some_eq)
  with bij assms(4) have "mapper_bij (add_mapping l b (id_mapper om))" by (rule mapper_bij_add)
  moreover have "linked os rs (pending_orders (gateway om)) (sq_look (order_store om))
      (add_mapping l b (id_mapper om)) fl"
  proof (rule linked_add)
    show "linked os rs (pending_orders (gateway om)) (sq_look (order_store om)) (id_mapper om) fl"
      using assms(1) by (simp add: books_def)
  qed (fact assms(2,3,6))+
  ultimately show ?thesis using assms(1) by (simp add: books_def)
qed

lemma new_booked:
  "new_at_broker b rs om fl \<Longrightarrow> os b = Some (ov_order v) \<Longrightarrow> 0 < ord_quantity (ov_order v) \<Longrightarrow>
   ov_filled v = 0 \<Longrightarrow> booked os rs (pending_orders (gateway om)) fl b v"
  by (simp add: new_at_broker_def booked_def)

lemma books_submit_rejected:
  assumes "store_of d = sqlite_store_ops" and "books os rs om fl"
  shows "books os rs (submit_rejected d l e p om) fl"
  using books_status [of os rs "om_log d ORDER_REJECTED (message e) l om" fl l REJECTED] assms(2)
  by (simp add: submit_rejected_def Let_def assms(1))

lemma books_submit_accepted:
  assumes "store_of d = sqlite_store_ops" and "books os rs om fl" and "new_at_broker b rs om fl"
    and "sq_look (order_store om) l = Some v" and "os b = Some (ov_order v)" and "ov_filled v = 0"
    and "get_broker_id (id_mapper om) l = None" and "0 < ord_quantity (ov_order v)"
  shows "books os rs (submit_accepted d l b p om) fl"
proof -
  define om1 where "om1 = snd (on_store (st_update_order_status sqlite_store_ops l SUBMITTED) om)"
  have om1: "books os rs om1 fl" unfolding om1_def by (rule books_status [OF assms(2)])
  have added: "books os rs (set_mapper (add_mapping l b) om1) fl"
  proof -
    obtain v' where "sq_look (order_store om1) l = Some v'" "ov_order v' = ov_order v" "ov_filled v' = 0"
      using assms(4,6)
      by (cases "is_ok (fst (sq_update_order_status l SUBMITTED (order_store om)))")
        (auto simp: om1_def sql_looks)
    moreover have new1: "new_at_broker b rs om1 fl"
      using assms(3) by (auto simp: new_at_broker_def om1_def sql_looks split: if_splits)
    ultimately show ?thesis
      using assms(5,7,8) new_booked [OF new1, of os v']
      by (intro books_add [OF om1, where v = v']) (auto simp: new_at_broker_def om1_def)
  qed
  have only: "get_broker_id (add_mapping l b (id_mapper om1)) l' = Some b \<Longrightarrow> l' = l" for l'
    using assms(3) by (auto simp: new_at_broker_def om1_def split: if_splits)
  have "books os rs (snd (on_store (st_update_broker_id sqlite_store_ops l b)
      (count_orders 1 (set_mapper (add_mapping l b) om1)))) fl"
  proof (rule books_broker)
    show "get_broker_id (id_mapper (count_orders 1 (set_mapper (add_mapping l b) om1))) l' = Some b
        \<Longrightarrow> l' = l" for l'
      unfolding count_orders_frame set_mapper_frame by (rule only)
  qed (use added assms(5) in simp_all)
  with om1 show ?thesis
    by (simp add: submit_accepted_def Let_def split_beta assms(1) om1_def split: sum.split)
qed

lemma books_submit:
  assumes "store_of d = sqlite_store_ops" and "gateway_of d = paper_gateway_ops"
    and "om_inv sq_look sq_inv om" and "books os rs om fl"
    and "0 < ids_left (id_gen (gateway om))" and "0 < sig_target_quantity sig"
  shows "\<exists>os'. books os' rs (handle_submit_command d sig p om) fl"
proof -
  let ?l = "fst (om_generate om)" and ?ord = "submitted_order sig om"
  define om1 where "om1 = om_log d ORDER_CREATED (debug_string d ?ord) ?l
                  (snd (om_now (snd (om_generate om))))"
  define om2 where "om2 = snd (om_now om1)"
  have om2: "om_inv sq_look sq_inv om2" "books os rs om2 fl" "order_store om2 = order_store om"
    "gateway om2 = gateway om"
    using assms(3,4) by (simp_all add: om2_def om1_def)
  have stored: "books os rs (snd (on_store (st_store_order sqlite_store_ops
      (new_stored_order ?ord ?l None PENDING_SUBMISSION t)) om2)) fl" for t
    using om2 by (intro books_store) (simp_all add: om_inv_def)
  have "\<exists>os'. books os' rs (submit_stored d ?l ?ord p om3) fl"
    if ok: "fst (st_store_order sqlite_store_ops (new_stored_order ?ord ?l None PENDING_SUBMISSION t)
        (order_store om2)) = Inr u"
      and om3: "om3 = snd (on_store (st_store_order sqlite_store_ops
        (new_stored_order ?ord ?l None PENDING_SUBMISSION t)) om2)" for t u om3
  proof -
    have b3: "books os rs om3 fl" unfolding om3 by (rule stored)
    have g3: "gateway om3 = gateway om" by (simp add: om3 om2)
    have l3: "get_broker_id (id_mapper om3) ?l = None"
      "sq_look (order_store om3) ?l = Some (view_of (new_stored_order ?ord ?l None PENDING_SUBMISSION t))"
      using sq.insert_new [OF om2(1) ok] by (simp_all add: om3)
    obtain r g' where call: "paper_submit_order ?ord (gateway om3) = (r, g')"
      by (cases "paper_submit_order ?ord (gateway om3)")
    then have after: "snd (on_gateway (gw_submit_order (gateway_of d) ?ord) om3) = om3\<lparr>gateway := g'\<rparr>"
      "fst (gw_submit_order (gateway_of d) ?ord (gateway om3)) = r"
      by (simp_all add: on_gateway_def assms(2))
    from call show ?thesis
    proof (cases rule: paper_submit_cases)
      case (Rejected e)
      then have "books os rs (om3\<lparr>gateway := g'\<rparr>) fl" using b3 by (simp add: books_def)
      then have "books os rs (submit_stored d ?l ?ord p om3) fl"
        using b3 after Rejected(1)
        by (auto simp: submit_stored_def Let_def split_beta books_submit_rejected [OF assms(1)] split: sum.split)
      then show ?thesis by blast
    next
      case (Accepted b t' price)
      have bij: "mapper_bij (id_mapper om3)" and link: "linked os rs (pending_orders (gateway om3))
          (sq_look (order_store om3)) (id_mapper om3) fl" using b3 by (simp_all add: books_def)
      note acc = books_accept [OF b3 _ _ Accepted(2,3) _ bij link]
      have "books (os(b \<mapsto> ?ord)) rs (om3\<lparr>gateway := g'\<rparr>) fl" "new_at_broker b rs (om3\<lparr>gateway := g'\<rparr>) fl"
        using acc(2,3) assms(5,6) by (simp_all add: g3)
      then have "books (os(b \<mapsto> ?ord)) rs (submit_accepted d ?l b p (om3\<lparr>gateway := g'\<rparr>)) fl"
        using l3 by (intro books_submit_accepted [OF assms(1), where v = "view_of
            (new_stored_order ?ord ?l None PENDING_SUBMISSION t)"]) (simp_all add: view_of_def assms(6))
      then show ?thesis
        using b3 after Accepted(1)
        by (auto simp: submit_stored_def Let_def split_beta split: sum.split
            intro: books_submit_rejected [OF assms(1)])
    qed
  qed
  then show ?thesis
    using om2 stored
    by (auto simp: handle_submit_alt Let_def assms(1) simp flip: om1_def om2_def split: sum.split)
qed

lemma mapper_bij_inj:
  "mapper_bij m \<Longrightarrow> get_broker_id m l = Some b \<Longrightarrow> get_broker_id m l' = Some b \<Longrightarrow> l' = l"
  unfolding mapper_bij_def get_broker_id_def by (metis option.inject)

lemma books_replace_accepted:
  assumes "store_of d = sqlite_store_ops" and "om_inv sq_look sq_inv om"
    and "books os rs (set_mapper (remove_mapping old_l) om) fl"
    and "new_at_broker b rs (set_mapper (remove_mapping old_l) om) fl" and "os b = Some new_ord"
    and "0 < ord_quantity new_ord"
  shows "books os rs (replace_accepted d old_l new_l b new_ord p om) fl"
proof -
  define om1 where "om1 = snd (on_store (st_update_order_status sqlite_store_ops old_l REPLACED)
      (set_mapper (remove_mapping old_l) om))"
  define om2 where "om2 = snd (om_now om1)"
  have om1: "books os rs om1 fl" unfolding om1_def by (rule books_status [OF assms(3)])
  have om2: "books os rs om2 fl" "om_inv sq_look sq_inv om2" "new_at_broker b rs om2 fl"
    using om1 sq.ok_set_status_removed [OF assms(2), of old_l REPLACED] assms(4)
    by (auto simp: om2_def om1_def new_at_broker_def sql_looks split: if_splits)
  let ?so = "\<lambda>t. new_stored_order new_ord new_l (Some b) SUBMITTED t"
  have stored: "books os rs (snd (on_store (st_store_order sqlite_store_ops (?so t)) om2)) fl" for t
    using om2 assms(5) by (intro books_store) (simp_all add: om_inv_def new_at_broker_def)
  have added: "books os rs (set_mapper (add_mapping new_l b)
      (snd (on_store (st_store_order sqlite_store_ops (?so t)) om2))) fl"
    if ok: "fst (st_store_order sqlite_store_ops (?so t) (order_store om2)) = Inr u" for t u
  proof (rule books_add [OF stored, where v = "view_of (?so t)"])
    show "booked os rs (pending_orders (gateway (snd (on_store (st_store_order sqlite_store_ops (?so t)) om2))))
        fl b (view_of (?so t))"
      using new_booked [OF om2(3), of os "view_of (?so t)"] assms(5,6) by (simp add: view_of_def)
    show "sq_look (order_store (snd (on_store (st_store_order sqlite_store_ops (?so t)) om2))) new_l
        = Some (view_of (?so t))"
      "get_broker_id (id_mapper (snd (on_store (st_store_order sqlite_store_ops (?so t)) om2))) new_l = None"
      using sq.insert_new [OF om2(2) ok] by simp_all
    show "\<forall>l. get_broker_id (id_mapper (snd (on_store (st_store_order sqlite_store_ops (?so t)) om2))) l \<noteq> Some b"
      using om2(3) by (simp add: new_at_broker_def)
    have inv: "sq_inv (order_store om2)" using om2(2) by (simp add: om_inv_def)
    show "l' = new_l" if "sq_look (order_store (snd (on_store (st_store_order sqlite_store_ops (?so t)) om2))) l'
        = Some v'" "ov_broker_id v' = Some b" for l' v'
      using that om2(3) sq.store_look [OF inv, of "?so t" l'] by (auto simp: new_at_broker_def split: if_splits)
  qed
  from om1 om2(1) stored added show ?thesis
    by (auto simp: replace_accepted_def Let_def split_beta assms(1) om1_def om2_def split: sum.split)
qed

lemma books_replace:
  assumes "store_of d = sqlite_store_ops" and "gateway_of d = paper_gateway_ops"
    and "om_inv sq_look sq_inv om" and "books os rs om fl"
    and "0 < ids_left (id_gen (gateway om))" and "0 < rep_target_quantity sig"
  shows "\<exists>os'. books os' rs (handle_replace_command d sig p om) fl"
proof (cases "get_broker_id (id_mapper om) (rep_order_id sig)")
  case None
  with assms(4) show ?thesis by (auto simp: handle_replace_command_def)
next
  case (Some old_b)
  let ?old_l = "rep_order_id sig" and ?new_l = "fst (om_generate om)"
  define ord where "ord = (create_order_from_signal (rep_symbol sig) (rep_side sig)
      (rep_target_quantity sig) (rep_strategy_id sig) (om_account_id om)
      (fst (om_now (snd (om_generate om)))))\<lparr>ord_id := ?new_l\<rparr>"
  have qty: "0 < ord_quantity ord" using assms(6) by (simp add: ord_def create_order_from_signal_def)
  define om1 where "om1 = om_log d ORDER_REPLACED (''Replacing '' @ ?old_l @ '' with '' @ ?new_l) ?new_l
      (snd (om_now (snd (om_generate om))))"
  have om1: "books os rs om1 fl" "om_inv sq_look sq_inv om1" "gateway om1 = gateway om"
    "id_mapper om1 = id_mapper om"
    using assms(3,4) by (simp_all add: om1_def)
  obtain r g' where call: "paper_replace_order old_b ord (gateway om1) = (r, g')"
    by (cases "paper_replace_order old_b ord (gateway om1)")
  have handler: "handle_replace_command d sig p om = (case r of
        Inl e \<Rightarrow> set_value p (Order_reply (Inl e)) (om_log d ORDER_REJECTED (message e) ?new_l (om1\<lparr>gateway := g'\<rparr>))
      | Inr b \<Rightarrow> replace_accepted d ?old_l ?new_l b ord p (om1\<lparr>gateway := g'\<rparr>))"
    using call
    by (simp add: handle_replace_command_def Some Let_def split_beta assms(2) on_gateway_def ord_def om1_def
        split: sum.split)
  from call show ?thesis
  proof (cases rule: paper_replace_cases)
    case (Rejected e)
    then have "books os rs (om1\<lparr>gateway := g'\<rparr>) fl" using om1(1) by (simp add: books_def)
    with Rejected(1) handler show ?thesis by auto
  next
    case (Accepted b t price)
    let ?m = "remove_mapping ?old_l (id_mapper om1)"
    let ?ps = "AList.delete old_b (pending_orders (gateway om1))"
    have bij: "mapper_bij (id_mapper om1)" and link: "linked os rs (pending_orders (gateway om1))
        (sq_look (order_store om1)) (id_mapper om1) fl" using om1(1) by (simp_all add: books_def)
    have "linked os rs ?ps (sq_look (order_store om1)) ?m fl"
    proof (rule linked_drop [OF link])
      show "l' = ?old_l" if "get_broker_id (id_mapper om1) l' = Some old_b" for l'
        using mapper_bij_inj [OF bij _ that] Some by (simp add: om1(4))
      show "fst ` set (pending_orders (gateway om1)) - {old_b} \<subseteq> fst ` set ?ps"
        by (auto simp: AList.delete_eq)
    qed
    note acc = books_accept [OF om1(1) _ qty Accepted(2,3) disjI2 [OF refl] mapper_bij_remove [OF bij] this]
    have room: "0 < ids_left (id_gen (gateway om1))" using assms(5) by (simp add: om1(3))
    have same: "set_mapper (remove_mapping ?old_l) (om1\<lparr>gateway := g'\<rparr>) = om1\<lparr>gateway := g', id_mapper := ?m\<rparr>"
      by (simp add: set_mapper_def)
    have inv: "om_inv sq_look sq_inv (om1\<lparr>gateway := g'\<rparr>)" using om1(2) by (simp add: om_inv_def)
    have "books (os(b \<mapsto> ord)) rs (replace_accepted d ?old_l ?new_l b ord p (om1\<lparr>gateway := g'\<rparr>)) fl"
      using acc(2,3) [OF room] by (intro books_replace_accepted [OF assms(1) inv]) (simp_all add: same qty)
    with Accepted(1) handler show ?thesis by auto
  qed
qed

section \<open>Cancelling\<close>

text \<open>The broker drops an order, and the manager the one local id it may be live under.\<close>

lemma books_drop:
  assumes "books os rs om fl" and "\<And>l'. get_broker_id (id_mapper om) l' = Some b \<Longrightarrow> l' = l"
  shows "books os rs (set_mapper (remove_mapping l) (snd (on_gateway (paper_cancel_order b) om))) fl"
proof -
  have "linked os rs (AList.delete b (pending_orders (gateway om))) (sq_look (order_store om))
      (remove_mapping l (id_mapper om)) fl"
  proof (rule linked_drop)
    show "linked os rs (pending_orders (gateway om)) (sq_look (order_store om)) (id_mapper om) fl"
      using assms(1) by (simp add: books_def)
    show "fst ` set (pending_orders (gateway om)) - {b} \<subseteq> fst ` set (AList.delete b (pending_orders (gateway om)))"
      by (auto simp: AList.delete_eq)
  qed (rule assms(2))
  with assms(1) show ?thesis
    by (simp add: books_def paper_cancel_order_def paper_inv_delete mapper_bij_remove)
qed

lemma books_cancel:
  assumes "store_of d = sqlite_store_ops" and "gateway_of d = paper_gateway_ops" and "books os rs om fl"
  shows "books os rs (handle_cancel_command d sig p om) fl"
proof (cases "get_broker_id (id_mapper om) (can_order_id sig)")
  case None
  with assms(3) show ?thesis by (simp add: handle_cancel_command_def)
next
  case (Some b)
  define om1 where "om1 = set_mapper (remove_mapping (can_order_id sig))
    (om_log d ORDER_CANCELLED ''Cancelled'' (can_order_id sig) (snd (on_gateway (paper_cancel_order b) om)))"
  have bij: "mapper_bij (id_mapper om)" using assms(3) by (simp add: books_def)
  have "books os rs (set_mapper (remove_mapping (can_order_id sig))
      (snd (on_gateway (paper_cancel_order b) om))) fl"
    by (rule books_drop [OF assms(3)]) (rule mapper_bij_inj [OF bij Some])
  moreover have "books os rs om1 fl = books os rs (set_mapper (remove_mapping (can_order_id sig))
      (snd (on_gateway (paper_cancel_order b) om))) fl"
    by (rule books_frame) (simp_all add: om1_def)
  ultimately have "books os rs om1 fl" by simp
  from this books_status [OF this, of "can_order_id sig" OrderStatus.CANCELLED] show ?thesis
    using Some
    by (simp add: handle_cancel_command_def Let_def split_beta assms(1,2) paper_cancel_order_def om1_def
        split: sum.split)
qed

text \<open>One round of the kill switch for an order the store lists with its broker id.\<close>

lemma books_cancel_one:
  assumes "store_of d = sqlite_store_ops" and "gateway_of d = paper_gateway_ops"
    and "books os rs om fl" and "sq_healthy (order_store om)"
    and "\<exists>v. sq_look (order_store om) (so_local_id so) = Some v \<and> ov_broker_id v = so_broker_id so"
  shows "books os rs (cancel_one d so om) fl"
proof (cases "so_broker_id so")
  case None
  with assms(3) show ?thesis by (simp add: cancel_one_def)
next
  case (Some b)
  let ?l = "so_local_id so"
  obtain v where v: "sq_look (order_store om) ?l = Some v" "ov_broker_id v = Some b"
    using assms(5) Some by auto
  have link: "linked os rs (pending_orders (gateway om)) (sq_look (order_store om)) (id_mapper om) fl"
    using assms(3) by (simp add: books_def)
  define om1 where "om1 = set_mapper (remove_mapping ?l) (snd (on_gateway (paper_cancel_order b) om))"
  have om1: "books os rs om1 fl"
    unfolding om1_def by (rule books_drop [OF assms(3) linked_broker(2) [OF link v]])
  obtain u where u: "fst (sq_update_order_status ?l OrderStatus.CANCELLED (order_store om)) = Inr u"
    using sqh.healthy_status_ok [OF assms(4), of ?l OrderStatus.CANCELLED] by (auto simp: is_ok_iff)
  have "cancel_one d so om = om_log d ORDER_CANCELLED ''Cancelled by kill switch'' ?l
      (set_mapper (remove_mapping ?l) (snd (on_store (st_update_order_status sqlite_store_ops ?l
        OrderStatus.CANCELLED) (snd (on_gateway (paper_cancel_order b) om)))))"
    using u by (simp add: cancel_one_def Some Let_def split_beta assms(1,2) paper_cancel_order_def)
  moreover have "books os rs (set_mapper (remove_mapping ?l) (snd (on_store (st_update_order_status sqlite_store_ops ?l
        OrderStatus.CANCELLED) (snd (on_gateway (paper_cancel_order b) om))))) fl
      = books os rs (snd (on_store (st_update_order_status sqlite_store_ops ?l OrderStatus.CANCELLED) om1)) fl"
    by (rule books_frame) (simp_all add: om1_def)
  ultimately show ?thesis using books_status [OF om1] by simp
qed

lemma paper_cancels: "gateway_of d = paper_gateway_ops \<Longrightarrow> cancels_succeed (gateway_of d)"
  by (simp add: cancels_succeed_def paper_cancel_order_def)

lemma books_cancel_ones:
  assumes "store_of d = sqlite_store_ops" and "gateway_of d = paper_gateway_ops"
  shows "books os rs om fl \<Longrightarrow> sq_healthy (order_store om) \<Longrightarrow>
    \<forall>so \<in> set sos. \<exists>v. sq_look (order_store om) (so_local_id so) = Some v \<and> ov_broker_id v = so_broker_id so \<Longrightarrow>
    books os rs (foldl (\<lambda>om so. cancel_one d so om) om sos) fl"
proof (induction sos arbitrary: om)
  case Nil
  then show ?case by simp
next
  case (Cons so sos)
  note effect = sqh.cancel_one_effect [OF assms(1) cancels_from_all [OF paper_cancels [OF assms(2)]] Cons.prems(2) TrueI]
  have "books os rs (cancel_one d so om) fl"
    using Cons.prems by (intro books_cancel_one [OF assms]) simp_all
  moreover have "\<exists>v. sq_look (order_store (cancel_one d so om)) (so_local_id so') = Some v
      \<and> ov_broker_id v = so_broker_id so'" if "so' \<in> set sos" for so'
    using Cons.prems(3) that effect [of so "so_local_id so'"] by auto
  ultimately show ?case using Cons.IH effect by simp
qed

lemma books_cancel_all:
  assumes "store_of d = sqlite_store_ops" and "gateway_of d = paper_gateway_ops"
    and "books os rs om fl" and "sq_inv (order_store om)" and "sq_healthy (order_store om)"
  shows "books os rs (handle_cancel_all_command d reason who p om) fl"
proof -
  define om1 where "om1 = snd (on_store (st_get_open_orders sqlite_store_ops)
      (om_log d KILL_SWITCH_ACTIVATED (''Kill switch activated by: '' @ who @ ''. Reason: '' @ reason) '''' om))"
  let ?sos = "fst (st_get_open_orders sqlite_store_ops (order_store om))"
  have om1: "sq_healthy (order_store om1)" "sq_look (order_store om1) = sq_look (order_store om)"
    "id_mapper om1 = id_mapper om" "gateway om1 = gateway om"
    using sqh.healthy_open [OF assms(5)] by (simp_all add: om1_def sql_looks)
  then have "books os rs om1 fl" using assms(3) by (simp add: books_def)
  moreover have "\<exists>v. sq_look (order_store om1) (so_local_id so) = Some v \<and> ov_broker_id v = so_broker_id so"
    if "so \<in> set ?sos" for so
    using sq.open_ok [OF assms(4) that] by (auto simp: om1 view_of_def)
  ultimately have "books os rs (foldl (\<lambda>om so. cancel_one d so om) om1 ?sos) fl"
    using om1(1) by (intro books_cancel_ones [OF assms(1,2)]) auto
  then show ?thesis
    by (simp add: handle_cancel_all_command_def Let_def split_beta assms(1) om1_def)
qed

section \<open>Booking a report\<close>

lemma healthy_get_ok:
  "sq_healthy db \<Longrightarrow> sq_look db l = Some v \<Longrightarrow> \<exists>so. fst (sq_get_order l db) = Inr so"
  by (auto simp: sq_healthy_def op_defs sq_look_def sq_row_def split: option.split)

lemma healthy_fill_ok: "sq_healthy db \<Longrightarrow> is_ok (fst (sq_apply_fill l q p st db))"
  by (simp add: sq_healthy_def op_defs)

lemma books_fill:
  assumes "store_of d = sqlite_store_ops" and "om_inv sq_look sq_inv om"
    and "books os rs om (r # fl)" and "sq_healthy (order_store om)"
  shows "books os rs (handle_fill d r om) fl"
proof -
  let ?b = "er_broker_order_id r" and ?q = "er_filled_quantity r"
  have bij: "mapper_bij (id_mapper om)" and known: "known_reports os fl" and new: "er_status r = V1_NEW"
    and inv: "paper_inv os rs (pending_orders (gateway om)) (id_gen (gateway om))"
    and link: "linked os rs (pending_orders (gateway om)) (sq_look (order_store om)) (id_mapper om) (r # fl)"
    using assms(3) by (auto simp: books_def known_reports_def report_for_def)
  have other: "booked os rs ps fl b v" if "booked os rs ps (r # fl) b v" "b \<noteq> ?b" for ps b v
    using that by (simp add: booked_def)
  show ?thesis
  proof (cases "get_local_id (id_mapper om) ?b")
    case None
    have "get_broker_id (id_mapper om) l \<noteq> Some ?b" for l
      using bij None unfolding mapper_bij_def get_broker_id_def get_local_id_def
      by (metis option.distinct(1))
    then have "linked os rs (pending_orders (gateway om)) (sq_look (order_store om)) (id_mapper om) fl"
      by (intro linkedI) (metis linked_live [OF link] other, (blast dest: linked_broker [OF link])+)
    with bij known inv None show ?thesis by (simp add: handle_fill_def books_def)
  next
    case (Some l)
    then have m: "get_broker_id (id_mapper om) l = Some ?b"
      using bij get_local_id_live [OF mapper_bij_inv] by blast
    from linked_live [OF link m] obtain v where v: "sq_look (order_store om) l = Some v"
      "booked os rs (pending_orders (gateway om)) (r # fl) ?b v" .
    obtain so where so: "fst (sq_get_order l (order_store om)) = Inr so"
      using healthy_get_ok [OF assms(4) v(1)] by blast
    define s1 where "s1 = snd (sq_get_order l (order_store om))"
    have s1: "sq_healthy s1" "sq_inv s1" "sq_look s1 = sq_look (order_store om)"
      using sqh.healthy_get [OF assms(4)] assms(2) sq.get_keeps by (simp_all add: s1_def om_inv_def sql_looks)
    define full where "full \<longleftrightarrow> ord_quantity (so_order so) \<le> so_filled_quantity so + ?q"
    define st where "st = (if full then OrderStatus.FILLED else PARTIALLY_FILLED)"
    define om' where "om' = handle_fill d r om"
    have look: "sq_look (order_store om') l'
        = (if l' = l then Some (fill_view ?q (er_avg_fill_price r) st v) else sq_look (order_store om) l')"
      and rest: "gateway om' = gateway om"
        "id_mapper om' = (if full then remove_mapping l (id_mapper om) else id_mapper om)" for l'
      using Some so v(1) s1 healthy_fill_ok [OF s1(1), of l ?q "er_avg_fill_price r" st]
        sq.fill_look [OF s1(2), of l ?q "er_avg_fill_price r" st l']
      unfolding s1_def st_def
      by (cases full; simp add: om'_def handle_fill_def apply_fill_report_def new Let_def split_beta
          assms(1) full_def)+
    have "linked os rs (pending_orders (gateway om)) (sq_look (order_store om')) (id_mapper om) fl"
    proof (rule linkedI)
      fix l' b' assume m': "get_broker_id (id_mapper om) l' = Some b'"
      from linked_live [OF link m'] obtain v' where v': "sq_look (order_store om) l' = Some v'"
        "booked os rs (pending_orders (gateway om)) (r # fl) b' v'" .
      show "\<exists>v. sq_look (order_store om') l' = Some v \<and> booked os rs (pending_orders (gateway om)) fl b' v"
      proof (cases "l' = l")
        case True
        with m m' v show ?thesis by (auto simp: look booked_def fill_view_def)
      next
        case False
        then have "b' \<noteq> ?b" using mapper_bij_inj [OF bij m] m' by blast
        with False v' other show ?thesis by (simp add: look)
      qed
    next
      fix l1 v1 b' assume "sq_look (order_store om') l1 = Some v1" "ov_broker_id v1 = Some b'"
      then obtain v0 where "sq_look (order_store om) l1 = Some v0" "ov_broker_id v0 = Some b'"
        using v(1) by (auto simp: look fill_view_def split: if_splits)
      from linked_broker [OF link this]
      show "os b' \<noteq> None" and "get_broker_id (id_mapper om) l' = Some b' \<Longrightarrow> l' = l1" for l' .
    qed
    then show ?thesis
      using bij known inv rest by (simp add: books_def mapper_bij_remove linked_remove flip: om'_def)
  qed
qed

section \<open>The threads together\<close>

text \<open>
  A manager with its paper gateway, the report the dispatcher's thread has taken from its queue and
  not handed over yet, and the reports the simulation has made and not queued yet.
\<close>

record 'j paper_system =
  sys_om :: "'j paper_om"
  sys_held :: "execution_report option"
  sys_made :: "execution_report list"

definition started_system ::
  "(paper_gateway, sqlite_store, 'j) deps \<Rightarrow> AccountId \<Rightarrow> position_keeper \<Rightarrow> paper_gateway \<Rightarrow> 'j
   \<Rightarrow> (nat \<Rightarrow> string) \<Rightarrow> risk_limits \<Rightarrow> clock \<Rightarrow> 'j paper_system" where
  "started_system d a pk g j now limits clk =
     \<lparr>sys_om = create_order_manager d a pk g j (open_store (\<lambda>_. None) now) limits clk, sys_held = None,
      sys_made = []\<rparr>"

text \<open>What producers may enqueue: market data, the commands with a positive quantity, the kill switch.\<close>

fun fair_event :: "om_event \<Rightarrow> bool" where
  "fair_event (Fill_event r) = False"
| "fair_event (Submit_command sig p) = (0 < sig_target_quantity sig)"
| "fair_event (Replace_command sig p) = (0 < rep_target_quantity sig)"
| "fair_event _ = True"

text \<open>
  A round of the simulation on the orders, under their lock; its reports are still to be queued. An
  event is handled in one step: between the calls of a handler the other threads touch nothing it
  reads, except that the simulation could run between two cancels of the kill switch.
\<close>

definition sim_round :: "'j paper_system \<Rightarrow> 'j paper_system" where
  "sim_round s =
     (let g = gateway (sys_om s); (rs, g') = simulate_fills g
      in s\<lparr>sys_om := (sys_om s)\<lparr>gateway := g'\<lparr>dispatcher := dispatcher g\<rparr>\<rparr>, sys_made := rs\<rparr>)"

definition sim_queue :: "execution_report \<Rightarrow> 'j paper_system \<Rightarrow> 'j paper_system" where
  "sim_queue r s = s\<lparr>sys_om := (sys_om s)\<lparr>gateway := (gateway (sys_om s))
     \<lparr>dispatcher := enqueue_report r (dispatcher (gateway (sys_om s)))\<rparr>\<rparr>, sys_made := tl (sys_made s)\<rparr>"

inductive sys_step ::
  "(paper_gateway, sqlite_store, 'j) deps \<Rightarrow> 'j paper_system \<Rightarrow> 'j paper_system \<Rightarrow> bool"
  for d :: "(paper_gateway, sqlite_store, 'j) deps" where
  producer: "fair_event ev \<Longrightarrow> sys_step d s (s\<lparr>sys_om := om_enqueue ev (sys_om s)\<rparr>)"
| simulation: "sys_made s = [] \<Longrightarrow> sys_step d s (sim_round s)"
| sim_queues: "sys_made s = r # rs \<Longrightarrow> sys_step d s (sim_queue r s)"
| dispatcher_takes: "sys_held s = None \<Longrightarrow>
     dispatch_one (set_fill_handler (dispatcher (gateway (sys_om s)))) = (Some r, dp) \<Longrightarrow>
     sys_step d s (s\<lparr>sys_om := (sys_om s)\<lparr>gateway := (gateway (sys_om s))\<lparr>dispatcher := dp\<rparr>\<rparr>, sys_held := Some r\<rparr>)"
| dispatcher_hands: "sys_held s = Some r \<Longrightarrow>
     sys_step d s (s\<lparr>sys_om := om_enqueue (Fill_event r) (sys_om s), sys_held := None\<rparr>)"
| dispatch: "q_pop st (queue (sys_om s)) = Popped ev q \<Longrightarrow> 0 < ids_left (id_gen (gateway (sys_om s))) \<Longrightarrow>
     sys_step d s (s\<lparr>sys_om := (handle_event d ev ((sys_om s)\<lparr>queue := q\<rparr>))\<lparr>queue := q_mark_processed q\<rparr>\<rparr>)"
| journal_moves: "sys_step d s (s\<lparr>sys_om := (sys_om s)\<lparr>journal := j\<rparr>\<rparr>)"
| sinks_move: "sys_step d s (s\<lparr>sys_om := (sys_om s)\<lparr>tick_sink := ts, bar_sink := bs, fill_sink := fs\<rparr>\<rparr>)"

text \<open>The reports on their way, the oldest first.\<close>

definition queued_reports :: "om_event list \<Rightarrow> execution_report list" where
  "queued_reports evs = concat (map (\<lambda>ev. case ev of Fill_event r \<Rightarrow> [r] | _ \<Rightarrow> []) evs)"

definition in_transit :: "'j paper_system \<Rightarrow> execution_report list" where
  "in_transit s = queued_reports (q_items (queue (sys_om s)))
     @ (case sys_held s of None \<Rightarrow> [] | Some r \<Rightarrow> [r])
     @ reports_queue (dispatcher (gateway (sys_om s))) @ sys_made s"

lemma queued_reports_simps [simp]:
  "queued_reports [] = []" "queued_reports (xs @ ys) = queued_reports xs @ queued_reports ys"
  "queued_reports (Fill_event r # evs) = r # queued_reports evs"
  "\<forall>r. ev \<noteq> Fill_event r \<Longrightarrow> queued_reports (ev # evs) = queued_reports evs"
  by (simp_all add: queued_reports_def split: om_event.split)

definition fair_queue :: "om_event list \<Rightarrow> bool" where
  "fair_queue evs \<longleftrightarrow> (\<forall>ev \<in> set evs. fair_event ev \<or> (\<exists>r. ev = Fill_event r))"

definition sys_inv :: "'j paper_system \<Rightarrow> bool" where
  "sys_inv s \<longleftrightarrow>
     om_inv sq_look sq_inv (sys_om s) \<and> sq_healthy (order_store (sys_om s))
   \<and> fair_queue (q_items (queue (sys_om s)))
   \<and> (\<exists>os rs. books os rs (sys_om s) (in_transit s))"

lemma enqueue_fill_queue [simp]:
  "q_items (queue (om_enqueue (Fill_event r) om)) = q_items (queue om) @ [Fill_event r]"
  by (simp add: om_enqueue_def q_push_def)

lemma om_enqueue_frame [simp]:
  "order_store (om_enqueue ev om) = order_store om" "id_mapper (om_enqueue ev om) = id_mapper om"
  "gateway (om_enqueue ev om) = gateway om" "open_order_count (om_enqueue ev om) = open_order_count om"
  by (simp_all add: om_enqueue_def)

lemma enqueue_queue:
  "q_items (queue (om_enqueue ev om)) = q_items (queue om)
   \<or> q_items (queue (om_enqueue ev om)) = q_items (queue om) @ [ev]"
  by (auto simp: om_enqueue_def q_push_def q_try_push_def split: if_splits)

text \<open>No handler touches the dispatcher's queue.\<close>

lemma paper_calls_dispatcher:
  "cancels_from (\<lambda>g. dispatcher g = dp) paper_gateway_ops"
  by (simp add: cancels_from_def paper_submit_order_def paper_replace_order_def paper_cancel_order_def
      pg_generate_def Let_def split_beta)

lemma books_event:
  assumes "store_of d = sqlite_store_ops" and "gateway_of d = paper_gateway_ops"
    and "om_inv sq_look sq_inv om" and "sq_healthy (order_store om)"
    and "0 < ids_left (id_gen (gateway om))" and "fair_event ev" and "books os rs om fl"
  shows "\<exists>os'. books os' rs (handle_event d ev om) fl"
proof (cases ev)
  case (Submit_command sig p)
  with assms show ?thesis by (simp add: books_submit)
next
  case (Cancel_command sig p)
  with books_cancel [OF assms(1,2,7)] show ?thesis by auto
next
  case (Replace_command sig p)
  with assms show ?thesis by (simp add: books_replace)
next
  case (Cancel_all_command reason who p)
  with books_cancel_all [OF assms(1,2,7) _ assms(4)] assms(3) show ?thesis by (auto simp: om_inv_def)
next
  case (Bar_event b)
  have "books os rs (handle_bar b om) fl = books os rs om fl"
    by (rule books_frame) (simp_all add: handle_bar_def split: option.split)
  with Bar_event assms(7) show ?thesis by auto
next
  case (Tick_event t)
  have "books os rs (handle_tick t om) fl = books os rs om fl"
    by (rule books_frame) (simp_all add: handle_tick_def split: option.split)
  with Tick_event assms(7) show ?thesis by auto
qed (use assms(6) in simp)

lemma sys_inv_dispatch:
  assumes "store_of d = sqlite_store_ops" and "gateway_of d = paper_gateway_ops" and "sys_inv s"
    and "q_pop st (queue (sys_om s)) = Popped ev q" and "0 < ids_left (id_gen (gateway (sys_om s)))"
  shows "sys_inv (s\<lparr>sys_om := (handle_event d ev ((sys_om s)\<lparr>queue := q\<rparr>))\<lparr>queue := q_mark_processed q\<rparr>\<rparr>)"
proof -
  let ?om = "(sys_om s)\<lparr>queue := q\<rparr>"
  have items: "q_items (queue (sys_om s)) = ev # q_items q"
    using assms(4) by (auto simp: q_pop_def split: list.splits if_splits)
  obtain os rs where b: "books os rs ?om (in_transit s)" using assms(3) by (auto simp: sys_inv_def)
  have inv: "om_inv sq_look sq_inv ?om" "sq_healthy (order_store ?om)" "fair_queue (ev # q_items q)"
    using assms(3) by (simp_all add: sys_inv_def items)
  have room: "0 < ids_left (id_gen (gateway ?om))" using assms(5) by simp
  have steady: "sq_healthy (order_store (handle_event d ev ?om))"
    "dispatcher (gateway (handle_event d ev ?om)) = dispatcher (gateway (sys_om s))"
    using sqh.steady_handle_event [OF assms(1) paper_calls_dispatcher [folded assms(2)] inv(2)] by simp_all
  define tail where "tail = queued_reports (q_items q) @ (case sys_held s of None \<Rightarrow> [] | Some r \<Rightarrow> [r])
      @ reports_queue (dispatcher (gateway (sys_om s))) @ sys_made s"
  have "\<exists>os'. books os' rs (handle_event d ev ?om) tail"
  proof (cases "\<exists>r. ev = Fill_event r")
    case True
    then obtain r where r: "ev = Fill_event r" by blast
    then have "in_transit s = r # tail" by (simp add: in_transit_def tail_def items)
    with b have "books os rs ?om (r # tail)" by simp
    from books_fill [OF assms(1) inv(1) this inv(2)] r show ?thesis by auto
  next
    case False
    then have "in_transit s = tail" by (simp add: in_transit_def tail_def items)
    moreover have "fair_event ev" using inv(3) False by (auto simp: fair_queue_def)
    ultimately show ?thesis using books_event [OF assms(1,2) inv(1,2) room] b by simp
  qed
  then show ?thesis
    using sq.ok_handle_event [OF assms(1) inv(1)] steady inv(3)
    by (auto simp: sys_inv_def in_transit_def tail_def q_mark_processed_def fair_queue_def)
qed

text \<open>
  A round of the simulation: an order that was pending stays so or is completely reported now, and
  what is reported is on its way.
\<close>

lemma round_pending:
  assumes "paper_inv os rs ps g" and "round_ok ps ps' new" and "booked os rs ps fl c v"
  shows "c \<in> fst ` set ps' \<or> reported c (rs @ new) = ord_quantity (ov_order v)"
proof (cases "c \<in> fst ` set ps")
  case True
  then obtain sim where e: "(c, sim) \<in> set ps" by auto
  then have sim: "sim_order sim = ov_order v" "cumulative_filled sim = reported c rs" "0 \<le> reported c rs"
    using assms(1,3) by (fastforce simp: paper_inv_def booked_def sim_ok_def)+
  have pos: "0 \<le> reported c new"
    using assms(2) by (intro reported_nonneg) (auto simp: round_ok_def report_for_def)
  show ?thesis
  proof (cases "sim_ok (moved_on new (c, sim))")
    case True
    with e assms(2) have "(c, moved_on new (c, sim)) \<in> set ps'"
      unfolding round_ok_def by force
    then show ?thesis by force
  next
    case False
    have "cumulative_filled (moved_on new (c, sim)) \<le> ord_quantity (sim_order sim)"
      using e assms(2) unfolding round_ok_def by fastforce
    with False sim pos show ?thesis by (simp add: sim_ok_def)
  qed
next
  case False
  then have "c \<notin> set (map fst ps)" by auto
  with False assms(3) round_ok_other [OF assms(2)] show ?thesis by (simp add: booked_def)
qed

lemma linked_round:
  assumes "paper_inv os rs ps g" and "round_ok ps ps' new" and "linked os rs ps view m fl"
  shows "linked os (rs @ new) ps' view m (fl @ new)"
proof (rule linkedI)
  fix l c assume "get_broker_id m l = Some c"
  from linked_live [OF assms(3) this] obtain v where v: "view l = Some v" "booked os rs ps fl c v" .
  with round_pending [OF assms(1,2) v(2)] show "\<exists>v. view l = Some v \<and> booked os (rs @ new) ps' (fl @ new) c v"
    by (auto simp: booked_def)
next
  fix l v c assume "view l = Some v" "ov_broker_id v = Some c"
  from linked_broker [OF assms(3) this]
  show "os c \<noteq> None" and "get_broker_id m l' = Some c \<Longrightarrow> l' = l" for l' .
qed

lemma sys_inv_step:
  assumes "store_of d = sqlite_store_ops" and "gateway_of d = paper_gateway_ops"
    and "sys_step d s s'" and "sys_inv s"
  shows "sys_inv s'"
  using assms(3,4)
proof (induction rule: sys_step.induct)
  case (producer ev s)
  have "queued_reports (q_items (queue (om_enqueue ev (sys_om s)))) = queued_reports (q_items (queue (sys_om s)))"
    using enqueue_queue [of ev "sys_om s"] producer.hyps by (cases ev) auto
  moreover have "fair_queue (q_items (queue (om_enqueue ev (sys_om s))))"
    using enqueue_queue [of ev "sys_om s"] producer by (auto simp: sys_inv_def fair_queue_def)
  ultimately show ?case
    using producer.prems
    by (simp add: sys_inv_def in_transit_def om_inv_def books_def)
next
  case (simulation s)
  let ?g = "gateway (sys_om s)"
  obtain os rs where b: "books os rs (sys_om s) (in_transit s)"
    using simulation.prems by (auto simp: sys_inv_def)
  obtain new g' where sim: "simulate_fills ?g = (new, g')" by (cases "simulate_fills ?g")
  have inv: "paper_inv os rs (pending_orders ?g) (id_gen ?g)"
    and link: "linked os rs (pending_orders ?g) (sq_look (order_store (sys_om s))) (id_mapper (sys_om s)) (in_transit s)"
    using b by (simp_all add: books_def)
  have round: "round_ok (pending_orders ?g) (pending_orders g') new" "id_gen g' = id_gen ?g"
    using simulate_fills_round [OF _ _ sim] inv by (auto simp: paper_inv_def)
  let ?g' = "g'\<lparr>dispatcher := dispatcher ?g\<rparr>"
  have transit: "in_transit (sim_round s) = in_transit s @ new"
    using sim simulation.hyps by (simp add: in_transit_def sim_round_def Let_def)
  have inv': "paper_inv os (rs @ new) (pending_orders g') (id_gen g')"
    using paper_inv_round [OF inv round(1)] by (simp add: round(2))
  have "linked os (rs @ new) (pending_orders g') (sq_look (order_store (sys_om s))) (id_mapper (sys_om s))
      (in_transit s @ new)"
    by (rule linked_round [OF inv round(1) link])
  moreover have "known_reports os (in_transit s @ new)"
    using inv' b by (auto simp: paper_inv_def books_def known_reports_def)
  ultimately have "books os (rs @ new) ((sys_om s)\<lparr>gateway := ?g'\<rparr>) (in_transit s @ new)"
    using b inv' by (simp add: books_def)
  moreover have "sys_om (sim_round s) = (sys_om s)\<lparr>gateway := ?g'\<rparr>"
    using sim by (simp add: sim_round_def Let_def)
  ultimately show ?case
    using simulation.prems transit by (auto simp: sys_inv_def om_inv_def)
next
  case (sim_queues s r rs)
  then have "in_transit (sim_queue r s) = in_transit s"
    by (simp add: in_transit_def sim_queue_def enqueue_report_def)
  with sim_queues show ?case
    by (auto simp: sys_inv_def om_inv_def books_def sim_queue_def)
next
  case (dispatcher_takes s r dp)
  then obtain rest where "reports_queue (dispatcher (gateway (sys_om s))) = r # rest" "reports_queue dp = rest"
    by (auto simp: dispatch_one_def set_fill_handler_def split: list.splits if_splits)
  with dispatcher_takes show ?case
    by (auto simp: sys_inv_def om_inv_def in_transit_def books_def)
next
  case (dispatcher_hands s r)
  then show ?case
    by (auto simp: sys_inv_def om_inv_def in_transit_def books_def fair_queue_def)
next
  case (dispatch st s ev q)
  from sys_inv_dispatch [OF assms(1,2) dispatch.prems dispatch.hyps] show ?case .
next
  case (journal_moves s j)
  then show ?case by (simp add: sys_inv_def om_inv_def in_transit_def books_def)
next
  case (sinks_move s ts bs fs)
  then show ?case by (simp add: sys_inv_def om_inv_def in_transit_def books_def)
qed

lemma sys_inv_started:
  assumes "gateway_of d = paper_gateway_ops"
  shows "sys_inv (started_system d a pk (new_paper_gateway us ns gclk) j now limits clk)"
proof -
  let ?om = "create_order_manager d a pk (new_paper_gateway us ns gclk) j (open_store (\<lambda>_. None) now) limits clk"
  have "sq_healthy (open_store (\<lambda>_. None) now)" by (simp add: sq_healthy_def open_store_def)
  moreover have "books Map.empty [] ?om []"
    using assms
    by (simp add: books_def create_order_manager_def paper_start_def new_paper_gateway_def paper_inv_def
        known_reports_def linked_def)
  moreover have "in_transit \<lparr>sys_om = ?om, sys_held = None, sys_made = []\<rparr> = []"
    using assms
    by (simp add: in_transit_def create_order_manager_def empty_queue_def paper_start_def
        new_paper_gateway_def start_dispatcher_def new_dispatch_base_def)
  ultimately show ?thesis
    using om_inv_create [of d a pk "new_paper_gateway us ns gclk" j "\<lambda>_. None" now limits clk]
    by (auto simp: sys_inv_def started_system_def fair_queue_def create_order_manager_def empty_queue_def)
qed

lemma sys_inv_reach:
  assumes "(sys_step d)\<^sup>*\<^sup>* s0 s" and "store_of d = sqlite_store_ops"
    and "gateway_of d = paper_gateway_ops" and "sys_inv s0"
  shows "sys_inv s"
  using assms(1) by (induction rule: rtranclp_induct) (auto intro: sys_inv_step assms)

text \<open>
  C5. While no statement of the SQLite order store fails, quantities are positive and the id counter
  of the broker has room, the broker and the order manager never disagree about a live order. However
  the simulation, its queueing of reports, the dispatcher, the producers and the dispatch thread (one
  event a step) interleave, with any random draws, what the paper gateway has filled of a live order
  is what the order store has booked for it plus the reports that are on their way; an order that is
  no longer pending at the broker is completely filled that way. So a live order is always pending,
  or a report for it is still coming: none is forgotten.
\<close>

theorem paper_books_agree:
  assumes "(sys_step d)\<^sup>*\<^sup>* (started_system d a pk (new_paper_gateway us ns gclk) j now limits clk) s"
    and "store_of d = sqlite_store_ops" and "gateway_of d = paper_gateway_ops"
    and "get_broker_id (id_mapper (sys_om s)) l = Some b"
  shows "\<exists>v. sq_look (order_store (sys_om s)) l = Some v
       \<and> (case map_of (pending_orders (gateway (sys_om s))) b of
            Some sim \<Rightarrow> sim_order sim = ov_order v
              \<and> cumulative_filled sim = ov_filled v + reported b (in_transit s)
          | None \<Rightarrow> ov_filled v + reported b (in_transit s) = ord_quantity (ov_order v)
              \<and> 0 < reported b (in_transit s))"
proof -
  note inv = sys_inv_reach [OF assms(1-3) sys_inv_started [OF assms(3)]]
  then obtain os rs where b: "books os rs (sys_om s) (in_transit s)" by (auto simp: sys_inv_def)
  then have pi: "paper_inv os rs (pending_orders (gateway (sys_om s))) (id_gen (gateway (sys_om s)))"
    and link: "linked os rs (pending_orders (gateway (sys_om s))) (sq_look (order_store (sys_om s)))
      (id_mapper (sys_om s)) (in_transit s)"
    by (simp_all add: books_def)
  from linked_live [OF link assms(4)] obtain v where v: "sq_look (order_store (sys_om s)) l = Some v"
    "booked os rs (pending_orders (gateway (sys_om s))) (in_transit s) b v" .
  have live: "live_view v"
    using sq.mapped_live [OF _ assms(4) v(1)] inv by (simp add: sys_inv_def)
  show ?thesis
  proof (cases "map_of (pending_orders (gateway (sys_om s))) b")
    case None
    then have "b \<notin> fst ` set (pending_orders (gateway (sys_om s)))"
      by (simp add: map_of_eq_None_iff)
    with None v live show ?thesis by (auto simp: booked_def live_view_def)
  next
    case (Some sim)
    from map_of_SomeD [OF Some] pi have "os b = Some (sim_order sim)" "cumulative_filled sim = reported b rs"
      by (fastforce simp: paper_inv_def)+
    with Some v show ?thesis by (auto simp: booked_def)
  qed
qed

definition paper_deps :: "(paper_gateway, sqlite_store, sqlite_journal) deps" where
  "paper_deps =
     \<lparr>gateway_of = paper_gateway_ops, store_of = sqlite_store_ops, journal_of = sqlite_journal_ops,
      debug_string = (\<lambda>ord. ''''), fmt_double = (\<lambda>x. '''')\<rparr>"

lemma paper_deps_simps [simp]:
  "gateway_of paper_deps = paper_gateway_ops" "store_of paper_deps = sqlite_store_ops"
  "journal_of paper_deps = sqlite_journal_ops"
  by (simp_all add: paper_deps_def)

definition sample_system :: "sqlite_journal paper_system" where
  "sample_system = started_system paper_deps ''ACC'' [] (new_paper_gateway (\<lambda>_. 1 / 2) (\<lambda>_. 0) sample_clock)
     (open_journal sample_clock (\<lambda>_. False) (\<lambda>_. False)) (\<lambda>_. '''') no_limits sample_clock"

lemma sample_paper_submit:
  fixes q :: "om_event event_queue"
  defines "om \<equiv> (sys_om sample_system)\<lparr>queue := q\<rparr>"
  shows "get_broker_id (id_mapper (handle_submit_command paper_deps sample_signal 7 om))
      (fst (om_generate om)) = Some (format_order_id ''BROKER'' 0 0)"
proof -
  obtain t where t: "timestamp_to_string 0 = Inr t"
    using timestamp_to_string_ok [of 0] by (auto simp: in_i64_def)
  have clock: "readings (om_clock om) = (\<lambda>_. 0)"
    by (simp add: om_def sample_system_def started_system_def create_order_manager_def sample_clock_def)
  have state: "order_store om = open_store (\<lambda>_. None) (\<lambda>_. '''')" "risk_manager om = no_limits"
    "gateway om = paper_start (new_paper_gateway (\<lambda>_. 1 / 2) (\<lambda>_. 0) sample_clock)"
    by (simp_all add: om_def sample_system_def started_system_def create_order_manager_def)
  have "fst (paper_submit_order ord (paper_start (new_paper_gateway (\<lambda>_. 1 / 2) (\<lambda>_. 0) sample_clock)))
      = Inr (format_order_id ''BROKER'' 0 0)" for ord
    by (simp add: op_defs paper_start_def new_paper_gateway_def default_config_def Let_def split_beta
        sample_clock_def clock_now_def generate_def mk_generator_def)
  then show ?thesis
    using clock state
    by (simp add: handle_submit_alt Let_def t submit_stored_def submit_accepted_def split_beta
        op_defs open_store_def broker_taken_def)
qed

theorem paper_books_agree_witness:
  "\<exists>s l b v. (sys_step paper_deps)\<^sup>*\<^sup>* sample_system s \<and> get_broker_id (id_mapper (sys_om s)) l = Some b
     \<and> sq_look (order_store (sys_om s)) l = Some v
     \<and> (case map_of (pending_orders (gateway (sys_om s))) b of
          Some sim \<Rightarrow> cumulative_filled sim = ov_filled v + reported b (in_transit s)
        | None \<Rightarrow> ov_filled v + reported b (in_transit s) = ord_quantity (ov_order v))"
proof -
  let ?ev = "Submit_command sample_signal 7"
  let ?q = "\<lparr>q_items = [], total_pushed = 1, total_processed = 0, total_dropped = 0\<rparr>"
  let ?s1 = "sample_system\<lparr>sys_om := om_enqueue ?ev (sys_om sample_system)\<rparr>"
  let ?om = "(sys_om ?s1)\<lparr>queue := ?q\<rparr>"
  let ?s2 = "?s1\<lparr>sys_om := (handle_event paper_deps ?ev ?om)\<lparr>queue := q_mark_processed ?q\<rparr>\<rparr>"
  let ?s3 = "sim_round ?s2"
  have same: "?om = (sys_om sample_system)\<lparr>queue := ?q\<rparr>"
    by (simp add: om_enqueue_def)
  have pop: "q_pop False (queue (sys_om ?s1)) = Popped ?ev ?q"
    by (simp add: sample_system_def started_system_def create_order_manager_def om_enqueue_def q_pop_def
        q_push_def empty_queue_def)
  have room: "0 < ids_left (id_gen (gateway (sys_om ?s1)))"
    by (simp add: sample_system_def started_system_def create_order_manager_def paper_start_def
        new_paper_gateway_def ids_left_def mk_generator_def)
  have "sys_step paper_deps sample_system ?s1" by (rule producer) (simp add: sample_signal_def)
  moreover have "sys_step paper_deps ?s1 ?s2" by (rule dispatch [OF pop room])
  moreover have "sys_step paper_deps ?s2 ?s3" by (rule simulation) (simp add: sample_system_def started_system_def)
  ultimately have reach: "(sys_step paper_deps)\<^sup>*\<^sup>* sample_system ?s3"
    by (meson rtranclp.rtrancl_refl rtranclp.rtrancl_into_rtrancl)
  have mapped: "get_broker_id (id_mapper (sys_om ?s3)) (fst (om_generate ?om))
      = Some (format_order_id ''BROKER'' 0 0)"
    using sample_paper_submit [of ?q] unfolding same by (simp add: sim_round_def Let_def split_beta)
  from paper_books_agree [OF reach [unfolded sample_system_def] _ _ mapped [unfolded sample_system_def],
      folded sample_system_def]
  obtain v where v: "sq_look (order_store (sys_om ?s3)) (fst (om_generate ?om)) = Some v"
    "case map_of (pending_orders (gateway (sys_om ?s3))) (format_order_id ''BROKER'' 0 0) of
      Some sim \<Rightarrow> sim_order sim = ov_order v
        \<and> cumulative_filled sim = ov_filled v + reported (format_order_id ''BROKER'' 0 0) (in_transit ?s3)
    | None \<Rightarrow> ov_filled v + reported (format_order_id ''BROKER'' 0 0) (in_transit ?s3) = ord_quantity (ov_order v)
        \<and> 0 < reported (format_order_id ''BROKER'' 0 0) (in_transit ?s3)"
    by auto
  have "case map_of (pending_orders (gateway (sys_om ?s3))) (format_order_id ''BROKER'' 0 0) of
      Some sim \<Rightarrow> cumulative_filled sim = ov_filled v + reported (format_order_id ''BROKER'' 0 0) (in_transit ?s3)
    | None \<Rightarrow> ov_filled v + reported (format_order_id ''BROKER'' 0 0) (in_transit ?s3) = ord_quantity (ov_order v)"
    using v(2) by (auto split: option.splits)
  with reach mapped v(1) show ?thesis by blast
qed

end
