(* ===== verification/Databases.thy ===== *)
theory Databases
  imports JournalHistory OrderLifecycle TradingEngineFacts
begin

text \<open>
  The files behind a strategy: the constructors and destructors of \<open>SQLiteOrderStore\<close> and
  \<open>SQLiteJournal\<close>, what a strategy finds again when it is registered after the engine was restarted or
  the strategy was stopped, and what it does not.

  Of SQLite only this is used: a file keeps the rows of a table from one connection to the next, its
  two tables apart, \<open>CREATE TABLE IF NOT EXISTS\<close> leaves an existing table alone, and the names
  \<open>:memory:\<close> and the empty one give a new database that is gone when it is closed. Which file a name
  leads to (the working directory, dots, links) is up to the operating system: a field of \<open>disk\<close>, so
  two names may lead to one file. Opening a file and creating the tables may fail, with a message.
\<close>

section \<open>Files\<close>

record disk =
  file_of :: "string \<Rightarrow> string"
  order_table :: "string \<Rightarrow> order_row list"
  journal_table :: "string \<Rightarrow> journal_row list"
  open_error :: "string \<Rightarrow> string option"
  schema_error :: "string \<Rightarrow> string option"

definition memory_path :: string where
  "memory_path = '':memory:''"

text \<open>A name passed on with \<open>c_str()\<close> ends at its first null character.\<close>

definition c_str :: "string \<Rightarrow> string" where
  "c_str = takeWhile (\<lambda>c. c \<noteq> CHR 0x00)"

definition private_name :: "string \<Rightarrow> bool" where
  "private_name full_path \<longleftrightarrow> c_str full_path = memory_path \<or> c_str full_path = []"

definition order_store_path :: "string \<Rightarrow> string" where
  "order_store_path db_path = (if db_path = memory_path then db_path else db_path @ ''_order_store.db'')"

definition journal_path :: "string \<Rightarrow> string" where
  "journal_path db_path = (if db_path = memory_path then db_path else db_path @ ''_journal.db'')"

definition order_file :: "disk \<Rightarrow> string \<Rightarrow> string" where
  "order_file d db_path = file_of d (c_str (order_store_path db_path))"

definition journal_file :: "disk \<Rightarrow> string \<Rightarrow> string" where
  "journal_file d db_path = file_of d (c_str (journal_path db_path))"

definition create_order_schema :: "disk \<Rightarrow> string \<Rightarrow> string + order_row list" where
  "create_order_schema d full_path =
     (case schema_error d (c_str full_path) of
        Some msg \<Rightarrow> Inl (''Failed to create order store schema: '' @ msg)
      | None \<Rightarrow>
          Inr (if private_name full_path then [] else order_table d (file_of d (c_str full_path))))"

definition open_order_store ::
  "disk \<Rightarrow> (nat \<Rightarrow> db_fault option) \<Rightarrow> (nat \<Rightarrow> string) \<Rightarrow> string \<Rightarrow> string + sqlite_store" where
  "open_order_store d fs now db_path =
     (let full_path = order_store_path db_path
      in case open_error d (c_str full_path) of
           Some msg \<Rightarrow> Inl (''Failed to open order store database: '' @ msg)
         | None \<Rightarrow>
             (case create_order_schema d full_path of
                Inl err \<Rightarrow> Inl err
              | Inr rs \<Rightarrow> Inr ((open_store fs now)\<lparr>rows := rs\<rparr>)))"

text \<open>What a closed connection leaves in the file, when it was the only one open on it.\<close>

definition close_order_store :: "string \<Rightarrow> sqlite_store \<Rightarrow> disk \<Rightarrow> disk" where
  "close_order_store db_path s d =
     (if private_name (order_store_path db_path) then d
      else d\<lparr>order_table := (order_table d)(order_file d db_path := rows s)\<rparr>)"

definition create_journal_schema :: "disk \<Rightarrow> string \<Rightarrow> string + journal_row list" where
  "create_journal_schema d full_path =
     (case schema_error d (c_str full_path) of
        Some msg \<Rightarrow> Inl (''Failed to create journal schema: '' @ msg)
      | None \<Rightarrow>
          Inr (if private_name full_path then [] else journal_table d (file_of d (c_str full_path))))"

text \<open>The argument \<open>j\<close> carries the clock and the database with what will fail in it.\<close>

definition open_sqlite_journal :: "disk \<Rightarrow> sqlite_journal \<Rightarrow> string \<Rightarrow> string + sqlite_journal" where
  "open_sqlite_journal d j db_path =
     (let full_path = journal_path db_path
      in case open_error d (c_str full_path) of
           Some msg \<Rightarrow> Inl (''Failed to open journal database: '' @ msg)
         | None \<Rightarrow>
             (case create_journal_schema d full_path of
                Inl err \<Rightarrow> Inl err
              | Inr rs \<Rightarrow> Inr (reopen_journal rs j)))"

text \<open>
  The destructor waits in \<open>flush\<close> and then in \<open>join\<close> while the writer works; no caller is left, so
  both waits end where the writer's loop does. \<open>None\<close> while it still runs.
\<close>

definition close_journal :: "nat \<Rightarrow> string \<Rightarrow> sqlite_journal \<Rightarrow> disk \<Rightarrow> disk option" where
  "close_journal n db_path j d =
     map_option
       (\<lambda>j'. if private_name (journal_path db_path) then d
             else d\<lparr>journal_table := (journal_table d)(journal_file d db_path := journal_rows j')\<rparr>)
       (writer_loop n j)"

section \<open>Closing and opening again\<close>

lemma same_rows:
  assumes "rows s = rows s'"
  shows "sq_look s = sq_look s'" and "sq_inv s = sq_inv s'"
  unfolding sq_inv_def sq_look_def [abs_def] sq_row_def assms by simp_all

definition usable :: "disk \<Rightarrow> string \<Rightarrow> bool" where
  "usable d full_path \<longleftrightarrow> \<not> private_name full_path
     \<and> open_error d (c_str full_path) = None \<and> schema_error d (c_str full_path) = None"

lemmas open_defs =
  open_order_store_def create_order_schema_def open_sqlite_journal_def create_journal_schema_def
  order_file_def journal_file_def

lemma open_usable:
  "usable d (order_store_path p) \<Longrightarrow>
   open_order_store d fs now p = Inr ((open_store fs now)\<lparr>rows := order_table d (order_file d p)\<rparr>)"
  "usable d (journal_path p) \<Longrightarrow>
   open_sqlite_journal d j p = Inr (reopen_journal (journal_table d (journal_file d p)) j)"
  by (simp_all add: usable_def open_defs Let_def)

lemma close_order_store_frame [simp]:
  "journal_table (close_order_store p s d) = journal_table d"
  "open_error (close_order_store p s d) = open_error d"
  "schema_error (close_order_store p s d) = schema_error d"
  "file_of (close_order_store p s d) = file_of d"
  "order_file (close_order_store p s d) q = order_file d q"
  "journal_file (close_order_store p s d) q = journal_file d q"
  "usable (close_order_store p s d) f = usable d f"
  "order_table (close_order_store p s d) f
   = (if f = order_file d p \<and> \<not> private_name (order_store_path p) then rows s else order_table d f)"
  by (simp_all add: close_order_store_def usable_def order_file_def journal_file_def)

text \<open>The engine's environment when the order stores are on a disk: its tables are as stores left them.\<close>

definition rows_ok :: "order_row list \<Rightarrow> bool" where
  "rows_ok rs \<longleftrightarrow> sq_inv ((open_store (\<lambda>_. None) (\<lambda>_. ''''))\<lparr>rows := rs\<rparr>)"

lemma rows_ok_inv: "rows_ok (rows s) = sq_inv s"
  unfolding rows_ok_def by (rule same_rows(2)) simp

lemma rows_ok_Nil [simp]: "rows_ok []"
  using rows_ok_inv [of "open_store fs now" for fs now] by (simp add: open_store_def sq_inv_def brokers_ok_def id_pairs_def)

definition tables_ok :: "disk \<Rightarrow> bool" where
  "tables_ok d \<longleftrightarrow> (\<forall>f. rows_ok (order_table d f))"

lemma tables_ok_close: "tables_ok d \<Longrightarrow> sq_inv s \<Longrightarrow> tables_ok (close_order_store p s d)"
  by (simp add: tables_ok_def rows_ok_inv)

lemma opened_rows:
  "open_order_store d fs now p = Inr s \<Longrightarrow> rows s = [] \<or> (\<exists>f. rows s = order_table d f)"
  by (auto simp: open_defs Let_def split: option.splits if_splits)

lemma tables_ok_open: "tables_ok d \<Longrightarrow> open_order_store d fs now p = Inr s \<Longrightarrow> sq_inv s"
  by (drule opened_rows) (auto simp: tables_ok_def simp flip: rows_ok_inv)

definition on_disk ::
  "disk \<Rightarrow> (StrategyId \<Rightarrow> nat \<Rightarrow> nat \<Rightarrow> db_fault option) \<Rightarrow> (nat \<Rightarrow> string) \<Rightarrow> engine_env \<Rightarrow> engine_env" where
  "on_disk d fs now env = env\<lparr>env_store := (\<lambda>sid a. open_order_store d (fs sid a) now sid)\<rparr>"

lemma env_ok_on_disk: "tables_ok d \<Longrightarrow> env_ok (on_disk d fs now env)"
  by (auto simp: env_ok_def on_disk_def intro: tables_ok_open)

lemma close_order_store_others [simp]:
  "order_file d q \<noteq> order_file d p \<Longrightarrow>
   open_order_store (close_order_store p s d) fs now q = open_order_store d fs now q"
  "open_sqlite_journal (close_order_store p s d) w q = open_sqlite_journal d w q"
  by (simp_all add: open_defs Let_def split: option.split)

lemma close_journal_disk:
  assumes "close_journal n p j d = Some d'"
  obtains "d' = d" | rs where "d' = d\<lparr>journal_table := (journal_table d)(journal_file d p := rs)\<rparr>"
  using assms by (cases "private_name (journal_path p)") (auto simp: close_journal_def)

lemma journal_table_frame:
  fixes d :: disk and p :: string and rs :: "journal_row list"
  defines "d' \<equiv> d\<lparr>journal_table := (journal_table d)(journal_file d p := rs)\<rparr>"
  shows "open_order_store d' fs now q = open_order_store d fs now q"
    and "journal_file d q \<noteq> journal_file d p \<Longrightarrow> open_sqlite_journal d' w q = open_sqlite_journal d w q"
    and "usable d' f = usable d f"
    and "journal_file d' q = journal_file d q"
  by (simp_all add: d'_def open_defs usable_def Let_def split: option.split)

lemma close_journal_frame:
  assumes "close_journal n p j d = Some d'"
  shows "open_order_store d' fs now q = open_order_store d fs now q"
    and "journal_file d q \<noteq> journal_file d p \<Longrightarrow> open_sqlite_journal d' w q = open_sqlite_journal d w q"
    and "usable d' f = usable d f"
    and "journal_file d' q = journal_file d q"
  by (rule close_journal_disk [OF assms]; simp add: journal_table_frame)+

lemma close_journal_rows:
  assumes "close_journal n p j d = Some d'" and "\<not> private_name (journal_path p)"
  obtains j1 where "writer_loop n j = Some j1" "journal_table d' (journal_file d p) = journal_rows j1"
  using assms by (auto simp: close_journal_def)

lemma close_journal_returns:
  assumes "journal_reach acc j"
  obtains j1 where "writer_loop (3 * length (write_queue j) + 3) j = Some j1" "journal_reach acc j1"
    "writer j1 = Waiting" "write_queue j1 = []" "no_journal_faults j1 = no_journal_faults j"
proof -
  have "writer_work j < 3 * length (write_queue j) + 3"
    by (simp add: writer_work_def split: writer_place.split)
  from writer_loop_returns [OF this assms] that show ?thesis by (auto simp: no_journal_faults_def)
qed

text \<open>
  C19. What a strategy wrote is there when its databases are opened again. When the names of its two
  files can be opened, closing both objects ends, the journal's writer first emptying its queue. Then
  every id whose name leads to the same file, the strategy's own among them, gets an order store that
  shows the same orders, and a journal that goes on as one with the old one: the result of inserting
  the accepted entries in the order they were logged (an insert is ignored when a row has the same
  time, correlation id and event), less those a failing statement lost, none if none failed. An id
  whose name leads to another file opens what it would have opened before.
\<close>

theorem databases_reopen:
  assumes "usable d (order_store_path p)" and "usable d (journal_path p)" and "journal_reach acc j"
  shows "\<exists>d' kept w.
      close_journal (3 * length (write_queue j) + 3) p j (close_order_store p s d) = Some d'
    \<and> subseq kept acc \<and> (no_journal_faults j \<longrightarrow> kept = acc)
    \<and> (\<forall>q. if order_file d q = order_file d p
           then usable d (order_store_path q) \<longrightarrow>
             (\<exists>s'. open_order_store d' fs now q = Inr s' \<and> sq_look s' = sq_look s \<and> sq_inv s' = sq_inv s)
           else open_order_store d' fs now q = open_order_store d fs now q)
    \<and> (\<forall>q. if journal_file d q = journal_file d p
           then usable d (journal_path q) \<longrightarrow>
             (\<exists>j'. open_sqlite_journal d' w q = Inr j' \<and> journal_reach acc j'
                \<and> journal_rows j' = foldl insert_or_ignore [] (map row_of_entry kept))
           else open_sqlite_journal d' w q = open_sqlite_journal d w q)"
proof -
  have p: "\<not> private_name (order_store_path p)" "\<not> private_name (journal_path p)"
    using assms(1,2) by (simp_all add: usable_def)
  let ?n = "3 * length (write_queue j) + 3" and ?d = "close_order_store p s d"
  obtain j1 where j1: "writer_loop ?n j = Some j1" "journal_reach acc j1" "writer j1 = Waiting"
    "write_queue j1 = []" "no_journal_faults j1 = no_journal_faults j"
    using close_journal_returns [OF assms(3)] by metis
  then obtain d' where d': "close_journal ?n p j ?d = Some d'" by (auto simp: close_journal_def)
  note frame = close_journal_frame [OF d']
  have table: "journal_table d' (journal_file d p) = journal_rows j1"
    using close_journal_rows [OF d' p(2)] j1(1) by auto
  obtain kept where kept: "subseq kept acc" "journal_rows j1 = recorded kept"
    "no_failure_yet j1 \<longrightarrow> kept = acc"
    using journal_kept_reach [OF j1(2)] j1(3,4) by (auto simp: journal_kept_def)
  then have all: "no_journal_faults j \<longrightarrow> kept = acc"
    using j1(5) by (auto simp: no_failure_yet_def no_journal_faults_def)
  let ?s = "(open_store fs now)\<lparr>rows := rows s\<rparr>"
  have same: "sq_look ?s = sq_look s" "sq_inv ?s = sq_inv s" by (rule same_rows; simp)+
  have store: "open_order_store d' fs now q = Inr ?s"
    if "order_file d q = order_file d p" "usable d (order_store_path q)" for q
    using open_usable(1) [of ?d q fs now] that p(1) by (simp add: frame(1))
  have journal: "open_sqlite_journal d' j1 q = Inr (reopen_journal (journal_rows j1) j1)"
    if "journal_file d q = journal_file d p" "usable d (journal_path q)" for q
    using open_usable(2) [of d' q j1] that table by (simp add: frame(3,4))
  have goes_on: "journal_reach acc (reopen_journal (journal_rows j1) j1)"
    by (rule jr_reopen) (rule j1)+
  have rows: "journal_rows (reopen_journal (journal_rows j1) j1)
      = foldl insert_or_ignore [] (map row_of_entry kept)"
    using kept(2) by (simp add: reopen_journal_def recorded_def)
  have other_store: "open_order_store d' fs now q = open_order_store d fs now q"
    if "order_file d q \<noteq> order_file d p" for q
    using that frame(1) by simp
  have other_journal: "open_sqlite_journal d' j1 q = open_sqlite_journal d j1 q"
    if "journal_file d q \<noteq> journal_file d p" for q
    using that frame(2) by simp
  show ?thesis
    by (rule exI [of _ d'], rule exI [of _ kept], rule exI [of _ j1])
      (use d' kept(1) all store same journal goes_on rows other_store other_journal in \<open>simp; blast\<close>)
qed

definition empty_disk :: disk where
  "empty_disk = \<lparr>file_of = (\<lambda>f. if take 2 f = ''./'' then drop 2 f else f), order_table = (\<lambda>f. []),
     journal_table = (\<lambda>f. []), open_error = (\<lambda>f. None), schema_error = (\<lambda>f. None)\<rparr>"

lemma empty_disk_usable [simp]: "usable empty_disk f \<longleftrightarrow> \<not> private_name f"
  by (simp add: usable_def empty_disk_def)

lemmas name_defs = order_store_path_def journal_path_def memory_path_def c_str_def private_name_def
  order_file_def journal_file_def empty_disk_def

lemma S1_names [simp]:
  "\<not> private_name (order_store_path ''S1'')" "\<not> private_name (journal_path ''S1'')"
  by (simp_all add: name_defs)

text \<open>The ids \<open>S1\<close> and \<open>./S1\<close> are two strategies with one order store and one journal.\<close>

theorem databases_reopen_witness:
  "\<exists>d' s' j' w. close_journal 6 ''S1'' sample_logged (close_order_store ''S1'' live_store empty_disk) = Some d'
     \<and> open_order_store d' (\<lambda>_. None) (\<lambda>_. '''') ''./S1'' = Inr s'
     \<and> sq_look s' ''ORD_1'' = Some live_order_view
     \<and> open_sqlite_journal d' w ''./S1'' = Inr j' \<and> journal_rows j' = [row_of_entry sample_entry]
     \<and> open_order_store d' (\<lambda>_. None) (\<lambda>_. '''') ''S2'' = open_order_store empty_disk (\<lambda>_. None) (\<lambda>_. '''') ''S2''"
proof -
  have u: "usable empty_disk (order_store_path ''S1'')" "usable empty_disk (journal_path ''S1'')" by simp_all
  have files: "order_file empty_disk ''./S1'' = order_file empty_disk ''S1''"
    "journal_file empty_disk ''./S1'' = journal_file empty_disk ''S1''"
    "usable empty_disk (order_store_path ''./S1'')" "usable empty_disk (journal_path ''./S1'')"
    "order_file empty_disk ''S2'' \<noteq> order_file empty_disk ''S1''"
    by (simp_all, simp_all add: name_defs)
  from databases_reopen [OF u sample_logged_simps(1), of live_store "\<lambda>_. None" "\<lambda>_. ''''"]
  obtain d' kept w where
    d': "close_journal 6 ''S1'' sample_logged (close_order_store ''S1'' live_store empty_disk) = Some d'"
    and kept: "kept = [sample_entry]"
    and all: "\<forall>q. if order_file empty_disk q = order_file empty_disk ''S1''
           then usable empty_disk (order_store_path q) \<longrightarrow>
             (\<exists>s'. open_order_store d' (\<lambda>_. None) (\<lambda>_. '''') q = Inr s' \<and> sq_look s' = sq_look live_store \<and> sq_inv s' = sq_inv live_store)
           else open_order_store d' (\<lambda>_. None) (\<lambda>_. '''') q = open_order_store empty_disk (\<lambda>_. None) (\<lambda>_. '''') q"
    and allj: "\<forall>q. if journal_file empty_disk q = journal_file empty_disk ''S1''
           then usable empty_disk (journal_path q) \<longrightarrow>
             (\<exists>j'. open_sqlite_journal d' w q = Inr j' \<and> journal_reach [sample_entry] j'
                \<and> journal_rows j' = foldl insert_or_ignore [] (map row_of_entry kept))
           else open_sqlite_journal d' w q = open_sqlite_journal empty_disk w q"
    by (elim exE conjE) (simp add: sample_logged_simps(2,4))
  show ?thesis
    using d' kept spec [OF all, of "''./S1''"] spec [OF all, of "''S2''"] spec [OF allj, of "''./S1''"] files
    by (fastforce simp: insert_or_ignore_def)
qed

text \<open>An id with a null character has its files cut there: both tables are in the file of the prefix.\<close>

lemma null_character_cuts_names:
  "\<forall>c \<in> set p. c \<noteq> CHR 0x00 \<Longrightarrow>
   order_file d (p @ CHR 0x00 # r) = file_of d p \<and> journal_file d (p @ CHR 0x00 # r) = file_of d p"
  using takeWhile_append2 [of p "\<lambda>c. c \<noteq> CHR 0x00"]
  by (auto simp: order_file_def journal_file_def order_store_path_def journal_path_def c_str_def memory_path_def
      Cons_eq_append_conv append_eq_Cons_conv)

section \<open>A restart\<close>

text \<open>
  C20. A restart loses control of the open orders. When a strategy's order manager is gone and a new one
  is made on the same databases, the orders are all stored as before, but none is live: a cancel or a
  replacement of an order of the earlier run is refused, every report for one is dropped, and no order
  counts as open for the risk check. Whatever events follow, short of a kill switch, such an order
  stays in the store exactly as it was, even while it is filled at the broker. The kill switch does
  reach it: with cancels and statements succeeding, it cancels those that were open at the broker.
\<close>

theorem restart_orphans_live_orders:
  assumes "usable d (order_store_path p)" and "sq_inv (order_store om)"
    and "open_order_store (close_order_store p (order_store om) d) fs now p = Inr s"
    and "om' = create_order_manager dp a [] gw j s limits clk" and "store_of dp = sqlite_store_ops"
    and "sq_look (order_store om) l = Some v"
    and "\<forall>ev \<in> set evs. \<not> is_cancel_all ev"
  shows "sq_look (order_store om') l = Some v \<and> open_order_count om' = 0
       \<and> handle_cancel_command dp (csig\<lparr>can_order_id := l\<rparr>) pr om'
         = set_value pr (Unit_reply (Inl (mk_error (''Cannot find broker ID for order: '' @ l) Error))) om'
       \<and> handle_replace_command dp (rsig\<lparr>rep_order_id := l\<rparr>) pr om'
         = set_value pr (Order_reply (Inl (mk_error (''Cannot find broker ID for order: '' @ l) Error))) om'
       \<and> handle_fill dp r om' = om'
       \<and> sq_look (order_store (handle_events dp evs om')) l = Some v
       \<and> (cancels_succeed (gateway_of dp) \<and> (\<forall>n. fs n = None) \<longrightarrow>
           sq_look (order_store (handle_cancel_all_command dp reason who pr om')) l = Some (switched_off v))"
proof -
  have s: "s = (open_store fs now)\<lparr>rows := rows (order_store om)\<rparr>"
    using open_usable(1) [of "close_order_store p (order_store om) d" p fs now] assms(1,3)
    by (simp add: usable_def)
  then have same: "sq_look s = sq_look (order_store om)" "sq_inv s"
    using same_rows [of s "order_store om"] assms(2) by simp_all
  then have om': "om_inv sq_look sq_inv om'" "out_of_reach sq_look l v om'"
    using assms(4,6) by (simp_all add: om_inv_def create_order_manager_def live_ok_def out_of_reach_def)
  have "sq_healthy s" if "\<forall>n. fs n = None"
    using that s by (simp add: sq_healthy_def open_store_def)
  then have switch: "sq_look (order_store (handle_cancel_all_command dp reason who pr om')) l
      = Some (switched_off v)" if "cancels_succeed (gateway_of dp)" "\<forall>n. fs n = None"
    using sqh.cancel_all_effect(1) [OF assms(5) cancels_from_all [OF that(1)],
        where om = om' and l = l and reason = reason and who = who and p = pr] that(2) same om'
    by (simp add: out_of_reach_def assms(4) create_order_manager_def om_inv_def)
  show ?thesis
    using sq.out_of_reach_events [OF assms(5) om' assms(7)] om'(2) switch
    by (simp add: out_of_reach_def assms(4) create_order_manager_def handle_cancel_command_def
        handle_replace_command_def handle_fill_def)
qed

theorem restart_orphans_live_orders_witness:
  "\<exists>s (om' :: (nat, sqlite_store, sqlite_journal) order_manager).
     open_order_store (close_order_store ''S1'' live_store empty_disk) (\<lambda>_. None) (\<lambda>_. '''') ''S1'' = Inr s
     \<and> sq_look (order_store (handle_events sample_deps [Fill_event final_fill] om')) ''ORD_1'' = Some live_order_view
     \<and> sq_look (order_store (handle_cancel_all_command sample_deps ''test'' ''ops'' 7 om')) ''ORD_1''
       = Some (live_order_view\<lparr>ov_status := OrderStatus.CANCELLED\<rparr>)"
proof -
  have usable: "usable empty_disk (order_store_path ''S1'')" by simp
  then obtain s where s:
    "open_order_store (close_order_store ''S1'' (order_store live_om) empty_disk) (\<lambda>_. None) (\<lambda>_. '''') ''S1'' = Inr s"
    using open_usable(1) [of "close_order_store ''S1'' live_store empty_disk" "''S1''"] by simp
  let ?om = "create_order_manager sample_deps ''ACC'' [] 0 (open_journal sample_clock (\<lambda>_. False) (\<lambda>_. False))
    s no_limits sample_clock"
  have "sq_look (order_store live_om) ''ORD_1'' = Some live_order_view" by simp
  from restart_orphans_live_orders [OF usable _ s refl _ this, where dp = sample_deps
      and evs = "[Fill_event final_fill]" and a = "''ACC''" and gw = 0
      and j = "open_journal sample_clock (\<lambda>_. False) (\<lambda>_. False)" and limits = no_limits
      and clk = sample_clock and pr = 7 and reason = "''test''" and who = "''ops''"]
  show ?thesis
    using s by (intro exI [of _ s] exI [of _ ?om])
      (simp add: cancels_succeed_def switched_off_def at_broker_def open_statuses_def)
qed

end
