(* ===== verification/RunWait.thy ===== *)
theory RunWait
  imports Prelude
begin

text \<open>
  How \<open>TradingEngine::Run\<close> waits for the end: the condition variable \<open>run_cv_\<close> with \<open>running_\<close> and
  \<open>run_mu_\<close>, and the threads that end the wait, the one of \<open>signal_handler\<close> and those in a
  \<open>halt_all\<close>. A region under the lock is one step, and so is a call of \<open>notify_one\<close>; the steps of
  the threads interleave freely.
\<close>

section \<open>State and steps\<close>

text \<open>The main thread is about to test \<open>running_\<close> under the lock, asleep in \<open>wait\<close>, or past it.\<close>

datatype run_place = About_to_test | Asleep | Past_wait

text \<open>A stopping thread has still to take the lock, has set the flag, or has notified.\<close>

datatype stop_place = Before_lock | Flag_set | Has_notified

text \<open>
  Thread 0 is the one of \<open>signal_handler\<close>: it first needs a \<open>SIGINT\<close> or \<open>SIGTERM\<close> to be pending, which
  \<open>sigwait\<close> then consumes. All threads of the process have the two signals blocked.
\<close>

record run_state =
  running_flag :: bool
  run_at :: run_place
  stop_at :: "nat \<Rightarrow> stop_place"
  signal_pending :: bool
  signal_taken :: bool

definition before_run :: run_state where
  "before_run = \<lparr>running_flag = True, run_at = About_to_test, stop_at = (\<lambda>i. Before_lock),
     signal_pending = False, signal_taken = False\<rparr>"

text \<open>
  \<open>wait\<close> tests the condition, and sleeps if it does not hold, without giving the lock away in between;
  it may also wake up by itself.
\<close>

definition run_test :: "run_state \<Rightarrow> run_state" where
  "run_test r = r\<lparr>run_at := (if running_flag r then Asleep else Past_wait)\<rparr>"

definition take_signal :: "run_state \<Rightarrow> run_state" where
  "take_signal r = r\<lparr>signal_pending := False, signal_taken := True\<rparr>"

definition set_stop :: "nat \<Rightarrow> run_state \<Rightarrow> run_state" where
  "set_stop i r = r\<lparr>running_flag := False, stop_at := (stop_at r)(i := Flag_set)\<rparr>"

definition notify_run :: "nat \<Rightarrow> run_state \<Rightarrow> run_state" where
  "notify_run i r =
     r\<lparr>stop_at := (stop_at r)(i := Has_notified),
       run_at := (if run_at r = Asleep then About_to_test else run_at r)\<rparr>"

inductive run_step :: "run_state \<Rightarrow> run_state \<Rightarrow> bool" where
  tests: "run_at r = About_to_test \<Longrightarrow> run_step r (run_test r)"
| wakes: "run_at r = Asleep \<Longrightarrow> run_step r (r\<lparr>run_at := About_to_test\<rparr>)"
| signalled: "run_step r (r\<lparr>signal_pending := True\<rparr>)"
| takes: "signal_pending r \<Longrightarrow> \<not> signal_taken r \<Longrightarrow> run_step r (take_signal r)"
| sets: "stop_at r i = Before_lock \<Longrightarrow> i = 0 \<longrightarrow> signal_taken r \<Longrightarrow> run_step r (set_stop i r)"
| notifies: "stop_at r i = Flag_set \<Longrightarrow> run_step r (notify_run i r)"

inductive_cases run_stepE: "run_step r r'"

lemmas run_defs = run_test_def take_signal_def set_stop_def notify_run_def before_run_def

section \<open>No stop is lost\<close>

text \<open>While the main thread sleeps although it was told to stop, somebody has still to notify it.\<close>

definition wait_inv :: "run_state \<Rightarrow> bool" where
  "wait_inv r \<longleftrightarrow>
     (running_flag r \<longleftrightarrow> (\<forall>i. stop_at r i = Before_lock))
   \<and> (run_at r = Asleep \<and> \<not> running_flag r \<longrightarrow> (\<exists>i. stop_at r i = Flag_set))
   \<and> (run_at r = Past_wait \<longrightarrow> \<not> running_flag r)
   \<and> (stop_at r 0 \<noteq> Before_lock \<longrightarrow> signal_taken r)"

lemma wait_inv_step: "run_step r r' \<Longrightarrow> wait_inv r \<Longrightarrow> wait_inv r'"
proof (induction rule: run_step.induct)
  case (notifies r i)
  then show ?case by (auto simp: wait_inv_def notify_run_def)
qed (auto simp: wait_inv_def run_defs)

lemma wait_inv_reach: "run_step\<^sup>*\<^sup>* before_run r \<Longrightarrow> wait_inv r"
proof (induction rule: rtranclp_induct)
  case base
  show ?case by (simp add: wait_inv_def before_run_def)
next
  case (step r r')
  then show ?case by (blast intro: wait_inv_step)
qed

text \<open>
  C25. No stop is lost and none is made up. Whenever some thread has set the flag, by a signal or by a
  halt, and nobody is still about to notify, the main thread is not asleep, and its next test of the
  flag is its last: it is past the wait after at most one step of its own. And it never gets past the
  wait before a signal was taken or a halt has set the flag.
\<close>

theorem run_wait_ends:
  assumes "run_step\<^sup>*\<^sup>* before_run r"
  shows "((\<exists>i. stop_at r i \<noteq> Before_lock) \<and> (\<forall>i. stop_at r i \<noteq> Flag_set) \<longrightarrow>
            run_at r = Past_wait \<or> run_at r = About_to_test \<and> run_at (run_test r) = Past_wait)
       \<and> (run_at r = Past_wait \<longrightarrow> signal_taken r \<or> (\<exists>i. i \<noteq> 0 \<and> stop_at r i \<noteq> Before_lock))"
proof -
  note inv = wait_inv_reach [OF assms, unfolded wait_inv_def]
  show ?thesis
    using inv by (cases "run_at r") (auto simp: run_test_def, metis)
qed

theorem run_wait_ends_witness:
  "\<exists>r. run_step\<^sup>*\<^sup>* before_run r \<and> stop_at r 1 = Has_notified
     \<and> run_at r \<noteq> Asleep \<and> run_at (run_test r) = Past_wait"
proof -
  let ?r1 = "run_test before_run"
  let ?r2 = "set_stop 1 ?r1"
  let ?r3 = "notify_run 1 ?r2"
  have "run_step before_run ?r1" "run_step ?r1 ?r2" "run_step ?r2 ?r3"
    by (rule tests sets notifies; simp add: run_defs)+
  then have reach: "run_step\<^sup>*\<^sup>* before_run ?r3"
    by (meson rtranclp.rtrancl_refl rtranclp.rtrancl_into_rtrancl)
  with run_wait_ends [OF reach] show ?thesis
    by (intro exI [of _ ?r3]) (simp add: run_defs split: if_splits)
qed

end
