(* ===== verification/PaperThreads.thy ===== *)
theory PaperThreads
  imports PaperGateway
begin

text \<open>
  The threads of the paper gateway: the simulation thread of \<open>gateways/paper_trading_gateway.cpp\<close>, the
  dispatcher thread of \<open>GatewayDispatchBase\<close> with its condition variable, and the thread that calls
  \<open>stop\<close>. A region under a lock is one step, except the wait: there the dispatcher tests the
  condition and goes to sleep with the lock held in between, and a \<open>notify\<close> needs no lock.
\<close>

section \<open>State and steps\<close>

text \<open>
  The simulation thread is about to test \<open>running_\<close>, has reports of its round to queue, has queued one
  and still has to notify, sleeps, or has ended.
\<close>

datatype sim_place =
  Sim_test | Sim_queues "execution_report list" | Sim_notifies "execution_report list"
| Sim_sleeps | Sim_ended

text \<open>
  The dispatcher wants the lock, has found nothing to do and still holds the lock, sleeps in \<open>wait\<close>
  without it, calls the fill handler, or has ended.
\<close>

datatype dispatcher_place =
  Wants_lock | Found_idle | In_wait | Hands_over execution_report | Dispatcher_ended

datatype stop_call =
  Before_stop | Running_cleared | Simulation_joined | Stop_set | Dispatcher_told | Stop_returned

text \<open>\<open>reports_made\<close> and \<open>reports_handed\<close> record what was simulated and what the fill handler was called with.\<close>

record gateway_threads =
  gt_gateway :: paper_gateway
  gt_sim :: sim_place
  gt_dispatcher :: dispatcher_place
  gt_stop :: stop_call
  gt_token :: bool
  reports_made :: "execution_report list"
  reports_handed :: "execution_report list"

text \<open>After \<open>start\<close>, which the order manager calls when it has set the fill handler.\<close>

definition started_threads :: "paper_gateway \<Rightarrow> gateway_threads" where
  "started_threads pg =
     \<lparr>gt_gateway = paper_start (pg\<lparr>dispatcher := set_fill_handler (dispatcher pg)\<rparr>),
      gt_sim = Sim_test, gt_dispatcher = Wants_lock, gt_stop = Before_stop, gt_token = False,
      reports_made = [], reports_handed = []\<rparr>"

abbreviation gt_queue :: "gateway_threads \<Rightarrow> execution_report list" where
  "gt_queue t \<equiv> reports_queue (dispatcher (gt_gateway t))"

definition wake :: "gateway_threads \<Rightarrow> gateway_threads" where
  "wake t = (if gt_dispatcher t = In_wait then t\<lparr>gt_dispatcher := Wants_lock\<rparr> else t)"

text \<open>
  \<open>simulate_fills\<close> works on the orders under their lock and then queues its reports one by one, each
  under the lock of the queue.
\<close>

definition simulate_orders :: "gateway_threads \<Rightarrow> gateway_threads" where
  "simulate_orders t =
     (let (rs, pg) = simulate_fills (gt_gateway t)
      in t\<lparr>gt_gateway := pg\<lparr>dispatcher := dispatcher (gt_gateway t)\<rparr>, gt_sim := Sim_queues rs,
           reports_made := reports_made t @ rs\<rparr>)"

definition queue_report :: "execution_report \<Rightarrow> gateway_threads \<Rightarrow> gateway_threads" where
  "queue_report r t = t\<lparr>gt_gateway := (gt_gateway t)
     \<lparr>dispatcher := enqueue_report r (dispatcher (gt_gateway t))\<rparr>\<rparr>"

inductive simulation_step :: "gateway_threads \<Rightarrow> gateway_threads \<Rightarrow> bool" where
  sim_round: "gt_sim t = Sim_test \<Longrightarrow> running (gt_gateway t) \<Longrightarrow> simulation_step t (simulate_orders t)"
| sim_ends: "gt_sim t = Sim_test \<Longrightarrow> \<not> running (gt_gateway t) \<Longrightarrow>
     simulation_step t (t\<lparr>gt_sim := Sim_ended\<rparr>)"
| sim_pushes: "gt_sim t = Sim_queues (r # rs) \<Longrightarrow> gt_dispatcher t \<noteq> Found_idle \<Longrightarrow>
     simulation_step t ((queue_report r t)\<lparr>gt_sim := Sim_notifies rs\<rparr>)"
| sim_notifies: "gt_sim t = Sim_notifies rs \<Longrightarrow>
     simulation_step t ((wake t)\<lparr>gt_sim := Sim_queues rs\<rparr>)"
| sim_naps: "gt_sim t = Sim_queues [] \<Longrightarrow> simulation_step t (t\<lparr>gt_sim := Sim_sleeps\<rparr>)"
| sim_wakes: "gt_sim t = Sim_sleeps \<Longrightarrow> simulation_step t (t\<lparr>gt_sim := Sim_test\<rparr>)"

text \<open>One test of the dispatcher: it takes a report, leaves its loop, or finds nothing to do.\<close>

definition test_queue :: "gateway_threads \<Rightarrow> gateway_threads" where
  "test_queue t =
     (if gt_queue t = []
      then t\<lparr>gt_dispatcher := (if gt_token t then Dispatcher_ended else Found_idle)\<rparr>
      else let (r, d) = dispatch_one (dispatcher (gt_gateway t))
           in t\<lparr>gt_gateway := (gt_gateway t)\<lparr>dispatcher := d\<rparr>,
                gt_dispatcher := (case r of None \<Rightarrow> Wants_lock | Some x \<Rightarrow> Hands_over x)\<rparr>)"

inductive dispatcher_step :: "gateway_threads \<Rightarrow> gateway_threads \<Rightarrow> bool" where
  disp_tests: "gt_dispatcher t = Wants_lock \<Longrightarrow> dispatcher_step t (test_queue t)"
| disp_waits: "gt_dispatcher t = Found_idle \<Longrightarrow> dispatcher_step t (t\<lparr>gt_dispatcher := In_wait\<rparr>)"
| disp_hands: "gt_dispatcher t = Hands_over r \<Longrightarrow>
     dispatcher_step t (t\<lparr>gt_dispatcher := Wants_lock, reports_handed := reports_handed t @ [r]\<rparr>)"

text \<open>\<open>stop\<close>: end the simulation thread, then \<open>stop_dispatcher\<close>: request the stop, notify, join.\<close>

definition tell_dispatcher :: "gateway_threads \<Rightarrow> gateway_threads" where
  "tell_dispatcher t = (wake t)\<lparr>gt_stop := Dispatcher_told\<rparr>"

inductive stop_step :: "gateway_threads \<Rightarrow> gateway_threads \<Rightarrow> bool" where
  stop_clears: "gt_stop t = Before_stop \<Longrightarrow>
     stop_step t (t\<lparr>gt_gateway := (gt_gateway t)\<lparr>running := False\<rparr>, gt_stop := Running_cleared\<rparr>)"
| stop_joins: "gt_stop t = Running_cleared \<Longrightarrow> gt_sim t = Sim_ended \<Longrightarrow>
     stop_step t (t\<lparr>gt_stop := Simulation_joined\<rparr>)"
| stop_requests: "gt_stop t = Simulation_joined \<Longrightarrow>
     stop_step t (t\<lparr>gt_stop := Stop_set, gt_token := True\<rparr>)"
| stop_tells: "gt_stop t = Stop_set \<Longrightarrow> stop_step t (tell_dispatcher t)"
| stop_returns: "gt_stop t = Dispatcher_told \<Longrightarrow> gt_dispatcher t = Dispatcher_ended \<Longrightarrow>
     stop_step t (t\<lparr>gt_stop := Stop_returned\<rparr>)"

definition program_step :: "gateway_threads \<Rightarrow> gateway_threads \<Rightarrow> bool" where
  "program_step t t' \<longleftrightarrow> simulation_step t t' \<or> dispatcher_step t t' \<or> stop_step t t'"

text \<open>
  Around them the order manager calls the gateway, and \<open>wait\<close> may wake up by itself, which the standard
  allows and does not promise.
\<close>

inductive outside_step :: "gateway_threads \<Rightarrow> gateway_threads \<Rightarrow> bool" where
  out_submits: "outside_step t (t\<lparr>gt_gateway := snd (paper_submit_order ord (gt_gateway t))\<rparr>)"
| out_cancels: "outside_step t (t\<lparr>gt_gateway := snd (paper_cancel_order b (gt_gateway t))\<rparr>)"
| out_replaces: "outside_step t (t\<lparr>gt_gateway := snd (paper_replace_order b ord (gt_gateway t))\<rparr>)"
| out_wakes: "gt_dispatcher t = In_wait \<Longrightarrow> outside_step t (t\<lparr>gt_dispatcher := Wants_lock\<rparr>)"

inductive threads_reach :: "gateway_threads \<Rightarrow> gateway_threads \<Rightarrow> bool" for t0 where
  tr_refl: "threads_reach t0 t0"
| tr_step: "threads_reach t0 t \<Longrightarrow> program_step t t' \<Longrightarrow> threads_reach t0 t'"
| tr_out: "threads_reach t0 t \<Longrightarrow> outside_step t t' \<Longrightarrow> threads_reach t0 t'"

inductive_cases simulation_stepE: "simulation_step t t'"
inductive_cases dispatcher_stepE: "dispatcher_step t t'"
inductive_cases stop_stepE: "stop_step t t'"
inductive_cases outside_stepE: "outside_step t t'"

lemmas thread_step_cases = simulation_stepE dispatcher_stepE stop_stepE outside_stepE

section \<open>No report is lost or doubled\<close>

lemma running_simps [simp]:
  "running (snd (draw_uniform pg)) = running pg"
  "running (snd (draw_normal pg)) = running pg"
  "running (snd (pg_generate pg)) = running pg"
  "running (snd (get_or_init_price s pg)) = running pg"
  by (simp_all add: paper_defs Let_def split_beta split: option.split)

lemma paper_calls_running [simp]:
  "running (snd (paper_submit_order ord pg)) = running pg"
  "running (snd (paper_cancel_order b pg)) = running pg"
  "running (snd (paper_replace_order b ord pg)) = running pg"
  "dispatcher (snd (paper_submit_order ord pg)) = dispatcher pg"
  "dispatcher (snd (paper_cancel_order b pg)) = dispatcher pg"
  "dispatcher (snd (paper_replace_order b ord pg)) = dispatcher pg"
  by (simp_all add: paper_defs Let_def split_beta split: option.split)

lemma fill_quantity_running [simp]: "running (snd (fill_quantity x pg)) = running pg"
  by (simp add: fill_quantity_def Let_def split_beta)

lemma fill_one_running [simp]: "running (snd (snd (fill_one b sim pg))) = running pg"
  by (simp add: fill_one_def Let_def split_beta)

lemma fill_all_running [simp]: "running (snd (snd (fill_all ps pg))) = running pg"
proof (induction ps arbitrary: pg)
  case (Cons p ps)
  then show ?case by (cases p) (simp add: Let_def split_beta split: option.split)
qed simp

lemma advance_running [simp]: "running (snd (advance_all ps pg)) = running pg"
proof (induction ps arbitrary: pg)
  case (Cons p ps)
  then show ?case by (cases p) (simp add: Let_def split_beta)
qed simp

lemma simulate_running [simp]: "running (snd (simulate_fills pg)) = running pg"
  by (simp add: simulate_fills_def advance_prices_def Let_def split_beta)

fun still_to_queue :: "sim_place \<Rightarrow> execution_report list" where
  "still_to_queue (Sim_queues rs) = rs"
| "still_to_queue (Sim_notifies rs) = rs"
| "still_to_queue _ = []"

fun in_hand :: "dispatcher_place \<Rightarrow> execution_report list" where
  "in_hand (Hands_over r) = [r]"
| "in_hand _ = []"

definition threads_inv :: "gateway_threads \<Rightarrow> bool" where
  "threads_inv t \<longleftrightarrow>
     fill_handler_set (dispatcher (gt_gateway t))
   \<and> reports_made t
     = reports_handed t @ in_hand (gt_dispatcher t) @ gt_queue t @ still_to_queue (gt_sim t)
   \<and> (gt_stop t \<noteq> Before_stop \<longrightarrow> \<not> running (gt_gateway t))
   \<and> (gt_stop t \<notin> {Before_stop, Running_cleared} \<longrightarrow> gt_sim t = Sim_ended)
   \<and> (gt_token t \<longleftrightarrow> gt_stop t \<in> {Stop_set, Dispatcher_told, Stop_returned})
   \<and> (gt_dispatcher t = Dispatcher_ended \<longrightarrow> gt_token t)
   \<and> (gt_dispatcher t \<in> {Found_idle, Dispatcher_ended} \<longrightarrow> gt_queue t = [])
   \<and> (gt_dispatcher t = In_wait \<and> gt_queue t \<noteq> [] \<longrightarrow> (\<exists>rs. gt_sim t = Sim_notifies rs))
   \<and> (gt_stop t = Stop_returned \<longrightarrow> gt_dispatcher t = Dispatcher_ended)"

lemmas thread_defs =
  wake_def simulate_orders_def queue_report_def test_queue_def tell_dispatcher_def
  enqueue_report_def dispatch_one_def

lemma threads_inv_started: "reports_queue (dispatcher pg) = [] \<Longrightarrow> threads_inv (started_threads pg)"
  by (simp add: threads_inv_def started_threads_def paper_start_def start_dispatcher_def
      set_fill_handler_def)

lemma threads_inv_simulation: "simulation_step t t' \<Longrightarrow> threads_inv t \<Longrightarrow> threads_inv t'"
  by (induction rule: simulation_step.induct)
    (auto simp: threads_inv_def thread_defs split_beta Let_def)

lemma threads_inv_dispatcher: "dispatcher_step t t' \<Longrightarrow> threads_inv t \<Longrightarrow> threads_inv t'"
  by (induction rule: dispatcher_step.induct)
    (auto simp: threads_inv_def thread_defs split: list.split)

lemma threads_inv_stop: "stop_step t t' \<Longrightarrow> threads_inv t \<Longrightarrow> threads_inv t'"
  by (induction rule: stop_step.induct) (auto simp: threads_inv_def thread_defs)

lemma threads_inv_outside: "outside_step t t' \<Longrightarrow> threads_inv t \<Longrightarrow> threads_inv t'"
  by (induction rule: outside_step.induct) (auto simp: threads_inv_def)

lemma threads_inv_reach: "threads_reach t0 t \<Longrightarrow> threads_inv t0 \<Longrightarrow> threads_inv t"
  by (induction rule: threads_reach.induct)
    (auto simp: program_step_def intro: threads_inv_simulation threads_inv_dispatcher
      threads_inv_stop threads_inv_outside)

section \<open>Stopping\<close>

text \<open>
  The steps the program still has to make once \<open>running_\<close> is cleared: a report that is not queued yet
  costs a push, a notification, and a waking, taking and handing dispatcher.
\<close>

fun sim_work :: "sim_place \<Rightarrow> nat" where
  "sim_work (Sim_queues rs) = 3 + 7 * length rs"
| "sim_work (Sim_notifies rs) = 6 + 7 * length rs"
| "sim_work Sim_sleeps = 2"
| "sim_work Sim_test = 1"
| "sim_work Sim_ended = 0"

fun dispatcher_work :: "dispatcher_place \<Rightarrow> nat" where
  "dispatcher_work (Hands_over r) = 4"
| "dispatcher_work Wants_lock = 3"
| "dispatcher_work Found_idle = 2"
| "dispatcher_work In_wait = 1"
| "dispatcher_work Dispatcher_ended = 0"

fun stop_work :: "stop_call \<Rightarrow> nat" where
  "stop_work Before_stop = 7"
| "stop_work Running_cleared = 6"
| "stop_work Simulation_joined = 5"
| "stop_work Stop_set = 4"
| "stop_work Dispatcher_told = 1"
| "stop_work Stop_returned = 0"

definition work :: "gateway_threads \<Rightarrow> nat" where
  "work t = sim_work (gt_sim t) + 2 * length (gt_queue t) + dispatcher_work (gt_dispatcher t)
     + stop_work (gt_stop t)"

lemma work_simulation:
  "simulation_step t t' \<Longrightarrow> threads_inv t \<Longrightarrow> \<not> running (gt_gateway t) \<Longrightarrow> work t' < work t"
  by (induction rule: simulation_step.induct) (auto simp: work_def thread_defs)

lemma work_dispatcher: "dispatcher_step t t' \<Longrightarrow> threads_inv t \<Longrightarrow> work t' < work t"
  by (induction rule: dispatcher_step.induct)
    (auto simp: threads_inv_def work_def thread_defs split: list.split)

lemma work_stop: "stop_step t t' \<Longrightarrow> work t' < work t"
  by (induction rule: stop_step.induct) (auto simp: work_def thread_defs)

lemma stopping_clears: "threads_inv t \<Longrightarrow> gt_stop t \<noteq> Before_stop \<Longrightarrow> \<not> running (gt_gateway t)"
  by (simp add: threads_inv_def)

lemma work_decreases:
  "threads_inv t \<Longrightarrow> gt_stop t \<noteq> Before_stop \<Longrightarrow> program_step t t' \<Longrightarrow> work t' < work t"
  unfolding program_step_def
  by (elim disjE) (simp_all add: work_simulation stopping_clears work_dispatcher work_stop)

text \<open>The stop has reached the dispatcher: it was notified and is not in its wait.\<close>

definition told_awake :: "gateway_threads \<Rightarrow> bool" where
  "told_awake t \<longleftrightarrow> gt_stop t \<in> {Dispatcher_told, Stop_returned}
     \<and> gt_dispatcher t \<notin> {Found_idle, In_wait}"

lemma told_simulation: "simulation_step t t' \<Longrightarrow> threads_inv t \<Longrightarrow> told_awake t \<Longrightarrow> told_awake t'"
  by (induction rule: simulation_step.induct) (auto simp: threads_inv_def told_awake_def)

lemma told_dispatcher: "dispatcher_step t t' \<Longrightarrow> threads_inv t \<Longrightarrow> told_awake t \<Longrightarrow> told_awake t'"
  by (induction rule: dispatcher_step.induct)
    (auto simp: threads_inv_def told_awake_def thread_defs split: list.split)

lemma told_stop: "stop_step t t' \<Longrightarrow> told_awake t \<Longrightarrow> told_awake t'"
  by (induction rule: stop_step.induct) (auto simp: told_awake_def thread_defs)

lemma told_outside: "outside_step t t' \<Longrightarrow> told_awake t \<Longrightarrow> told_awake t'"
  by (induction rule: outside_step.induct) (auto simp: told_awake_def)

lemma told_awake_reach:
  "threads_reach t0 t \<Longrightarrow> threads_inv t0 \<Longrightarrow> told_awake t0 \<Longrightarrow> told_awake t"
  by (induction rule: threads_reach.induct)
    (auto simp: program_step_def dest: threads_inv_reach
      intro: told_simulation told_dispatcher told_stop told_outside)

lemma told_awake_moves:
  assumes "told_awake t" and "gt_stop t \<noteq> Stop_returned"
  shows "\<exists>t'. program_step t t'"
proof (cases "gt_dispatcher t")
  case Wants_lock
  from disp_tests [OF this] show ?thesis by (auto simp: program_step_def)
next
  case (Hands_over r)
  from disp_hands [OF this] show ?thesis by (auto simp: program_step_def)
next
  case Dispatcher_ended
  from stop_returns [OF _ this] assms show ?thesis by (auto simp: program_step_def told_awake_def)
qed (use assms in \<open>auto simp: told_awake_def\<close>)

text \<open>
  C22. The fill handler is called with every simulated report exactly once and in order, at whatever
  moment the gateway is stopped: in every reachable state the reports handed over, the one in hand, the
  queued ones and those the simulation thread has still to queue are the reports made; when \<open>stop\<close> has
  returned all of them were handed over and both threads have ended, so none comes later. And \<open>stop\<close>
  does return, if the dispatcher is not just between its test and its wait when it is notified: from
  then on the program can always make a step until \<open>stop\<close> has returned, and every step of the program
  uses up some of the remaining work.
\<close>

theorem paper_stop_drains:
  assumes "reports_queue (dispatcher pg) = []" and "threads_reach (started_threads pg) t"
  shows "reports_made t
       = reports_handed t @ in_hand (gt_dispatcher t) @ gt_queue t @ still_to_queue (gt_sim t)
       \<and> (gt_stop t = Stop_returned \<longrightarrow> reports_handed t = reports_made t
            \<and> gt_sim t = Sim_ended \<and> gt_dispatcher t = Dispatcher_ended)
       \<and> (gt_stop t = Stop_set \<and> gt_dispatcher t \<noteq> Found_idle
            \<and> threads_reach (tell_dispatcher t) t' \<and> gt_stop t' \<noteq> Stop_returned \<longrightarrow>
            (\<exists>t''. program_step t' t'') \<and> (\<forall>t''. program_step t' t'' \<longrightarrow> work t'' < work t'))"
proof (intro conjI impI)
  note inv = threads_inv_reach [OF assms(2) threads_inv_started [OF assms(1)]]
  show "reports_made t
      = reports_handed t @ in_hand (gt_dispatcher t) @ gt_queue t @ still_to_queue (gt_sim t)"
    using inv by (simp add: threads_inv_def)
  show "reports_handed t = reports_made t" "gt_sim t = Sim_ended" "gt_dispatcher t = Dispatcher_ended"
    if "gt_stop t = Stop_returned"
    using inv that by (simp_all add: threads_inv_def)
  assume told: "gt_stop t = Stop_set \<and> gt_dispatcher t \<noteq> Found_idle
    \<and> threads_reach (tell_dispatcher t) t' \<and> gt_stop t' \<noteq> Stop_returned"
  then have "threads_inv (tell_dispatcher t)"
    using inv threads_inv_stop [OF stop_tells] by blast
  moreover have "told_awake (tell_dispatcher t)"
    using told by (simp add: told_awake_def tell_dispatcher_def wake_def)
  ultimately have now: "threads_inv t'" "told_awake t'"
    using told by (blast intro: threads_inv_reach told_awake_reach)+
  then show "\<exists>t''. program_step t' t''" using told by (blast intro: told_awake_moves)
  show "\<forall>t''. program_step t' t'' \<longrightarrow> work t'' < work t'"
    using now work_decreases [OF now(1)] by (auto simp: told_awake_def)
qed

text \<open>A gateway without orders whose dispatcher found nothing to do, and is stopped then.\<close>

definition idle_gateway :: paper_gateway where
  "idle_gateway = new_paper_gateway (\<lambda>_. 0) (\<lambda>_. 0) \<lparr>readings = \<lambda>_. 0, reads = 0\<rparr>"

definition before_stop :: "dispatcher_place \<Rightarrow> gateway_threads" where
  "before_stop d = (started_threads idle_gateway)\<lparr>gt_dispatcher := d\<rparr>"

definition stop_set :: "dispatcher_place \<Rightarrow> gateway_threads" where
  "stop_set d = (before_stop d)
     \<lparr>gt_gateway := (gt_gateway (before_stop d))\<lparr>running := False\<rparr>,
      gt_sim := Sim_ended, gt_stop := Stop_set, gt_token := True\<rparr>"

lemmas idle_defs =
  before_stop_def started_threads_def idle_gateway_def new_paper_gateway_def new_dispatch_base_def
  paper_start_def start_dispatcher_def set_fill_handler_def

lemma reach_by:
  "threads_reach t0 t \<Longrightarrow> simulation_step t t' \<Longrightarrow> threads_reach t0 t'"
  "threads_reach t0 t \<Longrightarrow> dispatcher_step t t' \<Longrightarrow> threads_reach t0 t'"
  "threads_reach t0 t \<Longrightarrow> stop_step t t' \<Longrightarrow> threads_reach t0 t'"
  by (auto simp: program_step_def intro: tr_step)

lemma idle_reach:
  "threads_reach (started_threads idle_gateway) (before_stop Found_idle)"
  "threads_reach (started_threads idle_gateway) (before_stop In_wait)"
proof -
  let ?t = "started_threads idle_gateway"
  have "dispatcher_step ?t (test_queue ?t)" by (rule disp_tests) (simp add: started_threads_def)
  moreover have "test_queue ?t = before_stop Found_idle" by (simp add: test_queue_def idle_defs)
  ultimately show found: "threads_reach ?t (before_stop Found_idle)"
    using reach_by(2) [OF tr_refl] by metis
  have "dispatcher_step (before_stop Found_idle) ((before_stop Found_idle)\<lparr>gt_dispatcher := In_wait\<rparr>)"
    by (rule disp_waits) (simp add: before_stop_def)
  moreover have "(before_stop Found_idle)\<lparr>gt_dispatcher := In_wait\<rparr> = before_stop In_wait"
    by (simp add: before_stop_def)
  ultimately show "threads_reach ?t (before_stop In_wait)"
    using reach_by(2) [OF found] by metis
qed

lemma stop_set_reach:
  assumes "threads_reach (started_threads idle_gateway) (before_stop d)"
  shows "threads_reach (started_threads idle_gateway) (stop_set d)"
proof -
  let ?t1 = "(before_stop d)\<lparr>gt_gateway := (gt_gateway (before_stop d))\<lparr>running := False\<rparr>,
    gt_stop := Running_cleared\<rparr>"
  let ?t2 = "?t1\<lparr>gt_sim := Sim_ended\<rparr>"
  let ?t3 = "?t2\<lparr>gt_stop := Simulation_joined\<rparr>"
  have "stop_step (before_stop d) ?t1"
    by (rule stop_clears) (simp add: before_stop_def started_threads_def)
  note reach1 = reach_by(3) [OF assms this]
  have "simulation_step ?t1 ?t2"
    by (rule sim_ends) (simp_all add: before_stop_def started_threads_def)
  note reach2 = reach_by(1) [OF reach1 this]
  have "stop_step ?t2 ?t3" by (rule stop_joins) simp_all
  note reach3 = reach_by(3) [OF reach2 this]
  have "stop_step ?t3 (?t3\<lparr>gt_stop := Stop_set, gt_token := True\<rparr>)"
    by (rule stop_requests) simp
  from reach_by(3) [OF reach3 this] show ?thesis by (simp add: stop_set_def)
qed

theorem paper_stop_drains_witness:
  "gt_stop (stop_set In_wait) = Stop_set
   \<and> (\<exists>t. program_step (tell_dispatcher (stop_set In_wait)) t
          \<and> work t < work (tell_dispatcher (stop_set In_wait)))"
proof -
  have "reports_queue (dispatcher idle_gateway) = []" by (simp add: idle_defs)
  from paper_stop_drains [OF this stop_set_reach [OF idle_reach(2)],
      of "tell_dispatcher (stop_set In_wait)"]
  show ?thesis
    by (auto simp: stop_set_def before_stop_def tell_dispatcher_def wake_def intro: tr_refl)
qed

text \<open>
  C23. The stop of the dispatcher can be lost. \<open>stop_dispatcher\<close> sets the stop token and notifies without
  the lock of the condition variable, so both can fall between the dispatcher's test and its wait; then
  it goes to sleep, no thread of the gateway can make a step any more, and \<open>stop\<close>, which joins it,
  never returns, although nothing is left to do.
\<close>

theorem paper_stop_can_hang:
  "\<exists>t. threads_reach (started_threads idle_gateway) t \<and> gt_stop t = Dispatcher_told \<and> gt_token t
     \<and> gt_dispatcher t = In_wait \<and> gt_queue t = [] \<and> (\<nexists>t'. program_step t t')"
proof -
  let ?t = "(stop_set In_wait)\<lparr>gt_stop := Dispatcher_told\<rparr>"
  have "stop_step (stop_set Found_idle) (tell_dispatcher (stop_set Found_idle))"
    by (rule stop_tells) (simp add: stop_set_def)
  moreover have "dispatcher_step (tell_dispatcher (stop_set Found_idle))
      ((tell_dispatcher (stop_set Found_idle))\<lparr>gt_dispatcher := In_wait\<rparr>)"
    by (rule disp_waits) (simp add: stop_set_def before_stop_def tell_dispatcher_def wake_def)
  moreover have "(tell_dispatcher (stop_set Found_idle))\<lparr>gt_dispatcher := In_wait\<rparr> = ?t"
    by (simp add: stop_set_def before_stop_def tell_dispatcher_def wake_def)
  ultimately have "threads_reach (started_threads idle_gateway) ?t"
    using reach_by(2) [OF reach_by(3) [OF stop_set_reach [OF idle_reach(1)]]] by metis
  moreover have "\<nexists>t'. program_step ?t t'"
    by (auto simp: program_step_def stop_set_def before_stop_def elim!: thread_step_cases)
  moreover have "gt_token ?t" "gt_dispatcher ?t = In_wait" "gt_queue ?t = []"
    by (simp_all add: stop_set_def idle_defs)
  ultimately show ?thesis by (intro exI [of _ ?t]) simp
qed

end
