(* ===== verification/FeedThread.thy ===== *)
theory FeedThread
  imports SimulatedFeed Clock
begin

text \<open>
  The thread of \<open>gateways/simulated_feed.cpp\<close>, \<open>emit_loop\<close>, together with \<open>start\<close>, \<open>stop\<close> and the
  callers of \<open>subscribe\<close> and \<open>unsubscribe\<close>, which run between its locked regions: the thread copies the
  symbols under the lock, takes the lock again for the accumulators of every symbol, and calls the
  handlers without it. A round that nobody interrupts is \<open>emit_round\<close>.
\<close>

section \<open>State and steps\<close>

text \<open>
  The thread has just been started, is about to test the stop token, has symbols of its round left,
  has handler calls to make before it goes on with the symbols left, sleeps, has ended, or has divided
  by zero.
\<close>

datatype emit_place =
  Thread_entry | Loop_test | Round_at "Symbol list" | Calls "feed_output list" "Symbol list"
| Nap | Thread_left | Crashed

datatype join_place = Thread_wanted | Token_set | Thread_joined

text \<open>\<open>ft_tsubs\<close> is the copy of the tick subscriptions, \<open>ft_out\<close> records the handler calls.\<close>

record feed_thread =
  ft_feed :: sim_feed
  has_tick_handler :: bool
  has_bar_handler :: bool
  ft_place :: emit_place
  ft_stop :: join_place
  ft_clock :: clock
  ft_noise :: "nat \<Rightarrow> double"
  ft_now :: int
  ft_tsubs :: "Symbol \<rightharpoonup> int"
  ft_prices :: "Symbol \<rightharpoonup> double"
  ft_out :: "feed_output list"

definition start_feed ::
  "sim_feed \<Rightarrow> bool \<Rightarrow> bool \<Rightarrow> clock \<Rightarrow> (nat \<Rightarrow> double) \<Rightarrow> feed_thread" where
  "start_feed f has_tick has_bar clk noise =
     \<lparr>ft_feed = f, has_tick_handler = has_tick, has_bar_handler = has_bar, ft_place = Thread_entry,
      ft_stop = Thread_wanted, ft_clock = clk, ft_noise = noise, ft_now = 0, ft_tsubs = Map.empty,
      ft_prices = Map.empty, ft_out = []\<rparr>"

definition begin_round :: "feed_thread \<Rightarrow> feed_thread" where
  "begin_round t =
     (if feed_symbols (ft_feed t) = [] then t\<lparr>ft_place := Nap\<rparr>
      else let (now, c) = clock_now (ft_clock t)
           in t\<lparr>ft_place := Round_at (feed_symbols (ft_feed t)),
                ft_tsubs := tick_subscriptions (ft_feed t), ft_now := now, ft_clock := c\<rparr>)"

text \<open>The price, the tick and the accumulators of one symbol; the handlers are called after it.\<close>

definition tick_symbol_step :: "Symbol \<Rightarrow> Symbol list \<Rightarrow> feed_thread \<Rightarrow> feed_thread" where
  "tick_symbol_step symb symbs t =
     (let price = next_price (ft_noise t 0) (ft_prices t symb);
          tk = make_tick symb price (ft_now t);
          t = t\<lparr>ft_noise := (\<lambda>n. ft_noise t (Suc n)), ft_prices := (ft_prices t)(symb \<mapsto> price)\<rparr>
      in case step_accumulators tk (accumulators (ft_feed t)) of
           None \<Rightarrow> t\<lparr>ft_place := Crashed\<rparr>
         | Some (bars, accs) \<Rightarrow>
             t\<lparr>ft_feed := (ft_feed t)\<lparr>accumulators := accs\<rparr>,
               ft_place := Calls
                 ((if has_tick_handler t \<and> ft_tsubs t symb \<noteq> None then [Out_tick tk] else [])
                  @ (if has_bar_handler t then map Out_bar bars else [])) symbs\<rparr>)"

text \<open>One step of the thread; none when it has ended.\<close>

definition emit_step :: "feed_thread \<Rightarrow> feed_thread option" where
  "emit_step t =
     (case ft_place t of
        Thread_entry \<Rightarrow>
          Some (t\<lparr>ft_place := (if has_tick_handler t \<or> has_bar_handler t then Loop_test
                                else Thread_left)\<rparr>)
      | Loop_test \<Rightarrow>
          Some (if ft_stop t \<noteq> Thread_wanted then t\<lparr>ft_place := Thread_left\<rparr> else begin_round t)
      | Round_at [] \<Rightarrow> Some (t\<lparr>ft_place := Nap\<rparr>)
      | Round_at (symb # symbs) \<Rightarrow> Some (tick_symbol_step symb symbs t)
      | Calls [] symbs \<Rightarrow> Some (t\<lparr>ft_place := Round_at symbs\<rparr>)
      | Calls (ev # outs) symbs \<Rightarrow> Some (t\<lparr>ft_place := Calls outs symbs, ft_out := ft_out t @ [ev]\<rparr>)
      | Nap \<Rightarrow> Some (t\<lparr>ft_place := Loop_test\<rparr>)
      | Thread_left \<Rightarrow> None
      | Crashed \<Rightarrow> None)"

text \<open>\<open>stop\<close> sets the token of the thread and joins it.\<close>

inductive stop_feed_step :: "feed_thread \<Rightarrow> feed_thread \<Rightarrow> bool" where
  sets_token: "ft_stop t = Thread_wanted \<Longrightarrow> stop_feed_step t (t\<lparr>ft_stop := Token_set\<rparr>)"
| joins: "ft_stop t = Token_set \<Longrightarrow> ft_place t = Thread_left \<Longrightarrow>
     stop_feed_step t (t\<lparr>ft_stop := Thread_joined\<rparr>)"

text \<open>
  Everything that can happen; the first argument collects what was subscribed at some time.
\<close>

inductive feed_reach ::
  "feed_thread \<Rightarrow> (Symbol \<times> BarPeriod option) set \<Rightarrow> feed_thread \<Rightarrow> bool" for t0 where
  fr_start: "feed_reach t0 {} t0"
| fr_emit: "feed_reach t0 S t \<Longrightarrow> emit_step t = Some t' \<Longrightarrow> feed_reach t0 S t'"
| fr_stop: "feed_reach t0 S t \<Longrightarrow> stop_feed_step t t' \<Longrightarrow> feed_reach t0 S t'"
| fr_subscribe: "feed_reach t0 S t \<Longrightarrow> subscribe s p (ft_feed t) = (r, f) \<Longrightarrow>
     feed_reach t0 (insert (s, p) S) (t\<lparr>ft_feed := f\<rparr>)"
| fr_unsubscribe: "feed_reach t0 S t \<Longrightarrow>
     feed_reach t0 S (t\<lparr>ft_feed := unsubscribe s p (ft_feed t)\<rparr>)"

inductive_cases stop_feed_stepE: "stop_feed_step t t'"

section \<open>A round that nobody interrupts\<close>

primrec emit_steps :: "nat \<Rightarrow> feed_thread \<Rightarrow> feed_thread option" where
  "emit_steps 0 t = Some t"
| "emit_steps (Suc n) t = (case emit_step t of None \<Rightarrow> None | Some t' \<Rightarrow> emit_steps n t')"

lemma emit_steps_add:
  "emit_steps m t = Some t' \<Longrightarrow> emit_steps (m + n) t = emit_steps n t'"
  by (induction m arbitrary: t) (auto split: option.splits)

lemma emit_calls:
  "ft_place t = Calls outs symbs \<Longrightarrow>
   emit_steps (Suc (length outs)) t = Some (t\<lparr>ft_place := Round_at symbs, ft_out := ft_out t @ outs\<rparr>)"
proof (induction outs arbitrary: t)
  case Nil
  then show ?case by (simp add: emit_step_def)
next
  case (Cons ev outs)
  let ?t = "t\<lparr>ft_place := Calls outs symbs, ft_out := ft_out t @ [ev]\<rparr>"
  have "emit_step t = Some ?t" using Cons.prems by (simp add: emit_step_def)
  moreover have "emit_steps (Suc (length outs)) ?t
      = Some (?t\<lparr>ft_place := Round_at symbs, ft_out := ft_out ?t @ outs\<rparr>)"
    by (rule Cons.IH) simp
  ultimately show ?case by simp
qed

text \<open>What a finished round leaves, for the symbols that were left.\<close>

definition after_symbols :: "Symbol list \<Rightarrow> feed_thread \<Rightarrow> feed_thread option" where
  "after_symbols symbs t =
     map_option
       (\<lambda>(out, prices, f). t\<lparr>ft_place := Nap, ft_out := ft_out t @ out, ft_prices := prices,
            ft_feed := f, ft_noise := (\<lambda>n. ft_noise t (n + length symbs))\<rparr>)
       (emit_symbols (has_tick_handler t) (has_bar_handler t) (ft_now t) (ft_tsubs t) (ft_noise t)
          symbs (ft_prices t) (ft_feed t))"

lemma after_symbols_round:
  assumes "ft_place t = Round_at symbs" and "after_symbols symbs t = Some t'"
  shows "\<exists>n. emit_steps n t = Some t'"
  using assms
proof (induction symbs arbitrary: t)
  case Nil
  then have "emit_steps 1 t = Some t'" by (simp add: emit_step_def after_symbols_def)
  then show ?case ..
next
  case (Cons symb symbs)
  let ?t1 = "tick_symbol_step symb symbs t"
  let ?price = "next_price (ft_noise t 0) (ft_prices t symb)"
  let ?tk = "make_tick symb ?price (ft_now t)"
  obtain bars accs where acc: "step_accumulators ?tk (accumulators (ft_feed t)) = Some (bars, accs)"
    using Cons.prems(2) by (auto simp: after_symbols_def Let_def split: option.splits)
  define outs where "outs =
    (if has_tick_handler t \<and> ft_tsubs t symb \<noteq> None then [Out_tick ?tk] else [])
    @ (if has_bar_handler t then map Out_bar bars else [])"
  have t1: "?t1 = t\<lparr>ft_noise := (\<lambda>n. ft_noise t (Suc n)), ft_prices := (ft_prices t)(symb \<mapsto> ?price),
      ft_feed := (ft_feed t)\<lparr>accumulators := accs\<rparr>, ft_place := Calls outs symbs\<rparr>"
    by (simp add: tick_symbol_step_def Let_def acc outs_def)
  let ?t2 = "?t1\<lparr>ft_place := Round_at symbs, ft_out := ft_out ?t1 @ outs\<rparr>"
  have "emit_step t = Some ?t1" using Cons.prems(1) by (simp add: emit_step_def)
  moreover have "emit_steps (Suc (length outs)) ?t1 = Some ?t2"
    by (rule emit_calls) (simp add: t1)
  ultimately have run: "emit_steps (Suc (Suc (length outs))) t = Some ?t2" by simp
  have "after_symbols symbs ?t2 = Some t'"
    using Cons.prems(2)
    by (auto simp: after_symbols_def t1 outs_def Let_def acc)
  then obtain n where "emit_steps n ?t2 = Some t'" using Cons.IH [of ?t2] by auto
  then have "emit_steps (Suc (Suc (length outs)) + n) t = Some t'"
    using emit_steps_add [OF run, of n] by simp
  then show ?case ..
qed

text \<open>
  A round of the thread during which nobody subscribes, unsubscribes or stops is the round of
  \<open>emit_round\<close>: from the test of the loop to the sleep it makes the same handler calls in the same
  order and leaves the same feed and the same prices.
\<close>

theorem quiet_round:
  assumes "ft_place t = Loop_test" and "ft_stop t = Thread_wanted"
    and "emit_round (has_tick_handler t) (has_bar_handler t) (fst (clock_now (ft_clock t)))
           (ft_noise t) (ft_prices t) (ft_feed t) = Some (out, prices, f)"
  shows "\<exists>n t'. emit_steps n t = Some t' \<and> ft_place t' = Nap \<and> ft_out t' = ft_out t @ out
       \<and> ft_feed t' = f \<and> ft_prices t' = prices"
proof (cases "feed_symbols (ft_feed t) = []")
  case True
  then have "emit_steps 1 t = Some (t\<lparr>ft_place := Nap\<rparr>)"
    using assms by (simp add: emit_step_def begin_round_def)
  moreover have "out = [] \<and> prices = ft_prices t \<and> f = ft_feed t"
    using True assms(3) by (simp add: emit_round_def)
  ultimately show ?thesis by fastforce
next
  case False
  let ?t1 = "begin_round t"
  have one: "emit_steps 1 t = Some ?t1" using assms by (simp add: emit_step_def)
  have place: "ft_place ?t1 = Round_at (feed_symbols (ft_feed t))"
    using False by (simp add: begin_round_def split_beta)
  obtain t' where t': "after_symbols (feed_symbols (ft_feed t)) ?t1 = Some t'"
    "ft_place t' = Nap" "ft_out t' = ft_out t @ out" "ft_feed t' = f" "ft_prices t' = prices"
    using False assms(3)
    by (simp add: after_symbols_def begin_round_def emit_round_def split_beta)
  from after_symbols_round [OF place t'(1)] obtain n where "emit_steps n ?t1 = Some t'" ..
  then have "emit_steps (1 + n) t = Some t'" using emit_steps_add [OF one, of n] by simp
  with t' show ?thesis by blast
qed

theorem quiet_round_witness:
  "\<exists>n t'. emit_steps n ((start_feed (snd (subscribe ''AAPL'' None new_feed)) True True
       \<lparr>readings = \<lambda>_. 7, reads = 0\<rparr> (\<lambda>_. 0))\<lparr>ft_place := Loop_test\<rparr>) = Some t'
     \<and> ft_out t' = [Out_tick (make_tick ''AAPL'' 100 7)]"
proof -
  let ?t = "(start_feed (snd (subscribe ''AAPL'' None new_feed)) True True
       \<lparr>readings = \<lambda>_. 7, reads = 0\<rparr> (\<lambda>_. 0))\<lparr>ft_place := Loop_test\<rparr>"
  have "emit_round (has_tick_handler ?t) (has_bar_handler ?t) (fst (clock_now (ft_clock ?t)))
      (ft_noise ?t) (ft_prices ?t) (ft_feed ?t)
    = Some ([Out_tick (make_tick ''AAPL'' 100 7)], [''AAPL'' \<mapsto> 100], ft_feed ?t)"
    by (simp add: start_feed_def emit_round_def subscribe_def new_feed_def Let_def next_price_def
        clock_now_def)
  from quiet_round [OF _ _ this] show ?thesis by (auto simp: start_feed_def)
qed

section \<open>Nothing nobody asked for, and nothing after the stop\<close>

definition bad_period :: "BarPeriod \<Rightarrow> bool" where
  "bad_period p \<longleftrightarrow> (\<forall>ns. period_to_ns p = Inr ns \<longrightarrow> ns = 0)"

fun asked :: "(Symbol \<times> BarPeriod option) set \<Rightarrow> feed_output \<Rightarrow> bool" where
  "asked S (Out_tick t) \<longleftrightarrow> (tick_symbol t, None) \<in> S"
| "asked S (Out_bar b) \<longleftrightarrow> (bar_symbol b, Some (bar_period b)) \<in> S"

lemma asked_insert: "asked S ev \<Longrightarrow> asked (insert x S) ev"
  by (cases ev) auto

definition acc_ok :: "(Symbol \<times> BarPeriod option) set \<Rightarrow> bar_key \<times> bar_accumulator \<Rightarrow> bool" where
  "acc_ok S ka \<longleftrightarrow>
     (fst (fst ka), Some (snd (fst ka))) \<in> S
   \<and> (bar_start_ns (snd ka) \<noteq> 0 \<longrightarrow>
        bar_symbol (acc_bar (snd ka)) = fst (fst ka) \<and> bar_period (acc_bar (snd ka)) = snd (fst ka))
   \<and> (period_ns (snd ka) = 0 \<longrightarrow> bad_period (snd (fst ka)))"

fun to_call :: "emit_place \<Rightarrow> feed_output list" where
  "to_call (Calls outs symbs) = outs"
| "to_call _ = []"

definition feed_thread_inv :: "(Symbol \<times> BarPeriod option) set \<Rightarrow> feed_thread \<Rightarrow> bool" where
  "feed_thread_inv S t \<longleftrightarrow>
     (\<forall>s. tick_subscriptions (ft_feed t) s \<noteq> None \<longrightarrow> (s, None) \<in> S)
   \<and> (\<forall>ka \<in> set (accumulators (ft_feed t)). acc_ok S ka)
   \<and> (\<forall>s. ft_tsubs t s \<noteq> None \<longrightarrow> (s, None) \<in> S)
   \<and> (\<forall>ev \<in> set (ft_out t @ to_call (ft_place t)). asked S ev)
   \<and> (ft_stop t = Thread_joined \<longrightarrow> ft_place t = Thread_left)
   \<and> (ft_place t = Crashed \<longrightarrow> (\<exists>s p. (s, Some p) \<in> S \<and> bad_period p))"

lemma acc_step_ok:
  assumes "acc_ok S (key, acc)" and "acc_step (fst key) (snd key) acc t = Some (bs, acc')"
  shows "acc_ok S (key, acc') \<and> (\<forall>b \<in> set bs. asked S (Out_bar b))"
  using assms
  by (auto simp: acc_ok_def acc_step_def start_bar_def update_bar_def Let_def
      split: if_splits option.splits)

lemma acc_step_crash:
  assumes "acc_ok S (key, acc)" and "acc_step (fst key) (snd key) acc t = None"
  shows "(fst key, Some (snd key)) \<in> S \<and> bad_period (snd key)"
  using assms
  by (auto simp: acc_ok_def acc_step_def start_bar_def align_to_period_start_def
      split: if_splits option.splits)

lemma step_accumulators_ok:
  assumes "\<forall>ka \<in> set al. acc_ok S ka" and "step_accumulators t al = Some (bs, al')"
  shows "(\<forall>ka \<in> set al'. acc_ok S ka) \<and> (\<forall>b \<in> set bs. asked S (Out_bar b))"
  using assms
proof (induction al arbitrary: bs al')
  case (Cons ka al)
  obtain key acc where ka: "ka = (key, acc)" by (cases ka)
  show ?case
  proof (cases "fst key = tick_symbol t")
    case True
    with Cons.prems ka obtain b1 acc' b2 al2 where "acc_step (fst key) (snd key) acc t = Some (b1, acc')"
      "step_accumulators t al = Some (b2, al2)" "bs = b1 @ b2" "al' = (key, acc') # al2"
      by (auto split: option.splits)
    with acc_step_ok [of S key acc t b1 acc'] Cons.IH [of b2 al2] Cons.prems(1) ka show ?thesis
      by auto
  next
    case False
    with Cons.prems ka obtain al2 where "step_accumulators t al = Some (bs, al2)"
      "al' = (key, acc) # al2" by auto
    with Cons.IH [of bs al2] Cons.prems(1) ka show ?thesis by auto
  qed
qed simp

lemma step_accumulators_crash:
  assumes "\<forall>ka \<in> set al. acc_ok S ka" and "step_accumulators t al = None"
  shows "\<exists>s p. (s, Some p) \<in> S \<and> bad_period p"
  using assms
proof (induction al)
  case (Cons ka al)
  obtain key acc where ka: "ka = (key, acc)" by (cases ka)
  with Cons acc_step_crash [of S key acc t] show ?case
    by (auto split: if_splits option.splits)
qed simp

lemma set_emplace: "set (emplace k v al) \<subseteq> insert (k, v) (set al)"
  by (induction k v al rule: emplace.induct) auto

lemma subscribe_accs:
  assumes "subscribe s p f = (r, f')" and "ka \<in> set (accumulators f')"
  shows "ka \<in> set (accumulators f)
       \<or> (\<exists>q. p = Some q \<and> fst ka = (s, q) \<and> bar_start_ns (snd ka) = 0
            \<and> (period_ns (snd ka) = 0 \<longrightarrow> bad_period q))"
  using assms set_emplace [of "(s, the p)" _ "accumulators f"]
  by (fastforce simp: subscribe_def Let_def bad_period_def new_accumulator_def
      split: option.splits if_splits sum.splits)

lemma subscribe_ticks:
  "subscribe s p f = (r, f') \<Longrightarrow> tick_subscriptions f' x \<noteq> None
   \<Longrightarrow> tick_subscriptions f x \<noteq> None \<or> (x, None) = (s, p)"
  by (auto simp: subscribe_def Let_def split: option.splits if_splits sum.splits)

lemma unsubscribe_shrinks:
  "set (accumulators (unsubscribe s p f)) \<subseteq> set (accumulators f)"
  "tick_subscriptions (unsubscribe s p f) x \<noteq> None \<Longrightarrow> tick_subscriptions f x \<noteq> None"
  by (auto simp: unsubscribe_def drop_bar_sub_def drop_tick_sub_def Let_def AList.delete_eq
      split: option.splits if_splits)

lemma feed_thread_inv_start: "feed_thread_inv {} (start_feed new_feed ht hb clk noise)"
  by (simp add: feed_thread_inv_def start_feed_def new_feed_def)

lemma feed_thread_inv_symbol:
  assumes "feed_thread_inv S t" and "ft_stop t = Thread_joined \<Longrightarrow> ft_place t = Thread_left"
    and "ft_place t = Round_at (symb # symbs)"
  shows "feed_thread_inv S (tick_symbol_step symb symbs t)"
proof -
  let ?tk = "make_tick symb (next_price (ft_noise t 0) (ft_prices t symb)) (ft_now t)"
  have accs: "\<forall>ka \<in> set (accumulators (ft_feed t)). acc_ok S ka"
    using assms(1) by (simp add: feed_thread_inv_def)
  show ?thesis
  proof (cases "step_accumulators ?tk (accumulators (ft_feed t))")
    case None
    with step_accumulators_crash [OF accs None] assms show ?thesis
      by (auto simp: feed_thread_inv_def tick_symbol_step_def Let_def)
  next
    case (Some ba)
    then obtain bs al where "step_accumulators ?tk (accumulators (ft_feed t)) = Some (bs, al)"
      by (cases ba) auto
    with step_accumulators_ok [OF accs this] assms show ?thesis
      by (auto simp: feed_thread_inv_def tick_symbol_step_def Let_def make_tick_def)
  qed
qed

lemma feed_thread_inv_emit:
  assumes "emit_step t = Some t'" and "feed_thread_inv S t"
  shows "feed_thread_inv S t'"
proof (cases "\<exists>symb symbs. ft_place t = Round_at (symb # symbs)")
  case True
  with assms feed_thread_inv_symbol [of S t] show ?thesis
    by (auto simp: emit_step_def feed_thread_inv_def)
next
  case False
  with assms show ?thesis
    by (auto simp: emit_step_def feed_thread_inv_def begin_round_def split_beta
        split: emit_place.splits list.splits if_splits)
qed

lemma feed_thread_inv_reach:
  "feed_reach (start_feed new_feed ht hb clk noise) S t \<Longrightarrow> feed_thread_inv S t"
proof (induction rule: feed_reach.induct)
  case fr_start
  show ?case by (rule feed_thread_inv_start)
next
  case (fr_emit S t t')
  then show ?case by (blast intro: feed_thread_inv_emit)
next
  case (fr_stop S t t')
  then show ?case by (auto simp: feed_thread_inv_def elim!: stop_feed_stepE)
next
  case (fr_subscribe S t s p r f)
  have "acc_ok (insert (s, p) S) ka" if "ka \<in> set (accumulators f)" for ka
    using subscribe_accs [OF fr_subscribe.hyps(2) that] fr_subscribe.IH
    by (auto simp: feed_thread_inv_def acc_ok_def)
  moreover have "(x, None) \<in> insert (s, p) S" if "tick_subscriptions f x \<noteq> None" for x
    using subscribe_ticks [OF fr_subscribe.hyps(2) that] fr_subscribe.IH
    by (auto simp: feed_thread_inv_def)
  ultimately show ?case
    using fr_subscribe.IH by (auto simp: feed_thread_inv_def intro: asked_insert)
next
  case (fr_unsubscribe S t s p)
  have "tick_subscriptions (ft_feed t) x \<noteq> None"
    if "tick_subscriptions (unsubscribe s p (ft_feed t)) x \<noteq> None" for x
    using unsubscribe_shrinks(2) [OF that] .
  then show ?case
    using fr_unsubscribe.IH unsubscribe_shrinks(1) [of s p "ft_feed t"]
    by (fastforce simp: feed_thread_inv_def)
qed

text \<open>What is left of the thread's round: symbols and waits first, then the handler calls.\<close>

fun places_left :: "emit_place \<Rightarrow> nat" where
  "places_left (Round_at symbs) = 3 + 2 * length symbs"
| "places_left (Calls outs symbs) = 4 + 2 * length symbs"
| "places_left Thread_entry = 2"
| "places_left Nap = 2"
| "places_left Loop_test = 1"
| "places_left Thread_left = 0"
| "places_left Crashed = 0"

definition nearer_end :: "(feed_thread \<times> feed_thread) set" where
  "nearer_end = measures [\<lambda>t. places_left (ft_place t), \<lambda>t. length (to_call (ft_place t))]"

lemma stopped_emit:
  assumes "ft_stop t \<noteq> Thread_wanted" and "ft_place t \<notin> {Thread_left, Crashed}"
  shows "\<exists>t'. emit_step t = Some t' \<and> (t', t) \<in> nearer_end"
  using assms
  by (cases "ft_place t")
    (auto simp: emit_step_def nearer_end_def tick_symbol_step_def Let_def
      split: list.split option.split)

text \<open>
  C39. In every reachable state, however subscriptions, unsubscriptions and the stop interleave with the
  thread: every tick and bar the handlers were called with had been subscribed by somebody; once the
  token is set the thread, unless it has crashed, makes a step by itself, each of which brings its end
  nearer, until it has left, and when \<open>stop\<close> has joined it no handler is called any more; and it
  crashes only when somebody subscribed a period that \<open>subscribe\<close> had rejected or that wraps to zero.
\<close>

theorem feed_thread_stops:
  assumes "feed_reach (start_feed new_feed ht hb clk noise) S t"
  shows "list_all (asked S) (ft_out t)
       \<and> (ft_stop t \<noteq> Thread_wanted \<and> ft_place t \<notin> {Thread_left, Crashed} \<longrightarrow>
            (\<exists>t'. emit_step t = Some t' \<and> (t', t) \<in> nearer_end))
       \<and> wf nearer_end
       \<and> (ft_stop t = Thread_joined \<longrightarrow> emit_step t = None)
       \<and> (ft_place t = Crashed \<longrightarrow> (\<exists>s p. (s, Some p) \<in> S \<and> bad_period p))"
  using feed_thread_inv_reach [OF assms] stopped_emit [of t]
  by (simp add: feed_thread_inv_def list_all_iff nearer_end_def emit_step_def)

theorem feed_thread_stops_witness:
  "\<exists>t. feed_reach (start_feed new_feed True True \<lparr>readings = \<lambda>_. 7, reads = 0\<rparr> (\<lambda>_. 0))
         {} t \<and> ft_stop t = Token_set \<and> (\<exists>t'. emit_step t = Some t' \<and> (t', t) \<in> nearer_end)"
proof -
  let ?s = "start_feed new_feed True True \<lparr>readings = \<lambda>_. 7, reads = 0\<rparr> (\<lambda>_. 0)"
  have "stop_feed_step ?s (?s\<lparr>ft_stop := Token_set\<rparr>)"
    by (rule sets_token) (simp add: start_feed_def)
  from fr_stop [OF fr_start this] have reach: "feed_reach ?s {} (?s\<lparr>ft_stop := Token_set\<rparr>)" .
  with feed_thread_stops [OF reach] show ?thesis
    by (intro exI [of _ "?s\<lparr>ft_stop := Token_set\<rparr>"]) (simp add: start_feed_def)
qed

end
