(* ===== verification/StreamShutdown.thy ===== *)
theory StreamShutdown
  imports ProgramLife
begin

text \<open>
  The fill streams that clients hold open, and the end of \<open>Run\<close>: \<open>server_->shutdown()\<close> comes before the
  open orders are cancelled. It gives the calls in progress two seconds, then the gRPC library cancels
  them, and it returns when every handler has finished; no new call is accepted meanwhile. A handler of
  a stream finishes when its call was cancelled, by its client or by the server, or a write has failed.
\<close>

section \<open>State and steps\<close>

record stream_call =
  sc_strategy :: StrategyId
  sc_cancelled :: bool
  sc_stream :: "execution_report server_stream"
  sc_open :: bool

datatype main_place = Waits_for_stop | In_shutdown | Past_shutdown | Run_over

record serving =
  sv_engine :: engine
  sv_calls :: "stream_call list"
  sv_main :: main_place
  sv_expired :: bool

definition open_call :: "StrategyId \<Rightarrow> (nat \<Rightarrow> bool) \<Rightarrow> stream_call" where
  "open_call sid ok =
     \<lparr>sc_strategy = sid, sc_cancelled = False, sc_stream = open_stream ok, sc_open = True\<rparr>"

definition call_over :: "stream_call \<Rightarrow> bool" where
  "call_over c \<longleftrightarrow> stream_over (sc_cancelled c) (sc_stream c)"

text \<open>
  The sink of a call is known to the engine under the call's index. A fill is written to the call
  whose sink a living manager holds; a call is accepted until the shutdown begins.
\<close>

inductive serving_step :: "engine_env \<Rightarrow> serving \<Rightarrow> serving \<Rightarrow> bool" for env where
  call_opens: "sv_main s = Waits_for_stop \<Longrightarrow>
     begin_stream_fills (Some (engine_handler env)) sid (length (sv_calls s)) (sv_engine s)
       = Some (Inr (), e) \<Longrightarrow>
     serving_step env s (s\<lparr>sv_engine := e, sv_calls := sv_calls s @ [open_call sid ok]\<rparr>)"
| client_leaves: "i < length (sv_calls s) \<Longrightarrow>
     serving_step env s
       (s\<lparr>sv_calls := (sv_calls s)[i := (sv_calls s ! i)\<lparr>sc_cancelled := True\<rparr>]\<rparr>)"
| fill_written: "i < length (sv_calls s) \<Longrightarrow> om_heap (sv_engine s) a = Some om \<Longrightarrow>
     fill_sink om = Some i \<Longrightarrow>
     serving_step env s (s\<lparr>sv_calls := (sv_calls s)
       [i := (sv_calls s ! i)\<lparr>sc_stream := write_stream r (sc_stream (sv_calls s ! i))\<rparr>]\<rparr>)"
| handler_ends: "i < length (sv_calls s) \<Longrightarrow> sc_open (sv_calls s ! i) \<Longrightarrow>
     call_over (sv_calls s ! i) \<Longrightarrow>
     end_stream_fills (engine_handler env) (sc_strategy (sv_calls s ! i)) (sv_engine s)
       = Some (st, e) \<Longrightarrow>
     serving_step env s (s\<lparr>sv_engine := e,
       sv_calls := (sv_calls s)[i := (sv_calls s ! i)\<lparr>sc_open := False\<rparr>]\<rparr>)"
| engine_moves: "engine_step env (sv_engine s) e \<Longrightarrow> serving_step env s (s\<lparr>sv_engine := e\<rparr>)"
| shutdown_called: "sv_main s = Waits_for_stop \<Longrightarrow> \<not> engine_running (sv_engine s) \<Longrightarrow>
     serving_step env s (s\<lparr>sv_main := In_shutdown\<rparr>)"
| deadline_expires: "sv_main s = In_shutdown \<Longrightarrow>
     serving_step env s (s\<lparr>sv_expired := True,
       sv_calls := map (\<lambda>c. c\<lparr>sc_cancelled := True\<rparr>) (sv_calls s)\<rparr>)"
| shutdown_returns: "sv_main s = In_shutdown \<Longrightarrow> list_all (\<lambda>c. \<not> sc_open c) (sv_calls s) \<Longrightarrow>
     serving_step env s (s\<lparr>sv_main := Past_shutdown\<rparr>)"
| run_finishes: "sv_main s = Past_shutdown \<Longrightarrow> \<not> engine_running (sv_engine s) \<Longrightarrow>
     finish_run env (sv_engine s) = Some e \<Longrightarrow>
     serving_step env s (s\<lparr>sv_engine := e, sv_main := Run_over\<rparr>)"

definition serving_from :: "engine \<Rightarrow> serving" where
  "serving_from e = \<lparr>sv_engine = e, sv_calls = [], sv_main = Waits_for_stop, sv_expired = False\<rparr>"

section \<open>The shutdown ends the streams\<close>

definition serving_inv :: "serving \<Rightarrow> bool" where
  "serving_inv s \<longleftrightarrow>
     (sv_expired s \<longrightarrow> sv_main s \<noteq> Waits_for_stop)
   \<and> (\<forall>i < length (sv_calls s).
        (\<not> sc_open (sv_calls s ! i) \<or> sv_expired s \<longrightarrow> call_over (sv_calls s ! i))
      \<and> (sv_main s \<in> {Past_shutdown, Run_over} \<longrightarrow> \<not> sc_open (sv_calls s ! i)))"

lemma call_over_simps [simp]:
  "call_over (c\<lparr>sc_cancelled := True\<rparr>)"
  "call_over c \<Longrightarrow> call_over (c\<lparr>sc_stream := write_stream r (sc_stream c)\<rparr>)"
  "call_over (c\<lparr>sc_open := b\<rparr>) = call_over c"
  "\<not> call_over (open_call sid ok)" "sc_open (open_call sid ok)"
  by (auto simp: call_over_def stream_over_def write_stream_def open_call_def open_stream_def)

lemma serving_inv_step: "serving_step env s s' \<Longrightarrow> serving_inv s \<Longrightarrow> serving_inv s'"
  by (induction rule: serving_step.induct)
    (auto simp: serving_inv_def list_all_length nth_list_update nth_append less_Suc_eq)

lemma serving_inv_reach:
  "(serving_step env)\<^sup>*\<^sup>* s s' \<Longrightarrow> serving_inv s \<Longrightarrow> serving_inv s'"
  by (induction rule: rtranclp_induct) (auto intro: serving_inv_step)

lemma serving_main_step:
  "serving_step env s s' \<Longrightarrow> sv_main s \<noteq> Waits_for_stop \<Longrightarrow> sv_main s' \<noteq> Waits_for_stop"
  by (induction rule: serving_step.induct) auto

lemma serving_main_reach:
  "(serving_step env)\<^sup>*\<^sup>* s s' \<Longrightarrow> sv_main s \<noteq> Waits_for_stop \<Longrightarrow> sv_main s' \<noteq> Waits_for_stop"
  by (induction rule: rtranclp_induct) (auto dest: serving_main_step)

lemma serving_engine_step:
  "serving_step env s s' \<Longrightarrow> engine_step env (sv_engine s) (sv_engine s') \<or> sv_engine s' = sv_engine s"
  by (induction rule: serving_step.induct)
    (auto simp: begin_stream_fills_def end_stream_fills_def engine_handler_def
      intro: engine_step.intros split: option.splits sum.splits)

lemma serving_engine_reach:
  "(serving_step env)\<^sup>*\<^sup>* s s' \<Longrightarrow> engine_reach env am (sv_engine s) \<Longrightarrow> engine_reach env am (sv_engine s')"
proof (induction rule: rtranclp_induct)
  case (step s' s'')
  from step.IH [OF step.prems] serving_engine_step [OF step.hyps(2)] show ?case
    by (auto intro: er_step)
qed

lemma serving_inv_from: "serving_inv (serving_from e)"
  by (simp add: serving_inv_def serving_from_def)

definition open_calls :: "serving \<Rightarrow> nat" where
  "open_calls s = length (filter sc_open (sv_calls s))"

lemma filter_update:
  "i < length xs \<Longrightarrow> P (xs ! i) \<Longrightarrow> \<not> P y \<Longrightarrow>
   length (filter P (xs[i := y])) < length (filter P xs)"
  by (induction xs arbitrary: i) (auto split: nat.split)

text \<open>Nothing that can happen during the shutdown opens a stream again.\<close>

lemma filter_update_le:
  "i < length xs \<Longrightarrow> P y \<longrightarrow> P (xs ! i) \<Longrightarrow>
   length (filter P (xs[i := y])) \<le> length (filter P xs)"
proof (induction xs arbitrary: i)
  case (Cons x xs)
  then show ?case by (cases i) fastforce+
qed simp

lemma shutdown_keeps_calls:
  "serving_step env s s' \<Longrightarrow> sv_main s \<noteq> Waits_for_stop \<Longrightarrow>
   length (sv_calls s') = length (sv_calls s) \<and> open_calls s' \<le> open_calls s"
  by (induction rule: serving_step.induct)
    (simp_all add: open_calls_def filter_update_le filter_map comp_def)

text \<open>A handler whose stream is over can always finish.\<close>

lemma handler_can_end:
  assumes "engine_reach env am (sv_engine s)" and "env_ok env"
    and "i < length (sv_calls s)" and "sc_open (sv_calls s ! i)" and "call_over (sv_calls s ! i)"
  shows "\<exists>s'. serving_step env s s' \<and> sv_main s' = sv_main s \<and> open_calls s' < open_calls s"
proof -
  let ?sid = "sc_strategy (sv_calls s ! i)"
  obtain e where "sh_clear_fills (engine_handler env) ?sid (sv_engine s) = Some e"
    using eng.fills_clear [of "sv_engine s" env ?sid] engine_inv_reach [OF assms(1,2)] assms(2) by auto
  then have "end_stream_fills (engine_handler env) ?sid (sv_engine s) = Some (Status_OK, e)"
    by (simp add: end_stream_fills_def)
  from handler_ends [OF assms(3-5) this] show ?thesis
    using assms(3,4) filter_update [of i "sv_calls s" sc_open] by (fastforce simp: open_calls_def)
qed

text \<open>
  C18. The shutdown of the server comes to its end although clients hold their streams. When the engine
  was told to stop and \<open>Run\<close> is in the shutdown: nothing opens a stream any more; as long as a stream is
  not over, its handler runs and \<open>Run\<close> stays there, so the open orders are not cancelled yet; once the
  two seconds are over, every stream is over, and until \<open>Run\<close> has left the shutdown there is always a
  step with which a handler finishes or the shutdown returns; and \<open>Run\<close> has only left it when no stream
  is open.
\<close>

theorem shutdown_ends_streams:
  assumes "engine_reach env am e" and "env_ok env"
    and "(serving_step env)\<^sup>*\<^sup>* (serving_from e) s" and "sv_main s \<noteq> Waits_for_stop"
  shows "(serving_step env s s' \<longrightarrow>
            length (sv_calls s') = length (sv_calls s) \<and> open_calls s' \<le> open_calls s)
       \<and> (i < length (sv_calls s) \<and> \<not> call_over (sv_calls s ! i) \<longrightarrow>
            sv_main s = In_shutdown \<and> sc_open (sv_calls s ! i))
       \<and> (sv_expired s \<and> sv_main s = In_shutdown \<longrightarrow>
            (\<exists>s'. serving_step env s s'
                \<and> (sv_main s' = Past_shutdown \<or> sv_main s' = In_shutdown \<and> open_calls s' < open_calls s)))
       \<and> (sv_main s \<noteq> In_shutdown \<longrightarrow> open_calls s = 0)"
proof (intro conjI impI)
  note inv = serving_inv_reach [OF assms(3) serving_inv_from]
  { assume "serving_step env s s'"
    from shutdown_keeps_calls [OF this assms(4)]
    show "length (sv_calls s') = length (sv_calls s)" "open_calls s' \<le> open_calls s" by simp_all }
  { assume "i < length (sv_calls s) \<and> \<not> call_over (sv_calls s ! i)"
    with inv assms(4) show "sv_main s = In_shutdown" "sc_open (sv_calls s ! i)"
      by (cases "sv_main s"; auto simp: serving_inv_def)+ }
  { assume "sv_main s \<noteq> In_shutdown"
    with assms(4) have "sv_main s \<in> {Past_shutdown, Run_over}" by (cases "sv_main s") simp_all
    with inv show "open_calls s = 0"
      by (auto simp: serving_inv_def open_calls_def filter_empty_conv in_set_conv_nth) }
  assume expired: "sv_expired s \<and> sv_main s = In_shutdown"
  show "\<exists>s'. serving_step env s s'
      \<and> (sv_main s' = Past_shutdown \<or> sv_main s' = In_shutdown \<and> open_calls s' < open_calls s)"
  proof (cases "list_all (\<lambda>c. \<not> sc_open c) (sv_calls s)")
    case True
    from shutdown_returns [OF _ this] expired show ?thesis by fastforce
  next
    case False
    then obtain i where i: "i < length (sv_calls s)" "sc_open (sv_calls s ! i)"
      by (auto simp: list_all_length)
    moreover have "call_over (sv_calls s ! i)" using inv expired i by (simp add: serving_inv_def)
    moreover have "engine_reach env am (sv_engine s)"
      using serving_engine_reach [OF assms(3)] assms(1) by (simp add: serving_from_def)
    ultimately show ?thesis using handler_can_end [OF _ assms(2)] expired by metis
  qed
qed

text \<open>
  A client follows the fills of its strategy when the process gets a signal to end, and does not leave
  within the two seconds.
\<close>

theorem shutdown_ends_streams_witness:
  "\<exists>s s'. (serving_step sample_env)\<^sup>*\<^sup>* (serving_from sample_engine) s \<and> length (sv_calls s) = 1
     \<and> sv_main s = In_shutdown \<and> sc_open (sv_calls s ! 0)
     \<and> serving_step sample_env s s' \<and> open_calls s' = 0"
proof -
  obtain e where e: "begin_stream_fills (Some (engine_handler sample_env)) ''S1'' 0 sample_engine
      = Some (Inr (), e)"
    using ended_stream_silences_newer [OF sample_reach sample_env_ok, of "''S1''" 0 0 1]
    by (auto simp: find_manager_def sample_register)
  let ?s1 = "(serving_from sample_engine)\<lparr>sv_engine := e, sv_calls := [open_call ''S1'' (\<lambda>_. True)]\<rparr>"
  let ?s2 = "?s1\<lparr>sv_engine := on_signal e\<rparr>"
  let ?s3 = "?s2\<lparr>sv_main := In_shutdown\<rparr>"
  let ?s4 = "?s3\<lparr>sv_expired := True,
    sv_calls := map (\<lambda>c. c\<lparr>sc_cancelled := True\<rparr>) (sv_calls ?s3)\<rparr>"
  have "serving_step sample_env (serving_from sample_engine) ?s1"
    using call_opens [of "serving_from sample_engine" sample_env "''S1''" e "\<lambda>_. True"] e
    by (simp add: serving_from_def)
  moreover have "serving_step sample_env ?s1 ?s2"
    using engine_moves [OF es_signal, of sample_env ?s1] by simp
  moreover have "serving_step sample_env ?s2 ?s3"
    by (rule shutdown_called) (simp_all add: serving_from_def on_signal_def)
  moreover have "serving_step sample_env ?s3 ?s4"
    by (rule deadline_expires) simp
  ultimately have reach: "(serving_step sample_env)\<^sup>*\<^sup>* (serving_from sample_engine) ?s4"
    by (meson rtranclp.rtrancl_refl rtranclp.rtrancl_into_rtrancl)
  have one: "open_calls ?s4 = 1" by (simp add: open_calls_def open_call_def)
  have main: "sv_main ?s4 = In_shutdown" "sv_expired ?s4" by simp_all
  from shutdown_ends_streams [OF sample_reach sample_env_ok reach] main
  obtain s' where s': "serving_step sample_env ?s4 s'"
    "sv_main s' = Past_shutdown \<or> sv_main s' = In_shutdown \<and> open_calls s' < open_calls ?s4"
    by auto
  have "sv_main s' \<noteq> Past_shutdown"
    using s'(1) by (auto elim!: serving_step.cases simp: serving_from_def open_call_def)
  with s' one have "open_calls s' = 0" by simp
  with s'(1) reach show ?thesis
    by (intro exI [of _ ?s4] exI [of _ s']) (simp add: serving_from_def open_call_def)
qed

end
