(* ===== verification/LockOrder.thy ===== *)
theory LockOrder
  imports Main
begin

text \<open>
  Threads that lock and wait for each other. A job is what a thread does between two points where it
  holds nothing, as the list of its lock actions; a job may wait for another one to be finished. The
  locale \<open>lock_order\<close> is the contract of a system of such jobs: locks and jobs have a rank, a job waits
  only for what ranks above everything it holds and above itself. Then no set of jobs ever gets stuck
  by locks and joins alone: if jobs hang for another reason, every job that cannot go on waits, through
  others perhaps, for one that hangs.

  Reader-writer locks are modelled with writers first: a shared request also waits while somebody else
  waits for exclusive access, which an implementation may do. Nothing is assumed of the scheduler.
\<close>

section \<open>Programs\<close>

text \<open>\<open>Work\<close> is a step that needs no lock.\<close>

datatype ('l, 'j) lock_action = Excl 'l | Shared 'l | Unlock 'l | Join 'j | Work

text \<open>What is held after some actions: the locks with their modes, true for exclusive.\<close>

fun unlocked :: "'l \<Rightarrow> (bool \<times> 'l) list \<Rightarrow> (bool \<times> 'l) list" where
  "unlocked l [] = []"
| "unlocked l (h # hs) = (if snd h = l then hs else h # unlocked l hs)"

fun held_after :: "(bool \<times> 'l) list \<Rightarrow> ('l, 'j) lock_action list \<Rightarrow> (bool \<times> 'l) list" where
  "held_after H [] = H"
| "held_after H (Excl l # as) = held_after ((True, l) # H) as"
| "held_after H (Shared l # as) = held_after ((False, l) # H) as"
| "held_after H (Unlock l # as) = held_after (unlocked l H) as"
| "held_after H (Join i # as) = held_after H as"
| "held_after H (Work # as) = held_after H as"

lemma held_after_append [simp]: "held_after H (xs @ ys) = held_after (held_after H xs) ys"
  by (induction H xs rule: held_after.induct) simp_all

lemma excl_in_program:
  "(True, l) \<in> set (held_after H xs) \<Longrightarrow> (True, l) \<in> set H \<or> Excl l \<in> set xs"
proof (induction H xs rule: held_after.induct)
  case (4 H l' as)
  moreover have "set (unlocked l' H) \<subseteq> set H" by (induction l' H rule: unlocked.induct) auto
  ultimately show ?case by auto
qed auto

text \<open>A lock that is only ever shared keeps nobody waiting; the others are the contended ones.\<close>

fun in_order ::
  "('l \<Rightarrow> 'r :: linorder) \<Rightarrow> ('j \<Rightarrow> 'r) \<Rightarrow> 'l set \<Rightarrow> 'r \<Rightarrow> (bool \<times> 'l) list
   \<Rightarrow> ('l, 'j) lock_action list \<Rightarrow> bool" where
  "in_order rank jrank C r H [] = True"
| "in_order rank jrank C r H (Excl l # as) =
     (r < rank l \<and> (\<forall>h \<in> snd ` set H. h \<in> C \<longrightarrow> rank h < rank l)
      \<and> in_order rank jrank C r ((True, l) # H) as)"
| "in_order rank jrank C r H (Shared l # as) =
     ((l \<in> C \<longrightarrow> r < rank l \<and> (\<forall>h \<in> snd ` set H. h \<in> C \<longrightarrow> rank h < rank l))
      \<and> in_order rank jrank C r ((False, l) # H) as)"
| "in_order rank jrank C r H (Unlock l # as) = in_order rank jrank C r (unlocked l H) as"
| "in_order rank jrank C r H (Join i # as) =
     (r < jrank i \<and> (\<forall>h \<in> snd ` set H. h \<in> C \<longrightarrow> rank h < jrank i) \<and> in_order rank jrank C r H as)"
| "in_order rank jrank C r H (Work # as) = in_order rank jrank C r H as"

lemma in_order_append [simp]:
  "in_order rank jrank C r H (xs @ ys)
   \<longleftrightarrow> in_order rank jrank C r H xs \<and> in_order rank jrank C r (held_after H xs) ys"
  by (induction rank jrank C r H xs rule: in_order.induct) auto

text \<open>Pieces that give back what they take can be strung together.\<close>

lemma held_after_concat:
  "\<forall>xs \<in> set xss. held_after H xs = H \<Longrightarrow> held_after H (concat xss) = H"
  by (induction xss) simp_all

lemma in_order_concat:
  "\<forall>xs \<in> set xss. held_after H xs = H \<Longrightarrow>
   in_order rank jrank C r H (concat xss) \<longleftrightarrow> (\<forall>xs \<in> set xss. in_order rank jrank C r H xs)"
  by (induction xss) simp_all

section \<open>Runs\<close>

text \<open>The state of a system of jobs: how many of its actions each job has done.\<close>

definition finished :: "('j \<Rightarrow> ('l, 'j) lock_action list) \<Rightarrow> ('j \<Rightarrow> nat) \<Rightarrow> 'j \<Rightarrow> bool" where
  "finished prog dn j \<longleftrightarrow> length (prog j) \<le> dn j"

definition held_by :: "('j \<Rightarrow> ('l, 'j) lock_action list) \<Rightarrow> ('j \<Rightarrow> nat) \<Rightarrow> 'j \<Rightarrow> (bool \<times> 'l) list" where
  "held_by prog dn j = held_after [] (take (dn j) (prog j))"

fun must_wait ::
  "('j \<Rightarrow> ('l, 'j) lock_action list) \<Rightarrow> 'j set \<Rightarrow> ('j \<Rightarrow> nat) \<Rightarrow> 'j \<Rightarrow> ('l, 'j) lock_action \<Rightarrow> bool"
  where
  "must_wait prog J dn j (Excl l) \<longleftrightarrow> (\<exists>i \<in> J. i \<noteq> j \<and> l \<in> snd ` set (held_by prog dn i))"
| "must_wait prog J dn j (Shared l) \<longleftrightarrow>
     (\<exists>i \<in> J. i \<noteq> j \<and> ((True, l) \<in> set (held_by prog dn i)
        \<or> \<not> finished prog dn i \<and> prog i ! dn i = Excl l))"
| "must_wait prog J dn j (Unlock l) \<longleftrightarrow> False"
| "must_wait prog J dn j (Join i) \<longleftrightarrow> \<not> finished prog dn i"
| "must_wait prog J dn j Work \<longleftrightarrow> False"

text \<open>Whom a job waits for: a holder of its lock, a writer in front of it, or the job it joins.\<close>

definition waits_on ::
  "('j \<Rightarrow> ('l, 'j) lock_action list) \<Rightarrow> 'j set \<Rightarrow> ('j \<Rightarrow> nat) \<Rightarrow> 'j \<Rightarrow> 'j \<Rightarrow> bool" where
  "waits_on prog J dn j i \<longleftrightarrow>
     i \<in> J \<and> \<not> finished prog dn i
   \<and> (case prog j ! dn j of
        Excl l \<Rightarrow> i \<noteq> j \<and> l \<in> snd ` set (held_by prog dn i)
      | Shared l \<Rightarrow> i \<noteq> j \<and> ((True, l) \<in> set (held_by prog dn i) \<or> prog i ! dn i = Excl l)
      | Unlock l \<Rightarrow> False
      | Join k \<Rightarrow> i = k
      | Work \<Rightarrow> False)"

inductive lock_step ::
  "('j \<Rightarrow> ('l, 'j) lock_action list) \<Rightarrow> 'j set \<Rightarrow> ('j \<Rightarrow> nat) \<Rightarrow> ('j \<Rightarrow> nat) \<Rightarrow> bool"
  for prog :: "'j \<Rightarrow> ('l, 'j) lock_action list" and J :: "'j set" where
  job_moves: "j \<in> J \<Longrightarrow> \<not> finished prog dn j \<Longrightarrow> \<not> must_wait prog J dn j (prog j ! dn j) \<Longrightarrow>
     lock_step prog J dn (dn(j := Suc (dn j)))"

text \<open>Every step uses up one action, so no run is longer than the programs together.\<close>

definition actions_left :: "('j \<Rightarrow> ('l, 'j) lock_action list) \<Rightarrow> 'j set \<Rightarrow> ('j \<Rightarrow> nat) \<Rightarrow> nat" where
  "actions_left prog J dn = (\<Sum>j \<in> J. length (prog j) - dn j)"

lemma lock_step_decreases:
  assumes "finite J" and "lock_step prog J dn dn'"
  shows "actions_left prog J dn' < actions_left prog J dn"
  using assms(2)
proof cases
  case (job_moves j)
  show ?thesis
    unfolding actions_left_def
    by (rule sum_strict_mono_ex1) (use assms(1) job_moves in \<open>auto simp: finished_def\<close>)
qed

section \<open>The contract\<close>

locale lock_order =
  fixes prog :: "'j \<Rightarrow> ('l, 'j) lock_action list" and J :: "'j set"
    and rank :: "'l \<Rightarrow> 'r :: linorder" and jrank :: "'j \<Rightarrow> 'r" and C :: "'l set"
  assumes finite_jobs: "finite J"
    and joined_run: "j \<in> J \<Longrightarrow> Join i \<in> set (prog j) \<Longrightarrow> i \<in> J"
    and contended: "j \<in> J \<Longrightarrow> Excl l \<in> set (prog j) \<Longrightarrow> l \<in> C"
    and ordered: "j \<in> J \<Longrightarrow> in_order rank jrank C (jrank j) [] (prog j)"
    and released: "j \<in> J \<Longrightarrow> held_after [] (prog j) = []"
begin

text \<open>The rank of what an unfinished job does next.\<close>

fun action_rank :: "('l, 'j) lock_action \<Rightarrow> 'r" where
  "action_rank (Excl l) = rank l"
| "action_rank (Shared l) = rank l"
| "action_rank (Unlock l) = rank l"
| "action_rank (Join i) = jrank i"
| "action_rank Work = undefined"

lemma next_in_order:
  assumes "j \<in> J" and "\<not> finished prog dn j"
  shows "in_order rank jrank C (jrank j) (held_by prog dn j) [prog j ! dn j]"
proof -
  have "prog j = take (dn j) (prog j) @ [prog j ! dn j] @ drop (Suc (dn j)) (prog j)"
    using assms(2) by (simp add: finished_def id_take_nth_drop)
  with ordered [OF assms(1)] show ?thesis
    unfolding held_by_def by (metis in_order_append)
qed

lemma next_in_program: "\<not> finished prog dn j \<Longrightarrow> prog j ! dn j \<in> set (prog j)"
  by (simp add: finished_def)

lemma holder_unfinished:
  assumes "j \<in> J" and "x \<in> set (held_by prog dn j)"
  shows "\<not> finished prog dn j"
  using assms released [OF assms(1)] by (auto simp: finished_def held_by_def)

lemma held_contended:
  assumes "i \<in> J" and "(True, l) \<in> set (held_by prog dn i)"
  shows "l \<in> C"
proof -
  have "Excl l \<in> set (take (dn i) (prog i))"
    using assms(2) excl_in_program [of l "[]"] by (simp add: held_by_def)
  with assms(1) show ?thesis by (meson contended in_set_takeD)
qed

text \<open>A job that waits does so above itself and above everything contended it holds.\<close>

lemma waits_above:
  assumes "j \<in> J" and "\<not> finished prog dn j" and "must_wait prog J dn j (prog j ! dn j)"
  shows "jrank j < action_rank (prog j ! dn j)
       \<and> (\<forall>l \<in> snd ` set (held_by prog dn j). l \<in> C \<longrightarrow> rank l < action_rank (prog j ! dn j))"
proof (cases "prog j ! dn j")
  case (Shared l)
  with assms(3) obtain i where i: "i \<in> J"
    "(True, l) \<in> set (held_by prog dn i) \<or> \<not> finished prog dn i \<and> prog i ! dn i = Excl l"
    by auto
  then have "l \<in> C"
    using held_contended contended next_in_program by metis
  with next_in_order [OF assms(1,2)] Shared show ?thesis by simp
qed (use next_in_order [OF assms(1,2)] assms(3) in auto)

text \<open>
  The jobs of \<open>H\<close> may hang, and no other can go on. Behind a waiting job there is an unfinished one
  that hangs or, if it waits too, ranks higher.
\<close>

definition stuck_outside :: "'j set \<Rightarrow> ('j \<Rightarrow> nat) \<Rightarrow> bool" where
  "stuck_outside H dn \<longleftrightarrow>
     (\<forall>j \<in> J - H. \<not> finished prog dn j \<longrightarrow> must_wait prog J dn j (prog j ! dn j))"

lemma holder_above:
  assumes "stuck_outside H dn" and "i \<in> J - H" and "l \<in> snd ` set (held_by prog dn i)" and "l \<in> C"
  shows "rank l < action_rank (prog i ! dn i)"
proof -
  from assms(2,3) have "\<not> finished prog dn i" using holder_unfinished by auto
  with assms waits_above show ?thesis by (auto simp: stuck_outside_def)
qed

lemma holder_or_above:
  assumes "stuck_outside H dn" and "i \<in> J" and "l \<in> snd ` set (held_by prog dn i)" and "l \<in> C"
  shows "\<not> finished prog dn i \<and> (i \<in> H \<or> rank l < action_rank (prog i ! dn i))"
  using holder_above [OF assms(1) _ assms(3,4)] assms(2,3) holder_unfinished by auto

lemma waits_for_higher:
  assumes "stuck_outside H dn" and "j \<in> J - H" and "\<not> finished prog dn j"
  shows "\<exists>i \<in> J. \<not> finished prog dn i \<and> (waits_on prog J dn)\<^sup>*\<^sup>* j i
    \<and> (i \<in> H \<or> action_rank (prog j ! dn j) < action_rank (prog i ! dn i))"
proof -
  have wait: "must_wait prog J dn j (prog j ! dn j)" using assms by (simp add: stuck_outside_def)
  have next_in: "prog j ! dn j \<in> set (prog j)" by (rule next_in_program [OF assms(3)])
  have jJ: "j \<in> J" using assms(2) by simp
  show ?thesis
  proof (cases "prog j ! dn j")
    case (Excl l)
    with wait obtain i where i: "i \<in> J" "i \<noteq> j" "l \<in> snd ` set (held_by prog dn i)" by auto
    have "l \<in> C" using contended [OF jJ] next_in Excl by simp
    from holder_or_above [OF assms(1) i(1,3) this]
    have "\<not> finished prog dn i" "i \<in> H \<or> rank l < action_rank (prog i ! dn i)" by simp_all
    moreover from this i Excl have "waits_on prog J dn j i" by (simp add: waits_on_def)
    ultimately show ?thesis using i(1) Excl by (intro bexI [of _ i]) auto
  next
    case (Shared l)
    with wait obtain i where i: "i \<in> J" "i \<noteq> j" "(True, l) \<in> set (held_by prog dn i)
        \<or> \<not> finished prog dn i \<and> prog i ! dn i = Excl l"
      by auto
    show ?thesis
    proof (cases "(True, l) \<in> set (held_by prog dn i)")
      case True
      then have held: "l \<in> snd ` set (held_by prog dn i)" by force
      from holder_or_above [OF assms(1) i(1) held held_contended [OF i(1) True]]
      have "\<not> finished prog dn i" "i \<in> H \<or> rank l < action_rank (prog i ! dn i)" by simp_all
      moreover from this i True Shared have "waits_on prog J dn j i" by (simp add: waits_on_def)
      ultimately show ?thesis using i(1) Shared by (intro bexI [of _ i]) auto
    next
      case False
      with i(3) have writer: "\<not> finished prog dn i" "prog i ! dn i = Excl l" by simp_all
      with i Shared have one: "waits_on prog J dn j i" by (simp add: waits_on_def)
      show ?thesis
      proof (cases "i \<in> H")
        case True
        with writer(1) one i(1) show ?thesis by blast
      next
        case False
        with writer i(1) assms(1) have "must_wait prog J dn i (Excl l)" by (auto simp: stuck_outside_def)
        then obtain k where k: "k \<in> J" "k \<noteq> i" "l \<in> snd ` set (held_by prog dn k)" by auto
        have "l \<in> C" using contended [OF i(1)] next_in_program [OF writer(1)] writer(2) by simp
        from holder_or_above [OF assms(1) k(1,3) this]
        have h: "\<not> finished prog dn k" "k \<in> H \<or> rank l < action_rank (prog k ! dn k)" by simp_all
        with k writer have "waits_on prog J dn i k" by (simp add: waits_on_def)
        with one have "(waits_on prog J dn)\<^sup>*\<^sup>* j k" by simp
        with h k(1) Shared show ?thesis by (intro bexI [of _ k]) simp_all
      qed
    qed
  next
    case (Join i)
    with wait have i: "\<not> finished prog dn i" by simp
    moreover have "i \<in> J" using joined_run [OF jJ] next_in Join by simp
    moreover from this i Join have "waits_on prog J dn j i" by (simp add: waits_on_def)
    moreover have "i \<in> H \<or> jrank i < action_rank (prog i ! dn i)"
      using waits_above [of i dn] assms(1) i \<open>i \<in> J\<close> by (auto simp: stuck_outside_def)
    ultimately show ?thesis using Join by (intro bexI [of _ i]) auto
  qed (use wait in simp_all)
qed

lemma waits_explained:
  assumes "stuck_outside H dn" and "j \<in> J" and "\<not> finished prog dn j"
  shows "\<exists>h \<in> H. \<not> finished prog dn h \<and> (waits_on prog J dn)\<^sup>*\<^sup>* j h"
  using assms(2,3)
proof (induction "card {i \<in> J. \<not> finished prog dn i \<and> action_rank (prog j ! dn j) < action_rank (prog i ! dn i)}"
    arbitrary: j rule: less_induct)
  case less
  show ?case
  proof (cases "j \<in> H")
    case True
    with less.prems show ?thesis by blast
  next
    case False
    with less.prems waits_for_higher [OF assms(1), of j] obtain i where i: "i \<in> J" "\<not> finished prog dn i"
      "(waits_on prog J dn)\<^sup>*\<^sup>* j i" "i \<in> H \<or> action_rank (prog j ! dn j) < action_rank (prog i ! dn i)"
      by blast
    show ?thesis
    proof (cases "i \<in> H")
      case True
      with i show ?thesis by blast
    next
      case False
      let ?above = "\<lambda>j. {i \<in> J. \<not> finished prog dn i \<and> action_rank (prog j ! dn j) < action_rank (prog i ! dn i)}"
      have "?above i \<subset> ?above j" using i False by (auto intro: less_trans)
      then have "card (?above i) < card (?above j)" using finite_jobs by (intro psubset_card_mono) auto
      from less.hyps [OF this i(1,2)] i(3) show ?thesis by (meson rtranclp_trans)
    qed
  qed
qed

lemma somebody_moves:
  assumes "j \<in> J" and "\<not> finished prog dn j"
  shows "\<exists>dn'. lock_step prog J dn dn'"
proof (rule ccontr)
  assume "\<nexists>dn'. lock_step prog J dn dn'"
  then have "stuck_outside {} dn" by (auto simp: stuck_outside_def intro: job_moves)
  from waits_explained [OF this assms] show False by simp
qed

end

end
