(* ===== verification/EngineLocks.thy ===== *)
theory EngineLocks
  imports LockOrder "HOL-Library.Product_Lexorder"
begin

text \<open>
  Which locks the threads of the engine take, in which order, and for whom they wait while they hold
  them: the requests of \<open>core/trading_engine.cpp\<close>, the dispatch threads of the order managers, the
  threads of the gateways, the feeds and the journals, and the end of \<open>Run\<close>. Of a handler only its lock
  actions are left; which of several ways it goes, how many orders, symbols or subscribers there are, is
  open. The engine interprets the contract of \<open>LockOrder\<close>.

  What is waited for outside the engine, an adapter, a client that reads its stream or the file system,
  is a job of its own that may hang. So may a job that waits at a condition variable: the dispatch
  thread for its next event, the dispatcher of the paper gateway when it has missed its wake-up, a
  stream thread between two streams (\<open>reconnect_mu_\<close>, which nobody else takes).
\<close>

section \<open>Locks and jobs\<close>

text \<open>
  Managers, feeds and their threads are numbered. \<open>Feed_own_mu\<close> is \<open>data_mu_\<close> of a simulated feed and
  \<open>ctx_mu_\<close> of an adapter feed.
\<close>

datatype engine_lock =
  Managers_mu | Feed_mu | Run_mu | Feed_own_mu nat
| Queue_mu nat | Md_sink_mu nat | Fill_sink_mu nat
| Mapper_mu nat | Store_mu nat | Position_mu nat
| Journal_queue_mu nat | Journal_db_mu nat
| Orders_mu nat | Dispatch_mu nat | Ctx_mu nat

text \<open>
  A job: a request, the end of \<open>Run\<close>, the handling of one event of a manager, a round of a gateway's
  simulation, dispatcher or stream thread, of a journal's writer, of a feed; and what others do.
\<close>

datatype engine_job =
  Rpc nat | Main_end | Event nat nat | Sim_round nat nat | Delivery nat nat | Stream_round nat nat
| Writer_round nat nat | Feed_round nat nat | Peer nat

type_synonym lock_list = "(engine_lock, engine_job) lock_action list"

definition crit :: "engine_lock \<Rightarrow> lock_list" where
  "crit l = [Excl l, Unlock l]"

definition crit_shared :: "engine_lock \<Rightarrow> lock_list" where
  "crit_shared l = [Shared l, Unlock l]"

text \<open>The rounds of one thread follow each other.\<close>

fun after_previous :: "(nat \<Rightarrow> engine_job) \<Rightarrow> nat \<Rightarrow> lock_list" where
  "after_previous job 0 = []"
| "after_previous job (Suc k) = [Join (job k)]"

section \<open>The order manager\<close>

definition enqueue_locks :: "nat \<Rightarrow> lock_list" where
  "enqueue_locks a = crit (Queue_mu a)"

text \<open>The handlers are sequences of these calls; a sink writes to its client under the sink's lock.\<close>

datatype handler_call =
  Mapper_read | Mapper_write | Store_call | Position_read | Position_write | Journal_log
| Paper_call | Adapter_call nat | Fill_sink_call nat | Md_sink_call nat

fun handler_locks :: "nat \<Rightarrow> handler_call \<Rightarrow> lock_list" where
  "handler_locks a Mapper_read = crit_shared (Mapper_mu a)"
| "handler_locks a Mapper_write = crit (Mapper_mu a)"
| "handler_locks a Store_call = crit (Store_mu a)"
| "handler_locks a Position_read = crit_shared (Position_mu a)"
| "handler_locks a Position_write = crit (Position_mu a)"
| "handler_locks a Journal_log = crit (Journal_queue_mu a)"
| "handler_locks a Paper_call = crit (Orders_mu a)"
| "handler_locks a (Adapter_call p) = [Join (Peer p)]"
| "handler_locks a (Fill_sink_call p) = [Excl (Fill_sink_mu a), Join (Peer p), Unlock (Fill_sink_mu a)]"
| "handler_locks a (Md_sink_call p) = [Excl (Md_sink_mu a), Join (Peer p), Unlock (Md_sink_mu a)]"

text \<open>A round of the dispatch loop: \<open>pop\<close>, the handler, \<open>mark_processed\<close>.\<close>

definition event_locks :: "nat \<Rightarrow> nat \<Rightarrow> handler_call list \<Rightarrow> lock_list" where
  "event_locks a k cs =
     after_previous (Event a) k @ crit (Queue_mu a) @ concat (map (handler_locks a) cs) @ crit (Queue_mu a)"

text \<open>A command: enqueue it, and wait for the promise that its handler sets.\<close>

definition command_locks :: "nat \<Rightarrow> nat \<Rightarrow> lock_list" where
  "command_locks a k = enqueue_locks a @ [Join (Event a k)]"

section \<open>Gateways, journals and feeds\<close>

definition sim_locks :: "nat \<Rightarrow> nat \<Rightarrow> nat \<Rightarrow> lock_list" where
  "sim_locks a k reports =
     after_previous (Sim_round a) k @ crit (Orders_mu a)
     @ concat (replicate reports (crit (Dispatch_mu a)))"

definition delivery_locks :: "nat \<Rightarrow> nat \<Rightarrow> lock_list" where
  "delivery_locks a k = after_previous (Delivery a) k @ crit (Dispatch_mu a) @ enqueue_locks a"

text \<open>A stream of the adapter: a new context, a report read, the handler; \<open>ctx_mu_\<close> again at the end.\<close>

definition stream_locks :: "nat \<Rightarrow> nat \<Rightarrow> nat \<Rightarrow> lock_list" where
  "stream_locks a k p =
     after_previous (Stream_round a) k @ crit (Ctx_mu a) @ [Join (Peer p)] @ enqueue_locks a
     @ crit (Ctx_mu a)"

definition writer_locks :: "nat \<Rightarrow> nat \<Rightarrow> lock_list" where
  "writer_locks a k =
     after_previous (Writer_round a) k @ crit (Journal_queue_mu a) @ crit (Journal_db_mu a)
     @ crit (Journal_queue_mu a)"

text \<open>A bar or tick goes to the queues of its subscribers under the shared lock of the registry.\<close>

definition fan_out_locks :: "nat list \<Rightarrow> lock_list" where
  "fan_out_locks oms = [Shared Feed_mu] @ concat (map enqueue_locks oms) @ [Unlock Feed_mu]"

text \<open>A round of a feed: its own lock, and for each symbol its own lock and the handler calls.\<close>

definition feed_locks :: "nat \<Rightarrow> nat \<Rightarrow> nat list list list \<Rightarrow> lock_list" where
  "feed_locks f k symbs =
     after_previous (Feed_round f) k @ crit (Feed_own_mu f)
     @ concat (map (\<lambda>calls. crit (Feed_own_mu f) @ concat (map fan_out_locks calls)) symbs)"

section \<open>The end of an order manager\<close>

text \<open>
  What the destructor waits for: \<open>gateway_->stop()\<close>, which for an adapter takes \<open>ctx_mu_\<close> and for the
  paper gateway joins its threads, the dispatch thread, the journal (\<open>flush\<close> and its writer), and the
  threads that end with the gateway's destructor.
\<close>

datatype gateway_thread = Simulation nat | Dispatcher nat | Adapter_stream nat

fun gateway_job :: "nat \<Rightarrow> gateway_thread \<Rightarrow> engine_job" where
  "gateway_job a (Simulation k) = Sim_round a k"
| "gateway_job a (Dispatcher k) = Delivery a k"
| "gateway_job a (Adapter_stream k) = Stream_round a k"

record teardown =
  td_manager :: nat
  td_adapter :: bool
  td_stopped :: "gateway_thread list"
  td_last_event :: nat
  td_last_write :: nat
  td_destroyed :: "gateway_thread list"

definition destroy_locks :: "teardown \<Rightarrow> lock_list" where
  "destroy_locks td =
     (let a = td_manager td
      in (if td_adapter td then crit (Ctx_mu a) else [])
         @ map (\<lambda>g. Join (gateway_job a g)) (td_stopped td)
         @ [Join (Event a (td_last_event td))]
         @ crit (Journal_queue_mu a) @ [Join (Writer_round a (td_last_write td))]
         @ crit (Journal_db_mu a)
         @ map (\<lambda>g. Join (gateway_job a g)) (td_destroyed td))"

section \<open>Requests\<close>

text \<open>
  Registration may wait for the adapter of the gateway and for that of the feed, make a feed and
  subscribe to it; one that fails leaves out the rest.
\<close>

definition register_locks :: "nat list \<Rightarrow> nat list \<Rightarrow> nat \<Rightarrow> bool \<Rightarrow> nat \<Rightarrow> lock_list" where
  "register_locks ps ps' f new_feed subs =
     [Excl Managers_mu] @ map (\<lambda>p. Join (Peer p)) ps
     @ crit_shared Feed_mu @ map (\<lambda>p. Join (Peer p)) ps' @ (if new_feed then crit Feed_mu else [])
     @ concat (replicate subs ([Excl Feed_mu] @ crit (Feed_own_mu f) @ [Unlock Feed_mu]))
     @ [Unlock Managers_mu]"

definition signal_locks :: "nat \<Rightarrow> nat \<Rightarrow> lock_list" where
  "signal_locks a k = crit_shared Managers_mu @ command_locks a k"

definition position_locks :: "nat list \<Rightarrow> lock_list" where
  "position_locks oms =
     [Shared Managers_mu] @ concat (map (\<lambda>a. crit_shared (Position_mu a)) oms) @ [Unlock Managers_mu]"

definition setup_stream_locks :: "engine_lock \<Rightarrow> lock_list" where
  "setup_stream_locks sink_mu = crit_shared Managers_mu @ crit sink_mu"

definition clear_stream_locks :: "engine_lock \<Rightarrow> lock_list" where
  "clear_stream_locks sink_mu = [Shared Managers_mu] @ crit sink_mu @ [Unlock Managers_mu]"

definition stop_strategy_locks :: "nat \<Rightarrow> nat \<Rightarrow> teardown \<Rightarrow> lock_list" where
  "stop_strategy_locks a k td =
     [Excl Managers_mu] @ command_locks a k @ crit Feed_mu @ destroy_locks td @ [Unlock Managers_mu]"

definition halt_all_locks :: "(nat \<times> nat) list \<Rightarrow> teardown list \<Rightarrow> lock_list" where
  "halt_all_locks oms tds =
     [Excl Managers_mu] @ concat (map (\<lambda>(a, k). command_locks a k @ crit Feed_mu) oms)
     @ concat (map destroy_locks tds) @ [Unlock Managers_mu] @ crit Run_mu"

datatype request =
  Register_request "nat list" "nat list" nat bool nat
| Signal_request nat nat
| Position_request "nat list"
| Open_fills nat | Close_fills nat | Open_market_data nat | Close_market_data nat
| Stop_request nat nat teardown
| Halt_request "(nat \<times> nat) list" "teardown list"

fun request_locks :: "request \<Rightarrow> lock_list" where
  "request_locks (Register_request ps ps' f new_feed subs) = register_locks ps ps' f new_feed subs"
| "request_locks (Signal_request a k) = signal_locks a k"
| "request_locks (Position_request oms) = position_locks oms"
| "request_locks (Open_fills a) = setup_stream_locks (Fill_sink_mu a)"
| "request_locks (Close_fills a) = clear_stream_locks (Fill_sink_mu a)"
| "request_locks (Open_market_data a) = setup_stream_locks (Md_sink_mu a)"
| "request_locks (Close_market_data a) = clear_stream_locks (Md_sink_mu a)"
| "request_locks (Stop_request a k td) = stop_strategy_locks a k td"
| "request_locks (Halt_request oms tds) = halt_all_locks oms tds"

text \<open>
  After the server's shutdown: the cancels, \<open>stop_all\<close>, which joins the thread of a simulated feed and
  only signals that of an adapter feed, and the destructors of the managers and the feeds.
\<close>

definition stop_feed_locks :: "nat \<times> nat option \<Rightarrow> lock_list" where
  "stop_feed_locks fk =
     (case snd fk of Some k \<Rightarrow> [Join (Feed_round (fst fk) k)] | None \<Rightarrow> crit (Feed_own_mu (fst fk)))"

definition end_locks ::
  "(nat \<times> nat) list \<Rightarrow> (nat \<times> nat option) list \<Rightarrow> teardown list \<Rightarrow> (nat \<times> nat) list \<Rightarrow> lock_list" where
  "end_locks oms fks tds fs =
     concat (map (\<lambda>(a, k). command_locks a k) oms)
     @ [Shared Feed_mu] @ concat (map stop_feed_locks fks) @ [Unlock Feed_mu]
     @ concat (map destroy_locks tds) @ map (\<lambda>(f, k). Join (Feed_round f k)) fs"

section \<open>No deadlock\<close>

text \<open>What is open: the requests, what each handler and round does, and the end.\<close>

record scenario =
  sc_requests :: "nat \<Rightarrow> request"
  sc_handlers :: "nat \<Rightarrow> nat \<Rightarrow> handler_call list"
  sc_reports :: "nat \<Rightarrow> nat \<Rightarrow> nat"
  sc_reads :: "nat \<Rightarrow> nat \<Rightarrow> nat"
  sc_feed_calls :: "nat \<Rightarrow> nat \<Rightarrow> nat list list list"
  sc_end_managers :: "(nat \<times> nat) list"
  sc_end_feeds :: "(nat \<times> nat option) list"
  sc_end_teardowns :: "teardown list"
  sc_end_threads :: "(nat \<times> nat) list"

fun job_locks :: "scenario \<Rightarrow> engine_job \<Rightarrow> lock_list" where
  "job_locks sc (Rpc n) = request_locks (sc_requests sc n)"
| "job_locks sc Main_end =
     end_locks (sc_end_managers sc) (sc_end_feeds sc) (sc_end_teardowns sc) (sc_end_threads sc)"
| "job_locks sc (Event a k) = event_locks a k (sc_handlers sc a k)"
| "job_locks sc (Sim_round a k) = sim_locks a k (sc_reports sc a k)"
| "job_locks sc (Delivery a k) = delivery_locks a k"
| "job_locks sc (Stream_round a k) = stream_locks a k (sc_reads sc a k)"
| "job_locks sc (Writer_round a k) = writer_locks a k"
| "job_locks sc (Feed_round f k) = feed_locks f k (sc_feed_calls sc f k)"
| "job_locks sc (Peer p) = [Work]"

text \<open>
  The order: the managers, the registry, the handling of events (earlier before later ones), the sinks,
  the locks that are never held while waiting, the others.
\<close>

fun lock_rank :: "engine_lock \<Rightarrow> nat \<times> int" where
  "lock_rank Managers_mu = (1, 0)"
| "lock_rank Feed_mu = (3, 0)"
| "lock_rank (Md_sink_mu a) = (5, 0)"
| "lock_rank (Fill_sink_mu a) = (5, 0)"
| "lock_rank _ = (6, 0)"

fun job_rank :: "engine_job \<Rightarrow> nat \<times> int" where
  "job_rank (Rpc n) = (0, 0)"
| "job_rank Main_end = (0, 0)"
| "job_rank (Feed_round f k) = (2, - int k)"
| "job_rank (Event a k) = (4, - int k)"
| "job_rank (Sim_round a k) = (4, - int k)"
| "job_rank (Delivery a k) = (4, - int k)"
| "job_rank (Stream_round a k) = (4, - int k)"
| "job_rank (Writer_round a k) = (4, - int k)"
| "job_rank (Peer p) = (7, 0)"

abbreviation well_ordered ::
  "engine_lock set \<Rightarrow> nat \<times> int \<Rightarrow> (bool \<times> engine_lock) list \<Rightarrow> lock_list \<Rightarrow> bool" where
  "well_ordered \<equiv> in_order lock_rank job_rank"

lemma crit_simps [simp]:
  "held_after H (crit l) = H" "held_after H (crit_shared l) = H"
  "well_ordered C r H (crit l)
   \<longleftrightarrow> r < lock_rank l \<and> (\<forall>h \<in> snd ` set H. h \<in> C \<longrightarrow> lock_rank h < lock_rank l)"
  "well_ordered C r H (crit_shared l)
   \<longleftrightarrow> (l \<in> C \<longrightarrow> r < lock_rank l \<and> (\<forall>h \<in> snd ` set H. h \<in> C \<longrightarrow> lock_rank h < lock_rank l))"
  by (simp_all add: crit_def crit_shared_def)

lemma joins_simps [simp]:
  "held_after H (map (\<lambda>x. Join (f x)) xs) = H"
  "well_ordered C r H (map (\<lambda>x. Join (f x)) xs)
   \<longleftrightarrow> (\<forall>x \<in> set xs. r < job_rank (f x) \<and> (\<forall>h \<in> snd ` set H. h \<in> C \<longrightarrow> lock_rank h < job_rank (f x)))"
  by (induction xs) auto

lemma previous_simps [simp]:
  "held_after H (after_previous job k) = H"
  "well_ordered C r H (after_previous job k)
   \<longleftrightarrow> (\<forall>k'. k = Suc k' \<longrightarrow> r < job_rank (job k') \<and> (\<forall>h \<in> snd ` set H. h \<in> C \<longrightarrow> lock_rank h < job_rank (job k')))"
  by (cases k; auto)+

text \<open>Everything below the requests gives back what it takes and stays above the managers and feeds.\<close>

lemma handler_locks_ok [simp]:
  "held_after H (handler_locks a c) = H"
  "well_ordered C (4, i) [] (handler_locks a c)"
  by (cases c; simp)+

lemma gateway_job_rank: "\<exists>k. job_rank (gateway_job a g) = (4, - int k)"
  by (cases g) auto

definition below_events :: "engine_lock set \<Rightarrow> (bool \<times> engine_lock) list \<Rightarrow> bool" where
  "below_events C H \<longleftrightarrow> (\<forall>h \<in> snd ` set H. h \<in> C \<longrightarrow> fst (lock_rank h) < 4)"

lemma command_locks_ok [simp]:
  "held_after H (command_locks a k) = H"
  "below_events C H \<Longrightarrow> well_ordered C (0, 0) H (command_locks a k)"
  by (auto simp: command_locks_def enqueue_locks_def below_events_def less_prod_def')

lemma destroy_locks_ok [simp]:
  "held_after H (destroy_locks td) = H"
  "below_events C H \<Longrightarrow> well_ordered C (0, 0) H (destroy_locks td)"
proof -
  show "held_after H (destroy_locks td) = H" by (simp add: destroy_locks_def Let_def)
  assume H: "below_events C H"
  have "(0, 0) < job_rank (gateway_job a g) \<and>
      (\<forall>h \<in> snd ` set H. h \<in> C \<longrightarrow> lock_rank h < job_rank (gateway_job a g))" for a g
    using gateway_job_rank [of a g] H by (auto simp: below_events_def less_prod_def')
  with H show "well_ordered C (0, 0) H (destroy_locks td)"
    by (auto simp: destroy_locks_def Let_def below_events_def less_prod_def')
qed

lemma fan_out_locks_ok [simp]:
  "held_after H (fan_out_locks oms) = H"
  "well_ordered C (2, i) [] (fan_out_locks oms)"
proof -
  have "held_after G (concat (map enqueue_locks oms)) = G" for G
    by (rule held_after_concat) (simp add: enqueue_locks_def)
  then show "held_after H (fan_out_locks oms) = H" "well_ordered C (2, i) [] (fan_out_locks oms)"
    by (auto simp: fan_out_locks_def in_order_concat enqueue_locks_def less_prod_def')
qed

lemma request_locks_ok:
  "held_after [] (request_locks q) = [] \<and> well_ordered C (0, 0) [] (request_locks q)"
proof (cases q)
  case (Register_request ps ps' f new_feed subs)
  then show ?thesis
    by (auto simp: register_locks_def held_after_concat in_order_concat less_prod_def')
next
  case (Signal_request a k)
  then show ?thesis by (simp add: signal_locks_def below_events_def less_prod_def')
next
  case (Position_request oms)
  then show ?thesis
    by (auto simp: position_locks_def held_after_concat in_order_concat less_prod_def')
next
  case (Stop_request a k td)
  then show ?thesis by (simp add: stop_strategy_locks_def below_events_def less_prod_def')
next
  case (Halt_request oms tds)
  then show ?thesis
    by (auto simp: halt_all_locks_def held_after_concat in_order_concat below_events_def less_prod_def'
        split: prod.splits)
qed (simp_all add: setup_stream_locks_def clear_stream_locks_def less_prod_def')

lemma end_locks_ok:
  assumes "Feed_mu \<notin> C"
  shows "held_after [] (end_locks oms fks tds fs) = []
       \<and> well_ordered C (0, 0) [] (end_locks oms fks tds fs)"
proof -
  have feeds: "held_after H (stop_feed_locks fk) = H" for H fk
    by (simp add: stop_feed_locks_def split: option.split)
  have "well_ordered C (0, 0) [(False, Feed_mu)] (stop_feed_locks fk)" for fk
    using assms by (simp add: stop_feed_locks_def less_prod_def' split: option.split)
  moreover have "well_ordered C (0, 0) [] (map (\<lambda>(f, k). Join (Feed_round f k)) fs)"
    "held_after [] (map (\<lambda>(f, k). Join (Feed_round f k)) fs) = []"
    by (induction fs) (auto simp: less_prod_def')
  ultimately show ?thesis
    using assms feeds
    by (auto simp: end_locks_def held_after_concat in_order_concat below_events_def less_prod_def'
        split: prod.splits)
qed

lemma job_locks_ok:
  assumes "j = Main_end \<Longrightarrow> Feed_mu \<notin> C"
  shows "held_after [] (job_locks sc j) = [] \<and> well_ordered C (job_rank j) [] (job_locks sc j)"
proof (cases j)
  case (Rpc n)
  then show ?thesis using request_locks_ok by simp
next
  case Main_end
  then show ?thesis using end_locks_ok assms by simp
next
  case (Event a k)
  then show ?thesis
    by (simp add: event_locks_def held_after_concat in_order_concat less_prod_def')
next
  case (Feed_round f k)
  have "held_after H (concat (map fan_out_locks calls)) = H" for H calls
    by (rule held_after_concat) simp
  with Feed_round show ?thesis
    by (simp add: feed_locks_def held_after_concat in_order_concat less_prod_def')
qed (simp_all add: sim_locks_def delivery_locks_def stream_locks_def writer_locks_def
    enqueue_locks_def held_after_concat in_order_concat less_prod_def')

lemma previous_excl [simp]: "Excl l \<notin> set (after_previous job k)"
  by (cases k) simp_all

lemma feed_excl_request: "Excl Feed_mu \<in> set (job_locks sc j) \<Longrightarrow> \<exists>n. j = Rpc n"
proof (cases j)
  case Main_end
  assume "Excl Feed_mu \<in> set (job_locks sc j)"
  with Main_end show ?thesis
    by (auto simp: end_locks_def command_locks_def enqueue_locks_def stop_feed_locks_def
        destroy_locks_def crit_def Let_def split: option.splits)
next
  case (Event a k)
  have "Excl Feed_mu \<notin> set (handler_locks a c)" for c
    by (cases c) (simp_all add: crit_def crit_shared_def)
  moreover assume "Excl Feed_mu \<in> set (job_locks sc j)"
  ultimately show ?thesis using Event by (auto simp: event_locks_def crit_def)
qed (auto simp: sim_locks_def delivery_locks_def stream_locks_def writer_locks_def feed_locks_def
    enqueue_locks_def fan_out_locks_def crit_def split: if_splits)

definition taken_alone :: "scenario \<Rightarrow> engine_job set \<Rightarrow> engine_lock set" where
  "taken_alone sc J = {l. \<exists>j \<in> J. Excl l \<in> set (job_locks sc j)}"

text \<open>
  The sets of jobs that can be under way together: finitely many, with those they wait for, and the end
  of \<open>Run\<close> only when no request is, since it follows the shutdown of the server.
\<close>

definition jobs_together :: "scenario \<Rightarrow> engine_job set \<Rightarrow> bool" where
  "jobs_together sc J \<longleftrightarrow>
     finite J \<and> (\<forall>j \<in> J. \<forall>i. Join i \<in> set (job_locks sc j) \<longrightarrow> i \<in> J)
   \<and> (Main_end \<in> J \<longrightarrow> (\<forall>n. Rpc n \<notin> J))"

text \<open>The locale has no room for a condition of its own: without it the system has no jobs.\<close>

interpretation engine_locks:
  lock_order "job_locks sc" "{j \<in> J. jobs_together sc J}" lock_rank job_rank "taken_alone sc J" for sc J
proof unfold_locales
  show "finite {j \<in> J. jobs_together sc J}" by (auto simp: jobs_together_def)
next
  fix j i assume "j \<in> {j \<in> J. jobs_together sc J}" "Join i \<in> set (job_locks sc j)"
  then show "i \<in> {j \<in> J. jobs_together sc J}" by (auto simp: jobs_together_def)
next
  fix j l assume "j \<in> {j \<in> J. jobs_together sc J}" "Excl l \<in> set (job_locks sc j)"
  then show "l \<in> taken_alone sc J" by (auto simp: taken_alone_def)
next
  fix j assume j: "j \<in> {j \<in> J. jobs_together sc J}"
  then have "Feed_mu \<notin> taken_alone sc J" if "j = Main_end"
    using that j by (auto simp: taken_alone_def jobs_together_def dest!: feed_excl_request)
  then show "well_ordered (taken_alone sc J) (job_rank j) [] (job_locks sc j)"
    "held_after [] (job_locks sc j) = []"
    using job_locks_ok by auto
qed

text \<open>
  C7. Locks and joins never close a circle in the engine. Take any requests, events, rounds of threads
  and the end of \<open>Run\<close> that can be under way together, however far each has got and whatever way the
  handlers go, and let some of them hang where they are: peers that do not answer, waits at a condition
  variable that nobody notifies. Then, even if a waiting writer of a shared mutex holds up new readers,
  some other job can go on, or every unfinished job waits, through others perhaps, for an unfinished
  one that hangs. If none hangs, some job can always go on until all are finished, which takes finitely
  many steps.
\<close>

theorem engine_never_deadlocks:
  assumes "jobs_together sc J" and "j \<in> J" and "\<not> finished (job_locks sc) dn j"
  shows "((\<exists>i \<in> J - hung. \<not> finished (job_locks sc) dn i
              \<and> \<not> must_wait (job_locks sc) J dn i (job_locks sc i ! dn i))
          \<or> (\<exists>h \<in> hung. \<not> finished (job_locks sc) dn h \<and> (waits_on (job_locks sc) J dn)\<^sup>*\<^sup>* j h))
       \<and> (\<exists>dn'. lock_step (job_locks sc) J dn dn')
       \<and> (\<forall>dn'. lock_step (job_locks sc) J dn dn' \<longrightarrow>
            actions_left (job_locks sc) J dn' < actions_left (job_locks sc) J dn)"
proof (intro conjI)
  have J: "{j \<in> J. jobs_together sc J} = J" using assms(1) by simp
  note stuck = engine_locks.stuck_outside_def [where J = J and sc = sc and H = hung and dn = dn, unfolded J]
  have "\<exists>h \<in> hung. \<not> finished (job_locks sc) dn h \<and> (waits_on (job_locks sc) J dn)\<^sup>*\<^sup>* j h"
    if "\<forall>i \<in> J - hung. \<not> finished (job_locks sc) dn i \<longrightarrow>
      must_wait (job_locks sc) J dn i (job_locks sc i ! dn i)"
    using engine_locks.waits_explained [where J = J and sc = sc and H = hung and dn = dn and j = j]
      that assms(2,3) unfolding J stuck by simp
  then show "(\<exists>i \<in> J - hung. \<not> finished (job_locks sc) dn i
              \<and> \<not> must_wait (job_locks sc) J dn i (job_locks sc i ! dn i))
          \<or> (\<exists>h \<in> hung. \<not> finished (job_locks sc) dn h \<and> (waits_on (job_locks sc) J dn)\<^sup>*\<^sup>* j h)"
    by blast
  from engine_locks.somebody_moves [of j J sc dn] assms(2,3)
  show "\<exists>dn'. lock_step (job_locks sc) J dn dn'" by (simp add: J)
  from assms(1) have "finite J" by (simp add: jobs_together_def)
  then show "\<forall>dn'. lock_step (job_locks sc) J dn dn' \<longrightarrow>
      actions_left (job_locks sc) J dn' < actions_left (job_locks sc) J dn"
    using lock_step_decreases by blast
qed

text \<open>A strategy is stopped while its dispatch thread is about to write a fill to a client.\<close>

definition stop_teardown :: teardown where
  "stop_teardown = \<lparr>td_manager = 0, td_adapter = False, td_stopped = [Simulation 0, Dispatcher 0], td_last_event = 1,
     td_last_write = 0, td_destroyed = []\<rparr>"

definition stop_scenario :: scenario where
  "stop_scenario =
     \<lparr>sc_requests = (\<lambda>n. if n = 0 then Stop_request 0 1 stop_teardown else Close_fills 0),
      sc_handlers = (\<lambda>a k. if k = 0 then [Mapper_read, Store_call, Fill_sink_call 0] else [Paper_call]),
      sc_reports = (\<lambda>_ _. 1), sc_reads = (\<lambda>_ _. 0), sc_feed_calls = (\<lambda>_ _. [[[0]]]),
      sc_end_managers = [], sc_end_feeds = [(0, Some 0)], sc_end_teardowns = [], sc_end_threads = []\<rparr>"

definition stop_jobs :: "engine_job set" where
  "stop_jobs = {Rpc 0, Rpc 1, Event 0 0, Event 0 1, Sim_round 0 0, Delivery 0 0, Writer_round 0 0,
     Feed_round 0 0, Peer 0}"

theorem engine_never_deadlocks_witness:
  "jobs_together stop_scenario stop_jobs
   \<and> (\<exists>dn. lock_step (job_locks stop_scenario) stop_jobs (\<lambda>_. 0) dn)"
proof -
  have together: "jobs_together stop_scenario stop_jobs"
    by (auto simp: jobs_together_def stop_jobs_def stop_scenario_def stop_teardown_def
        stop_strategy_locks_def command_locks_def enqueue_locks_def destroy_locks_def
        clear_stream_locks_def event_locks_def sim_locks_def delivery_locks_def writer_locks_def
        feed_locks_def fan_out_locks_def crit_def crit_shared_def)
  have "\<not> finished (job_locks stop_scenario) (\<lambda>_. 0) (Rpc 0)"
    by (simp add: finished_def stop_scenario_def stop_strategy_locks_def)
  from engine_never_deadlocks [OF together _ this] together show ?thesis by (simp add: stop_jobs_def)
qed

text \<open>
  That the end of \<open>Run\<close> follows the shutdown of the server is needed: \<open>stop_all\<close> joins the thread of a
  simulated feed while it shares the registry's lock. If a registration were waiting for that lock then,
  with writers first, the feed's thread would wait behind it, the registration for \<open>stop_all\<close>, and
  \<open>stop_all\<close> for the thread.
\<close>

definition late_request :: scenario where
  "late_request = stop_scenario\<lparr>sc_requests := (\<lambda>_. Register_request [] [] 1 True 0)\<rparr>"

definition late_progress :: "engine_job \<Rightarrow> nat" where
  "late_progress = (\<lambda>_. 0)(Main_end := 1, Rpc 0 := 3, Feed_round 0 0 := 4)"

theorem late_request_deadlocks:
  "\<nexists>dn. lock_step (job_locks late_request) {Main_end, Rpc 0, Feed_round 0 0} late_progress dn"
  by (auto simp: lock_step.simps late_request_def late_progress_def stop_scenario_def
      register_locks_def end_locks_def stop_feed_locks_def feed_locks_def fan_out_locks_def
      enqueue_locks_def crit_def crit_shared_def finished_def held_by_def numeral_2_eq_2 numeral_3_eq_3)

end
