(* ===== verification/HashTables.thy ===== *)
theory HashTables
  imports FeedRegistry AdapterManager
begin

unbundle bit_operations_syntax

text \<open>
  The hash functions of \<open>core/feed_registry.h\<close> and \<open>core/adapter_manager.h\<close>. Those of the standard
  library, for the feed type and for strings, are parameters. The unordered maps themselves are maps or
  association lists in the other theories; nothing there depends on a hash value.
\<close>

section \<open>The hash functions\<close>

text \<open>\<open>h ^= v * 0x9e3779b9 + (h << 6) + (h >> 2)\<close> on \<open>size_t\<close>.\<close>

definition hash_mix :: "u64 \<Rightarrow> u64 \<Rightarrow> u64" where
  "hash_mix h v = h XOR (v * 0x9e3779b9 + push_bit 6 h + drop_bit 2 h)"

text \<open>\<open>std::hash\<close> of the feed type and of strings.\<close>

record std_hash =
  hash_feed_type :: "FeedType \<Rightarrow> u64"
  hash_string :: "string \<Rightarrow> u64"

definition feed_key_hash :: "std_hash \<Rightarrow> feed_key \<Rightarrow> u64" where
  "feed_key_hash std k = hash_mix (hash_feed_type std (fst k)) (hash_string std (snd k))"

definition bar_sub_key_hash :: "std_hash \<Rightarrow> bar_sub_key \<Rightarrow> u64" where
  "bar_sub_key_hash std sk =
     (let (feed, symbol, period) = sk;
          h = feed_key_hash std feed;
          h = hash_mix h (hash_string std symbol)
      in hash_mix h (hash_string std period))"

definition tick_sub_key_hash :: "std_hash \<Rightarrow> tick_sub_key \<Rightarrow> u64" where
  "tick_sub_key_hash std sk = hash_mix (feed_key_hash std (fst sk)) (hash_string std (snd sk))"

definition pair_hash :: "std_hash \<Rightarrow> string \<times> string \<Rightarrow> u64" where
  "pair_hash std k = hash_mix (hash_string std (fst k)) (hash_string std (snd k))"

text \<open>The factor is odd, hence invertible, so mixing in a value loses nothing of it.\<close>

lemma mix_factor: "(0x9e3779b9 :: u64) * 0xe85ee980144cbc89 = 1"
  by simp

lemma hash_mix_inj: "hash_mix h v = hash_mix h v' \<longleftrightarrow> v = v'"
proof
  assume "hash_mix h v = hash_mix h v'"
  then have "h XOR hash_mix h v = h XOR hash_mix h v'" by simp
  then have "v * 0x9e3779b9 = v' * 0x9e3779b9"
    by (simp add: hash_mix_def flip: xor.assoc)
  then have "v * (0x9e3779b9 * 0xe85ee980144cbc89) = v' * (0x9e3779b9 * 0xe85ee980144cbc89)"
    by (simp only: flip: mult.assoc)
  then show "v = v'" by (simp only: mix_factor mult_1_right)
qed simp

text \<open>
  So the functions add no collisions in the part they mix in last: keys that agree in the rest collide
  only if \<open>std::hash\<close> of that part does.
\<close>

lemma last_part_decides:
  "feed_key_hash std (ft, a) = feed_key_hash std (ft, a') \<longleftrightarrow> hash_string std a = hash_string std a'"
  "tick_sub_key_hash std (fk, s) = tick_sub_key_hash std (fk, s') \<longleftrightarrow> hash_string std s = hash_string std s'"
  "bar_sub_key_hash std (fk, s, p) = bar_sub_key_hash std (fk, s, p')
   \<longleftrightarrow> hash_string std p = hash_string std p'"
  "pair_hash std (v, a) = pair_hash std (v, a') \<longleftrightarrow> hash_string std a = hash_string std a'"
  by (simp_all add: feed_key_hash_def tick_sub_key_hash_def bar_sub_key_hash_def pair_hash_def hash_mix_inj
      Let_def)

end
