(* ===== verification/StrategyLimits.thy ===== *)
theory StrategyLimits
  imports GrpcServer
begin

text \<open>
  The risk limits and the account of a strategy, from its registration to its end: nothing that
  happens to the engine changes them while its manager lives, so the check that an accepted signal has
  passed was the one against the limits the strategy was registered with.
\<close>

section \<open>What no event changes\<close>

definition settings :: "('g, 's, 'j) order_manager \<Rightarrow> risk_limits \<times> AccountId" where
  "settings om = (risk_manager om, om_account_id om)"

lemma call_settings [simp]:
  "settings (om_log d ev s c om) = settings om"
  "settings (set_value p r om) = settings om"
  "settings (set_mapper f om) = settings om"
  "settings (count_orders n om) = settings om"
  "settings (snd (on_store g om)) = settings om"
  "settings (snd (on_gateway h om)) = settings om"
  "settings (snd (om_now om)) = settings om"
  "settings (snd (om_generate om)) = settings om"
  "settings (log_failure d l ro) = settings (snd ro)"
  "settings (om\<lparr>queue := q\<rparr>) = settings om"
  "settings (om\<lparr>position_keeper := pk\<rparr>) = settings om"
  "settings (om\<lparr>gateway := gw\<rparr>) = settings om" "settings (om\<lparr>journal := j\<rparr>) = settings om"
  by (simp_all add: settings_def call_defs split_beta split: prod.split sum.split)

lemma sink_settings [simp]:
  "settings (deliver_fill r om) = settings om"
  "settings (handle_bar b om) = settings om" "settings (handle_tick t om) = settings om"
  "settings (set_market_data_sinks k k' om) = settings om"
  "settings (clear_market_data_sinks om) = settings om"
  "settings (set_fill_sink k om) = settings om" "settings (clear_fill_sink om) = settings om"
  "settings (om_enqueue ev om) = settings om"
  by (simp_all add: settings_def deliver_fill_def handle_bar_def handle_tick_def om_enqueue_def
      set_market_data_sinks_def clear_market_data_sinks_def set_fill_sink_def clear_fill_sink_def
      split: option.split)

lemma cancel_one_settings [simp]: "settings (cancel_one d so om) = settings om"
  by (simp add: cancel_one_def Let_def split_beta split: option.split sum.split)

lemma cancel_all_settings [simp]: "settings (foldl (\<lambda>om so. cancel_one d so om) om sos) = settings om"
  by (induction sos arbitrary: om) simp_all

lemma handler_settings [simp]:
  "settings (handle_submit_command d sig p om) = settings om"
  "settings (handle_cancel_command d can p om) = settings om"
  "settings (handle_replace_command d rep p om) = settings om"
  "settings (handle_cancel_all_command d reason who p om) = settings om"
  "settings (handle_fill d r om) = settings om"
  by (simp_all add: submit_defs cancel_defs replace_defs cancel_all_defs fill_defs
      split: option.split sum.split)

lemma handle_event_settings [simp]: "settings (handle_event d ev om) = settings om"
  by (cases ev) simp_all

lemma handle_events_settings [simp]: "settings (handle_events d evs om) = settings om"
  by (induction evs arbitrary: om) simp_all

lemma dispatch_queued_settings [simp]: "settings (dispatch_queued d om) = settings om"
proof -
  have "settings ((dispatch_queued d om)\<lparr>queue := queue om\<rparr>) = settings om"
    by (subst dispatch_queued_fold) simp
  then show ?thesis by simp
qed

lemma command_settings [simp]:
  "settings (snd (process_submit d sig p om)) = settings om"
  "settings (snd (process_cancel d can p om)) = settings om"
  "settings (snd (process_replace d rep p om)) = settings om"
  "settings (om_cancel_all d reason who p om) = settings om"
  by (simp_all add: process_submit_def process_cancel_def process_replace_def om_cancel_all_def Let_def)

section \<open>What no step of the engine changes\<close>

text \<open>Every object that was there before and still is has its settings; addresses are used once.\<close>

definition settings_kept :: "engine \<Rightarrow> engine \<Rightarrow> bool" where
  "settings_kept e e' \<longleftrightarrow>
     next_om e \<le> next_om e'
   \<and> (\<forall>a om'. a < next_om e \<longrightarrow> om_heap e' a = Some om' \<longrightarrow>
        (\<exists>om. om_heap e a = Some om \<and> settings om' = settings om))"

lemma kept_trans:
  assumes "settings_kept e e1" and "settings_kept e1 e2"
  shows "settings_kept e e2"
  unfolding settings_kept_def
proof (intro conjI allI impI)
  show "next_om e \<le> next_om e2" using assms by (simp add: settings_kept_def)
  fix a om2
  assume a: "a < next_om e" and om2: "om_heap e2 a = Some om2"
  have "a < next_om e1" using a assms(1) by (simp add: settings_kept_def)
  with assms(2) om2 obtain om1 where om1: "om_heap e1 a = Some om1" "settings om2 = settings om1"
    unfolding settings_kept_def by blast
  with assms(1) a obtain om where "om_heap e a = Some om" "settings om1 = settings om"
    unfolding settings_kept_def by blast
  with om1(2) show "\<exists>om. om_heap e a = Some om \<and> settings om2 = settings om" by simp
qed

lemma kept_frame: "om_heap e' = om_heap e \<Longrightarrow> next_om e' = next_om e \<Longrightarrow> settings_kept e e'"
  by (simp add: settings_kept_def)

lemma kept_same:
  "settings_kept e1 e2 \<Longrightarrow> om_heap e1' = om_heap e1 \<Longrightarrow> next_om e1' = next_om e1 \<Longrightarrow>
   om_heap e2' = om_heap e2 \<Longrightarrow> next_om e2' = next_om e2 \<Longrightarrow> settings_kept e1' e2'"
  by (simp add: settings_kept_def)

lemma kept_set:
  "om_heap e a = Some om \<Longrightarrow> settings om' = settings om \<Longrightarrow> om_heap e' = (om_heap e)(a \<mapsto> om') \<Longrightarrow>
   next_om e' = next_om e \<Longrightarrow> settings_kept e e'"
  by (auto simp: settings_kept_def)

lemma kept_delete:
  "om_heap e' = (om_heap e)(a := None) \<Longrightarrow> next_om e' = next_om e \<Longrightarrow> settings_kept e e'"
  by (auto simp: settings_kept_def)

lemma option_caseE:
  assumes "(case x of None \<Rightarrow> None | Some y \<Rightarrow> f y) = Some z"
  obtains y where "x = Some y" "f y = Some z"
  using assms by (cases x) auto

lemma kept_call_manager:
  assumes "call_manager a f e = Some (r, e')" and "\<And>om. settings (snd (f om)) = settings om"
  shows "settings_kept e e'"
proof -
  obtain om where om: "om_heap e a = Some om" "e' = e\<lparr>om_heap := (om_heap e)(a \<mapsto> snd (f om))\<rparr>"
    using assms(1) by (auto simp: call_manager_def Let_def split_beta elim: option_caseE)
  show ?thesis by (rule kept_set [OF om(1) assms(2)]) (simp_all add: om(2))
qed

lemma kept_call_command:
  assumes "call_command a f e = Some (r, e')" and "\<And>p om. settings (snd (f p om)) = settings om"
  shows "settings_kept e e'"
proof -
  obtain r' e1 where "call_manager a (f (next_promise e)) e = Some (r', e1)"
    "e' = e1\<lparr>next_promise := Suc (next_promise e1)\<rparr>"
    using assms(1) by (auto simp: call_command_def split: option.splits)
  with kept_call_manager [OF this(1) assms(2)] show ?thesis by (simp add: settings_kept_def)
qed

lemma kept_cancel_at:
  assumes "cancel_all_at env reason who a e = Some e'"
  shows "settings_kept e e'"
proof -
  obtain u e1 where "call_manager a (no_result (om_cancel_all (engine_deps env) reason who
      (next_promise e))) e = Some (u, e1)" "e' = e1\<lparr>next_promise := Suc (next_promise e1)\<rparr>"
    using assms by (auto simp: cancel_all_at_def)
  with kept_call_manager [OF this(1)] show ?thesis by (simp add: settings_kept_def no_result_def)
qed

lemma kept_destroy: "destroy_manager env m e = Some e' \<Longrightarrow> settings_kept e e'"
  by (auto simp: destroy_manager_def split: option.splits intro: kept_delete)

lemma kept_signals:
  "SubmitSignal env sig e = Some (r, e') \<Longrightarrow> settings_kept e e'"
  "CancelOrder env can e = Some (u, e') \<Longrightarrow> settings_kept e e'"
  "ReplaceOrder env rep e = Some (r, e') \<Longrightarrow> settings_kept e e'"
  by (auto simp: SubmitSignal_def submit_via_def CancelOrder_def ReplaceOrder_def
      split: option.splits intro: kept_call_command kept_frame)

lemma kept_streams:
  "SetupMarketDataStream sid k k' e = Some (r, e') \<Longrightarrow> settings_kept e e'"
  "ClearMarketDataStream sid e = Some e' \<Longrightarrow> settings_kept e e'"
  "SetupFillStream sid k e = Some (r, e') \<Longrightarrow> settings_kept e e'"
  "ClearFillStream sid e = Some e' \<Longrightarrow> settings_kept e e'"
  by (auto simp: SetupMarketDataStream_def ClearMarketDataStream_def SetupFillStream_def
      ClearFillStream_def no_result_def split: option.splits
      intro: kept_call_manager kept_frame)

lemma setup_next:
  "setup_market_data strat a e = Some (r, e') \<Longrightarrow> next_om e' = next_om e"
  by (auto simp: setup_market_data_def dest!: open_feed_frame subscribe_manager_frame
      split: option.splits prod.splits sum.splits)

lemma kept_emplace:
  assumes "emplace_manager env strat gw e = (r, e')"
  shows "settings_kept e e'"
proof (cases r)
  case (Inl err)
  with assms have "e' = e\<lparr>next_om := Suc (next_om e)\<rparr>"
    by (auto simp: emplace_manager_def Let_def split: sum.splits)
  then show ?thesis by (simp add: settings_kept_def)
next
  case (Inr a)
  with assms obtain om where "om_heap e' = (om_heap e)(next_om e \<mapsto> om)" "next_om e' = Suc (next_om e)"
    by (auto simp: emplace_manager_def Let_def split: sum.splits)
  then show ?thesis by (simp add: settings_kept_def)
qed

lemma kept_register:
  assumes "RegisterStrategy env strat e = Some (r, e')"
  shows "settings_kept e e'"
  using assms
proof (cases rule: register_cases)
  case exists
  then show ?thesis by (simp add: kept_frame)
next
  case no_gateway
  note gw = make_gateway_frame [OF no_gateway(2)]
  show ?thesis by (rule kept_frame) (simp_all add: gw)
next
  case (no_manager gway e1 err)
  note gw = make_gateway_frame [OF no_manager(2)]
  show ?thesis by (rule kept_same [OF kept_emplace [OF no_manager(3)]]) (simp_all add: gw)
next
  case (created gway e1 a e2)
  note gw = make_gateway_frame [OF created(2)]
  show ?thesis
    by (rule kept_same [OF kept_emplace [OF created(3)]])
      (simp_all add: gw setup_market_data_frame [OF created(4)] setup_next [OF created(4)])
qed

lemma kept_halt_managers: "halt_managers env reason who ms e = Some e' \<Longrightarrow> settings_kept e e'"
proof (induction ms arbitrary: e)
  case Nil
  then show ?case by (simp add: kept_frame)
next
  case (Cons m ms)
  then obtain e1 where e1: "cancel_all_at env reason who (snd m) e = Some e1"
    "halt_managers env reason who ms (e1\<lparr>registry := unregister_manager (snd m) (registry e1)\<rparr>) = Some e'"
    by (auto split: option.splits)
  have "settings_kept e1 e'" by (rule kept_same [OF Cons.IH [OF e1(2)]]) simp_all
  with kept_cancel_at [OF e1(1)] show ?case by (rule kept_trans)
qed

lemma kept_destroy_managers: "destroy_managers env ms e = Some e' \<Longrightarrow> settings_kept e e'"
  by (induction ms arbitrary: e)
    (auto split: option.splits intro: kept_frame kept_trans [OF kept_destroy])

lemma kept_cancel_managers: "cancel_managers env reason who ms e = Some e' \<Longrightarrow> settings_kept e e'"
  by (induction ms arbitrary: e)
    (auto split: option.splits intro: kept_frame kept_trans [OF kept_cancel_at])

lemma kept_kill:
  assumes "ActivateKillSwitch env ks e = Some (r, e')"
  shows "settings_kept e e'"
proof (cases "ks_mode ks")
  case STOP_STRATEGY
  show ?thesis
  proof (cases "find_manager (ks_strategy_id ks) e")
    case None
    with STOP_STRATEGY assms show ?thesis
      by (auto simp: ActivateKillSwitch_def stop_strategy_def intro: kept_frame)
  next
    case (Some a)
    with STOP_STRATEGY assms obtain e1 e2 where
      e1: "cancel_all_at env (ks_reason ks) (ks_initiated_by ks) a e = Some e1"
      and e2: "destroy_manager env (ks_strategy_id ks, a)
          (e1\<lparr>registry := unregister_manager a (registry e1)\<rparr>) = Some e2"
      and e': "om_heap e' = om_heap e2" "next_om e' = next_om e2"
      by (auto simp: ActivateKillSwitch_def stop_strategy_def Let_def split: option.splits)
    have "settings_kept e1 e'" by (rule kept_same [OF kept_destroy [OF e2]]) (simp_all add: e')
    with kept_cancel_at [OF e1] show ?thesis by (rule kept_trans)
  qed
next
  case HALT_ALL
  with assms obtain e1 e2 where
    e1: "halt_managers env (ks_reason ks) (ks_initiated_by ks) (managers e) e = Some e1"
    and e2: "destroy_managers env (managers e1) e1 = Some e2"
    and e': "om_heap e' = om_heap e2" "next_om e' = next_om e2"
    by (auto simp: ActivateKillSwitch_def halt_all_def split: option.splits)
  from kept_trans [OF kept_halt_managers [OF e1] kept_destroy_managers [OF e2]] e' show ?thesis
    by (simp add: settings_kept_def)
qed (use assms in \<open>simp add: ActivateKillSwitch_def\<close>)

lemma kept_enqueue:
  "enqueue_to ev as h = Some h' \<Longrightarrow> h' a = Some om' \<Longrightarrow> \<exists>om. h a = Some om \<and> settings om' = settings om"
proof (induction as arbitrary: h)
  case (Cons b bs)
  then obtain om where om: "h b = Some om" "enqueue_to ev bs (h(b \<mapsto> om_enqueue ev om)) = Some h'"
    by (auto split: option.splits)
  from Cons.IH [OF om(2) Cons.prems(2)] om(1) show ?case by (auto split: if_splits)
qed simp

lemma kept_feeds:
  "engine_on_bar key b e = Some e' \<Longrightarrow> settings_kept e e'"
  "engine_on_tick key t e = Some e' \<Longrightarrow> settings_kept e e'"
  by (auto simp: engine_on_bar_def engine_on_tick_def on_bar_subscribers on_tick_subscribers
      settings_kept_def dest: kept_enqueue)

lemma kept_step:
  assumes "engine_step env e e'"
  shows "settings_kept e e'"
  using assms
proof cases
  case es_finish
  then obtain e1 where "cancel_managers env ''Shutting down'' ''SIGINT/SIGTERM'' (managers e) e = Some e1"
    "om_heap e' = om_heap e1" "next_om e' = next_om e1"
    by (auto simp: finish_run_def)
  then show ?thesis by (intro kept_same [OF kept_cancel_managers]) simp_all
next
  case (es_report a om rep)
  show ?thesis by (rule kept_set [OF es_report(2)]) (simp_all add: es_report(1))
next
  case (es_command a om ev)
  show ?thesis by (rule kept_set [OF es_command(2)]) (simp_all add: es_command(1))
next
  case (es_dispatch a om st ev q)
  show ?thesis by (rule kept_set [OF es_dispatch(2)]) (simp_all add: es_dispatch(1))
next
  case (es_gateway a om g)
  show ?thesis by (rule kept_set [OF es_gateway(2)]) (simp_all add: es_gateway(1))
next
  case (es_journal a om j)
  show ?thesis by (rule kept_set [OF es_journal(2)]) (simp_all add: es_journal(1))
qed (simp_all add: kept_register kept_signals kept_kill kept_streams kept_feeds kept_frame
      run_engine_def on_signal_def)

lemma kept_steps: "(engine_step env)\<^sup>*\<^sup>* e e' \<Longrightarrow> settings_kept e e'"
  by (induction rule: rtranclp_induct) (auto intro: kept_frame kept_trans kept_step)

section \<open>The limits of a strategy\<close>

lemma registered_settings:
  assumes "RegisterStrategy env strat e0 = Some (Inr (Inr ()), e1)"
  shows "\<exists>om. om_heap e1 (next_om e0) = Some om \<and> settings om = (risk_limits_of strat, rsr_account_id strat)
       \<and> next_om e0 < next_om e1"
  using assms
proof (cases rule: register_cases)
  case (created gway e a e2)
  note gw = make_gateway_frame [OF created(2)]
  obtain om where om: "om_heap e2 = (om_heap e)(next_om e \<mapsto> om)" "next_om e2 = Suc (next_om e)"
    "settings om = (risk_limits_of strat, rsr_account_id strat)"
    using created(3)
    by (auto simp: emplace_manager_def Let_def settings_def create_order_manager_def split: sum.splits)
  show ?thesis
    using om gw setup_market_data_frame [OF created(4)] setup_next [OF created(4)] by simp
qed simp_all

lemma submit_reaches_manager:
  assumes "engine_inv e" and "find_manager (sig_strategy_id sig) e = Some a" and "om_heap e a = Some om"
    and "rpc_SubmitSignal (Some (engine_handler env)) sig e = Some (st, resp, e')"
  shows "\<exists>r. fst (process_submit (engine_deps env) sig (next_promise e) om) = Some r
       \<and> st = invalid_or_ok r
       \<and> om_heap e' a = Some (snd (process_submit (engine_deps env) sig (next_promise e) om))"
proof -
  let ?d = "engine_deps env" and ?p = "next_promise e"
  obtain r where r: "fst (process_submit ?d sig ?p om) = Some r"
    using om_good_answers(1) [OF engine_inv_live [OF assms(1,3)]] by blast
  then have "SubmitSignal env sig e
      = Some (r, e\<lparr>om_heap := (om_heap e)(a \<mapsto> snd (process_submit ?d sig ?p om)), next_promise := Suc ?p\<rparr>)"
    using call_command_live [of e a om "process_submit ?d sig", OF assms(3) r]
    by (simp add: SubmitSignal_def assms(2) submit_via_def)
  with assms(4) r show ?thesis by (auto simp: rpc_SubmitSignal_def engine_handler_def)
qed

text \<open>A submit, after everything that was queued before it.\<close>

lemma process_submit_after:
  fixes d sig om p
  defines "om0 \<equiv> handle_events d (q_items (queue om)) om"
  shows "gateway (snd (process_submit d sig p om)) = gateway (handle_submit_command d sig p om0)"
    and "id_mapper (snd (process_submit d sig p om)) = id_mapper (handle_submit_command d sig p om0)"
    and "open_order_count (snd (process_submit d sig p om))
         = open_order_count (handle_submit_command d sig p om0)"
  by (simp_all add: process_submit_def Let_def dispatch_queued_frame enqueue_command om0_def
      handle_events_queue_commute handle_event_queue_commute [where ev = "Submit_command sig p", simplified])

lemma accepted_passes_check:
  assumes "store_of d = sqlite_store_ops" and "om_good p om"
    and "fst (process_submit d sig p om) = Some (Inr l)"
  defines "om0 \<equiv> handle_events d (q_items (queue om)) om"
  shows "risk_check (risk_manager om0) (sig_target_quantity sig)
           (word_of_int (open_order_count om0)) (get_total_pnl (position_keeper om0)) = Inr ()"
proof -
  have inv: "om_inv sq_look sq_inv om0"
    unfolding om0_def using assms(2) by (intro om_inv_handle_events [OF assms(1)]) (simp add: om_good_def)
  have "replies (handle_submit_command d sig p om0) = replies om0 @ [(p, Order_reply (Inr l))]"
    using process_answered [OF om_good_fresh [OF assms(2)], of d sig] assms(3)
    by (auto simp: om0_def)
  with sq.submit_outcome [OF assms(1) inv, of sig p] show ?thesis by auto
qed

text \<open>What a signal does to a manager with given settings.\<close>

definition checked_outcome ::
  "risk_limits \<Rightarrow> strategy_signal \<Rightarrow> engine_env \<Rightarrow> engine_om \<Rightarrow> grpc_status \<Rightarrow> engine_om \<Rightarrow> bool" where
  "checked_outcome limits sig env om st om' \<longleftrightarrow>
     (let om0 = handle_events (engine_deps env) (q_items (queue om)) om;
          check = risk_check limits (sig_target_quantity sig)
            (word_of_int (open_order_count om0)) (get_total_pnl (position_keeper om0))
      in (st = Status_OK \<longrightarrow> check = Inr ())
       \<and> (check \<noteq> Inr () \<longrightarrow> gateway om' = gateway om0 \<and> id_mapper om' = id_mapper om0
            \<and> open_order_count om' = open_order_count om0))"

lemma submit_checked:
  assumes "engine_inv e" and "find_manager (sig_strategy_id sig) e = Some a" and "om_heap e a = Some om"
    and "rpc_SubmitSignal (Some (engine_handler env)) sig e = Some (st, resp, e')"
  shows "\<exists>om'. om_heap e' a = Some om' \<and> settings om' = settings om
       \<and> checked_outcome (fst (settings om)) sig env om st om'"
proof -
  let ?d = "engine_deps env" and ?p = "next_promise e"
  define om0 where "om0 = handle_events ?d (q_items (queue om)) om"
  define om' where "om' = snd (process_submit ?d sig ?p om)"
  obtain r where r: "fst (process_submit ?d sig ?p om) = Some r" "st = invalid_or_ok r"
    "om_heap e' a = Some om'"
    using submit_reaches_manager [OF assms] by (auto simp: om'_def)
  have limits: "risk_manager om0 = fst (settings om)"
    using handle_events_settings [of ?d "q_items (queue om)" om] by (simp add: om0_def settings_def)
  let ?check = "risk_check (fst (settings om)) (sig_target_quantity sig)
    (word_of_int (open_order_count om0)) (get_total_pnl (position_keeper om0))"
  have "?check = Inr ()" if "st = Status_OK"
  proof -
    from that r(2) obtain l where "r = Inr l" by (cases r) (auto simp: invalid_or_ok_def)
    with r(1) have "fst (process_submit ?d sig ?p om) = Some (Inr l)" by simp
    from accepted_passes_check [OF engine_deps_store engine_inv_live [OF assms(1,3)] this] limits
    show ?thesis by (simp flip: om0_def)
  qed
  moreover have "gateway om' = gateway om0 \<and> id_mapper om' = id_mapper om0
      \<and> open_order_count om' = open_order_count om0" if "?check \<noteq> Inr ()"
  proof -
    from that obtain err where "?check = Inl err" by (cases ?check) auto
    with limits have "risk_check (risk_manager om0) (sig_target_quantity sig)
        (word_of_int (open_order_count om0)) (get_total_pnl (position_keeper om0)) = Inl err" by simp
    from risk_rejection_stops_order [OF this, of ?d ?p] show ?thesis
      by (simp add: om'_def process_submit_after flip: om0_def)
  qed
  ultimately show ?thesis
    using r(3) command_settings(1) [of ?d sig ?p om]
    by (simp add: checked_outcome_def Let_def om0_def om'_def)
qed

text \<open>A registered manager keeps its settings.\<close>

lemma settings_for_life:
  assumes "engine_reach env am e0" and "env_ok env"
    and "RegisterStrategy env strat e0 = Some (Inr (Inr ()), e1)" and "(engine_step env)\<^sup>*\<^sup>* e1 e"
    and "find_manager sid e = Some (next_om e0)"
  shows "engine_inv e \<and> (\<exists>om. om_heap e (next_om e0) = Some om
       \<and> settings om = (risk_limits_of strat, rsr_account_id strat))"
proof -
  have "engine_reach env am e1" using assms(1,3) by (blast intro: er_step es_register)
  with assms(4) have "engine_reach env am e" by (induction rule: rtranclp_induct) (auto intro: er_step)
  note inv = engine_inv_reach [OF this assms(2)]
  then obtain om where om: "om_heap e (next_om e0) = Some om"
    using assms(5) by (cases rule: find_manager_cases [of e sid]) auto
  with registered_settings [OF assms(3)] kept_steps [OF assms(4)]
  have "settings om = (risk_limits_of strat, rsr_account_id strat)"
    by (force simp: settings_kept_def)
  with inv om show ?thesis by blast
qed

text \<open>
  C10. The risk limits a strategy registered with hold for its whole life. After its registration let
  anything happen to the engine, as long as the strategy is not stopped; when it then sends a signal,
  the manager that handles it still has those limits and that account, an accepted signal has passed
  the check against them, with the orders open and the profit made at that moment, and one that does
  not pass it is refused before it reaches the broker: gateway, id map and count stay as they were.
\<close>

theorem limits_hold_for_life:
  assumes "engine_reach env am e0" and "env_ok env"
    and "RegisterStrategy env strat e0 = Some (Inr (Inr ()), e1)" and "(engine_step env)\<^sup>*\<^sup>* e1 e"
    and "find_manager (sig_strategy_id sig) e = Some (next_om e0)"
    and "rpc_SubmitSignal (Some (engine_handler env)) sig e = Some (st, resp, e')"
  shows "\<exists>om om'. om_heap e (next_om e0) = Some om \<and> om_heap e' (next_om e0) = Some om'
       \<and> risk_manager om' = risk_limits_of strat \<and> om_account_id om' = rsr_account_id strat
       \<and> checked_outcome (risk_limits_of strat) sig env om st om'"
proof -
  from settings_for_life [OF assms(1-5)] obtain om where inv: "engine_inv e"
    and om: "om_heap e (next_om e0) = Some om" "settings om = (risk_limits_of strat, rsr_account_id strat)"
    by blast
  from submit_checked [OF inv assms(5) om(1) assms(6)] om show ?thesis by (auto simp: settings_def)
qed

text \<open>A strategy limited to 5 a signal, registered next to the sample strategy, asks for 10.\<close>

definition limited_registration :: register_strategy_request where
  "limited_registration =
     \<lparr>rsr_strategy_id = ''S2'', rsr_account_id = ''ACC'', rsr_gateway = PaperTradingGW,
      rsr_adapter = None, rsr_market_data = None,
      rsr_risk_params = Some \<lparr>rc_max_quantity = 5, rc_max_open_orders = 0, rc_daily_pnl_limit = 0\<rparr>\<rparr>"

theorem limits_hold_for_life_witness:
  "\<exists>e1 st resp e'. RegisterStrategy sample_env limited_registration sample_engine = Some (Inr (Inr ()), e1)
     \<and> rpc_SubmitSignal (Some (engine_handler sample_env)) (sample_signal\<lparr>sig_strategy_id := ''S2''\<rparr>) e1
       = Some (st, resp, e') \<and> st \<noteq> Status_OK"
proof -
  let ?sig = "sample_signal\<lparr>sig_strategy_id := ''S2''\<rparr>"
  have addr: "next_om sample_engine = 1"
    by (simp add: sample_engine_def RegisterStrategy_def create_strategy_def find_manager_def
      new_engine_def sample_registration_def make_gateway_def emplace_manager_def sample_env_def
      setup_market_data_def open_feed_def has_feed_def new_registry_def register_feed_def add_feed_def
      register_subscription_def ensure_feed_def sim_feed_ops_def subscribe_def engine_deps_def Let_def)
  obtain e1 where e1: "RegisterStrategy sample_env limited_registration sample_engine
      = Some (Inr (Inr ()), e1)" "find_manager ''S2'' e1 = Some 1"
    by (simp add: RegisterStrategy_def create_strategy_def find_manager_def limited_registration_def
        make_gateway_def emplace_manager_def setup_market_data_def sample_register sample_env_def addr
        Let_def)
  have reach1: "engine_reach sample_env sample_adapters e1"
    by (rule er_step [OF sample_reach es_register [OF e1(1)]])
  obtain r e' where "SubmitSignal sample_env ?sig e1 = Some (r, e')"
    using signals_good(1) [OF engine_inv_reach [OF reach1 sample_env_ok]] by blast
  then obtain st resp where rpc: "rpc_SubmitSignal (Some (engine_handler sample_env)) ?sig e1
      = Some (st, resp, e')"
    by (simp add: rpc_SubmitSignal_def engine_handler_def)
  have "find_manager (sig_strategy_id ?sig) e1 = Some (next_om sample_engine)"
    by (simp add: e1(2) addr)
  from limits_hold_for_life [OF sample_reach sample_env_ok e1(1) rtranclp.rtrancl_refl this rpc]
  have "st \<noteq> Status_OK"
    by (auto simp: checked_outcome_def Let_def risk_limits_of_def limited_registration_def
        risk_check_def sample_signal_def mk_error_def)
  with e1(1) rpc show ?thesis by blast
qed

end
