(* ===== verification/StrategyClient.thy ===== *)
theory StrategyClient
  imports StrategyLimits
begin

text \<open>
  The strategy's side of the wire, \<open>python_client\<close>: the configuration of a strategy and its conversion
  to a registration (\<open>strategy/config.py\<close>), the client of the execution service (\<open>grpc_interface.py\<close>),
  the life of a strategy (\<open>strategy/base_strategy.py\<close>) and the configuration of \<open>momentum.py\<close>. The
  client's calls go to the server's handlers and from there to the engine, so what is shown here holds
  from the strategy's call to the database. \<open>StrategyRun\<close> adds the threads of a running strategy.
\<close>

section \<open>Configuration\<close>

datatype py_gateway = GRPC_ADAPTER | PAPER_TRADING

datatype py_feed = SIMULATED | ALPACA | ADAPTER

record py_subscription =
  ps_symbol :: Symbol
  ps_period :: "string option"

record py_market_data =
  pm_feed :: py_feed
  pm_subscriptions :: "py_subscription list"

text \<open>Python's integers are unbounded; the fields of the messages are not.\<close>

record py_risk =
  pr_max_quantity :: double
  pr_max_open_orders :: int
  pr_daily_pnl_limit :: double

record strategy_config =
  cfg_strategy_id :: StrategyId
  cfg_account_id :: AccountId
  cfg_gateway :: py_gateway
  cfg_market_data :: "py_market_data option"
  cfg_adapter :: "adapter_config option"
  cfg_risk_manager :: "py_risk option"

fun gateway_map :: "py_gateway \<Rightarrow> GatewayType" where
  "gateway_map GRPC_ADAPTER = GrpcAdapterGW"
| "gateway_map PAPER_TRADING = PaperTradingGW"

fun feed_map :: "py_feed \<Rightarrow> FeedType" where
  "feed_map SIMULATED = Feed_Simulated"
| "feed_map ALPACA = Feed_Alpaca"
| "feed_map ADAPTER = Feed_Adapter"

text \<open>An empty period counts as none.\<close>

definition subscription_to_proto :: "py_subscription \<Rightarrow> market_data_subscription" where
  "subscription_to_proto sub =
     \<lparr>mds_symbol = ps_symbol sub,
      mds_period = (case ps_period sub of Some p \<Rightarrow> if p = '''' then None else Some p | None \<Rightarrow> None)\<rparr>"

text \<open>
  \<open>to_proto\<close>. Assigning to a field of a submessage makes it present, a default value too; a number
  out of the range of its field raises an exception.
\<close>

definition to_proto :: "strategy_config \<Rightarrow> string + register_strategy_request" where
  "to_proto cfg =
     (if (case cfg_adapter cfg of Some a \<Rightarrow> \<not> (- (2 ^ 31) \<le> ac_port a \<and> ac_port a < 2 ^ 31) | None \<Rightarrow> False)
         \<or> (case cfg_risk_manager cfg of
              Some r \<Rightarrow> \<not> (0 \<le> pr_max_open_orders r \<and> pr_max_open_orders r < 2 ^ 64) | None \<Rightarrow> False)
      then Inl ''ValueError''
      else Inr
        \<lparr>rsr_strategy_id = cfg_strategy_id cfg, rsr_account_id = cfg_account_id cfg,
         rsr_gateway = gateway_map (cfg_gateway cfg), rsr_adapter = cfg_adapter cfg,
         rsr_market_data = map_option (\<lambda>md. \<lparr>mdc_feed = feed_map (pm_feed md),
           mdc_subscriptions = map subscription_to_proto (pm_subscriptions md)\<rparr>) (cfg_market_data cfg),
         rsr_risk_params = map_option (\<lambda>r. \<lparr>rc_max_quantity = pr_max_quantity r,
           rc_max_open_orders = word_of_int (pr_max_open_orders r),
           rc_daily_pnl_limit = pr_daily_pnl_limit r\<rparr>) (cfg_risk_manager cfg)\<rparr>)"

section \<open>The client\<close>

text \<open>
  A call may get through, or fail before it has reached the server, or fail although the server has
  handled it. The second and third, and a status that is not OK, raise an \<open>RpcError\<close> in the client,
  which catches it; a call on a closed channel raises a \<open>ValueError\<close>, which it does not catch (\<open>Inl\<close>).
\<close>

datatype call_fate = Delivered | Unreached | Reply_lost

definition on_channel ::
  "bool \<Rightarrow> call_fate \<Rightarrow> 'a \<Rightarrow> ('e \<Rightarrow> ('a \<times> 'e) option) \<Rightarrow> 'e \<Rightarrow> ((string + 'a) \<times> 'e) option" where
  "on_channel is_closed fate failed call e =
     (if is_closed then Some (Inl ''ValueError'', e)
      else case fate of
             Unreached \<Rightarrow> Some (Inr failed, e)
           | Reply_lost \<Rightarrow> map_option (\<lambda>(_, e). (Inr failed, e)) (call e)
           | Delivered \<Rightarrow> map_option (map_prod Inr id) (call e))"

type_synonym ('a, 'e) client_call = "'e \<Rightarrow> ((string + 'a) \<times> 'e) option"

text \<open>Every side but \<open>BUY\<close> is a sale.\<close>

definition side_of :: "string \<Rightarrow> Side" where
  "side_of side = (if side = ''BUY'' then BUY else SELL)"

definition submit_signal ::
  "'e service_handler option \<Rightarrow> bool \<Rightarrow> call_fate \<Rightarrow> StrategyId \<Rightarrow> Symbol \<Rightarrow> string \<Rightarrow> double \<Rightarrow> string
   \<Rightarrow> (string option, 'e) client_call" where
  "submit_signal h is_closed fate strategy_id symbol side qty now =
     on_channel is_closed fate None
       (\<lambda>e. map_option
          (\<lambda>(st, response, e).
             (if st = Status_OK \<and> sr_accepted response then Some (sr_order_id response) else None, e))
          (rpc_SubmitSignal h
             \<lparr>sig_strategy_id = strategy_id, sig_symbol = symbol, sig_side = side_of side,
              sig_target_quantity = qty, sig_generated_at = now\<rparr> e))"

text \<open>Whether a cancel was accepted is only logged.\<close>

definition cancel_signal_call ::
  "'e service_handler option \<Rightarrow> bool \<Rightarrow> call_fate \<Rightarrow> int \<Rightarrow> StrategyId \<Rightarrow> string \<Rightarrow> string
   \<Rightarrow> (unit, 'e) client_call" where
  "cancel_signal_call h is_closed fate received strategy_id order_id now =
     on_channel is_closed fate ()
       (\<lambda>e. map_option (\<lambda>(_, _, e). ((), e))
          (rpc_CancelOrder h received
             \<lparr>can_strategy_id = strategy_id, can_order_id = order_id, can_generated_at = now\<rparr> e))"

definition replace_order_call ::
  "'e service_handler option \<Rightarrow> bool \<Rightarrow> call_fate \<Rightarrow> int \<Rightarrow> string \<Rightarrow> StrategyId \<Rightarrow> Symbol \<Rightarrow> string \<Rightarrow> double
   \<Rightarrow> string \<Rightarrow> (string option, 'e) client_call" where
  "replace_order_call h is_closed fate received order_id strategy_id symbol side qty now =
     on_channel is_closed fate None
       (\<lambda>e. map_option
          (\<lambda>(st, response, e).
             (if st = Status_OK \<and> ro_accepted response then Some (ro_order_id response) else None, e))
          (rpc_ReplaceOrder h received
             \<lparr>rep_strategy_id = strategy_id, rep_symbol = symbol, rep_side = side_of side,
              rep_target_quantity = qty, rep_generated_at = now, rep_order_id = order_id\<rparr> e))"

definition get_position_call ::
  "'e service_handler option \<Rightarrow> bool \<Rightarrow> call_fate \<Rightarrow> Symbol \<Rightarrow> (v1_position option, 'e) client_call" where
  "get_position_call h is_closed fate symbol =
     on_channel is_closed fate None
       (\<lambda>e. Some (case rpc_GetPosition h symbol e of (st, p) \<Rightarrow> if st = Status_OK then p else None, e))"

text \<open>A failed query looks like no positions.\<close>

definition get_all_positions_call ::
  "'e service_handler option \<Rightarrow> bool \<Rightarrow> call_fate \<Rightarrow> (v1_position list, 'e) client_call" where
  "get_all_positions_call h is_closed fate =
     on_channel is_closed fate []
       (\<lambda>e. Some (case rpc_GetAllPositions h e of (st, ps) \<Rightarrow> if st = Status_OK then ps else [], e))"

text \<open>The request names no mode, which is \<open>STOP_STRATEGY\<close>. A failure is only logged.\<close>

definition activate_kill_switch ::
  "'e service_handler option \<Rightarrow> bool \<Rightarrow> call_fate \<Rightarrow> string \<Rightarrow> string \<Rightarrow> StrategyId \<Rightarrow> (unit, 'e) client_call"
  where
  "activate_kill_switch h is_closed fate reason initiated_by strategy_id =
     on_channel is_closed fate ()
       (\<lambda>e. map_option (\<lambda>(_, e). ((), e))
          (rpc_ActivateKillSwitch h
             \<lparr>ks_reason = reason, ks_initiated_by = initiated_by, ks_strategy_id = strategy_id,
              ks_mode = STOP_STRATEGY\<rparr> e))"

text \<open>The configuration is converted outside the \<open>try\<close>.\<close>

definition register_strategy ::
  "'e service_handler option \<Rightarrow> bool \<Rightarrow> call_fate \<Rightarrow> strategy_config \<Rightarrow> (bool, 'e) client_call" where
  "register_strategy h is_closed fate cfg e =
     (case to_proto cfg of
        Inl err \<Rightarrow> Some (Inl err, e)
      | Inr req \<Rightarrow>
          on_channel is_closed fate False
            (\<lambda>e. map_option
               (\<lambda>(r, e). (case r of Inr (st, resp) \<Rightarrow> st = Status_OK \<and> rs_accepted resp | Inl _ \<Rightarrow> False, e))
               (rpc_RegisterStrategy h req e)) e)"

section \<open>The life of a strategy\<close>

record py_strategy =
  st_config :: strategy_config
  st_closed :: bool
  st_stopping :: bool

definition new_strategy :: "strategy_config \<Rightarrow> py_strategy" where
  "new_strategy cfg = \<lparr>st_config = cfg, st_closed = False, st_stopping = False\<rparr>"

text \<open>\<open>run\<close> up to its threads: it raises when the engine rejects the strategy.\<close>

definition start_strategy ::
  "'e service_handler option \<Rightarrow> call_fate \<Rightarrow> py_strategy \<Rightarrow> (unit, 'e) client_call" where
  "start_strategy h fate s e =
     map_option
       (\<lambda>(r, e). (case r of
          Inl err \<Rightarrow> Inl err | Inr accepted \<Rightarrow> if accepted then Inr () else Inl ''RuntimeError'', e))
       (register_strategy h (st_closed s) fate (st_config s) e)"

definition buy ::
  "'e service_handler option \<Rightarrow> call_fate \<Rightarrow> py_strategy \<Rightarrow> Symbol \<Rightarrow> double \<Rightarrow> string
   \<Rightarrow> (string option, 'e) client_call" where
  "buy h fate s symbol qty now =
     submit_signal h (st_closed s) fate (cfg_strategy_id (st_config s)) symbol ''BUY'' qty now"

definition sell ::
  "'e service_handler option \<Rightarrow> call_fate \<Rightarrow> py_strategy \<Rightarrow> Symbol \<Rightarrow> double \<Rightarrow> string
   \<Rightarrow> (string option, 'e) client_call" where
  "sell h fate s symbol qty now =
     submit_signal h (st_closed s) fate (cfg_strategy_id (st_config s)) symbol ''SELL'' qty now"

definition strategy_cancel_order ::
  "'e service_handler option \<Rightarrow> call_fate \<Rightarrow> int \<Rightarrow> py_strategy \<Rightarrow> string \<Rightarrow> string \<Rightarrow> (unit, 'e) client_call"
  where
  "strategy_cancel_order h fate received s order_id now =
     cancel_signal_call h (st_closed s) fate received (cfg_strategy_id (st_config s)) order_id now"

text \<open>\<open>stop\<close>: once, and closed whether or not the engine was reached.\<close>

definition stop_py_strategy ::
  "'e service_handler option \<Rightarrow> call_fate \<Rightarrow> string \<Rightarrow> py_strategy \<Rightarrow> 'e
   \<Rightarrow> ((string + unit) \<times> py_strategy \<times> 'e) option" where
  "stop_py_strategy h fate reason s e =
     (if st_stopping s then Some (Inr (), s, e)
      else let s = s\<lparr>st_stopping := True\<rparr>; sid = cfg_strategy_id (st_config s)
           in map_option
                (\<lambda>(r, e). (r, case r of Inl _ \<Rightarrow> s | Inr _ \<Rightarrow> s\<lparr>st_closed := True\<rparr>, e))
                (activate_kill_switch h (st_closed s) fate reason sid sid e))"

section \<open>From the strategy to the engine\<close>

lemma on_channelD:
  assumes "on_channel is_closed fate failed call e = Some (Inr x, e')" and "x \<noteq> failed"
  shows "call e = Some (x, e')"
  using assms by (auto simp: on_channel_def split: if_splits call_fate.splits)

lemma accepted_client_submit:
  assumes "submit_signal h is_closed fate sid symbol side qty now e = Some (Inr (Some l), e')"
  shows "\<exists>resp. rpc_SubmitSignal h \<lparr>sig_strategy_id = sid, sig_symbol = symbol, sig_side = side_of side,
             sig_target_quantity = qty, sig_generated_at = now\<rparr> e = Some (Status_OK, resp, e')
       \<and> sr_order_id resp = l"
  using on_channelD [OF assms [unfolded submit_signal_def]] by (auto split: if_splits)

text \<open>
  C16. An order id that \<open>submit_signal\<close> returns to a strategy is the id of a live order of that strategy
  in the engine, mapped to a broker id and stored as submitted, with the symbol, quantity and side
  asked for, where every side that is not literally \<open>BUY\<close> is a sale.
\<close>

theorem client_order_is_live:
  assumes "engine_reach env am e" and "env_ok env"
    and "submit_signal (Some (engine_handler env)) is_closed fate sid symbol side qty now e
         = Some (Inr (Some l), e')"
  shows "\<exists>a om b v. find_manager sid e' = Some a \<and> om_heap e' a = Some om
       \<and> get_broker_id (id_mapper om) l = Some b \<and> sq_look (order_store om) l = Some v
       \<and> ov_status v = SUBMITTED \<and> ov_filled v = 0 \<and> ord_symbol (ov_order v) = symbol
       \<and> ord_quantity (ov_order v) = qty
       \<and> ord_side (ov_order v) = (if side = ''BUY'' then BUY else SELL)"
proof -
  obtain resp where rpc: "rpc_SubmitSignal (Some (engine_handler env))
      \<lparr>sig_strategy_id = sid, sig_symbol = symbol, sig_side = side_of side,
       sig_target_quantity = qty, sig_generated_at = now\<rparr> e = Some (Status_OK, resp, e')"
    "sr_order_id resp = l"
    using accepted_client_submit [OF assms(3)] by blast
  from accepted_signal_is_live [OF assms(1,2) rpc(1)] rpc(2) show ?thesis
    by (auto simp: side_of_def)
qed

theorem client_order_is_live_witness:
  "\<exists>l e' a om b. submit_signal (Some (engine_handler sample_env)) False Delivered ''S1'' ''AAPL'' ''BUY'' 10
       '''' sample_engine = Some (Inr (Some l), e')
     \<and> om_heap e' a = Some om \<and> get_broker_id (id_mapper om) l = Some b"
proof -
  obtain resp e' where rpc: "rpc_SubmitSignal (Some (engine_handler sample_env)) sample_signal sample_engine
      = Some (Status_OK, resp, e')"
    using accepted_signal_is_live_witness by blast
  then have "sr_accepted resp"
    by (auto simp: rpc_SubmitSignal_def engine_handler_def invalid_or_ok_def submit_response_of_def
        split: option.splits sum.splits)
  with rpc have call: "submit_signal (Some (engine_handler sample_env)) False Delivered ''S1'' ''AAPL'' ''BUY'' 10
      '''' sample_engine = Some (Inr (Some (sr_order_id resp)), e')"
    by (simp add: submit_signal_def on_channel_def side_of_def sample_signal_def)
  from client_order_is_live [OF sample_reach sample_env_ok call] call show ?thesis by blast
qed

lemma registered_by_client:
  assumes "register_strategy (Some (engine_handler env)) is_closed fate cfg e = Some (Inr True, e')"
  shows "\<exists>req. to_proto cfg = Inr req \<and> RegisterStrategy env req e = Some (Inr (Inr ()), e')"
proof -
  obtain req where req: "to_proto cfg = Inr req"
    using assms by (cases "to_proto cfg") (auto simp: register_strategy_def)
  with assms have "on_channel is_closed fate False
      (\<lambda>e. map_option
         (\<lambda>(r, e). (case r of Inr (st, resp) \<Rightarrow> st = Status_OK \<and> rs_accepted resp | Inl _ \<Rightarrow> False, e))
         (rpc_RegisterStrategy (Some (engine_handler env)) req e)) e = Some (Inr True, e')"
    by (simp add: register_strategy_def)
  from on_channelD [OF this] obtain x where x: "rpc_RegisterStrategy (Some (engine_handler env)) req e = Some x"
    "(case fst x of Inr (st, resp) \<Rightarrow> st = Status_OK \<and> rs_accepted resp | Inl _ \<Rightarrow> False)" "snd x = e'"
    by (auto simp: split_beta)
  then obtain st resp where
    rpc: "rpc_RegisterStrategy (Some (engine_handler env)) req e = Some (Inr (st, resp), e')" "st = Status_OK"
    by (cases x; cases "fst x") (auto simp: split_beta)
  have "RegisterStrategy env req e = Some (Inr (Inr ()), e')"
  proof (cases "RegisterStrategy env req e")
    case (Some re)
    then show ?thesis
      using rpc
      by (cases re; cases "fst re"; cases "projr (fst re)")
        (simp_all add: rpc_RegisterStrategy_def engine_handler_def invalid_or_ok_def)
  qed (use rpc(1) in \<open>simp add: rpc_RegisterStrategy_def engine_handler_def\<close>)
  with req show ?thesis by blast
qed

lemma started_by_client:
  assumes "start_strategy (Some (engine_handler env)) fate s e = Some (Inr u, e')"
  shows "\<exists>req. to_proto (st_config s) = Inr req \<and> RegisterStrategy env req e = Some (Inr (Inr ()), e')"
proof -
  from assms obtain x where x: "register_strategy (Some (engine_handler env)) (st_closed s) fate (st_config s) e
      = Some x" "(case fst x of Inl err \<Rightarrow> Inl err | Inr b \<Rightarrow> if b then Inr () else Inl ''RuntimeError'') = Inr u"
    "snd x = e'"
    by (auto simp: start_strategy_def split_beta)
  then have "x = (Inr True, e')" by (cases x; cases "fst x") (auto split: if_splits)
  with x(1) registered_by_client show ?thesis by simp
qed

section \<open>Stopping\<close>

text \<open>
  The engine after a strategy was stopped: exactly its orders open at the broker were cancelled there,
  none is stored as open with a broker id, and its manager is gone.
\<close>

definition closed_down :: "engine_env \<Rightarrow> StrategyId \<Rightarrow> nat \<Rightarrow> engine_om \<Rightarrow> engine \<Rightarrow> engine \<Rightarrow> bool" where
  "closed_down env sid a om e e' \<longleftrightarrow>
     find_manager sid e' = None \<and> om_heap e' = (om_heap e)(a := None)
   \<and> (\<exists>om'. retired e' = retired e @ [(sid, om')] \<and> cancelled_at_broker (engine_deps env) om om'
        \<and> none_at_broker om')"

lemma client_stop:
  assumes "engine_reach env am e" and "env_ok env" and "find_manager (cfg_strategy_id (st_config s)) e = Some a"
    and "om_heap e a = Some om" and "obedient (gateway om)" and "sq_healthy (order_store om)"
    and "\<not> st_closed s" and "\<not> st_stopping s"
  shows "\<exists>e'. stop_py_strategy (Some (engine_handler env)) fate reason s e
           = Some (Inr (), s\<lparr>st_stopping := True, st_closed := True\<rparr>, e')
       \<and> (if fate = Unreached then e' = e else closed_down env (cfg_strategy_id (st_config s)) a om e e')"
proof -
  let ?sid = "cfg_strategy_id (st_config s)"
  obtain e1 where stop: "stop_strategy env ?sid reason ?sid e = Some (Inr (), e1)"
    "closed_down env ?sid a om e e1"
    using stop_strategy_effect [OF engine_inv_reach [OF assms(1,2)] assms(3,4), of env reason ?sid]
      stopped_om_closed [OF engine_inv_reach [OF assms(1,2)] assms(4-6)]
    by (simp add: closed_down_def find_manager_def delete_conv')
  then have "rpc_ActivateKillSwitch (Some (engine_handler env))
      \<lparr>ks_reason = reason, ks_initiated_by = ?sid, ks_strategy_id = ?sid, ks_mode = STOP_STRATEGY\<rparr> e
      = Some (Status_OK, e1)"
    by (simp add: rpc_ActivateKillSwitch_def engine_handler_def ActivateKillSwitch_def)
  with stop(2) assms(7,8) show ?thesis
    by (cases fate)
      (auto simp: stop_py_strategy_def activate_kill_switch_def on_channel_def Let_def)
qed

text \<open>
  \<open>stop\<close> of a strategy that runs, whose gateway accepts cancels and whose order store fails no
  statement: when its call reaches the engine, exactly the strategy's orders recorded as open with a
  broker id are cancelled at the broker, its manager is destroyed and its id is free again; the client
  is closed. When the call does not reach the engine, \<open>stop\<close>
  closes the client all the same: the engine is as it was, with the manager and its orders. A second
  \<open>stop\<close> does nothing.
\<close>

theorem client_stop_closes_strategy:
  assumes "engine_reach env am e" and "env_ok env" and "find_manager (cfg_strategy_id (st_config s)) e = Some a"
    and "om_heap e a = Some om" and "obedient (gateway om)" and "sq_healthy (order_store om)"
    and "\<not> st_closed s" and "\<not> st_stopping s"
  defines "s' \<equiv> s\<lparr>st_stopping := True, st_closed := True\<rparr>"
  shows "(\<exists>e'. stop_py_strategy (Some (engine_handler env)) fate reason s e = Some (Inr (), s', e')
            \<and> (if fate = Unreached then e' = e else closed_down env (cfg_strategy_id (st_config s)) a om e e'))
       \<and> stop_py_strategy (Some (engine_handler env)) fate' reason' s' e'' = Some (Inr (), s', e'')"
  using client_stop [OF assms(1-8), of fate reason] by (auto simp: s'_def stop_py_strategy_def)

text \<open>The sample strategy, written as a client's configuration.\<close>

definition sample_config :: strategy_config where
  "sample_config =
     \<lparr>cfg_strategy_id = ''S1'', cfg_account_id = ''ACC'', cfg_gateway = PAPER_TRADING,
      cfg_market_data = Some \<lparr>pm_feed = SIMULATED,
        pm_subscriptions = [\<lparr>ps_symbol = ''AAPL'', ps_period = None\<rparr>]\<rparr>,
      cfg_adapter = None, cfg_risk_manager = None\<rparr>"

theorem client_stop_closes_strategy_witness:
  "to_proto sample_config = Inr sample_registration
   \<and> (\<exists>e' om'. stop_py_strategy (Some (engine_handler sample_env)) Reply_lost ''done'' (new_strategy sample_config)
         sample_engine = Some (Inr (), (new_strategy sample_config)\<lparr>st_stopping := True, st_closed := True\<rparr>, e')
       \<and> retired e' = [(''S1'', om')] \<and> none_at_broker om')"
proof -
  have sid: "cfg_strategy_id (st_config (new_strategy sample_config)) = ''S1''"
    by (simp add: new_strategy_def sample_config_def)
  have known: "find_manager (cfg_strategy_id (st_config (new_strategy sample_config))) sample_engine = Some 0"
    "om_heap sample_engine 0 = Some engine_om0"
    by (simp_all add: sid find_manager_def sample_register)
  have "\<not> st_closed (new_strategy sample_config)" "\<not> st_stopping (new_strategy sample_config)"
    by (simp_all add: new_strategy_def)
  from client_stop_closes_strategy [OF sample_reach sample_env_ok known engine_om0_obedient this,
      of Reply_lost "''done''"]
  have "\<exists>e' om'. stop_py_strategy (Some (engine_handler sample_env)) Reply_lost ''done'' (new_strategy sample_config)
         sample_engine = Some (Inr (), (new_strategy sample_config)\<lparr>st_stopping := True, st_closed := True\<rparr>, e')
       \<and> retired e' = [(''S1'', om')] \<and> none_at_broker om'"
    unfolding sid by (simp add: sample_register closed_down_def) blast
  moreover have "to_proto sample_config = Inr sample_registration"
    by (simp add: to_proto_def sample_config_def sample_registration_def subscription_to_proto_def)
  ultimately show ?thesis by blast
qed

text \<open>
  A strategy whose process ended without \<open>stop\<close> cannot come back: its id is still taken, and \<open>run\<close>
  raises.
\<close>

theorem crashed_strategy_locked_out:
  assumes "find_manager (cfg_strategy_id cfg) e = Some a" and "to_proto cfg = Inr req"
  shows "start_strategy (Some (engine_handler env)) Delivered (new_strategy cfg) e = Some (Inl ''RuntimeError'', e)"
proof -
  have sid: "rsr_strategy_id req = cfg_strategy_id cfg"
    using assms(2) by (auto simp: to_proto_def split: if_splits)
  have "list_ex (\<lambda>m. fst m = rsr_strategy_id req) (managers e)"
    using assms(1) by (force simp: sid find_manager_def list_ex_iff dest: map_of_SomeD)
  then show ?thesis
    by (simp add: start_strategy_def register_strategy_def new_strategy_def assms(2) on_channel_def
        rpc_RegisterStrategy_def engine_handler_def RegisterStrategy_def invalid_or_ok_def)
qed

theorem crashed_strategy_locked_out_witness:
  "start_strategy (Some (engine_handler sample_env)) Delivered (new_strategy sample_config) sample_engine
     = Some (Inl ''RuntimeError'', sample_engine)"
  by (rule crashed_strategy_locked_out [of _ _ 0 sample_registration])
    (simp_all add: find_manager_def sample_register sample_config_def to_proto_def
      sample_registration_def subscription_to_proto_def)

section \<open>The momentum strategy\<close>

text \<open>The configuration of \<open>momentum.py\<close>; its callbacks buy a quantity of one.\<close>

definition momentum_config :: strategy_config where
  "momentum_config =
     \<lparr>cfg_strategy_id = ''momentum_1'', cfg_account_id = ''acct_001'', cfg_gateway = PAPER_TRADING,
      cfg_market_data = Some \<lparr>pm_feed = SIMULATED,
        pm_subscriptions = [\<lparr>ps_symbol = ''C'', ps_period = None\<rparr>]\<rparr>,
      cfg_adapter = Some \<lparr>ac_venue = ''paper'', ac_credentials_path = ''python_client/creds.txt'',
        ac_port = 50052\<rparr>,
      cfg_risk_manager = Some \<lparr>pr_max_quantity = 1 / 2, pr_max_open_orders = 3, pr_daily_pnl_limit = 0\<rparr>\<rparr>"

definition momentum_buy ::
  "'e service_handler option \<Rightarrow> call_fate \<Rightarrow> py_strategy \<Rightarrow> Symbol \<Rightarrow> string \<Rightarrow> (string option, 'e) client_call"
  where "momentum_buy h fate s symbol now = buy h fate s symbol 1 now"

text \<open>
  The momentum strategy never trades: from its registration with its own configuration on, in
  whatever way the engine goes on while it is registered, every one of its purchases is refused, since
  it buys one unit and its limit is half a unit.
\<close>

theorem momentum_never_trades:
  assumes "engine_reach env am e0" and "env_ok env"
    and "start_strategy (Some (engine_handler env)) fate0 (new_strategy momentum_config) e0 = Some (Inr (), e1)"
    and "(engine_step env)\<^sup>*\<^sup>* e1 e" and "find_manager ''momentum_1'' e = Some (next_om e0)"
    and "momentum_buy (Some (engine_handler env)) fate (new_strategy momentum_config) symbol now e = Some (r, e')"
  shows "r = Inr None"
proof (rule ccontr)
  assume other: "r \<noteq> Inr None"
  have "\<exists>x. r = Inr x"
    using assms(6)
    by (auto simp: momentum_buy_def buy_def submit_signal_def on_channel_def new_strategy_def
        split: call_fate.splits)
  with other obtain l where l: "r = Inr (Some l)" by (metis not_Some_eq)
  let ?sig = "\<lparr>sig_strategy_id = ''momentum_1'', sig_symbol = symbol, sig_side = side_of ''BUY'',
     sig_target_quantity = 1, sig_generated_at = now\<rparr>"
  have "submit_signal (Some (engine_handler env)) False fate ''momentum_1'' symbol ''BUY'' 1 now e
      = Some (Inr (Some l), e')"
    using assms(6) l by (simp add: momentum_buy_def buy_def new_strategy_def momentum_config_def)
  from accepted_client_submit [OF this] obtain resp
    where rpc: "rpc_SubmitSignal (Some (engine_handler env)) ?sig e = Some (Status_OK, resp, e')" by auto
  from started_by_client [OF assms(3)] obtain req where req: "to_proto momentum_config = Inr req"
    "RegisterStrategy env req e0 = Some (Inr (Inr ()), e1)"
    by (auto simp: new_strategy_def)
  have known: "find_manager (sig_strategy_id ?sig) e = Some (next_om e0)" using assms(5) by simp
  from settings_for_life [OF assms(1,2) req(2) assms(4) known] obtain om where inv: "engine_inv e"
    and om: "om_heap e (next_om e0) = Some om" "settings om = (risk_limits_of req, rsr_account_id req)"
    by blast
  from submit_checked [OF inv known om(1) rpc] om(2) req(1) show False
    by (auto simp: checked_outcome_def Let_def risk_limits_of_def to_proto_def momentum_config_def
        risk_check_def mk_error_def)
qed

theorem momentum_never_trades_witness:
  "\<exists>e1 e'. start_strategy (Some (engine_handler sample_env)) Delivered (new_strategy momentum_config)
       (new_engine sample_adapters) = Some (Inr (), e1)
     \<and> momentum_buy (Some (engine_handler sample_env)) Delivered (new_strategy momentum_config) ''C'' '''' e1
       = Some (Inr None, e')"
proof -
  let ?e0 = "new_engine sample_adapters" and ?h = "Some (engine_handler sample_env)"
  let ?s = "new_strategy momentum_config"
  obtain req where req: "to_proto momentum_config = Inr req" by (simp add: to_proto_def momentum_config_def)
  then obtain e1 where e1: "RegisterStrategy sample_env req ?e0 = Some (Inr (Inr ()), e1)"
    "find_manager ''momentum_1'' e1 = Some 0"
    by (auto simp: to_proto_def momentum_config_def subscription_to_proto_def RegisterStrategy_def
      create_strategy_def find_manager_def
      new_engine_def make_gateway_def emplace_manager_def sample_env_def
      setup_market_data_def open_feed_def has_feed_def new_registry_def register_feed_def add_feed_def
      register_subscription_def ensure_feed_def sim_feed_ops_def subscribe_def Let_def)
  have start: "start_strategy ?h Delivered ?s ?e0 = Some (Inr (), e1)"
    by (simp add: start_strategy_def register_strategy_def new_strategy_def req on_channel_def
        rpc_RegisterStrategy_def engine_handler_def e1(1) invalid_or_ok_def)
  have reach1: "engine_reach sample_env sample_adapters e1" by (rule er_step [OF er_new es_register [OF e1(1)]])
  define sig where "sig = \<lparr>sig_strategy_id = ''momentum_1'', sig_symbol = ''C'', sig_side = side_of ''BUY'',
     sig_target_quantity = 1, sig_generated_at = ''''\<rparr>"
  obtain r e' where "SubmitSignal sample_env sig e1 = Some (r, e')"
    using signals_good(1) [OF engine_inv_reach [OF reach1 sample_env_ok]] by blast
  then obtain x where buy: "momentum_buy ?h Delivered ?s ''C'' '''' e1 = Some (x, e')"
    by (auto simp: momentum_buy_def buy_def submit_signal_def on_channel_def new_strategy_def
        momentum_config_def rpc_SubmitSignal_def engine_handler_def sig_def)
  have "find_manager ''momentum_1'' e1 = Some (next_om ?e0)" using e1(2) by (simp add: new_engine_def)
  from momentum_never_trades [OF er_new sample_env_ok start rtranclp.rtrancl_refl this buy] buy start
  show ?thesis by blast
qed

end
