(* ===== verification/StrategyRun.thy ===== *)
theory StrategyRun
  imports StrategyClient
begin

text \<open>
  \<open>run\<close> of \<open>strategy/base_strategy.py\<close>: the thread that waits in it, the two threads that pass the
  streams of \<open>grpc_interface.py\<close> to the callbacks of the strategy, and \<open>stop\<close>, beside the engine, which
  goes on meanwhile. \<open>stop\<close> is one step: two threads that pass its test at once both call the kill
  switch, and the second call finds no strategy.
\<close>

section \<open>State and steps\<close>

datatype receiver = No_thread | Receiving | Received

datatype run_place = Not_run | Run_waits | Run_returned | Run_raised

datatype callback =
  On_start | On_stop | On_tick tick_event | On_bar bar_event | On_fill execution_report

record 'e strategy_run =
  sr_strategy :: py_strategy
  sr_engine :: 'e
  sr_place :: run_place
  md_receiver :: receiver
  fill_receiver :: receiver
  callbacks :: "callback list"

definition new_run :: "strategy_config \<Rightarrow> 'e \<Rightarrow> 'e strategy_run" where
  "new_run cfg e =
     \<lparr>sr_strategy = new_strategy cfg, sr_engine = e, sr_place = Not_run, md_receiver = No_thread,
      fill_receiver = No_thread, callbacks = []\<rparr>"

text \<open>\<open>stream_market_data\<close> looks which event it has; there may be none in it.\<close>

fun event_callback :: "market_data_event \<Rightarrow> callback list" where
  "event_callback (kTick t) = [On_tick t]"
| "event_callback (kBar b) = [On_bar b]"
| "event_callback EVENT_NOT_SET = []"

definition close_client :: "py_strategy \<Rightarrow> py_strategy" where
  "close_client s = s\<lparr>st_closed := True\<rparr>"

text \<open>
  A stream ends when the engine ends it, and when the connection breaks, which the client catches as an
  \<open>RpcError\<close> and logs. What a callback raises, and the \<open>ValueError\<close> of a closed channel, end the stream
  too, and then the thread calls \<open>stop\<close>.
\<close>

inductive strategy_step ::
  "'e service_handler option \<Rightarrow> ('e \<Rightarrow> 'e \<Rightarrow> bool) \<Rightarrow> 'e strategy_run \<Rightarrow> 'e strategy_run \<Rightarrow> bool"
  for h env_step where
  st_starts: "sr_place w = Not_run \<Longrightarrow> start_strategy h fate (sr_strategy w) (sr_engine w) = Some (Inr (), e) \<Longrightarrow>
    strategy_step h env_step w (w\<lparr>sr_engine := e, sr_place := Run_waits,
      md_receiver := (case cfg_market_data (st_config (sr_strategy w)) of None \<Rightarrow> No_thread | Some _ \<Rightarrow> Receiving),
      fill_receiver := Receiving, callbacks := callbacks w @ [On_start]\<rparr>)"
| st_refused: "sr_place w = Not_run \<Longrightarrow>
    start_strategy h fate (sr_strategy w) (sr_engine w) = Some (Inl exc, e) \<Longrightarrow>
    strategy_step h env_step w (w\<lparr>sr_engine := e, sr_place := Run_raised\<rparr>)"
| st_start_raises: "sr_place w = Not_run \<Longrightarrow>
    start_strategy h fate (sr_strategy w) (sr_engine w) = Some (Inr (), e) \<Longrightarrow>
    strategy_step h env_step w (w\<lparr>sr_engine := e, sr_place := Run_raised, callbacks := callbacks w @ [On_start]\<rparr>)"
| st_engine: "env_step (sr_engine w) e \<Longrightarrow> strategy_step h env_step w (w\<lparr>sr_engine := e\<rparr>)"
| st_event: "md_receiver w = Receiving \<Longrightarrow>
    strategy_step h env_step w (w\<lparr>callbacks := callbacks w @ event_callback event\<rparr>)"
| st_md_over: "md_receiver w = Receiving \<Longrightarrow> strategy_step h env_step w (w\<lparr>md_receiver := Received\<rparr>)"
| st_md_fails: "md_receiver w = Receiving \<Longrightarrow>
    stop_py_strategy h fate ''market data stream failed'' (sr_strategy w) (sr_engine w) = Some (r, s, e) \<Longrightarrow>
    strategy_step h env_step w (w\<lparr>sr_strategy := s, sr_engine := e, md_receiver := Received,
      callbacks := callbacks w @ event_callback event\<rparr>)"
| st_fill: "fill_receiver w = Receiving \<Longrightarrow>
    strategy_step h env_step w (w\<lparr>callbacks := callbacks w @ [On_fill report]\<rparr>)"
| st_fills_over: "fill_receiver w = Receiving \<Longrightarrow> strategy_step h env_step w (w\<lparr>fill_receiver := Received\<rparr>)"
| st_fills_fail: "fill_receiver w = Receiving \<Longrightarrow>
    stop_py_strategy h fate ''fill stream failed'' (sr_strategy w) (sr_engine w) = Some (r, s, e) \<Longrightarrow>
    strategy_step h env_step w (w\<lparr>sr_strategy := s, sr_engine := e, fill_receiver := Received,
      callbacks := callbacks w @ map On_fill (take 1 reports)\<rparr>)"
| st_stop: "stop_py_strategy h fate reason (sr_strategy w) (sr_engine w) = Some (r, s, e) \<Longrightarrow>
    strategy_step h env_step w (w\<lparr>sr_strategy := s, sr_engine := e\<rparr>)"
| st_interrupted: "sr_place w = Run_waits \<Longrightarrow>
    stop_py_strategy h fate ''strategy interrupted by user'' (sr_strategy w) (sr_engine w) = Some (r, s, e) \<Longrightarrow>
    strategy_step h env_step w (w\<lparr>sr_strategy := close_client s, sr_engine := e,
      sr_place := (case r of Inl _ \<Rightarrow> Run_raised | Inr _ \<Rightarrow> Run_returned), callbacks := callbacks w @ [On_stop]\<rparr>)"
| st_done: "sr_place w = Run_waits \<Longrightarrow> md_receiver w \<noteq> Receiving \<Longrightarrow> fill_receiver w \<noteq> Receiving \<Longrightarrow>
    strategy_step h env_step w (w\<lparr>sr_strategy := close_client (sr_strategy w), sr_place := Run_returned,
      callbacks := callbacks w @ [On_stop]\<rparr>)"

section \<open>What the callbacks see\<close>

lemma stop_keeps:
  assumes "stop_py_strategy h fate reason s e = Some (r, s', e')"
  shows "st_config s' = st_config s \<and> st_stopping s' \<and> (st_closed s \<longrightarrow> st_closed s')"
  using assms
  by (auto simp: stop_py_strategy_def Let_def split: if_splits sum.splits)

lemma close_client_simps [simp]:
  "st_config (close_client s) = st_config s" "st_stopping (close_client s) = st_stopping s"
  "st_closed (close_client s)"
  by (simp_all add: close_client_def)

definition md_callback :: "callback \<Rightarrow> bool" where
  "md_callback c = (case c of On_tick _ \<Rightarrow> True | On_bar _ \<Rightarrow> True | _ \<Rightarrow> False)"

definition run_inv :: "strategy_config \<Rightarrow> 'e strategy_run \<Rightarrow> bool" where
  "run_inv cfg w \<longleftrightarrow>
     st_config (sr_strategy w) = cfg
   \<and> (sr_place w = Not_run \<longrightarrow> callbacks w = [] \<and> md_receiver w = No_thread \<and> fill_receiver w = No_thread)
   \<and> (sr_place w = Run_waits \<longrightarrow> On_stop \<notin> set (callbacks w))
   \<and> (sr_place w = Run_returned \<longrightarrow> st_closed (sr_strategy w) \<and> length (filter (\<lambda>c. c = On_stop) (callbacks w)) = 1)
   \<and> (callbacks w \<noteq> [] \<longrightarrow> hd (callbacks w) = On_start)
   \<and> (md_receiver w \<noteq> No_thread \<longrightarrow> cfg_market_data cfg \<noteq> None)
   \<and> (list_ex md_callback (callbacks w) \<longrightarrow> cfg_market_data cfg \<noteq> None)"

lemma event_callback_md: "c \<in> set (event_callback event) \<Longrightarrow> md_callback c \<and> c \<noteq> On_stop \<and> c \<noteq> On_start"
  by (cases event) (auto simp: md_callback_def)

lemma no_stop_events [simp]:
  "filter (\<lambda>c. c = On_stop) (event_callback event) = []"
  "filter (\<lambda>c. c = On_stop) (map On_fill rs) = []"
  "On_stop \<notin> set (event_callback event)"
  "\<not> list_ex md_callback (map On_fill rs)"
  "\<not> md_callback (On_fill r)" "\<not> md_callback On_start" "\<not> md_callback On_stop"
  by (cases event; simp add: md_callback_def list_ex_iff filter_empty_conv)+

definition receiving_ok :: "'e strategy_run \<Rightarrow> bool" where
  "receiving_ok w \<longleftrightarrow>
     (md_receiver w \<noteq> No_thread \<or> fill_receiver w \<noteq> No_thread \<or> sr_place w = Run_waits \<longrightarrow>
        sr_place w \<noteq> Not_run \<and> callbacks w \<noteq> [])"

lemma receiving_ok_step: "strategy_step h es w w' \<Longrightarrow> receiving_ok w \<Longrightarrow> receiving_ok w'"
  by (induction rule: strategy_step.induct)
    (simp_all add: receiving_ok_def split: sum.split)

lemma run_inv_step:
  assumes "strategy_step h es w w'" and "run_inv cfg w" and "receiving_ok w"
  shows "run_inv cfg w'"
  using assms
proof (induction rule: strategy_step.induct)
  case (st_md_fails w fate r s e event)
  with stop_keeps [OF st_md_fails(2)] show ?case by (auto simp: run_inv_def receiving_ok_def)
next
  case (st_fills_fail w fate r s e reports)
  with stop_keeps [OF st_fills_fail(2)] show ?case by (auto simp: run_inv_def receiving_ok_def)
next
  case (st_stop fate reason w r s e)
  with stop_keeps [OF st_stop(1)] show ?case by (auto simp: run_inv_def)
next
  case (st_interrupted w fate r s e)
  with stop_keeps [OF st_interrupted(2)] show ?case
    by (auto simp: run_inv_def receiving_ok_def filter_empty_conv split: sum.split)
next
  case (st_done w)
  then show ?case by (auto simp: run_inv_def receiving_ok_def filter_empty_conv)
qed (auto simp: run_inv_def receiving_ok_def split: option.splits)

lemma run_inv_reach:
  assumes "(strategy_step h es)\<^sup>*\<^sup>* (new_run cfg e) w"
  shows "run_inv cfg w \<and> receiving_ok w"
  using assms
proof (induction rule: rtranclp_induct)
  case base
  show ?case by (simp add: run_inv_def receiving_ok_def new_run_def new_strategy_def)
next
  case (step w w')
  then show ?case using run_inv_step receiving_ok_step by blast
qed

text \<open>
  The callbacks of a strategy: \<open>on_start\<close> comes first, \<open>on_stop\<close> once, when \<open>run\<close> returns, with the
  client closed, and ticks and bars only come to a strategy that asked for market data.
\<close>

theorem callbacks_in_order:
  assumes "(strategy_step h es)\<^sup>*\<^sup>* (new_run cfg e) w"
  shows "(callbacks w \<noteq> [] \<longrightarrow> hd (callbacks w) = On_start)
       \<and> (sr_place w = Run_returned \<longrightarrow>
            st_closed (sr_strategy w) \<and> length (filter (\<lambda>c. c = On_stop) (callbacks w)) = 1)
       \<and> (list_ex md_callback (callbacks w) \<longrightarrow> cfg_market_data cfg \<noteq> None)"
  using run_inv_reach [OF assms] by (simp add: run_inv_def)

section \<open>How a strategy ends\<close>




lemma registered_manager:
  assumes "RegisterStrategy env req e = Some (Inr (Inr ()), e')"
  shows "find_manager (rsr_strategy_id req) e' \<noteq> None"
  using assms
proof (cases rule: register_cases)
  case (created gway e1 a e2)
  then show ?thesis
    using emplace_managerD [OF created(3)] setup_market_data_frame [OF created(4)]
    by (auto simp: find_manager_def)
qed simp_all

text \<open>
  An \<open>on_start\<close> that raises stops nothing either: \<open>run\<close> raises, no thread receives, the client is left
  open, and the engine keeps the manager that was registered.
\<close>

theorem raised_start_keeps_manager:
  assumes "start_strategy (Some (engine_handler env)) fate (new_strategy cfg) e = Some (Inr (), e')"
  shows "\<exists>w'. strategy_step (Some (engine_handler env)) (engine_step env) (new_run cfg e) w'
       \<and> sr_place w' = Run_raised \<and> callbacks w' = [On_start]
       \<and> md_receiver w' = No_thread \<and> fill_receiver w' = No_thread
       \<and> \<not> st_stopping (sr_strategy w') \<and> \<not> st_closed (sr_strategy w')
       \<and> find_manager (cfg_strategy_id cfg) (sr_engine w') \<noteq> None"
proof -
  obtain req where req: "to_proto cfg = Inr req" "RegisterStrategy env req e = Some (Inr (Inr ()), e')"
    using started_by_client [OF assms] by (auto simp: new_strategy_def)
  then have "rsr_strategy_id req = cfg_strategy_id cfg"
    by (auto simp: to_proto_def Let_def split: sum.splits option.splits if_splits)
  with registered_manager [OF req(2)] have "find_manager (cfg_strategy_id cfg) e' \<noteq> None" by simp
  moreover have "strategy_step (Some (engine_handler env)) (engine_step env) (new_run cfg e)
      ((new_run cfg e)\<lparr>sr_engine := e', sr_place := Run_raised, callbacks := callbacks (new_run cfg e) @ [On_start]\<rparr>)"
    by (rule st_start_raises [where fate = fate]) (simp_all add: new_run_def assms)
  ultimately show ?thesis by (fastforce simp: new_run_def new_strategy_def)
qed

lemma sample_start:
  "to_proto sample_config = Inr sample_registration"
  "start_strategy (Some (engine_handler sample_env)) Delivered (new_strategy sample_config)
     (new_engine sample_adapters) = Some (Inr (), sample_engine)"
proof -
  show proto: "to_proto sample_config = Inr sample_registration"
    by (simp add: to_proto_def sample_config_def sample_registration_def subscription_to_proto_def)
  show "start_strategy (Some (engine_handler sample_env)) Delivered (new_strategy sample_config)
     (new_engine sample_adapters) = Some (Inr (), sample_engine)"
    by (simp add: start_strategy_def register_strategy_def new_strategy_def proto on_channel_def
        rpc_RegisterStrategy_def engine_handler_def sample_register(1) invalid_or_ok_def)
qed


theorem raised_start_keeps_manager_witness:
  "\<exists>w'. strategy_step (Some (engine_handler sample_env)) (engine_step sample_env)
       (new_run sample_config (new_engine sample_adapters)) w' \<and> sr_place w' = Run_raised
     \<and> find_manager ''S1'' (sr_engine w') \<noteq> None"
proof -
  have "cfg_strategy_id sample_config = ''S1''" by (simp add: sample_config_def)
  with raised_start_keeps_manager [OF sample_start(2)] show ?thesis by auto
qed

theorem callbacks_in_order_witness:
  "\<exists>w. (strategy_step (Some (engine_handler sample_env)) (engine_step sample_env))\<^sup>*\<^sup>*
         (new_run sample_config (new_engine sample_adapters)) w \<and> callbacks w \<noteq> [] \<and> hd (callbacks w) = On_start"
proof -
  let ?h = "Some (engine_handler sample_env)" and ?w0 = "new_run sample_config (new_engine sample_adapters)"
  obtain w where w: "strategy_step ?h (engine_step sample_env) ?w0 w" "callbacks w \<noteq> []"
    using st_starts [of ?w0 ?h Delivered sample_engine "engine_step sample_env"] sample_start(2)
    by (fastforce simp: new_run_def)
  have reach: "(strategy_step ?h (engine_step sample_env))\<^sup>*\<^sup>* ?w0 w" using w(1) by (rule r_into_rtranclp)
  from callbacks_in_order [OF reach] w(2) reach show ?thesis by blast
qed

end
