(* ===== verification/PythonAdapter.thy ===== *)
theory PythonAdapter
  imports TradingEngineProps
begin

text \<open>
  The adapter process at the other end of the gRPC gateway, \<open>python_client/adapters\<close>: \<open>BaseAdapter\<close> with
  its calls, its streams of fills and of market data, its reconnect loop and its \<open>stop\<close>, over the methods
  a venue implements, \<open>PaperAdapter\<close>, the one venue of the repository, and what becomes of the signal
  the engine ends an adapter with.
\<close>

section \<open>A venue\<close>

text \<open>The abstract methods; \<open>Inl\<close> is an exception, which the caller sees as a failed call.\<close>

record 'v venue_ops =
  vn_submit :: "order \<Rightarrow> 'v \<Rightarrow> (string + BrokerOrderId \<times> bool \<times> string) \<times> 'v"
  vn_replace :: "BrokerOrderId \<Rightarrow> order \<Rightarrow> 'v \<Rightarrow> (string + BrokerOrderId \<times> bool \<times> string) \<times> 'v"
  vn_cancel :: "BrokerOrderId \<Rightarrow> 'v \<Rightarrow> (string + bool \<times> string) \<times> 'v"
  vn_start_market_data :: "symbol_subscription list \<Rightarrow> 'v \<Rightarrow> (string + unit) \<times> 'v"
  vn_stop_market_data :: "'v \<Rightarrow> (string + unit) \<times> 'v"
  vn_connect :: "'v \<Rightarrow> (string + unit) \<times> 'v"
  vn_disconnect :: "'v \<Rightarrow> (string + unit) \<times> 'v"
  vn_connected :: "'v \<Rightarrow> bool"

text \<open>\<open>PaperAdapter\<close>: every order gets a new random id, everything is accepted and nothing is kept.\<close>

record paper_venue =
  uuids :: "nat \<Rightarrow> string"
  issued :: nat

definition new_uuid :: "paper_venue \<Rightarrow> string \<times> paper_venue" where
  "new_uuid v = (uuids v (issued v), v\<lparr>issued := Suc (issued v)\<rparr>)"

definition paper_venue_ops :: "paper_venue venue_ops" where
  "paper_venue_ops =
     \<lparr>vn_submit = (\<lambda>ord v. let (i, v) = new_uuid v in (Inr (i, True, ''''), v)),
      vn_replace = (\<lambda>b ord v. let (i, v) = new_uuid v in (Inr (i, True, ''''), v)),
      vn_cancel = (\<lambda>b v. (Inr (True, ''''), v)), vn_start_market_data = (\<lambda>subs v. (Inr (), v)),
      vn_stop_market_data = (\<lambda>v. (Inr (), v)), vn_connect = (\<lambda>v. (Inr (), v)),
      vn_disconnect = (\<lambda>v. (Inr (), v)), vn_connected = (\<lambda>_. True)\<rparr>"

section \<open>The adapter\<close>

text \<open>
  A queue is known by its number; it holds execution reports or market data events, and \<open>None\<close> in it
  ends the stream that reads it.
\<close>

datatype stream_item = Report execution_report | Event market_data_event

record 'v base_adapter =
  ba_venue :: 'v
  order_routing :: "BrokerOrderId \<rightharpoonup> StrategyId"
  fill_queues :: "StrategyId \<rightharpoonup> nat"
  md_queues :: "nat list"
  queue_items :: "nat \<Rightarrow> stream_item option list"
  queues_made :: nat
  stop_event :: bool

definition new_base_adapter :: "'v \<Rightarrow> 'v base_adapter" where
  "new_base_adapter v =
     \<lparr>ba_venue = v, order_routing = Map.empty, fill_queues = Map.empty, md_queues = [],
      queue_items = (\<lambda>_. []), queues_made = 0, stop_event = False\<rparr>"

definition py_submit_order ::
  "'v venue_ops \<Rightarrow> submit_request \<Rightarrow> 'v base_adapter \<Rightarrow> (string + submit_response) \<times> 'v base_adapter" where
  "py_submit_order ops req b =
     (case vn_submit ops (srq_order req) (ba_venue b) of
        (Inl exc, v) \<Rightarrow> (Inl exc, b\<lparr>ba_venue := v\<rparr>)
      | (Inr (bid, accepted, reason), v) \<Rightarrow>
          (Inr \<lparr>srs_accepted = accepted, srs_broker_order_id = bid, srs_rejection_reason = reason\<rparr>,
           if accepted
           then b\<lparr>ba_venue := v, order_routing := (order_routing b)(bid \<mapsto> srq_strategy_id req)\<rparr>
           else b\<lparr>ba_venue := v\<rparr>))"

definition py_cancel_order ::
  "'v venue_ops \<Rightarrow> cancel_request \<Rightarrow> 'v base_adapter \<Rightarrow> (string + cancel_response) \<times> 'v base_adapter" where
  "py_cancel_order ops req b =
     (case vn_cancel ops (crq_broker_order_id req) (ba_venue b) of
        (Inl exc, v) \<Rightarrow> (Inl exc, b\<lparr>ba_venue := v\<rparr>)
      | (Inr (accepted, reason), v) \<Rightarrow>
          (Inr \<lparr>crs_accepted = accepted, crs_rejection_reason = reason\<rparr>, b\<lparr>ba_venue := v\<rparr>))"

definition py_replace_order ::
  "'v venue_ops \<Rightarrow> replace_request \<Rightarrow> 'v base_adapter \<Rightarrow> (string + replace_response) \<times> 'v base_adapter" where
  "py_replace_order ops req b =
     (case vn_replace ops (rrq_broker_order_id req) (rrq_new_order req) (ba_venue b) of
        (Inl exc, v) \<Rightarrow> (Inl exc, b\<lparr>ba_venue := v\<rparr>)
      | (Inr (new_bid, accepted, reason), v) \<Rightarrow>
          (Inr \<lparr>rrs_accepted = accepted, rrs_new_broker_order_id = new_bid,
               rrs_rejection_reason = reason\<rparr>,
           if accepted
           then b\<lparr>ba_venue := v, order_routing :=
                  ((order_routing b)(rrq_broker_order_id req := None))(new_bid \<mapsto> rrq_strategy_id req)\<rparr>
           else b\<lparr>ba_venue := v\<rparr>))"

definition py_ping :: "'v venue_ops \<Rightarrow> 'v base_adapter \<Rightarrow> bool" where
  "py_ping ops b = vn_connected ops (ba_venue b)"

text \<open>
  \<open>stop\<close>: the event, an end mark in every queue, and the venue, whose exceptions are swallowed. It ends
  with the shutdown of the server, which waits for the streams.
\<close>

definition py_stop :: "'v venue_ops \<Rightarrow> 'v base_adapter \<Rightarrow> 'v base_adapter" where
  "py_stop ops b =
     b\<lparr>stop_event := True,
       queue_items := (\<lambda>q. queue_items b q @ (if q \<in> ran (fill_queues b) then [None] else [])
         @ (if q \<in> set (md_queues b) then [None] else [])),
       ba_venue := snd (vn_disconnect ops (snd (vn_stop_market_data ops (ba_venue b))))\<rparr>"

section \<open>The reconnect loop\<close>

text \<open>
  One round: the seconds the loop then waits, the next backoff and the adapter. The loop ends at its
  test of the stop event, which also cuts the wait short.
\<close>

definition reconnect_round ::
  "'v venue_ops \<Rightarrow> nat \<Rightarrow> 'v base_adapter \<Rightarrow> (nat \<times> nat \<times> 'v base_adapter) option" where
  "reconnect_round ops backoff b =
     (if stop_event b then None
      else if vn_connected ops (ba_venue b) then Some (5, backoff, b)
      else case vn_connect ops (ba_venue b) of
             (Inr _, v) \<Rightarrow> Some (5, 1, b\<lparr>ba_venue := v\<rparr>)
           | (Inl _, v) \<Rightarrow> Some (backoff, min (backoff * 2) 60, b\<lparr>ba_venue := v\<rparr>))"

fun reconnect_waits :: "'v venue_ops \<Rightarrow> nat \<Rightarrow> nat \<Rightarrow> 'v base_adapter \<Rightarrow> nat list" where
  "reconnect_waits ops 0 backoff b = []"
| "reconnect_waits ops (Suc n) backoff b =
     (case reconnect_round ops backoff b of
        None \<Rightarrow> []
      | Some (w, backoff', b') \<Rightarrow> w # reconnect_waits ops n backoff' b')"

text \<open>A venue that never comes back is asked after 1, 2, 4, 8, 16, 32 seconds and then every minute.\<close>

lemma backoff_doubles:
  assumes "\<forall>v. \<not> vn_connected ops v" and "\<forall>v. \<exists>exc v'. vn_connect ops v = (Inl exc, v')"
    and "\<not> stop_event b"
  shows "reconnect_waits ops n (min (2 ^ k) 60) b = map (\<lambda>i. min (2 ^ (k + i)) 60) [0..<n]"
  using assms(3)
proof (induction n arbitrary: k b)
  case (Suc n)
  obtain exc v where v: "vn_connect ops (ba_venue b) = (Inl exc, v)" using assms(2) by blast
  have twice: "min (min (2 ^ k) 60 * 2) 60 = min (2 ^ Suc k) (60 :: nat)" by (simp add: min_def)
  have upt: "[0..<Suc n] = 0 # map Suc [0..<n]" by (simp add: map_Suc_upt upt_conv_Cons del: upt_Suc)
  from Suc.IH [of "b\<lparr>ba_venue := v\<rparr>" "Suc k"] Suc.prems assms(1) v show ?case
    by (simp only: upt) (simp add: reconnect_round_def twice comp_def del: upt_Suc)
qed simp

text \<open>The paper venue is always connected: the loop does nothing but wait.\<close>

lemma paper_reconnect:
  "\<not> stop_event b \<Longrightarrow> reconnect_waits paper_venue_ops n k b = replicate n 5"
  by (induction n) (simp_all add: reconnect_round_def paper_venue_ops_def)

section \<open>Streams\<close>

text \<open>
  A call of \<open>StreamFills\<close> or \<open>StreamMarketData\<close>, which differ in where their queue is known: at the test
  of its loop, in \<open>get\<close>, or over.
\<close>

datatype call_kind = Fills StrategyId | Market_data

datatype call_place = Loop_head | In_get | Stream_ended

record queue_call =
  qc_kind :: call_kind
  qc_queue :: nat
  qc_active :: bool
  qc_place :: call_place

definition make_call :: "call_kind \<Rightarrow> 'v base_adapter \<Rightarrow> queue_call \<times> 'v base_adapter" where
  "make_call kind b =
     (\<lparr>qc_kind = kind, qc_queue = queues_made b, qc_active = True, qc_place = Loop_head\<rparr>,
      b\<lparr>queues_made := Suc (queues_made b)\<rparr>)"

definition open_fill_call :: "StrategyId \<Rightarrow> 'v base_adapter \<Rightarrow> queue_call \<times> 'v base_adapter" where
  "open_fill_call sid b =
     (let (c, b) = make_call (Fills sid) b in (c, b\<lparr>fill_queues := (fill_queues b)(sid \<mapsto> qc_queue c)\<rparr>))"

text \<open>The venue is started outside the \<open>try\<close>: when it raises, the call is over and its queue stays.\<close>

definition open_md_call ::
  "'v venue_ops \<Rightarrow> symbol_subscription list \<Rightarrow> 'v base_adapter \<Rightarrow> queue_call \<times> 'v base_adapter" where
  "open_md_call ops subs b =
     (let (c, b) = make_call Market_data b;
          b = b\<lparr>md_queues := md_queues b @ [qc_queue c]\<rparr>
      in case vn_start_market_data ops subs (ba_venue b) of
           (Inl _, v) \<Rightarrow> (c\<lparr>qc_place := Stream_ended\<rparr>, b\<lparr>ba_venue := v\<rparr>)
         | (Inr _, v) \<Rightarrow> (c, b\<lparr>ba_venue := v\<rparr>))"

text \<open>
  The \<open>finally\<close> of a fill stream takes the queue of its strategy away, whichever that is; the one of a
  market data stream takes its own.
\<close>

definition close_call :: "queue_call \<Rightarrow> 'v base_adapter \<Rightarrow> queue_call \<times> 'v base_adapter" where
  "close_call c b =
     (c\<lparr>qc_place := Stream_ended\<rparr>,
      case qc_kind c of
        Fills sid \<Rightarrow> b\<lparr>fill_queues := (fill_queues b)(sid := None)\<rparr>
      | Market_data \<Rightarrow> b\<lparr>md_queues := remove1 (qc_queue c) (md_queues b)\<rparr>)"

text \<open>One step of a call; \<open>Some\<close> item is one it yields. An empty queue is a \<open>get\<close> that times out.\<close>

definition call_step ::
  "queue_call \<Rightarrow> 'v base_adapter \<Rightarrow> (stream_item option \<times> queue_call \<times> 'v base_adapter) option" where
  "call_step c b =
     (case qc_place c of
        Loop_head \<Rightarrow>
          Some (None, if qc_active c \<and> \<not> stop_event b then (c\<lparr>qc_place := In_get\<rparr>, b)
                      else close_call c b)
      | In_get \<Rightarrow>
          (case queue_items b (qc_queue c) of
             [] \<Rightarrow> Some (None, c\<lparr>qc_place := Loop_head\<rparr>, b)
           | None # _ \<Rightarrow> Some (None, close_call c b)
           | Some item # rest \<Rightarrow>
               Some (Some item, c\<lparr>qc_place := Loop_head\<rparr>,
                 b\<lparr>queue_items := (queue_items b)(qc_queue c := rest)\<rparr>))
      | Stream_ended \<Rightarrow> None)"

text \<open>The process with its calls and what the streams have yielded.\<close>

record 'v adapter_world =
  aw_adapter :: "'v base_adapter"
  aw_calls :: "queue_call list"
  aw_yielded :: "stream_item list"

inductive adapter_world_step :: "'v venue_ops \<Rightarrow> 'v adapter_world \<Rightarrow> 'v adapter_world \<Rightarrow> bool" for ops where
  aw_submit: "adapter_world_step ops w (w\<lparr>aw_adapter := snd (py_submit_order ops sreq (aw_adapter w))\<rparr>)"
| aw_cancel: "adapter_world_step ops w (w\<lparr>aw_adapter := snd (py_cancel_order ops creq (aw_adapter w))\<rparr>)"
| aw_replace: "adapter_world_step ops w (w\<lparr>aw_adapter := snd (py_replace_order ops rreq (aw_adapter w))\<rparr>)"
| aw_opens: "open_fill_call sid (aw_adapter w) = (c, b) \<Longrightarrow>
    adapter_world_step ops w (w\<lparr>aw_adapter := b, aw_calls := aw_calls w @ [c]\<rparr>)"
| aw_opens_md: "open_md_call ops subs (aw_adapter w) = (c, b) \<Longrightarrow>
    adapter_world_step ops w (w\<lparr>aw_adapter := b, aw_calls := aw_calls w @ [c]\<rparr>)"
| aw_call: "i < length (aw_calls w) \<Longrightarrow>
    call_step (aw_calls w ! i) (aw_adapter w) = Some (out, c, b) \<Longrightarrow>
    adapter_world_step ops w (w\<lparr>aw_adapter := b, aw_calls := (aw_calls w)[i := c],
      aw_yielded := aw_yielded w @ (case out of None \<Rightarrow> [] | Some item \<Rightarrow> [item])\<rparr>)"
| aw_client_leaves: "i < length (aw_calls w) \<Longrightarrow>
    adapter_world_step ops w (w\<lparr>aw_calls := (aw_calls w)[i := (aw_calls w ! i)\<lparr>qc_active := False\<rparr>]\<rparr>)"
| aw_stop: "adapter_world_step ops w (w\<lparr>aw_adapter := py_stop ops (aw_adapter w)\<rparr>)"
| aw_reconnect: "reconnect_round ops backoff (aw_adapter w) = Some (secs, backoff', b) \<Longrightarrow>
    adapter_world_step ops w (w\<lparr>aw_adapter := b\<rparr>)"
| aw_venue: "adapter_world_step ops w (w\<lparr>aw_adapter := (aw_adapter w)\<lparr>ba_venue := v\<rparr>\<rparr>)"

definition new_world :: "'v \<Rightarrow> 'v adapter_world" where
  "new_world v = \<lparr>aw_adapter = new_base_adapter v, aw_calls = [], aw_yielded = []\<rparr>"

section \<open>Nothing ever arrives\<close>

text \<open>What the gateway reads of what the fill streams yield.\<close>

definition reports_of :: "stream_item list \<Rightarrow> execution_report list" where
  "reports_of items = concat (map (\<lambda>item. case item of Report r \<Rightarrow> [r] | Event _ \<Rightarrow> []) items)"

definition only_marks :: "'v adapter_world \<Rightarrow> bool" where
  "only_marks w \<longleftrightarrow> (\<forall>q. set (queue_items (aw_adapter w) q) \<subseteq> {None}) \<and> aw_yielded w = []"

lemma calls_frame [simp]:
  "queue_items (snd (py_submit_order ops sreq b)) = queue_items b"
  "queue_items (snd (py_cancel_order ops creq b)) = queue_items b"
  "queue_items (snd (py_replace_order ops rreq b)) = queue_items b"
  "fill_queues (snd (py_submit_order ops sreq b)) = fill_queues b"
  "fill_queues (snd (py_cancel_order ops creq b)) = fill_queues b"
  "fill_queues (snd (py_replace_order ops rreq b)) = fill_queues b"
  "stop_event (snd (py_submit_order ops sreq b)) = stop_event b"
  "stop_event (snd (py_cancel_order ops creq b)) = stop_event b"
  "stop_event (snd (py_replace_order ops rreq b)) = stop_event b"
  by (simp_all add: py_submit_order_def py_cancel_order_def py_replace_order_def
      split: prod.split sum.split)

lemma open_call_frame:
  "open_fill_call sid b = (c, b') \<Longrightarrow> queue_items b' = queue_items b \<and> stop_event b' = stop_event b"
  "open_md_call ops subs b = (c, b') \<Longrightarrow> queue_items b' = queue_items b \<and> stop_event b' = stop_event b"
  by (auto simp: open_fill_call_def open_md_call_def make_call_def Let_def split: prod.splits sum.splits)

lemma reconnect_frame:
  "reconnect_round ops k b = Some (secs, k', b') \<Longrightarrow>
     queue_items b' = queue_items b \<and> stop_event b' = stop_event b"
  by (auto simp: reconnect_round_def split: if_splits prod.splits sum.splits)

lemma close_call_frame [simp]:
  "queue_items (snd (close_call c b)) = queue_items b"
  "stop_event (snd (close_call c b)) = stop_event b"
  "qc_place (fst (close_call c b)) = Stream_ended"
  by (simp_all add: close_call_def split: call_kind.split)

lemma call_step_marks:
  assumes "call_step c b = Some (out, c', b')" and "\<forall>q. set (queue_items b q) \<subseteq> {None}"
  shows "out = None \<and> queue_items b' = queue_items b"
  using assms(1) spec [OF assms(2), of "qc_queue c"] close_call_frame [of c b]
  by (auto simp: call_step_def simp del: close_call_frame
      split: call_place.splits if_splits list.splits option.splits)

lemma only_marks_step: "adapter_world_step ops w w' \<Longrightarrow> only_marks w \<Longrightarrow> only_marks w'"
proof (induction rule: adapter_world_step.induct)
  case (aw_call i w out c b)
  then show ?case using call_step_marks [OF aw_call(2)] by (simp add: only_marks_def)
next
  case (aw_opens sid w c b)
  from open_call_frame(1) [OF aw_opens(1)] aw_opens(2) show ?case by (simp add: only_marks_def)
next
  case (aw_opens_md subs w c b)
  from open_call_frame(2) [OF aw_opens_md(1)] aw_opens_md(2) show ?case by (simp add: only_marks_def)
next
  case (aw_reconnect backoff w secs backoff' b)
  from reconnect_frame [OF aw_reconnect(1)] aw_reconnect(2) show ?case by (simp add: only_marks_def)
next
  case (aw_stop w)
  then show ?case by (auto simp: only_marks_def py_stop_def)
qed (simp_all add: only_marks_def)

lemma only_marks_reach: "(adapter_world_step ops)\<^sup>*\<^sup>* (new_world v) w \<Longrightarrow> only_marks w"
proof (induction rule: rtranclp_induct)
  case base
  show ?case by (simp add: only_marks_def new_world_def new_base_adapter_def)
qed (rule only_marks_step)

text \<open>
  What the engine's gateway sees of the paper adapter is a stub of \<open>GrpcGateway\<close>: the requests of a
  connection are answered one after the other.
\<close>

datatype gateway_request =
  Submit_request submit_request | Cancel_request cancel_request | Replace_request replace_request

datatype gateway_response =
  Submit_answer "string + submit_response" | Cancel_answer "string + cancel_response"
| Replace_answer "string + replace_response"

fun adapter_answer ::
  "'v venue_ops \<Rightarrow> gateway_request \<Rightarrow> 'v base_adapter \<Rightarrow> gateway_response \<times> 'v base_adapter" where
  "adapter_answer ops (Submit_request r) b = map_prod Submit_answer id (py_submit_order ops r b)"
| "adapter_answer ops (Cancel_request r) b = map_prod Cancel_answer id (py_cancel_order ops r b)"
| "adapter_answer ops (Replace_request r) b = map_prod Replace_answer id (py_replace_order ops r b)"

fun adapter_answers ::
  "'v venue_ops \<Rightarrow> gateway_request list \<Rightarrow> 'v base_adapter \<Rightarrow> gateway_response list \<times> 'v base_adapter" where
  "adapter_answers ops [] b = ([], b)"
| "adapter_answers ops (r # rs) b =
     (let (a, b) = adapter_answer ops r b; (as, b) = adapter_answers ops rs b in (a # as, b))"

fun stub_answer :: "adapter_stub \<Rightarrow> nat \<Rightarrow> gateway_request \<Rightarrow> gateway_response" where
  "stub_answer stub n (Submit_request r) = Submit_answer (rpc_submit stub n r)"
| "stub_answer stub n (Cancel_request r) = Cancel_answer (rpc_cancel stub n r)"
| "stub_answer stub n (Replace_request r) = Replace_answer (rpc_replace stub n r)"

definition paper_stub :: "(nat \<Rightarrow> string) \<Rightarrow> adapter_stub" where
  "paper_stub ids =
     \<lparr>rpc_submit = (\<lambda>n r. Inr \<lparr>srs_accepted = True, srs_broker_order_id = ids n, srs_rejection_reason = ''''\<rparr>),
      rpc_cancel = (\<lambda>n r. Inr \<lparr>crs_accepted = True, crs_rejection_reason = ''''\<rparr>),
      rpc_replace = (\<lambda>n r. Inr \<lparr>rrs_accepted = True, rrs_new_broker_order_id = ids n,
        rrs_rejection_reason = ''''\<rparr>)\<rparr>"

fun makes_id :: "gateway_request \<Rightarrow> bool" where
  "makes_id (Cancel_request r) = False"
| "makes_id _ = True"

text \<open>The ids a list of requests gets, by the number of the request.\<close>

definition ids_for :: "paper_venue \<Rightarrow> gateway_request list \<Rightarrow> nat \<Rightarrow> string" where
  "ids_for v rs n = uuids v (issued v + length (filter makes_id (take n rs)))"

lemma paper_answer:
  "fst (adapter_answer paper_venue_ops r b)
     = stub_answer (paper_stub (\<lambda>_. uuids (ba_venue b) (issued (ba_venue b)))) n r"
  "ba_venue (snd (adapter_answer paper_venue_ops r b))
     = (ba_venue b)\<lparr>issued := issued (ba_venue b) + (if makes_id r then 1 else 0)\<rparr>"
  by (cases r; simp add: paper_venue_ops_def py_submit_order_def py_cancel_order_def py_replace_order_def
      new_uuid_def paper_stub_def Let_def)+

lemma stub_answer_ids:
  "ids n = ids' n' \<Longrightarrow> stub_answer (paper_stub ids) n r = stub_answer (paper_stub ids') n' r"
  by (cases r) (simp_all add: paper_stub_def)

lemma paper_answers:
  "fst (adapter_answers paper_venue_ops rs b)
     = map (\<lambda>n. stub_answer (paper_stub (ids_for (ba_venue b) rs)) n (rs ! n)) [0..<length rs]"
proof (induction rs arbitrary: b)
  case (Cons r rs)
  let ?b = "snd (adapter_answer paper_venue_ops r b)"
  have first: "fst (adapter_answer paper_venue_ops r b)
      = stub_answer (paper_stub (ids_for (ba_venue b) (r # rs))) 0 r"
    unfolding paper_answer(1) [of r b 0] by (rule stub_answer_ids) (simp add: ids_for_def)
  have "ids_for (ba_venue ?b) rs n = ids_for (ba_venue b) (r # rs) (Suc n)" for n
    by (simp add: ids_for_def paper_answer(2))
  then have rest: "stub_answer (paper_stub (ids_for (ba_venue ?b) rs)) n x
      = stub_answer (paper_stub (ids_for (ba_venue b) (r # rs))) (Suc n) x" for n x
    by (rule stub_answer_ids)
  have "[0..<length (r # rs)] = 0 # map Suc [0..<length rs]"
    by (simp add: map_Suc_upt upt_conv_Cons del: upt_Suc)
  then show ?case
    using Cons.IH [of ?b] first rest by (simp add: Let_def split_beta comp_def del: upt_Suc)
qed simp

text \<open>
  An engine whose gateway is the paper adapter gets its orders accepted and cancelled, and never a
  fill. The answers to the requests of a connection are those of an adapter that accepts everything and
  gives new ids, so the gateway is one the kill switch can rely on; and whatever calls, streams, rounds
  of the reconnect loop and stops the adapter process sees, its streams yield no report and no market
  data, so that the handlers of the gateway and of the feed are never called.
\<close>

theorem python_adapter_never_fills:
  "(\<exists>ids. fst (adapter_answers paper_venue_ops rs b)
      = map (\<lambda>n. stub_answer (paper_stub ids) n (rs ! n)) [0..<length rs]
    \<and> obedient (Grpc_gateway (new_grpc_gateway sid (paper_stub ids))))
   \<and> ((adapter_world_step paper_venue_ops)\<^sup>*\<^sup>* (new_world v) w \<longrightarrow>
        aw_yielded w = [] \<and> fst (grpc_reads (reports_of (aw_yielded w)) g) = [])"
  using only_marks_reach [of paper_venue_ops v w] paper_answers [of rs b]
  by (auto simp: only_marks_def reports_of_def paper_stub_def new_grpc_gateway_def)

text \<open>A strategy's gateway opens its fill stream, submits an order and waits.\<close>

definition buy_request :: submit_request where
  "buy_request = \<lparr>srq_strategy_id = ''S1'', srq_order =
     \<lparr>ord_id = ''L1'', ord_symbol = ''AAPL'', ord_side = BUY, ord_quantity = 10, ord_price = 0,
      ord_type = MARKET, ord_status = V1_NEW, ord_time_in_force = DAY, ord_account_id = ''ACC'',
      ord_strategy_id = ''S1'', ord_created_at = ''''\<rparr>\<rparr>"

definition sample_venue :: paper_venue where
  "sample_venue = \<lparr>uuids = (\<lambda>n. ''uuid-'' @ decimal n), issued = 0\<rparr>"

theorem python_adapter_never_fills_witness:
  "\<exists>w. (adapter_world_step paper_venue_ops)\<^sup>*\<^sup>* (new_world sample_venue) w
     \<and> order_routing (aw_adapter w) (''uuid-'' @ decimal 0) = Some ''S1'' \<and> aw_yielded w = []"
proof -
  let ?w = "(new_world sample_venue)\<lparr>aw_adapter :=
    snd (py_submit_order paper_venue_ops buy_request (aw_adapter (new_world sample_venue)))\<rparr>"
  have reach: "(adapter_world_step paper_venue_ops)\<^sup>*\<^sup>* (new_world sample_venue) ?w"
    by (rule r_into_rtranclp) (rule aw_submit)
  moreover have "order_routing (aw_adapter ?w) (''uuid-'' @ decimal 0) = Some ''S1''"
    by (simp add: new_world_def new_base_adapter_def py_submit_order_def paper_venue_ops_def new_uuid_def
        sample_venue_def buy_request_def Let_def)
  ultimately show ?thesis using python_adapter_never_fills [of "[]" _ _ sample_venue ?w] by blast
qed

section \<open>Stopping\<close>

fun place_rank :: "call_place \<Rightarrow> nat" where
  "place_rank In_get = 2"
| "place_rank Loop_head = 1"
| "place_rank Stream_ended = 0"

lemma stopped_call_step:
  assumes "stop_event b" and "qc_place c \<noteq> Stream_ended"
  shows "\<exists>out c' b'. call_step c b = Some (out, c', b') \<and> stop_event b'
       \<and> place_rank (qc_place c') < place_rank (qc_place c)"
proof -
  obtain c1 b1 where closed: "close_call c b = (c1, b1)" "qc_place c1 = Stream_ended" "stop_event b1"
    using close_call_frame(2,3) [of c b] assms(1) by (cases "close_call c b") simp
  show ?thesis
    using assms closed
    by (cases "qc_place c") (auto simp: call_step_def split: list.split option.split)
qed

lemma world_step_calls:
  assumes "adapter_world_step ops w w'" and "i < length (aw_calls w)" and "stop_event (aw_adapter w)"
  shows "i < length (aw_calls w') \<and> stop_event (aw_adapter w')
       \<and> place_rank (qc_place (aw_calls w' ! i)) \<le> place_rank (qc_place (aw_calls w ! i))"
  using assms
proof cases
  case (aw_call j out c b)
  then have "qc_place (aw_calls w ! j) \<noteq> Stream_ended" by (auto simp: call_step_def)
  with stopped_call_step [OF assms(3) this] aw_call(3) have "stop_event b"
    "place_rank (qc_place c) < place_rank (qc_place (aw_calls w ! j))" by auto
  with aw_call assms(2) show ?thesis by (auto simp: nth_list_update)
next
  case (aw_opens sid c b)
  with assms(2,3) open_call_frame(1) [OF aw_opens(2)] show ?thesis by (simp add: nth_append)
next
  case (aw_opens_md subs c b)
  with assms(2,3) open_call_frame(2) [OF aw_opens_md(2)] show ?thesis by (simp add: nth_append)
next
  case (aw_reconnect backoff secs backoff' b)
  with assms(2,3) reconnect_frame [OF aw_reconnect(2)] show ?thesis by simp
next
  case (aw_client_leaves j)
  with assms(2,3) show ?thesis by (simp add: nth_list_update)
next
  case aw_stop
  with assms(2,3) show ?thesis by (simp add: py_stop_def)
qed (use assms(2,3) in simp_all)

lemma world_steps_calls:
  assumes "(adapter_world_step ops)\<^sup>*\<^sup>* w w'" and "i < length (aw_calls w)" and "stop_event (aw_adapter w)"
  shows "i < length (aw_calls w') \<and> stop_event (aw_adapter w')
       \<and> place_rank (qc_place (aw_calls w' ! i)) \<le> place_rank (qc_place (aw_calls w ! i))"
  using assms(1)
proof (induction rule: rtranclp_induct)
  case base
  from assms(2,3) show ?case by simp
next
  case (step y z)
  from step.IH world_step_calls [OF step.hyps(2), of i] show ?case by simp
qed

text \<open>
  \<open>stop\<close> ends the streams of an adapter: from then on no step of the process brings a stream
  back, every stream that is still open can make a step of its own at any time, and with at most two of
  them it has ended, so that the server can be shut down.
\<close>

theorem adapter_streams_end:
  assumes "stop_event (aw_adapter w)" and "i < length (aw_calls w)"
  shows "(qc_place (aw_calls w ! i) \<noteq> Stream_ended \<longrightarrow>
            (\<exists>out c b. call_step (aw_calls w ! i) (aw_adapter w) = Some (out, c, b)
               \<and> place_rank (qc_place c) < place_rank (qc_place (aw_calls w ! i))))
       \<and> place_rank (qc_place (aw_calls w ! i)) \<le> 2
       \<and> ((adapter_world_step ops)\<^sup>*\<^sup>* w w' \<longrightarrow>
            i < length (aw_calls w') \<and> stop_event (aw_adapter w')
          \<and> place_rank (qc_place (aw_calls w' ! i)) \<le> place_rank (qc_place (aw_calls w ! i)))"
proof (intro conjI impI)
  assume "qc_place (aw_calls w ! i) \<noteq> Stream_ended"
  from stopped_call_step [OF assms(1) this]
  show "\<exists>out c b. call_step (aw_calls w ! i) (aw_adapter w) = Some (out, c, b)
      \<and> place_rank (qc_place c) < place_rank (qc_place (aw_calls w ! i))" by blast
next
  show "place_rank (qc_place (aw_calls w ! i)) \<le> 2" by (cases "qc_place (aw_calls w ! i)") simp_all
next
  assume "(adapter_world_step ops)\<^sup>*\<^sup>* w w'"
  from world_steps_calls [OF this assms(2,1)]
  show "i < length (aw_calls w')" "stop_event (aw_adapter w')"
    "place_rank (qc_place (aw_calls w' ! i)) \<le> place_rank (qc_place (aw_calls w ! i))" by simp_all
qed

theorem adapter_streams_end_witness:
  "\<exists>out c b. call_step \<lparr>qc_kind = Fills ''S1'', qc_queue = 0, qc_active = True, qc_place = In_get\<rparr>
       (py_stop paper_venue_ops (snd (open_fill_call ''S1'' (new_base_adapter sample_venue)))) = Some (out, c, b)
     \<and> place_rank (qc_place c) < 2"
  using adapter_streams_end [of "\<lparr>aw_adapter =
        py_stop paper_venue_ops (snd (open_fill_call ''S1'' (new_base_adapter sample_venue))),
      aw_calls = [\<lparr>qc_kind = Fills ''S1'', qc_queue = 0, qc_active = True, qc_place = In_get\<rparr>],
      aw_yielded = []\<rparr>" 0]
  by (simp add: py_stop_def)

text \<open>
  The end of an old stream takes away the queue of a newer stream of the same strategy, so that \<open>stop\<close>
  puts no end mark into it; the newer stream still ends, at its next test.
\<close>

lemma old_stream_takes_queue:
  assumes "open_fill_call sid b0 = (c1, b1)" and "open_fill_call sid b1 = (c2, b2)"
    and "close_call c1 b2 = (c1', b3)"
  shows "fill_queues b2 sid = Some (qc_queue c2) \<and> fill_queues b3 sid = None
       \<and> (qc_queue c2 \<notin> ran (fill_queues b3) \<union> set (md_queues b3) \<longrightarrow>
            queue_items (py_stop ops b3) (qc_queue c2) = queue_items b2 (qc_queue c2))"
  using assms by (auto simp: open_fill_call_def make_call_def close_call_def py_stop_def)

section \<open>The signal that should end an adapter\<close>

text \<open>
  A thread's signal mask is inherited by the threads and processes it creates, and \<open>exec\<close> keeps it. A
  blocked signal stays pending, whether or not it has a handler. \<open>Run\<close> blocks \<open>SIGINT\<close> and \<open>SIGTERM\<close> before
  any other thread exists; the adapter installs handlers for both, which call \<open>stop\<close>, and does not touch
  its mask. A signal that is not blocked stops the process, through the handler or, before there is
  one, by default.
\<close>

datatype stop_signal = Sig_int | Sig_term

record process_signals =
  blocked :: "stop_signal set"
  handled :: "stop_signal set"
  pending :: "stop_signal set"
  told_to_stop :: bool

definition run_mask :: "stop_signal set \<Rightarrow> stop_signal set" where
  "run_mask m = m \<union> {Sig_int, Sig_term}"

definition fork_and_exec :: "stop_signal set \<Rightarrow> process_signals" where
  "fork_and_exec m = \<lparr>blocked = m, handled = {}, pending = {}, told_to_stop = False\<rparr>"

definition adapter_main :: "process_signals \<Rightarrow> process_signals" where
  "adapter_main p = p\<lparr>handled := {Sig_term, Sig_int}\<rparr>"

definition send_signal :: "stop_signal \<Rightarrow> process_signals \<Rightarrow> process_signals" where
  "send_signal s p =
     (if s \<in> blocked p then p\<lparr>pending := insert s (pending p)\<rparr>
      else p\<lparr>told_to_stop := True\<rparr>)"

text \<open>
  An adapter hears a \<open>SIGTERM\<close> when its parent's mask let it through at the \<open>fork\<close>. Every thread of the
  engine has the mask of \<open>Run\<close>, so with the engine as its parent it never does, whatever mask the engine
  itself was started with: the signal of \<open>stop_all\<close> stays pending, the handler that would call \<open>stop\<close>
  does not run, and an adapter that does not end for another reason costs its five seconds and is
  killed (\<open>stop_adapters_reaps_all\<close>).
\<close>

theorem adapter_hears_sigterm:
  "(let p = send_signal Sig_term (adapter_main (fork_and_exec m))
    in (told_to_stop p \<longleftrightarrow> Sig_term \<notin> m) \<and> (Sig_term \<in> pending p \<longleftrightarrow> Sig_term \<in> m))
   \<and> Sig_term \<in> run_mask m'"
  by (simp add: send_signal_def adapter_main_def fork_and_exec_def run_mask_def Let_def)

end
