(* ===== verification/FeedStream.thy ===== *)
theory FeedStream
  imports GrpcFeed "HOL-Library.Sublist"
begin

text \<open>
  The thread of \<open>GrpcMarketDataFeed\<close> with what it reads: \<open>run_stream\<close> copies the buffered subscriptions
  into a request, opens a stream with it, passes every event to the handlers, and opens a new stream
  when one breaks, while subscribers and \<open>stop\<close> run beside it. Its control flow is the one of
  \<open>AdapterStream\<close>. No lock guards the subscriptions: the copy and a \<open>subscribe\<close> take several steps, and
  where they overlap and the call changes something the behaviour of the program is undefined. (The two
  that do not overlap are taken to be ordered, although without a lock the language does not promise it.)
\<close>

section \<open>State and steps\<close>

text \<open>
  Beside the feed there is the request while it is being made, the call of \<open>subscribe\<close> that is running
  (the registry makes them one at a time), and whether the two have overlapped. Of the open stream
  there is what the adapter sent, what of it was not read yet, and whether the adapter has ended it; of
  every stream before it what was sent, and whether it was read to the end. \<open>fs_out\<close> records the calls
  of the handlers and \<open>fs_subscribed\<close> the calls of \<open>subscribe\<close> that returned.
\<close>

record feed_stream =
  fs_feed :: grpc_feed
  fs_copy :: "symbol_subscription list option"
  fs_subscribing :: "(Symbol \<times> BarPeriod option) option"
  fs_race :: bool
  fs_sent :: "market_data_event list"
  fs_wire :: "market_data_event list"
  fs_wire_ended :: bool
  fs_past :: "(market_data_event list \<times> bool) list"
  fs_out :: "(tick + bar) list"
  fs_subscribed :: "(Symbol \<times> BarPeriod option) list"

definition started_feed_stream :: "grpc_feed \<Rightarrow> feed_stream" where
  "started_feed_stream f =
     \<lparr>fs_feed = gf_start f, fs_copy = None, fs_subscribing = None, fs_race = False, fs_sent = [],
      fs_wire = [], fs_wire_ended = False, fs_past = [], fs_out = [], fs_subscribed = []\<rparr>"

text \<open>Whether a call of \<open>subscribe\<close> writes to the vector or to one of its elements.\<close>

definition changes_subscriptions :: "grpc_feed \<Rightarrow> (Symbol \<times> BarPeriod option) option \<Rightarrow> bool" where
  "changes_subscriptions f call =
     (case call of
        None \<Rightarrow> False
      | Some (symbol, period) \<Rightarrow> add_period symbol period (gf_subscriptions f) \<noteq> gf_subscriptions f)"

definition set_place :: "stream_thread \<Rightarrow> stream_place \<Rightarrow> feed_stream \<Rightarrow> feed_stream" where
  "set_place t x w = w\<lparr>fs_feed := (fs_feed w)\<lparr>gf_stream := Some (t\<lparr>place := x\<rparr>)\<rparr>\<rparr>"

text \<open>The thread opens the stream with the request it has made.\<close>

definition open_with :: "stream_thread \<Rightarrow> symbol_subscription list \<Rightarrow> feed_stream \<Rightarrow> feed_stream" where
  "open_with t req w =
     (set_place t In_read w)\<lparr>fs_copy := None,
        fs_feed := (fs_feed (set_place t In_read w))\<lparr>sent_requests := sent_requests (fs_feed w) @ [req]\<rparr>\<rparr>"

text \<open>The stream is over: \<open>whole\<close> when everything sent was read.\<close>

definition end_stream :: "stream_thread \<Rightarrow> bool \<Rightarrow> feed_stream \<Rightarrow> feed_stream" where
  "end_stream t whole w =
     (set_place t After_stream w)\<lparr>fs_past := fs_past w @ [(fs_sent w, whole)],
        fs_sent := [], fs_wire := [], fs_wire_ended := False\<rparr>"

text \<open>
  The steps of the thread: the loop over the subscriptions one by one, the call, and \<open>Read\<close>, which takes
  the next event and returns false when the adapter has ended the stream and nothing is left. The rest
  is as in \<open>AdapterStream\<close>.
\<close>

inductive feed_thread_step :: "feed_stream \<Rightarrow> feed_stream \<Rightarrow> bool" where
  fs_copy_begin: "gf_stream (fs_feed w) = Some t \<Longrightarrow> place t = Has_context \<Longrightarrow> fs_copy w = None \<Longrightarrow>
    feed_thread_step w (w\<lparr>fs_copy := Some [],
      fs_race := changes_subscriptions (fs_feed w) (fs_subscribing w)\<rparr>)"
| fs_copy_next: "fs_copy w = Some req \<Longrightarrow> length req < length (gf_subscriptions (fs_feed w)) \<Longrightarrow>
    feed_thread_step w (w\<lparr>fs_copy := Some (req @ [gf_subscriptions (fs_feed w) ! length req])\<rparr>)"
| fs_open: "gf_stream (fs_feed w) = Some t \<Longrightarrow> place t = Has_context \<Longrightarrow> fs_copy w = Some req \<Longrightarrow>
    length req = length (gf_subscriptions (fs_feed w)) \<Longrightarrow> feed_thread_step w (open_with t req w)"
| fs_take: "gf_stream (fs_feed w) = Some t \<Longrightarrow> place t = In_read \<Longrightarrow> fs_wire w = event # events \<Longrightarrow>
    feed_thread_step w (w\<lparr>fs_wire := events,
      fs_out := fs_out w @ (case gf_read now event of None \<Rightarrow> [] | Some out \<Rightarrow> [out])\<rparr>)"
| fs_over: "gf_stream (fs_feed w) = Some t \<Longrightarrow> place t = In_read \<Longrightarrow> fs_wire w = [] \<Longrightarrow> fs_wire_ended w \<Longrightarrow>
    feed_thread_step w (end_stream t True w)"
| fs_thread: "gf_stream (fs_feed w) = Some t \<Longrightarrow> place t \<notin> {Has_context, In_read} \<Longrightarrow> thread_step t t' \<Longrightarrow>
    feed_thread_step w (w\<lparr>fs_feed := (fs_feed w)\<lparr>gf_stream := Some t'\<rparr>\<rparr>)"

text \<open>
  What the others do: the connection breaks or the context is cancelled while the thread is in \<open>Read\<close>,
  \<open>stop\<close>, a call of \<open>subscribe\<close> that begins and returns, and the adapter.
\<close>

inductive feed_other_step :: "feed_stream \<Rightarrow> feed_stream \<Rightarrow> bool" where
  fs_breaks: "gf_stream (fs_feed w) = Some t \<Longrightarrow> place t = In_read \<Longrightarrow>
    feed_other_step w (end_stream t False w)"
| fs_stop: "gf_stream (fs_feed w) = Some t \<Longrightarrow> stopper_step t t' \<Longrightarrow>
    feed_other_step w (w\<lparr>fs_feed := (fs_feed w)\<lparr>gf_stream := Some t'\<rparr>\<rparr>)"
| fs_subscribe: "fs_subscribing w = None \<Longrightarrow>
    feed_other_step w (w\<lparr>fs_subscribing := Some (symbol, period),
      fs_race := (fs_copy w \<noteq> None \<and> changes_subscriptions (fs_feed w) (Some (symbol, period)))\<rparr>)"
| fs_subscribe_returns: "fs_subscribing w = Some (symbol, period) \<Longrightarrow>
    feed_other_step w (w\<lparr>fs_feed := gf_subscribe symbol period (fs_feed w), fs_subscribing := None,
      fs_subscribed := fs_subscribed w @ [(symbol, period)]\<rparr>)"
| fs_unsubscribe: "feed_other_step w (w\<lparr>fs_feed := gf_unsubscribe symbol period (fs_feed w)\<rparr>)"
| fs_sends: "gf_stream (fs_feed w) = Some t \<Longrightarrow> place t = In_read \<Longrightarrow> \<not> fs_wire_ended w \<Longrightarrow>
    feed_other_step w (w\<lparr>fs_sent := fs_sent w @ [event], fs_wire := fs_wire w @ [event]\<rparr>)"
| fs_ends: "gf_stream (fs_feed w) = Some t \<Longrightarrow> place t = In_read \<Longrightarrow>
    feed_other_step w (w\<lparr>fs_wire_ended := True\<rparr>)"

text \<open>Nothing is said of the program from the moment at which its behaviour is undefined.\<close>

definition feed_stream_step :: "feed_stream \<Rightarrow> feed_stream \<Rightarrow> bool" where
  "feed_stream_step w w' \<longleftrightarrow> \<not> fs_race w \<and> (feed_thread_step w w' \<or> feed_other_step w w')"

lemma changes_subscriptions_simps [simp]:
  "\<not> changes_subscriptions f None"
  "changes_subscriptions (f\<lparr>gf_stream := x\<rparr>) = changes_subscriptions f"
  by (simp_all add: changes_subscriptions_def fun_eq_iff split: option.split)

lemmas fs_defs = set_place_def open_with_def end_stream_def gf_subscribe_def gf_unsubscribe_def

inductive_cases feed_thread_stepE: "feed_thread_step w w'"
inductive_cases feed_other_stepE: "feed_other_step w w'"

lemmas feed_step_cases = feed_thread_stepE feed_other_stepE

lemma started_feed_stream_simps [simp]:
  "fs_feed (started_feed_stream f) = gf_start f" "fs_copy (started_feed_stream f) = None"
  "fs_subscribing (started_feed_stream f) = None" "\<not> fs_race (started_feed_stream f)"
  "fs_sent (started_feed_stream f) = []" "fs_wire (started_feed_stream f) = []"
  "fs_past (started_feed_stream f) = []" "fs_out (started_feed_stream f) = []"
  "fs_subscribed (started_feed_stream f) = []"
  by (simp_all add: started_feed_stream_def)

section \<open>The control flow\<close>

text \<open>Every step is, for the thread and its context, a step of \<open>AdapterStream\<close> or none at all.\<close>

lemma feed_stream_refines:
  assumes "feed_stream_step w w'" and "gf_stream (fs_feed w) = Some t"
  shows "\<exists>t'. gf_stream (fs_feed w') = Some t' \<and> (t' = t \<or> stream_step t t')"
  using assms unfolding feed_stream_step_def stream_step_def
  by (auto elim!: feed_step_cases simp: fs_defs intro: ts_open as_end)

lemma feed_stream_reach:
  assumes "feed_stream_step\<^sup>*\<^sup>* (started_feed_stream f) w"
  shows "\<exists>t. gf_stream (fs_feed w) = Some t \<and> stream_reach started_stream t"
  using assms
proof (induction rule: rtranclp_induct)
  case base
  show ?case by (simp add: gf_start_def sr_refl)
next
  case (step w w')
  then obtain t where t: "gf_stream (fs_feed w) = Some t" "stream_reach started_stream t" by blast
  from feed_stream_refines [OF step.hyps(2) t(1)] t(2) show ?case by (blast intro: sr_step)
qed

section \<open>The request\<close>

text \<open>
  Unless there was a race the request is a copy of the first subscriptions, made where the stream has
  its context and is not open; and a race is an overlap with a call that changes something.
\<close>

definition copy_ok :: "feed_stream \<Rightarrow> bool" where
  "copy_ok w \<longleftrightarrow>
     (\<forall>req. fs_copy w = Some req \<longrightarrow> req = take (length req) (gf_subscriptions (fs_feed w))
        \<and> (\<exists>t. gf_stream (fs_feed w) = Some t \<and> place t = Has_context))
   \<and> (fs_race w \<longleftrightarrow> fs_copy w \<noteq> None \<and> changes_subscriptions (fs_feed w) (fs_subscribing w))"

lemma take_next: "req = take (length req) xs \<Longrightarrow> length req < length xs \<Longrightarrow>
  req @ [xs ! length req] = take (Suc (length req)) xs"
  by (simp add: take_Suc_conv_app_nth)

lemma copy_ok_step:
  assumes "feed_stream_step w w'" and "copy_ok w"
  shows "copy_ok w'"
proof -
  have race: "\<not> fs_race w" using assms(1) by (simp add: feed_stream_step_def)
  have same: "stopper_step t t' \<Longrightarrow> place t' = place t" for t t' by (auto elim!: step_cases)
  from assms(1) show ?thesis unfolding feed_stream_step_def
  proof (elim conjE disjE)
    assume "feed_thread_step w w'"
    then show ?thesis
    proof cases
      case (fs_copy_next req)
      then show ?thesis
        using assms(2) race take_next [of req "gf_subscriptions (fs_feed w)"] by (auto simp: copy_ok_def)
    qed (use assms(2) race in \<open>auto simp: copy_ok_def fs_defs\<close>)
  next
    assume "feed_other_step w w'"
    then show ?thesis
    proof cases
      case (fs_stop t t')
      then show ?thesis using assms(2) race same [OF fs_stop(3)] by (auto simp: copy_ok_def)
    next
      case (fs_subscribe_returns symbol period)
      then show ?thesis using assms(2) race by (auto simp: copy_ok_def fs_defs changes_subscriptions_def)
    qed (use assms(2) race in \<open>auto simp: copy_ok_def fs_defs\<close>)
  qed
qed

lemma copy_ok_reach: "feed_stream_step\<^sup>*\<^sup>* (started_feed_stream f) w \<Longrightarrow> copy_ok w"
proof (induction rule: rtranclp_induct)
  case base
  show ?case by (simp add: copy_ok_def)
qed (rule copy_ok_step)

lemma opened_with:
  "copy_ok w \<Longrightarrow> fs_copy w = Some req \<Longrightarrow> length req = length (gf_subscriptions (fs_feed w)) \<Longrightarrow>
   req = gf_subscriptions (fs_feed w)"
  by (simp add: copy_ok_def)

section \<open>What is asked for\<close>

definition asked :: "feed_stream \<Rightarrow> (Symbol \<times> BarPeriod option) set" where
  "asked w = asks_for (gf_subscriptions (fs_feed w))"

definition subscribed_ok :: "feed_stream \<Rightarrow> bool" where
  "subscribed_ok w \<longleftrightarrow> set (fs_subscribed w) \<subseteq> asked w"

lemma subscribed_step: "feed_stream_step w w' \<Longrightarrow> subscribed_ok w \<Longrightarrow> subscribed_ok w'"
  unfolding feed_stream_step_def
  by (auto elim!: feed_step_cases simp: subscribed_ok_def asked_def fs_defs asks_for_add)

lemma subscribed_reach: "feed_stream_step\<^sup>*\<^sup>* (started_feed_stream f) w \<Longrightarrow> subscribed_ok w"
proof (induction rule: rtranclp_induct)
  case base
  show ?case by (simp add: subscribed_ok_def)
qed (rule subscribed_step)

text \<open>The requests only grow, and the next one will hold everything subscribed by now.\<close>

definition requests_later :: "feed_stream \<Rightarrow> feed_stream \<Rightarrow> bool" where
  "requests_later w w' \<longleftrightarrow>
     asked w \<subseteq> asked w'
   \<and> (\<exists>rs. sent_requests (fs_feed w') = sent_requests (fs_feed w) @ rs
        \<and> (\<forall>r \<in> set rs. asked w \<subseteq> asks_for r \<and> asks_for r \<subseteq> asked w'))"

lemma requests_laterI:
  "asked w \<subseteq> asked w' \<Longrightarrow> sent_requests (fs_feed w') = sent_requests (fs_feed w) \<Longrightarrow> requests_later w w'"
  by (simp add: requests_later_def)

lemma requests_later_step:
  assumes "feed_stream_step w w'" and "copy_ok w"
  shows "requests_later w w'"
proof -
  have "\<exists>rs. sent_requests (fs_feed w') = sent_requests (fs_feed w) @ rs
      \<and> set rs \<subseteq> {gf_subscriptions (fs_feed w)} \<and> asked w \<subseteq> asked w'"
    using assms unfolding feed_stream_step_def
    by (auto elim!: feed_step_cases simp: asked_def fs_defs asks_for_add dest: opened_with)
  then show ?thesis by (auto simp: requests_later_def asked_def)
qed

lemma requests_later_trans:
  assumes "requests_later w1 w2" and "requests_later w2 w3"
  shows "requests_later w1 w3"
proof -
  from assms obtain rs rs' where
    "sent_requests (fs_feed w3) = sent_requests (fs_feed w1) @ rs @ rs'"
    "\<forall>r \<in> set rs. asked w1 \<subseteq> asks_for r \<and> asks_for r \<subseteq> asked w2"
    "\<forall>r \<in> set rs'. asked w2 \<subseteq> asks_for r \<and> asks_for r \<subseteq> asked w3"
    "asked w1 \<subseteq> asked w2" "asked w2 \<subseteq> asked w3"
    by (auto simp: requests_later_def)
  then show ?thesis by (force simp: requests_later_def)
qed

lemma requests_later_steps: "feed_stream_step\<^sup>*\<^sup>* w w' \<Longrightarrow> copy_ok w \<Longrightarrow> requests_later w w' \<and> copy_ok w'"
proof (induction rule: rtranclp_induct)
  case base
  then show ?case by (simp add: requests_laterI)
next
  case (step w1 w2)
  then show ?case using requests_later_step [of w1 w2] copy_ok_step [of w1 w2] requests_later_trans by blast
qed

section \<open>What is handed over\<close>

text \<open>The handlers' calls but for the time of reading, and those a sequence of events leads to.\<close>

fun untimed :: "tick + bar \<Rightarrow> tick + bar" where
  "untimed (Inl t) = Inl (t\<lparr>tick_ts_recv_ns := 0\<rparr>)"
| "untimed (Inr b) = Inr (b\<lparr>bar_ts_recv_ns := 0\<rparr>)"

definition calls_for :: "market_data_event list \<Rightarrow> (tick + bar) list" where
  "calls_for = List.map_filter (gf_read 0)"

lemma untimed_read: "map_option untimed (gf_read now event) = gf_read 0 event"
  by (cases event) (simp_all add: gf_read_def tick_from_proto_def bar_from_proto_def)

lemma calls_for_simps [simp]:
  "calls_for [] = []" "calls_for (xs @ ys) = calls_for xs @ calls_for ys"
  by (simp_all add: calls_for_def List.map_filter_def)

lemma calls_for_one:
  "calls_for [event] = map untimed (case gf_read now event of None \<Rightarrow> [] | Some out \<Rightarrow> [out])"
  using untimed_read [of now event]
  by (cases "gf_read now event"; cases "gf_read 0 event") (auto simp: calls_for_def List.map_filter_def)

definition stream_read :: "market_data_event list \<times> bool \<Rightarrow> market_data_event list \<Rightarrow> bool" where
  "stream_read s got \<longleftrightarrow> prefix got (fst s) \<and> (snd s \<longrightarrow> got = fst s)"

definition handed_over :: "feed_stream \<Rightarrow> bool" where
  "handed_over w \<longleftrightarrow>
     (\<exists>got now_got. list_all2 stream_read (fs_past w) got \<and> fs_sent w = now_got @ fs_wire w
        \<and> map untimed (fs_out w) = calls_for (concat got @ now_got))"

lemma handed_over_end:
  assumes "handed_over w" and "whole \<Longrightarrow> fs_wire w = []"
  shows "handed_over (end_stream t whole w)"
proof -
  from assms(1) obtain got now_got where w: "list_all2 stream_read (fs_past w) got"
    "fs_sent w = now_got @ fs_wire w" "map untimed (fs_out w) = calls_for (concat got @ now_got)"
    by (auto simp: handed_over_def)
  then have "list_all2 stream_read (fs_past w @ [(fs_sent w, whole)]) (got @ [now_got])"
    using assms(2) by (auto simp: stream_read_def intro: list_all2_appendI)
  then show ?thesis
    using w(3) unfolding handed_over_def
    by (intro exI [of _ "got @ [now_got]"] exI [of _ "[]"]) (simp add: end_stream_def set_place_def)
qed

lemma handed_over_take:
  assumes "handed_over w" and "fs_wire w = event # events"
  shows "handed_over (w\<lparr>fs_wire := events,
      fs_out := fs_out w @ (case gf_read now event of None \<Rightarrow> [] | Some out \<Rightarrow> [out])\<rparr>)"
proof -
  from assms obtain got now_got where "list_all2 stream_read (fs_past w) got"
    "fs_sent w = now_got @ event # events" "map untimed (fs_out w) = calls_for (concat got @ now_got)"
    by (auto simp: handed_over_def)
  then show ?thesis
    unfolding handed_over_def
    by (intro exI [of _ got] exI [of _ "now_got @ [event]"]) (simp add: calls_for_one [of event now])
qed

lemma handed_over_cong:
  "handed_over w \<Longrightarrow> fs_past w' = fs_past w \<Longrightarrow> fs_sent w' = fs_sent w \<Longrightarrow> fs_wire w' = fs_wire w \<Longrightarrow>
   fs_out w' = fs_out w \<Longrightarrow> handed_over w'"
  by (simp add: handed_over_def)

lemma handed_over_step:
  assumes "feed_stream_step w w'" and "handed_over w"
  shows "handed_over w'"
  using assms(1) unfolding feed_stream_step_def
proof (elim conjE disjE)
  assume "feed_thread_step w w'"
  then show ?thesis
  proof cases
    case (fs_take t event events now)
    then show ?thesis using handed_over_take [OF assms(2)] by simp
  next
    case (fs_over t)
    then show ?thesis using handed_over_end [OF assms(2)] by simp
  qed (use handed_over_cong [OF assms(2)] in \<open>simp_all add: fs_defs\<close>)
next
  assume "feed_other_step w w'"
  then show ?thesis
  proof cases
    case (fs_breaks t)
    then show ?thesis using handed_over_end [OF assms(2)] by simp
  next
    case (fs_sends t event)
    then show ?thesis using assms(2) by (auto simp: handed_over_def)
  qed (use handed_over_cong [OF assms(2)] in \<open>simp_all add: fs_defs\<close>)
qed

lemma handed_over_reach: "feed_stream_step\<^sup>*\<^sup>* (started_feed_stream f) w \<Longrightarrow> handed_over w"
proof (induction rule: rtranclp_induct)
  case base
  show ?case by (simp add: handed_over_def)
qed (rule handed_over_step)

section \<open>Reconnecting\<close>

fun to_context :: "stream_place \<Rightarrow> nat" where
  "to_context After_stream = 4"
| "to_context In_sleep = 3"
| "to_context At_check = 2"
| "to_context Past_check = 1"
| "to_context _ = 0"

text \<open>The steps a thread still has to make to open its next stream.\<close>

definition to_stream :: "feed_stream \<Rightarrow> stream_thread \<Rightarrow> nat" where
  "to_stream w t =
     to_context (place t)
     + (case fs_copy w of
          None \<Rightarrow> length (gf_subscriptions (fs_feed w)) + 2
        | Some req \<Rightarrow> Suc (length (gf_subscriptions (fs_feed w)) - length req))"

definition own_step :: "feed_stream \<Rightarrow> feed_stream \<Rightarrow> bool" where
  "own_step w w' \<longleftrightarrow> \<not> fs_race w \<and> feed_thread_step w w'"

lemma own_step_step: "own_step w w' \<Longrightarrow> feed_stream_step w w'"
  by (simp add: own_step_def feed_stream_step_def)

text \<open>A thread that nobody stopped, that does not read and that no subscriber is at.\<close>

definition reconnecting :: "feed_stream \<Rightarrow> stream_thread \<Rightarrow> bool" where
  "reconnecting w t \<longleftrightarrow>
     copy_ok w \<and> fs_subscribing w = None \<and> gf_stream (fs_feed w) = Some t
   \<and> stopper t = Not_stopping \<and> place t \<notin> {In_read, Left_loop, Thread_ended}"

text \<open>The stream is opened with everything subscribed at that moment.\<close>

definition opens :: "feed_stream \<Rightarrow> feed_stream \<Rightarrow> bool" where
  "opens w v \<longleftrightarrow>
     (\<exists>t'. gf_stream (fs_feed v) = Some t' \<and> place t' = In_read)
   \<and> gf_subscriptions (fs_feed v) = gf_subscriptions (fs_feed w)
   \<and> sent_requests (fs_feed v) = sent_requests (fs_feed w) @ [gf_subscriptions (fs_feed w)]"

definition nearer :: "feed_stream \<Rightarrow> stream_thread \<Rightarrow> feed_stream \<Rightarrow> stream_thread \<Rightarrow> bool" where
  "nearer w t w' t' \<longleftrightarrow>
     reconnecting w' t' \<and> to_stream w' t' < to_stream w t
   \<and> gf_subscriptions (fs_feed w') = gf_subscriptions (fs_feed w)
   \<and> sent_requests (fs_feed w') = sent_requests (fs_feed w)"

lemma nearer_context:
  assumes "reconnecting w t" and "place t = Has_context"
  shows "\<exists>w'. own_step w w' \<and> (opens w w' \<or> nearer w t w' t)"
proof -
  from assms have w: "copy_ok w" "fs_subscribing w = None" "gf_stream (fs_feed w) = Some t" "\<not> fs_race w"
    by (auto simp: reconnecting_def copy_ok_def)
  show ?thesis
  proof (cases "fs_copy w")
    case None
    let ?w = "w\<lparr>fs_copy := Some [], fs_race := changes_subscriptions (fs_feed w) (fs_subscribing w)\<rparr>"
    have own: "own_step w ?w" using fs_copy_begin [OF w(3) assms(2) None] w(4) by (simp add: own_step_def)
    have "nearer w t ?w t"
      using assms None copy_ok_step [OF own_step_step [OF own] w(1)]
      by (simp add: nearer_def reconnecting_def to_stream_def)
    with own show ?thesis by blast
  next
    case (Some req)
    show ?thesis
    proof (cases "length req < length (gf_subscriptions (fs_feed w))")
      case True
      let ?w = "w\<lparr>fs_copy := Some (req @ [gf_subscriptions (fs_feed w) ! length req])\<rparr>"
      have own: "own_step w ?w" using fs_copy_next [OF Some True] w(4) by (simp add: own_step_def)
      have "nearer w t ?w t"
        using assms Some True copy_ok_step [OF own_step_step [OF own] w(1)]
        by (simp add: nearer_def reconnecting_def to_stream_def)
      with own show ?thesis by blast
    next
      case False
      have req: "req = take (length req) (gf_subscriptions (fs_feed w))" using w(1) Some by (simp add: copy_ok_def)
      with False have len: "length req = length (gf_subscriptions (fs_feed w))"
        by (metis length_take min_def not_less)
      have "own_step w (open_with t req w)"
        using fs_open [OF w(3) assms(2) Some len] w(4) by (simp add: own_step_def)
      moreover have "opens w (open_with t req w)"
        using opened_with [OF w(1) Some len] by (simp add: opens_def fs_defs)
      ultimately show ?thesis by blast
    qed
  qed
qed

lemma nearer_thread:
  assumes "reconnecting w t" and "place t \<noteq> Has_context"
  shows "\<exists>w' t'. own_step w w' \<and> nearer w t w' t'"
proof -
  from assms have w: "copy_ok w" "gf_stream (fs_feed w) = Some t" "\<not> fs_race w" "fs_copy w = None"
    by (auto simp: reconnecting_def copy_ok_def)
  have "\<exists>t'. thread_step t t' \<and> to_context (place t') < to_context (place t) \<and> stopper t' = Not_stopping
      \<and> place t' \<notin> {In_read, Left_loop, Thread_ended}"
    using assms ts_check [of t] ts_context [of t] ts_finish [of t] ts_wake [of t]
    by (cases "place t") (fastforce simp: stop_requested_def reconnecting_def)+
  then obtain t' where t': "thread_step t t'" "to_context (place t') < to_context (place t)"
    "stopper t' = Not_stopping" "place t' \<notin> {In_read, Left_loop, Thread_ended}" by blast
  let ?w = "w\<lparr>fs_feed := (fs_feed w)\<lparr>gf_stream := Some t'\<rparr>\<rparr>"
  have "place t \<notin> {Has_context, In_read}" using assms by (simp add: reconnecting_def)
  from fs_thread [OF w(2) this t'(1)] w(3) have own: "own_step w ?w" by (simp add: own_step_def)
  have "nearer w t ?w t'"
    using assms w(4) t' copy_ok_step [OF own_step_step [OF own] w(1)]
    by (simp add: nearer_def reconnecting_def to_stream_def)
  with own show ?thesis by blast
qed

lemma reconnects:
  "reconnecting w t \<Longrightarrow> \<exists>n \<le> to_stream w t. \<exists>v. (own_step ^^ n) w v \<and> opens w v"
proof (induction "to_stream w t" arbitrary: w t rule: less_induct)
  case less
  have "0 < to_stream w t" by (simp add: to_stream_def split: option.split)
  from less.prems obtain w' where w': "own_step w w'" "opens w w' \<or> (\<exists>t'. nearer w t w' t')"
    using nearer_context nearer_thread by metis
  show ?case
  proof (cases "opens w w'")
    case True
    with w'(1) \<open>0 < to_stream w t\<close> show ?thesis by (intro exI [of _ "Suc 0"]) auto
  next
    case False
    with w'(2) obtain t' where t': "reconnecting w' t'" "to_stream w' t' < to_stream w t"
      "gf_subscriptions (fs_feed w') = gf_subscriptions (fs_feed w)"
      "sent_requests (fs_feed w') = sent_requests (fs_feed w)" by (auto simp: nearer_def)
    from less.hyps [OF t'(2,1)] obtain n v where n: "n \<le> to_stream w' t'" "(own_step ^^ n) w' v" "opens w' v"
      by blast
    have "(own_step ^^ Suc n) w v" using w'(1) n(2) by (rule relpowp_Suc_I2)
    moreover have "opens w v" using n(3) t'(3,4) by (simp add: opens_def)
    ultimately show ?thesis using n(1) t'(2) by (intro exI [of _ "Suc n"]) auto
  qed
qed

lemma unstopped_in_loop:
  "stream_reach started_stream t \<Longrightarrow> stopper t = Not_stopping \<Longrightarrow> place t \<notin> {Left_loop, Thread_ended}"
  by (induction rule: stream_reach.induct)
    (auto simp: started_stream_def stream_step_def stop_requested_def elim!: step_cases split: if_splits)

text \<open>
  C32. The thread of an adapter feed keeps what it was told across broken streams. Let breaks,
  subscriptions and a stop interleave with it in any way. The handlers are called for the ticks and bars
  of a prefix of what the adapter sent on each stream, in order, and for all of it when the stream was
  read to its end. The behaviour stays defined as long as no call of \<open>subscribe\<close> that changes something
  overlaps the making of a request. What was subscribed is asked for by every later request, none of
  which asks for more than was buffered by then. And a thread that nobody stopped and that is not
  reading comes, in six steps of its own and one for each buffered symbol at the most, to open a stream
  with everything subscribed at that moment, unless a subscriber gets in between.
\<close>

theorem feed_stream_reconnects:
  assumes "feed_stream_step\<^sup>*\<^sup>* (started_feed_stream f) w" and "feed_stream_step\<^sup>*\<^sup>* w w'"
  shows "(\<exists>got now_got. list_all2 stream_read (fs_past w) got \<and> fs_sent w = now_got @ fs_wire w
            \<and> map untimed (fs_out w) = calls_for (concat got @ now_got))
       \<and> (fs_race w \<longleftrightarrow> fs_copy w \<noteq> None \<and> changes_subscriptions (fs_feed w) (fs_subscribing w))
       \<and> set (fs_subscribed w) \<subseteq> asked w
       \<and> (\<exists>rs. sent_requests (fs_feed w') = sent_requests (fs_feed w) @ rs
            \<and> (\<forall>r \<in> set rs. asked w \<subseteq> asks_for r \<and> asks_for r \<subseteq> asked w'))
       \<and> (\<exists>t. gf_stream (fs_feed w) = Some t \<and> stream_reach started_stream t
            \<and> (stopper t = Not_stopping \<and> place t \<noteq> In_read \<and> fs_subscribing w = None \<longrightarrow>
                 (\<exists>n \<le> length (gf_subscriptions (fs_feed w)) + 6. \<exists>v. (own_step ^^ n) w v \<and> opens w v)))"
proof -
  have copy: "copy_ok w" by (rule copy_ok_reach [OF assms(1)])
  obtain t where t: "gf_stream (fs_feed w) = Some t" "stream_reach started_stream t"
    using feed_stream_reach [OF assms(1)] by blast
  have "to_context (place t) \<le> 4" by (cases "place t") simp_all
  then have "to_stream w t \<le> length (gf_subscriptions (fs_feed w)) + 6"
    by (auto simp: to_stream_def split: option.split)
  moreover have "reconnecting w t"
    if "stopper t = Not_stopping \<and> place t \<noteq> In_read \<and> fs_subscribing w = None"
    using that copy t(1) unstopped_in_loop [OF t(2)] by (simp add: reconnecting_def)
  ultimately have "\<exists>n \<le> length (gf_subscriptions (fs_feed w)) + 6. \<exists>v. (own_step ^^ n) w v \<and> opens w v"
    if "stopper t = Not_stopping \<and> place t \<noteq> In_read \<and> fs_subscribing w = None"
    using reconnects [of w t] that by (meson order_trans)
  with t handed_over_reach [OF assms(1)] copy subscribed_reach [OF assms(1)] requests_later_steps [OF assms(2) copy]
  show ?thesis by (auto simp: handed_over_def copy_ok_def subscribed_ok_def requests_later_def)
qed

text \<open>A feed with a symbol subscribed after its start, whose thread has not opened a stream yet.\<close>

theorem feed_stream_reconnects_witness:
  "\<exists>w t. feed_stream_step\<^sup>*\<^sup>* (started_feed_stream (gf_subscribe ''AAPL'' None new_grpc_feed)) w
     \<and> gf_stream (fs_feed w) = Some t \<and> place t = At_check \<and> length (gf_subscriptions (fs_feed w)) = 2
     \<and> (\<exists>n \<le> 8. \<exists>v. (own_step ^^ n) w v \<and> opens w v)"
proof -
  let ?w = "started_feed_stream (gf_subscribe ''AAPL'' None new_grpc_feed)"
  let ?u = "?w\<lparr>fs_subscribing := Some (''C'', None)\<rparr>"
  let ?v = "?w\<lparr>fs_feed := gf_subscribe ''C'' None (fs_feed ?w), fs_subscribed := [(''C'', None)]\<rparr>"
  have "feed_stream_step ?w ?u"
    using fs_subscribe [of ?w "''C''" None] by (simp add: feed_stream_step_def started_feed_stream_def)
  moreover have "feed_stream_step ?u ?v"
    using fs_subscribe_returns [of ?u "''C''" None] by (simp add: feed_stream_step_def started_feed_stream_def)
  ultimately have reach: "feed_stream_step\<^sup>*\<^sup>* ?w ?v" by (meson r_into_rtranclp rtranclp_trans)
  have len: "length (gf_subscriptions (fs_feed ?v)) = 2"
    by (simp add: gf_subscribe_def gf_start_def new_grpc_feed_def)
  show ?thesis
    using feed_stream_reconnects [OF reach rtranclp.rtrancl_refl] reach len
    by (intro exI [of _ ?v] exI [of _ started_stream])
      (simp add: gf_start_def gf_subscribe_def started_stream_def)
qed

text \<open>
  The race is there: a registration that subscribes a running feed to a new symbol while the thread
  makes its request.
\<close>

theorem feed_subscription_race:
  "\<exists>w. feed_stream_step\<^sup>*\<^sup>* (started_feed_stream (gf_subscribe ''AAPL'' None new_grpc_feed)) w \<and> fs_race w"
proof -
  let ?w = "started_feed_stream (gf_subscribe ''AAPL'' None new_grpc_feed)"
  let ?at = "\<lambda>t. ?w\<lparr>fs_feed := (fs_feed ?w)\<lparr>gf_stream := Some t\<rparr>\<rparr>"
  let ?t1 = "started_stream\<lparr>place := Past_check\<rparr>"
  let ?t2 = "?t1\<lparr>place := Has_context, ctx := Some False\<rparr>"
  let ?w3 = "(?at ?t2)\<lparr>fs_copy := Some [], fs_race := False\<rparr>"
  let ?w4 = "?w3\<lparr>fs_subscribing := Some (''C'', None), fs_race := True\<rparr>"
  have start: "gf_stream (fs_feed ?w) = Some started_stream" by (simp add: gf_start_def)
  have "feed_stream_step ?w (?at ?t1)"
    using fs_thread [OF start _ ts_check] by (simp add: feed_stream_step_def started_stream_def stop_requested_def)
  moreover have "feed_stream_step (?at ?t1) (?at ?t2)"
    using fs_thread [of "?at ?t1" ?t1, OF _ _ ts_context] by (simp add: feed_stream_step_def)
  moreover have "feed_stream_step (?at ?t2) ?w3"
    using fs_copy_begin [of "?at ?t2" ?t2] by (simp add: feed_stream_step_def)
  moreover have "feed_stream_step ?w3 ?w4"
    using fs_subscribe [of ?w3 "''C''" None]
    by (simp add: feed_stream_step_def changes_subscriptions_def gf_subscribe_def gf_start_def new_grpc_feed_def)
  ultimately have "feed_stream_step\<^sup>*\<^sup>* ?w ?w4" by (meson r_into_rtranclp rtranclp_trans)
  then show ?thesis by (intro exI [of _ ?w4]) simp
qed

end
