(* ===== verification/Spec2Isabelle.thy ===== *)
theory Spec2Isabelle
  imports
    Prelude Protos OrderIds Clock EventQueue RiskManager PositionKeeper OrderStore SqliteOrderStore
    Journal SqliteJournal Gateway OrderManager OrderManagerFacts OrderManagerProps OrderManagerLife
    PaperGateway SimulatedFeed AdapterStream GrpcGateway GrpcFeed FeedRegistry AdapterManager
    TradingEngine TradingEngineFacts TradingEngineProps EnginePositions GrpcServer AlpacaGateway
    Calendar JournalHistory ProgramLife OrderLifecycle PaperBooks Databases RunWait
    PaperThreads FeedThread StreamShutdown LockOrder EngineLocks HashTables StrategyLimits StrategyClient
    StrategyRun PythonAdapter FeedStream
begin

text \<open>
  A model of the trading engine of this repository: the C++ code under \<open>src/engine-cpp\<close>, with the
  messages of \<open>src/contracts\<close>, and of the strategies and adapters of \<open>src/python_client\<close>, the processes
  the engine talks to.

  The program. \<open>main\<close> runs a \<^emph>\<open>trading engine\<close>, which serves strategies over gRPC. A strategy registers,
  naming a gateway (the broker), risk limits and the market data it wants; the engine creates an
  \<^emph>\<open>order manager\<close> for it and subscribes the manager to feeds. The strategy then sends signals and reads
  fills and market data from streams. An order manager owns an event queue and one dispatch thread,
  which handles commands (submit, cancel, replace, cancel all), execution reports and market data one
  at a time. Its handlers call the gateway, an order store (SQLite), a journal (SQLite, written behind
  by its own thread), a position keeper and a risk manager. Feeds push bars and ticks into the queues,
  gateways push execution reports. Gateways and feeds are simulated inside the process, or are adapter
  processes that the engine starts and reaches over gRPC.

  The theories, and the files they model (under \<open>src/engine-cpp\<close>):
  \<^item> \<open>Prelude\<close>: names, results, decimal text (\<open>utils/result.h\<close>, \<open>utils/helpers.h\<close>), and the lemmas
    shared by the components; \<open>Protos\<close>: the messages of \<open>contracts/\<close> and the market data structs.
  \<^item> \<open>OrderIds\<close>: \<open>utils/order_id_types.h\<close> and \<open>utils/order_id_generator.h\<close>; \<open>EventQueue\<close>:
    \<open>utils/event_queue.h\<close>, with the interleaving of its producers and its consumer.
  \<^item> \<open>Clock\<close> and \<open>Calendar\<close>: the timestamps of \<open>interfaces/i_journal.h\<close>, written and read back, and the
    calendar behind them: day numbers and dates are inverse and in the same order.
  \<^item> \<open>RiskManager\<close> and \<open>PositionKeeper\<close>: \<open>core/risk_manager.h\<close> and \<open>core/position_keeper.cpp\<close>.
  \<^item> \<open>OrderStore\<close>: the interface \<open>i_order_store.h\<close> as the locales \<open>order_store\<close> and \<open>reliable_store\<close>;
    \<open>SqliteOrderStore\<close>: \<open>persistence/sqlite_order_store.cpp\<close>, which interprets them.
  \<^item> \<open>Journal\<close>, \<open>SqliteJournal\<close> and \<open>JournalHistory\<close>: \<open>i_journal.h\<close> and \<open>persistence/sqlite_journal.cpp\<close>,
    with the interleaving of \<open>log\<close> and the writer thread, the queries, and the end of the writer.
  \<^item> \<open>Gateway\<close>: \<open>i_execution_gateway.h\<close>; \<open>PaperGateway\<close>: \<open>gateways/paper_trading_gateway.cpp\<close>;
    \<open>GrpcGateway\<close>: \<open>gateways/grpc_gateway.cpp\<close>; \<open>AlpacaGateway\<close>: \<open>gateways/alpaca_fix_gateway.cpp\<close>,
    with the Alpaca SDK as a parameter.
  \<^item> \<open>OrderManager\<close>: \<open>core/order_manager.cpp\<close>; \<open>OrderManagerFacts\<close>: the invariant and the outcome of
    every handler, proved in the store's locale; \<open>OrderManagerProps\<close> and \<open>OrderManagerLife\<close>: the
    properties, on the SQLite store, and what callers and the destructor see; \<open>OrderLifecycle\<close>: the
    life of one stored order as an abstract machine (\<open>order_step\<close>) that every event refines.
  \<^item> \<open>PaperBooks\<close>: an order manager and its paper gateway as one system of four threads, with what the
    broker filled, what is on its way and what the store has booked of every order. A round of the
    simulation and the queueing of each of its reports are steps of their own.
  \<^item> \<open>SimulatedFeed\<close>: \<open>gateways/simulated_feed.cpp\<close>; \<open>GrpcFeed\<close>: \<open>gateways/grpc_market_data_feed.cpp\<close>;
    \<open>AdapterStream\<close>: the thread that reads an adapter's stream, interleaved with \<open>stop\<close>, which the gRPC
    gateway and the gRPC feed share; \<open>FeedStream\<close>: that thread of the gRPC feed with what it asks for,
    reads and hands over, among its subscribers, over broken streams, and the race between a subscriber
    and the copy of the subscriptions, which no lock guards.
  \<^item> \<open>FeedRegistry\<close>: \<open>core/feed_registry.cpp\<close>, over the feed interface as a locale that both kinds of
    feed interpret; \<open>AdapterManager\<close>: \<open>core/adapter_manager.cpp\<close>.
  \<^item> \<open>TradingEngine\<close>: \<open>core/trading_engine.cpp\<close>; \<open>TradingEngineFacts\<close>: its invariant and the relation
    \<open>engine_step\<close> of everything that can happen to it; \<open>TradingEngineProps\<close> and \<open>EnginePositions\<close>: its
    properties. \<open>Databases\<close>: the constructors and destructors of both SQLite classes over a disk on
    which several names may lead to one file, and an order manager that is created again over the files
    of an earlier one.
  \<^item> \<open>GrpcServer\<close>: \<open>grpc/grpc_server.cpp\<close>, over the handler interface as the locale \<open>service_contract\<close>
    that the engine interprets; \<open>ProgramLife\<close>: \<open>main.cpp\<close>, the server's start and stop, and the end of
    the process; \<open>RunWait\<close>: the condition variable on which \<open>Run\<close> waits for a signal or a stop;
    \<open>StreamShutdown\<close>: the fill streams clients hold open, and the server's shutdown with its deadline.
  \<^item> \<open>PaperThreads\<close>: the simulation thread, the dispatcher and \<open>stop\<close> of the paper gateway, with the
    condition variable of \<open>i_execution_gateway.h\<close>; \<open>FeedThread\<close>: \<open>emit_loop\<close> of the simulated feed among
    its subscribers and \<open>stop\<close>.
  \<^item> \<open>LockOrder\<close>: threads that lock, wait for each other and may hang outside the locks, as a locale;
    \<open>EngineLocks\<close>: the locks that the requests and threads of the engine take, and the order that keeps
    them out of deadlock.
  \<^item> \<open>HashTables\<close>: the hash functions of \<open>core/feed_registry.h\<close> and \<open>core/adapter_manager.h\<close>. The other
    theories model an unordered map by a map, or by an association list where its order shows.
  \<^item> \<open>StrategyLimits\<close>: what a registration fixes for the life of a strategy, its risk limits and its
    account, over \<open>engine_step\<close>.
  \<^item> \<open>StrategyClient\<close>: \<open>python_client/strategy/config.py\<close>, \<open>grpc_interface.py\<close>,
    \<open>strategy/base_strategy.py\<close> and the configuration of \<open>momentum.py\<close>: the calls of a strategy, from the
    client over the server to the engine, with calls and replies that get lost. \<open>StrategyRun\<close>: \<open>run\<close> with
    the threads that pass the streams to the callbacks, and the ways in which it ends.
  \<^item> \<open>PythonAdapter\<close>: \<open>python_client/adapters\<close>: the adapter process behind the gRPC gateway with its
    streams, its reconnect loop and its stop, the paper venue, and the signal mask an adapter inherits
    from the engine.

  State. A class is a record, a method a function that returns its result and the new state, a thread's
  loop a function for one round. A method that runs under a mutex is one step; where threads really
  interleave (the queue, the journal, an adapter's stream, the engine) there is an inductive relation
  of their steps and the properties hold in every reachable state. Order managers live in a heap, a map
  from addresses to objects: the feed registry and callers keep addresses, as the code keeps raw
  pointers, so a use after free is visible as a lookup that fails. A destroyed manager leaves its final
  state, that is its databases, in \<open>retired\<close>. Errors are \<open>Inl\<close>; undefined behaviour, a dying process and
  a call that never returns are \<open>None\<close>. What the program cannot decide (clocks, random draws, failing
  SQL statements, answers of brokers, adapters and the operating system) is a sequence the state
  carries, and the properties hold for all of them. \<open>double\<close> is modelled by the reals, so every
  arithmetic statement is about exact arithmetic.

  What is shown. Per component: the invariants of the id maps, the order table, the subscriptions and
  the journal rows, kept by every operation; the outcome of every command and of every report on every
  branch, failing statements included; the exact accounting of fills in positions, store and increments;
  the order and completeness of queues, journal and streams, less what a failing statement loses; that
  the store refines a map of orders and every event is a step of each stored order's life. Across
  components: every reachable state of the engine keeps its managers, heap and feed registry consistent,
  every call returns into one, and a bar or tick goes to the managers registered for it; an accepted
  signal is a live order; what the paper broker filled of an order is what the store has booked plus
  what is on its way, when no statement fails, quantities are positive and the id counter does not wrap;
  databases that are closed and opened again, under any id that leads to the same files, have the same
  rows; the kill switch, the stop of a strategy and the end of the process cancel at the broker exactly
  the orders stored as open with a broker id, when the broker accepts cancels and no statement fails (an
  order whose broker id was never stored escapes them); locks and joins alone never stop the threads,
  and when some hang for another reason the rest waits for these; the server's shutdown ends however
  clients behave; the limits a strategy registered with hold for its whole life; an order id that a
  strategy's client gets back is a live order of it, and a callback that raises closes the strategy's
  orders once the call reaches the engine; an adapter feed asks again for everything subscribed whenever
  its stream broke, unless a subscription races with the request.
  Some properties state what the code does where that is not what it means to do, such as a fill lost
  behind a cancel, the open orders of a restarted process, which nothing can reach, the stop of a
  dispatcher that is lost between its test and its wait, adapters that never deliver a fill and do not
  hear the signal that should end them, ids that share one database, average prices that depend on the
  query, an example strategy whose own limits refuse every order, and a strategy that leaves its orders
  behind when its streams end or its \<open>on_start\<close> raises.

  Threads. A theory with threads has a step relation of its own that is as fine as its property needs:
  \<open>PaperThreads\<close> and \<open>RunWait\<close> split a region under a lock where a notification can fall between a test
  and a wait, \<open>AdapterStream\<close> and \<open>FeedThread\<close> are split at every lock, \<open>FeedStream\<close> at every element the
  thread copies. \<open>EngineLocks\<close> keeps nothing but the lock actions and the waiting for jobs, and takes as
  a parameter which jobs hang at work outside the locks: a peer that does not answer, a lost wake-up of
  \<open>PaperThreads\<close>, a stop of \<open>AdapterStream\<close> that came between a test and a context.

  Bounds. The loops that run until a queue is empty (\<open>run_dispatch_loop\<close>, \<open>drain_reports\<close>) take the
  length of the queue as their number of rounds, the writer's loop at shutdown three steps per entry
  and three more, and the properties show that this is enough. The polling loops of the adapter manager
  are partial functions, shown to return whenever the clock advances. The 64-bit counters of the queue,
  the journal and the id generator are words and wrap around. The open order count, a 32-bit \<open>int\<close>, is
  an integer, shown to fit as long as fewer than \<open>2 ^ 31\<close> events have been handled.

  Not modelled. The insides of SQLite, gRPC, protobuf, spdlog and the Alpaca SDK, none of which is in
  the repository: statements, calls and answers are parameters. The \<open>PRAGMA\<close>s of a connection, and a
  \<open>COMMIT\<close> that fails. \<open>std::hash\<close>, which is a parameter. How long threads sleep and when they run. The
  structs of \<open>utils/config.h\<close>, which no code reads. Of the Python code: logging, and the command
  line of the adapter. The tests and the scripts.
\<close>

end
